(* ===== verification/Prelude.thy ===== *)
theory Prelude
  imports Main "HOL-Library.Word" "HOL-Library.Char_ord" "HOL-Library.List_Lexorder"
begin

text \<open>
  What every component shares: the lemma collections, the shape of calls that may throw and of
  calls that change state, and the conversions of the C++ standard library between numbers and
  text.
\<close>

named_theorems store_simps \<open>lookup laws of the ordered maps\<close>
named_theorems inv_intros \<open>preservation of the component invariants\<close>
named_theorems result_simps \<open>evaluation of results and their sequencing\<close>

section \<open>Results and stateful calls\<close>

text \<open>
  A call that returns a value is \<open>Inr v\<close>, a call that throws is \<open>Inl e\<close>. A stateful call takes the
  state and returns the result together with the state it leaves: what was changed before a throw
  stays changed, as in the C++.
\<close>

fun res_bind :: "'e + 'a \<Rightarrow> ('a \<Rightarrow> 'e + 'b) \<Rightarrow> 'e + 'b" where
  "res_bind (Inl e) f = Inl e"
| "res_bind (Inr a) f = f a"

type_synonym ('s, 'e, 'a) action = "'s \<Rightarrow> ('e + 'a) \<times> 's"

definition act_bind :: "('s, 'e, 'a) action \<Rightarrow> ('a \<Rightarrow> ('s, 'e, 'b) action) \<Rightarrow> ('s, 'e, 'b) action" where
  "act_bind m f s = (case m s of (Inl e, s') \<Rightarrow> (Inl e, s') | (Inr a, s') \<Rightarrow> f a s')"

definition act_return :: "'a \<Rightarrow> ('s, 'e, 'a) action" where
  "act_return a s = (Inr a, s)"

definition act_throw :: "'e \<Rightarrow> ('s, 'e, 'a) action" where
  "act_throw e s = (Inl e, s)"

text \<open>A call that reads the state, and may throw, but never changes it.\<close>

definition act_read :: "('s \<Rightarrow> 'e + 'a) \<Rightarrow> ('s, 'e, 'a) action" where
  "act_read f s = (f s, s)"

text \<open>A call that always succeeds and changes the state.\<close>

definition act_modify :: "('s \<Rightarrow> 's) \<Rightarrow> ('s, 'e, unit) action" where
  "act_modify f s = (Inr (), f s)"

lemma act_bind_simps [simp, result_simps]:
  "act_bind (act_return a) f = f a"
  "act_bind (act_throw e) f = act_throw e"
  "act_bind m act_return = m"
  by (auto simp: act_bind_def act_return_def act_throw_def fun_eq_iff split: prod.split sum.split)

lemma act_bind_assoc: "act_bind (act_bind m f) g = act_bind m (\<lambda>a. act_bind (f a) g)"
  by (auto simp: act_bind_def fun_eq_iff split: prod.split sum.split)

text \<open>What every piece of a call keeps, the whole call keeps.\<close>

definition keeps :: "('s \<Rightarrow> bool) \<Rightarrow> ('s, 'e, 'a) action \<Rightarrow> bool" where
  "keeps P m \<longleftrightarrow> (\<forall>s. P s \<longrightarrow> P (snd (m s)))"

lemma keeps_return [inv_intros]: "keeps P (act_return a)"
  by (simp add: keeps_def act_return_def)

lemma keeps_throw [inv_intros]: "keeps P (act_throw e)"
  by (simp add: keeps_def act_throw_def)

lemma keeps_read [inv_intros]: "keeps P (act_read f)"
  by (simp add: keeps_def act_read_def)

lemma keeps_bind [inv_intros]: "keeps P m \<Longrightarrow> (\<And>a. keeps P (f a)) \<Longrightarrow> keeps P (act_bind m f)"
  by (fastforce simp: keeps_def act_bind_def split: prod.split sum.split)

lemma res_bind_Inr_iff [result_simps]:
  "res_bind r f = Inr b \<longleftrightarrow> (\<exists>a. r = Inr a \<and> f a = Inr b)"
  by (cases r) auto

lemma res_bind_Inl_iff [result_simps]:
  "res_bind r f = Inl e \<longleftrightarrow> r = Inl e \<or> (\<exists>a. r = Inr a \<and> f a = Inl e)"
  by (cases r) auto

lemma res_bind_Inr [simp]: "res_bind r Inr = r"
  by (cases r) auto

lemma res_bind_assoc: "res_bind (res_bind r f) g = res_bind r (\<lambda>a. res_bind (f a) g)"
  by (cases r) auto

section \<open>Numbers and text\<close>

text \<open>\<^verbatim>\<open>c_str\<close>: what a C function sees of a string.\<close>

definition c_str :: "string \<Rightarrow> string" where
  "c_str s = takeWhile (\<lambda>c. c \<noteq> CHR 0x00) s"

text \<open>A text of a message, in single quotes.\<close>

definition quoted :: "string \<Rightarrow> string" where
  "quoted s = CHR 0x27 # s @ [CHR 0x27]"

definition digit_char :: "nat \<Rightarrow> char" where
  "digit_char d = char_of (48 + d)"

definition is_digit :: "char \<Rightarrow> bool" where
  "is_digit c \<longleftrightarrow> 48 \<le> (of_char c :: nat) \<and> (of_char c :: nat) \<le> 57"

text \<open>\<^verbatim>\<open>isspace\<close>\<close>

definition is_blank :: "char \<Rightarrow> bool" where
  "is_blank c \<longleftrightarrow> (of_char c :: nat) = 32 \<or> 9 \<le> (of_char c :: nat) \<and> (of_char c :: nat) \<le> 13"

definition digit_val :: "char \<Rightarrow> nat" where
  "digit_val c = of_char c - 48"

text \<open>\<^verbatim>\<open>std::to_string\<close> on an unsigned integer.\<close>

fun dec_of_nat :: "nat \<Rightarrow> string" where
  "dec_of_nat n = (if n < 10 then [digit_char n]
                   else dec_of_nat (n div 10) @ [digit_char (n mod 10)])"

declare dec_of_nat.simps [simp del]

definition nat_of_dec :: "string \<Rightarrow> nat" where
  "nat_of_dec s = foldl (\<lambda>acc c. 10 * acc + digit_val c) 0 s"

lemma of_char_digit_char [simp]: "d < 10 \<Longrightarrow> (of_char (digit_char d) :: nat) = 48 + d"
  by (simp add: digit_char_def)

lemma digit_val_digit_char [simp]: "d < 10 \<Longrightarrow> digit_val (digit_char d) = d"
  by (simp add: digit_val_def)

lemma is_digit_digit_char [simp]: "d < 10 \<Longrightarrow> is_digit (digit_char d)"
  by (simp add: is_digit_def)

lemma takeWhile_digits: "\<forall>c \<in> set ds. is_digit c \<Longrightarrow> takeWhile is_digit ds = ds"
  by (simp add: takeWhile_eq_all_conv)

lemma digit_not_blank: "is_digit c \<Longrightarrow> \<not> is_blank c \<and> c \<noteq> CHR ''-'' \<and> c \<noteq> CHR ''+''"
  by (auto simp: is_digit_def is_blank_def)

lemma digit_val_less: "is_digit c \<Longrightarrow> digit_val c < 10"
  unfolding is_digit_def digit_val_def by linarith

lemma digit_char_digit_val: "is_digit c \<Longrightarrow> digit_char (digit_val c) = c"
  by (simp add: is_digit_def digit_val_def digit_char_def)

lemma nat_of_dec_Nil [simp]: "nat_of_dec [] = 0"
  by (simp add: nat_of_dec_def)

lemma nat_of_dec_snoc [simp]: "nat_of_dec (s @ [c]) = 10 * nat_of_dec s + digit_val c"
  by (simp add: nat_of_dec_def)

lemma dec_of_nat_neq_Nil [simp]: "dec_of_nat n \<noteq> []"
  by (subst dec_of_nat.simps) simp

lemma dec_of_nat_digits: "\<forall>c \<in> set (dec_of_nat n). is_digit c"
proof (induction n rule: dec_of_nat.induct)
  case (1 n)
  then show ?case by (subst dec_of_nat.simps) auto
qed

lemma nat_of_dec_of_nat [simp]: "nat_of_dec (dec_of_nat n) = n"
proof (induction n rule: dec_of_nat.induct)
  case (1 n)
  show ?case
  proof (cases "n < 10")
    case True
    then show ?thesis
      using nat_of_dec_snoc [of "[]"] by (subst dec_of_nat.simps) simp
  next
    case False
    with 1 show ?thesis by (subst dec_of_nat.simps) simp
  qed
qed

lemma dec_of_nat_inj: "dec_of_nat m = dec_of_nat n \<longleftrightarrow> m = n"
  by (metis nat_of_dec_of_nat)

lemma hd_dec_of_nat_digit: "is_digit (hd (dec_of_nat n))"
  using dec_of_nat_digits [of n] by (cases "dec_of_nat n") auto

text \<open>\<^verbatim>\<open>std::stoul\<close>: what it throws is \<open>None\<close>; a minus sign negates modulo \<open>2 ^ 64\<close>.\<close>

definition stoul :: "string \<Rightarrow> 64 word option" where
  "stoul s =
     (let t = dropWhile is_blank s;
          neg = (t \<noteq> [] \<and> hd t = CHR ''-'');
          u = (if t \<noteq> [] \<and> (hd t = CHR ''-'' \<or> hd t = CHR ''+'') then tl t else t);
          ds = takeWhile is_digit u
      in if ds = [] \<or> 2 ^ 64 \<le> nat_of_dec ds then None
         else Some (if neg then - of_nat (nat_of_dec ds) else of_nat (nat_of_dec ds)))"

lemma stoul_dec_of_nat: "stoul (dec_of_nat (unat i)) = Some i"
proof -
  have hd: "dec_of_nat (unat i) \<noteq> []" "is_digit (hd (dec_of_nat (unat i)))" "\<forall>c \<in> set (dec_of_nat (unat i)). is_digit c"
    by (simp_all add: hd_dec_of_nat_digit dec_of_nat_digits)
  moreover from this have "dropWhile is_blank (dec_of_nat (unat i)) = dec_of_nat (unat i)"
    by (cases "dec_of_nat (unat i)") (auto dest: digit_not_blank)
  moreover have "unat i < 2 ^ 64" using unsigned_less [of i] by simp
  ultimately show ?thesis
    using digit_not_blank [OF hd(2)] by (simp add: stoul_def Let_def takeWhile_digits)
qed

text \<open>Ports are printed and read back as numbers of 16 bits.\<close>

lemma unat_port: "unat (p :: 16 word) < 65536"
  using unsigned_less [of p] by simp

lemma stoul_port:
  fixes p :: "16 word"
  shows "stoul (dec_of_nat (unat p)) = Some (ucast p)"
    and "p \<noteq> 0 \<Longrightarrow> (0 :: 64 word) < ucast p" and "(ucast p :: 64 word) < 65536"
    and "ucast (ucast p :: 64 word) = p"
proof -
  have "unat (ucast p :: 64 word) = unat p" using unat_port [of p] unfolding unsigned_ucast_eq by (simp add: take_bit_nat_eq_self)
  then show "stoul (dec_of_nat (unat p)) = Some (ucast p)"
    using stoul_dec_of_nat [of "ucast p"] by simp
  show "p \<noteq> 0 \<Longrightarrow> (0 :: 64 word) < ucast p"
    using \<open>unat (ucast p :: 64 word) = unat p\<close> by (simp add: word_less_nat_alt unat_gt_0)
  show "(ucast p :: 64 word) < 65536"
    using unat_port [of p] \<open>unat (ucast p :: 64 word) = unat p\<close> by (simp add: word_less_nat_alt)
  show "ucast (ucast p :: 64 word) = p" by (rule bit_word_eqI) (auto simp: bit_simps)
qed

text \<open>\<^verbatim>\<open>::tolower\<close> in the C locale.\<close>

definition to_lower :: "char \<Rightarrow> char" where
  "to_lower c = (if 65 \<le> (of_char c :: nat) \<and> (of_char c :: nat) \<le> 90
                 then char_of (of_char c + 32 :: nat) else c)"

lemma to_lower_idem [simp]: "to_lower (to_lower c) = to_lower c"
  by (auto simp: to_lower_def)

section \<open>Lists\<close>

text \<open>\<^verbatim>\<open>std::find_if\<close>: the first element that satisfies the predicate.\<close>

lemma find_Some_first:
  assumes "List.find P xs = Some x"
  shows "P x \<and> (\<exists>ys zs. xs = ys @ x # zs \<and> (\<forall>y \<in> set ys. \<not> P y))"
  using assms
proof (induction xs)
  case Nil
  then show ?case by simp
next
  case (Cons a xs)
  show ?case
  proof (cases "P a")
    case True
    with Cons.prems have "x = a" by simp
    with True show ?thesis by (metis append_Nil empty_iff list.set(1))
  next
    case False
    with Cons obtain ys zs where "P x" "xs = ys @ x # zs" "\<forall>y \<in> set ys. \<not> P y"
      by auto
    with False show ?thesis by (metis append_Cons set_ConsD)
  qed
qed

lemma find_cong_append:
  "(\<forall>y \<in> set ys. \<not> P y) \<Longrightarrow> List.find P (ys @ zs) = List.find P zs"
  by (induction ys) auto

text \<open>A list of \<open>n\<close> distinct-or-not numbers misses one of \<open>1, \<dots>, Suc n\<close>.\<close>

lemma pigeonhole_free: "\<exists>i. 1 \<le> i \<and> i \<le> Suc (length xs) \<and> i \<notin> set (xs :: nat list)"
proof (rule ccontr)
  assume "\<not> ?thesis"
  then have "{1..Suc (length xs)} \<subseteq> set xs" by auto
  then have "card {1..Suc (length xs)} \<le> card (set xs)" by (rule card_mono [rotated]) simp
  also have "\<dots> \<le> length xs" by (rule card_length)
  finally show False by simp
qed

end
