(* ===== verification/Std_Map.thy ===== *)
theory Std_Map
  imports Prelude
begin

text \<open>
  \<^verbatim>\<open>std::map\<close> as the code uses it: entries in key order, iteration in that order, at most one entry
  per key. It is an association list kept strictly sorted; the lookup is \<open>map_of\<close>. The locale
  \<open>keyed_store\<close> is the interface the managers rely on, and \<open>named_registry\<close> the shape three of
  them share: values filed under their own name and also addressed by a numeric id.
\<close>

section \<open>The ordered map\<close>

type_synonym ('k, 'v) smap = "('k \<times> 'v) list"

fun smap_put :: "'k::linorder \<Rightarrow> 'v \<Rightarrow> ('k, 'v) smap \<Rightarrow> ('k, 'v) smap" where
  "smap_put k v [] = [(k, v)]"
| "smap_put k v ((k', v') # m) =
     (if k < k' then (k, v) # (k', v') # m
      else if k = k' then (k, v) # m
      else (k', v') # smap_put k v m)"

definition smap_erase :: "'k \<Rightarrow> ('k, 'v) smap \<Rightarrow> ('k, 'v) smap" where
  "smap_erase k m = filter (\<lambda>e. fst e \<noteq> k) m"

text \<open>\<^verbatim>\<open>emplace\<close> keeps an existing entry.\<close>

definition smap_emplace :: "'k::linorder \<Rightarrow> 'v \<Rightarrow> ('k, 'v) smap \<Rightarrow> ('k, 'v) smap" where
  "smap_emplace k v m = (if map_of m k = None then smap_put k v m else m)"

definition smap_ok :: "('k::linorder, 'v) smap \<Rightarrow> bool" where
  "smap_ok m \<longleftrightarrow> sorted_wrt (<) (map fst m)"

lemma map_of_smap_put [simp, store_simps]: "map_of (smap_put k v m) = (map_of m)(k \<mapsto> v)"
  by (induction k v m rule: smap_put.induct) (auto simp: fun_eq_iff)

lemma map_of_smap_erase [simp, store_simps]: "map_of (smap_erase k m) = (map_of m)(k := None)"
  by (induction m) (auto simp: smap_erase_def fun_eq_iff)

lemma map_of_smap_emplace [store_simps]:
  "map_of (smap_emplace k v m) = (if map_of m k = None then (map_of m)(k \<mapsto> v) else map_of m)"
  by (simp add: smap_emplace_def)

lemma fst_set_smap_put [simp]: "fst ` set (smap_put k v m) = insert k (fst ` set m)"
  by (induction k v m rule: smap_put.induct) auto

lemma smap_ok_Nil [simp, inv_intros]: "smap_ok []"
  by (simp add: smap_ok_def)

lemma smap_ok_Cons: "smap_ok ((k, v) # m) \<longleftrightarrow> (\<forall>k' \<in> fst ` set m. k < k') \<and> smap_ok m"
  by (auto simp: smap_ok_def)

lemma smap_ok_put [inv_intros]: "smap_ok m \<Longrightarrow> smap_ok (smap_put k v m)"
proof (induction k v m rule: smap_put.induct)
  case (1 k v)
  then show ?case by (simp add: smap_ok_def)
next
  case (2 k v k' v' m)
  then show ?case
    by (cases "k < k'"; cases "k = k'") (fastforce simp: smap_ok_Cons)+
qed

lemma smap_ok_filter [inv_intros]: "smap_ok m \<Longrightarrow> smap_ok (filter P m)"
  by (induction m) (auto simp: smap_ok_Cons)

lemma smap_ok_erase [inv_intros]: "smap_ok m \<Longrightarrow> smap_ok (smap_erase k m)"
  by (simp add: smap_erase_def smap_ok_filter)

lemma smap_ok_emplace [inv_intros]: "smap_ok m \<Longrightarrow> smap_ok (smap_emplace k v m)"
  by (simp add: smap_emplace_def smap_ok_put)

lemma smap_ok_distinct: "smap_ok m \<Longrightarrow> distinct (map fst m)"
  by (simp add: smap_ok_def strict_sorted_iff)

lemma smap_ok_in_set: "smap_ok m \<Longrightarrow> (k, v) \<in> set m \<longleftrightarrow> map_of m k = Some v"
  by (simp add: smap_ok_distinct)

lemma length_smap_put:
  "smap_ok m \<Longrightarrow> length (smap_put k v m) = (if map_of m k = None then Suc (length m) else length m)"
proof (induction k v m rule: smap_put.induct)
  case (2 k v k' v' m)
  then show ?case
  proof (cases "k < k'")
    case True
    with 2 have "k \<notin> fst ` set m" by (auto simp: smap_ok_Cons)
    with True show ?thesis by (auto simp: map_of_eq_None_iff)
  next
    case False
    with 2 show ?thesis by (auto simp: smap_ok_Cons)
  qed
qed simp

lemma length_smap_erase:
  "smap_ok m \<Longrightarrow> length (smap_erase k m) = (if map_of m k = None then length m else length m - 1)"
proof (induction m)
  case (Cons e m)
  obtain k' v' where e: "e = (k', v')" by force
  show ?case
  proof (cases "k' = k")
    case True
    with Cons.prems e have "k \<notin> fst ` set m" by (auto simp: smap_ok_Cons)
    then have "filter (\<lambda>e. fst e \<noteq> k) m = m" by (auto simp: filter_id_conv)
    with True e show ?thesis by (simp add: smap_erase_def)
  next
    case False
    have "map_of m k \<noteq> None \<Longrightarrow> m \<noteq> []" by auto
    with False Cons e show ?thesis
      by (cases m) (auto simp: smap_erase_def smap_ok_Cons)
  qed
qed (simp add: smap_erase_def)

lemma smap_put_erase: "smap_ok m \<Longrightarrow> map_of m k = Some v \<Longrightarrow> smap_put k v (smap_erase k m) = m"
proof (induction m)
  case (Cons e m)
  obtain k' v' where e: "e = (k', v')" by force
  show ?case
  proof (cases "k' = k")
    case True
    with Cons.prems e have k: "\<forall>x \<in> fst ` set m. k < x" and v: "v' = v"
      by (auto simp: smap_ok_Cons)
    from k have "filter (\<lambda>e. fst e \<noteq> k) m = m" by (auto simp: filter_id_conv)
    moreover from k have "smap_put k v m = (k, v) # m"
      by (cases m) auto
    ultimately show ?thesis using True e v by (simp add: smap_erase_def)
  next
    case False
    with Cons.prems e have "k \<in> fst ` set m" by (auto dest: map_of_SomeD simp: rev_image_eqI)
    with Cons.prems e have "k' < k" by (auto simp: smap_ok_Cons)
    with False Cons e show ?thesis by (auto simp: smap_erase_def smap_ok_Cons)
  qed
qed simp

text \<open>Replacing the first entry a search finds by another that it accepts: the search finds that.\<close>

lemma find_smap_put:
  "smap_ok m \<Longrightarrow> List.find P m = Some (k, v0) \<Longrightarrow> P (k, v) \<Longrightarrow> List.find P (smap_put k v m) = Some (k, v)"
proof (induction m)
  case (Cons e m)
  obtain k' v' where e: "e = (k', v')" by force
  show ?case
  proof (cases "P e")
    case True
    with Cons.prems e show ?thesis by simp
  next
    case False
    with Cons.prems have f: "List.find P m = Some (k, v0)" by simp
    then have "(k, v0) \<in> set m" by (auto simp: find_Some_iff)
    then have "k' < k" using Cons.prems(1) e by (force simp: smap_ok_Cons)
    with False f Cons e show ?thesis by (auto simp: smap_ok_Cons)
  qed
qed simp

text \<open>Two ordered maps with the same lookups are the same list.\<close>

lemma alist_of_keys: "distinct (map fst m) \<Longrightarrow> m = map (\<lambda>k. (k, the (map_of m k))) (map fst m)"
proof -
  assume d: "distinct (map fst m)"
  have "\<And>e. e \<in> set m \<Longrightarrow> (fst e, the (map_of m (fst e))) = e"
    using d by (metis map_of_is_SomeI option.sel prod.collapse)
  then show ?thesis by (simp add: map_idI)
qed

lemma smap_ext:
  assumes ok: "smap_ok m" "smap_ok n" and eq: "map_of m = map_of n"
  shows "m = n"
proof -
  have "fst ` set m = fst ` set n"
    using eq by (metis dom_map_of_conv_image_fst)
  then have "map fst m = map fst n"
    using ok by (intro sorted_distinct_set_unique) (auto simp: smap_ok_def strict_sorted_iff)
  then show ?thesis
    using ok eq by (metis alist_of_keys smap_ok_distinct)
qed

section \<open>The interface the managers use\<close>

text \<open>
  What a client of the map may rely on. It is discharged once, on the sorted list.
\<close>

locale keyed_store =
  fixes lookup :: "'m \<Rightarrow> 'k \<Rightarrow> 'v option"
    and put :: "'k \<Rightarrow> 'v \<Rightarrow> 'm \<Rightarrow> 'm"
    and erase :: "'k \<Rightarrow> 'm \<Rightarrow> 'm"
    and entries :: "'m \<Rightarrow> ('k \<times> 'v) list"
    and invar :: "'m \<Rightarrow> bool"
  assumes lookup_put: "lookup (put k v m) = (lookup m)(k \<mapsto> v)"
    and lookup_erase: "lookup (erase k m) = (lookup m)(k := None)"
    and invar_put: "invar m \<Longrightarrow> invar (put k v m)"
    and invar_erase: "invar m \<Longrightarrow> invar (erase k m)"
    and entries_lookup: "invar m \<Longrightarrow> (k, v) \<in> set (entries m) \<longleftrightarrow> lookup m k = Some v"
begin

text \<open>A search over the entries that only one entry can satisfy finds that entry.\<close>

lemma find_entry:
  assumes "invar m" and "lookup m k = Some v" and "P (k, v)"
    and "\<And>k' v'. lookup m k' = Some v' \<Longrightarrow> P (k', v') \<Longrightarrow> k' = k"
  shows "List.find P (entries m) = Some (k, v)"
proof -
  have mem: "(k, v) \<in> set (entries m)" using assms(1,2) by (simp add: entries_lookup)
  with assms(3) have "List.find P (entries m) \<noteq> None" by (auto simp: find_None_iff)
  then obtain e where e: "List.find P (entries m) = Some e" by auto
  then have "P e" "e \<in> set (entries m)" by (auto simp: find_Some_iff)
  with assms have "e = (k, v)" by (metis entries_lookup option.sel surj_pair)
  with e show ?thesis by simp
qed

lemma find_entryD:
  assumes "invar m" and "List.find P (entries m) = Some (k, v)"
  shows "lookup m k = Some v \<and> P (k, v)"
  using assms by (metis entries_lookup find_Some_iff nth_mem)

lemma find_entry_None:
  assumes "invar m"
  shows "List.find P (entries m) = None \<longleftrightarrow> (\<forall>k v. lookup m k = Some v \<longrightarrow> \<not> P (k, v))"
  using assms by (auto simp: find_None_iff entries_lookup)

end

interpretation smap: keyed_store map_of smap_put smap_erase "\<lambda>m. m" smap_ok
  by unfold_locales (simp_all add: smap_ok_put smap_ok_erase smap_ok_in_set)

text \<open>
  A registry files every value under its own name and gives no id to two of them. The code looks
  a value up by id with a loop over the entries.
\<close>

definition registry_ok :: "('v \<Rightarrow> string) \<Rightarrow> ('v \<Rightarrow> nat) \<Rightarrow> (string, 'v) smap \<Rightarrow> bool" where
  "registry_ok name_of id_of m \<longleftrightarrow> smap_ok m
     \<and> (\<forall>e \<in> set m. name_of (snd e) = fst e)
     \<and> distinct (map (id_of \<circ> snd) m)"

definition entry_by_id :: "('v \<Rightarrow> nat) \<Rightarrow> nat \<Rightarrow> (string, 'v) smap \<Rightarrow> (string \<times> 'v) option" where
  "entry_by_id id_of i m = List.find (\<lambda>e. id_of (snd e) = i) m"

locale named_registry = keyed_store +
  fixes name_of :: "'v \<Rightarrow> 'k" and id_of :: "'v \<Rightarrow> nat" and coherent :: "'m \<Rightarrow> bool"
  assumes coherent_iff: "coherent m \<longleftrightarrow> invar m
     \<and> (\<forall>k v. lookup m k = Some v \<longrightarrow> name_of v = k)
     \<and> (\<forall>k v k' v'. lookup m k = Some v \<longrightarrow> lookup m k' = Some v' \<longrightarrow> id_of v = id_of v' \<longrightarrow> k = k')"
begin

lemma coherent_put:
  assumes "coherent m"
    and "\<And>k v'. lookup m k = Some v' \<Longrightarrow> k \<noteq> name_of v \<Longrightarrow> id_of v' \<noteq> id_of v"
  shows "coherent (put (name_of v) v m)"
  using assms unfolding coherent_iff
  by (auto simp: lookup_put invar_put split: if_splits) metis+

lemma coherent_erase: "coherent m \<Longrightarrow> coherent (erase k m)"
  unfolding coherent_iff by (auto simp: lookup_erase invar_erase split: if_splits)

lemma by_id_iff:
  assumes "coherent m"
  shows "List.find (\<lambda>e. id_of (snd e) = i) (entries m) = Some (k, v)
           \<longleftrightarrow> lookup m k = Some v \<and> id_of v = i"
proof
  assume "List.find (\<lambda>e. id_of (snd e) = i) (entries m) = Some (k, v)"
  with assms show "lookup m k = Some v \<and> id_of v = i"
    using find_entryD [of m "\<lambda>e. id_of (snd e) = i"] by (auto simp: coherent_iff)
next
  assume "lookup m k = Some v \<and> id_of v = i"
  with assms show "List.find (\<lambda>e. id_of (snd e) = i) (entries m) = Some (k, v)"
    by (intro find_entry) (auto simp: coherent_iff)
qed

lemma by_id_name:
  "coherent m \<Longrightarrow> List.find (\<lambda>e. id_of (snd e) = i) (entries m) = Some (k, v) \<Longrightarrow> name_of v = k"
  by (simp add: by_id_iff coherent_iff)

lemma by_id_None:
  "coherent m \<Longrightarrow> List.find (\<lambda>e. id_of (snd e) = i) (entries m) = None
     \<longleftrightarrow> (\<forall>k v. lookup m k = Some v \<longrightarrow> id_of v \<noteq> i)"
  by (simp add: coherent_iff find_entry_None)

end

text \<open>The executable \<open>registry_ok\<close> meets the interface for every choice of name and id.\<close>

lemma registry_ok_iff:
  "registry_ok name_of id_of m \<longleftrightarrow> smap_ok m
     \<and> (\<forall>k v. map_of m k = Some v \<longrightarrow> name_of v = k)
     \<and> (\<forall>k v k' v'. map_of m k = Some v \<longrightarrow> map_of m k' = Some v' \<longrightarrow> id_of v = id_of v' \<longrightarrow> k = k')"
proof (cases "smap_ok m")
  case True
  then have "distinct m" by (auto dest: smap_ok_distinct distinct_map [THEN iffD1])
  then have d: "distinct (map (id_of \<circ> snd) m) \<longleftrightarrow> inj_on (id_of \<circ> snd) (set m)"
    by (simp add: distinct_map)
  have "inj_on (id_of \<circ> snd) (set m)
      \<longleftrightarrow> (\<forall>k v k' v'. (k, v) \<in> set m \<longrightarrow> (k', v') \<in> set m \<longrightarrow> id_of v = id_of v' \<longrightarrow> (k, v) = (k', v'))"
    unfolding inj_on_def by fastforce
  also have "\<dots> \<longleftrightarrow> (\<forall>k v k' v'. map_of m k = Some v \<longrightarrow> map_of m k' = Some v' \<longrightarrow> id_of v = id_of v' \<longrightarrow> k = k')"
    unfolding smap_ok_in_set [OF True] by (metis option.inject prod.inject)
  finally have "distinct (map (id_of \<circ> snd) m) \<longleftrightarrow> \<dots>"
    using d by simp
  moreover have "(\<forall>e \<in> set m. name_of (snd e) = fst e) \<longleftrightarrow> (\<forall>k v. map_of m k = Some v \<longrightarrow> name_of v = k)"
    unfolding smap_ok_in_set [OF True, symmetric] by fastforce
  ultimately show ?thesis using True by (simp add: registry_ok_def)
qed (simp add: registry_ok_def)

end
