(* ===== verification/Error_Factory.thy ===== *)
theory Error_Factory
  imports Prelude
begin

text \<open>
  The errors of the agents (\<^verbatim>\<open>agent_framework::exceptions\<close>) and the Redfish errors the REST server
  answers with (\<^verbatim>\<open>rest/server/error/\<close>: \<^verbatim>\<open>MessageObject\<close>, \<^verbatim>\<open>ServerError\<close>, \<^verbatim>\<open>ErrorFactory\<close>). The JSON a
  \<^verbatim>\<open>ServerError\<close> wraps is kept as a record of its members. The data of a \<^verbatim>\<open>GamiException\<close> is jsoncpp
  JSON; the model keeps what the factory reads of it, the three members' texts (the empty text for
  an absent member).
\<close>

section \<open>Errors of the agents\<close>

datatype error_code =
    INVALID_PARAMETER | METHOD_NOT_FOUND | UNKNOWN_ERROR
  | NOT_FOUND | NOT_IMPLEMENTED
  | INVALID_VALUE | UNSUPPORTED_VALUE | INVALID_COLLECTION | INVALID_ENUM
  | INVALID_VALUE_FORMAT | INVALID_UUID
  | INVALID_FIELD | UNSUPPORTED_FIELD | DUPLICATED_FIELD | INVALID_FIELD_TYPE
  | UNEXPECTED_FIELD | MISSING_FIELD
  | COMPUTE | IPMI | NETWORK | FM10000 | STORAGE | ISCSI | LVM
  | PCIE_FABRIC | CHASSIS | CERTIFICATE

definition is_communication_error :: "error_code \<Rightarrow> bool" where
  "is_communication_error c \<longleftrightarrow>
     c = INVALID_PARAMETER \<or> c = INVALID_FIELD \<or> c = UNSUPPORTED_FIELD \<or>
     c = DUPLICATED_FIELD \<or> c = UNEXPECTED_FIELD \<or> c = MISSING_FIELD"

record gami_data =
  data_field_name :: string
  data_field_value :: string
  data_uri :: string

definition no_data :: gami_data where
  "no_data = \<lparr>data_field_name = [], data_field_value = [], data_uri = []\<rparr>"

record gami_exception =
  gami_code :: error_code
  gami_message :: string
  gami_data :: gami_data

definition not_found_exc :: "string \<Rightarrow> gami_exception" where
  "not_found_exc msg = \<lparr>gami_code = NOT_FOUND, gami_message = msg, gami_data = no_data\<rparr>"

definition not_found_at :: "string \<Rightarrow> string \<Rightarrow> gami_exception" where
  "not_found_at msg uri =
     \<lparr>gami_code = NOT_FOUND, gami_message = msg, gami_data = no_data\<lparr>data_uri := uri\<rparr>\<rparr>"

definition invalid_value_exc :: "string \<Rightarrow> gami_exception" where
  "invalid_value_exc msg = \<lparr>gami_code = INVALID_VALUE, gami_message = msg, gami_data = no_data\<rparr>"

text \<open>\<open>get_field_name_from_json_data\<close> and its two siblings.\<close>

definition or_not_specified :: "string \<Rightarrow> bool \<Rightarrow> string" where
  "or_not_specified s should_return_empty =
     (if s = [] \<and> \<not> should_return_empty then ''<not specified>'' else s)"

definition get_field_name_from_json_data :: "gami_data \<Rightarrow> bool \<Rightarrow> string" where
  "get_field_name_from_json_data d e = or_not_specified (data_field_name d) e"

definition get_field_value_from_json_data :: "gami_data \<Rightarrow> bool \<Rightarrow> string" where
  "get_field_value_from_json_data d e = or_not_specified (data_field_value d) e"

definition get_uri_from_json_data :: "gami_data \<Rightarrow> bool \<Rightarrow> string" where
  "get_uri_from_json_data d e = or_not_specified (data_uri d) e"

section \<open>Message objects and server errors\<close>

datatype severity = SevOK | SevWarning | SevCritical

record message_object =
  mo_id :: string
  mo_message :: string
  mo_severity :: severity
  mo_resolution :: string
  mo_related :: "string list"

definition add_related_property :: "string \<Rightarrow> message_object \<Rightarrow> message_object" where
  "add_related_property p mo = mo\<lparr>mo_related := mo_related mo @ [''#/'' @ p]\<rparr>"

definition set_related_properties :: "string list \<Rightarrow> message_object \<Rightarrow> message_object" where
  "set_related_properties ps mo = mo\<lparr>mo_related := map (\<lambda>p. ''#/'' @ p) ps\<rparr>"

definition create_message_object ::
  "string \<Rightarrow> string \<Rightarrow> severity \<Rightarrow> string \<Rightarrow> string list \<Rightarrow> message_object" where
  "create_message_object code msg sev resolution related =
     set_related_properties related
       \<lparr>mo_id = code, mo_message = msg, mo_severity = sev, mo_resolution = resolution,
        mo_related = []\<rparr>"

record server_error =
  http_status_code :: nat
  se_code :: string
  se_message :: string
  se_extended :: "message_object list"

definition add_extended_message :: "message_object \<Rightarrow> server_error \<Rightarrow> server_error" where
  "add_extended_message mo se = se\<lparr>se_extended := se_extended se @ [mo]\<rparr>"

definition has_extended_messages :: "server_error \<Rightarrow> bool" where
  "has_extended_messages se \<longleftrightarrow> se_extended se \<noteq> []"

text \<open>\<open>create_error\<close>, with the format already resolved.\<close>

definition create_error :: "nat \<Rightarrow> string \<Rightarrow> string \<Rightarrow> server_error" where
  "create_error status code msg =
     \<lparr>http_status_code = status, se_code = code, se_message = msg, se_extended = []\<rparr>"

text \<open>Every constructor below adds one extended message, unless the text for it is empty.\<close>

definition extend_if :: "string \<Rightarrow> message_object \<Rightarrow> server_error \<Rightarrow> server_error" where
  "extend_if msg mo se = (if msg = [] then se else add_extended_message mo se)"

section \<open>The factory\<close>

definition create_internal_error :: "string \<Rightarrow> server_error" where
  "create_internal_error msg = extend_if msg
     (create_message_object ''Base.1.0.InternalError'' msg SevCritical
        ''Resubmit the request. If the problem persists, consider resetting the service.'' [])
     (create_error 500 ''Base.1.0.InternalError''
        ''The request failed due to an internal service error. The service is still operational.'')"

definition create_resource_in_use_error :: "string \<Rightarrow> server_error" where
  "create_resource_in_use_error msg = extend_if msg
     (create_message_object ''Base.1.0.ResourceInUse'' msg SevWarning
        ''Remove the condition and resubmit the request if the operation failed.'' [])
     (create_error 400 ''Base.1.0.ResourceInUse''
        ''The change to the requested resource failed because the resource is in use or in transition.'')"

definition create_malformed_json_error :: "string \<Rightarrow> server_error" where
  "create_malformed_json_error msg = extend_if msg
     (create_message_object ''Base.1.0.MalformedJSON'' msg SevCritical
        ''Ensure that the request body is valid JSON and resubmit the request.'' [])
     (create_error 400 ''Base.1.0.MalformedJSON''
        ''The request body submitted was malformed JSON and could not be parsed by the receiving service.'')"

definition create_resource_already_exists_error :: "string \<Rightarrow> server_error" where
  "create_resource_already_exists_error msg = extend_if msg
     (create_message_object ''Base.1.0.ResourceAlreadyExists'' msg SevCritical
        ''Do not repeat the create operation as the resource has already been created.'' [])
     (create_error 400 ''Base.1.0.ResourceAlreadyExists''
        ''The requested resource already exists.'')"

definition create_resource_missing_error :: "string \<Rightarrow> string \<Rightarrow> server_error" where
  "create_resource_missing_error uri msg = extend_if msg
     (create_message_object ''Base.1.0.ResourceMissingAtURI'' msg SevCritical
        ''Place a valid resource at the URI or correct the URI and resubmit the request.'' [])
     (create_error 404 ''Base.1.0.ResourceMissingAtURI''
        (''The resource at the URI '' @ uri @ '' was not found.''))"

definition create_resource_gone_error :: "string \<Rightarrow> string \<Rightarrow> server_error" where
  "create_resource_gone_error uri msg = extend_if msg
     (create_message_object ''Base.1.0.ResourceMissingAtURI'' msg SevCritical
        ''Place a valid resource at the URI or correct the URI and resubmit the request.'' [])
     (create_error 410 ''Base.1.0.ResourceMissingAtURI''
        (''The resource at the URI '' @ uri @ '' was not found.''))"

definition create_unauthorized_error :: "string \<Rightarrow> string \<Rightarrow> server_error" where
  "create_unauthorized_error uri msg = extend_if msg
     (create_message_object ''Base.1.0.ResourceAtUriUnauthorized'' msg SevCritical
        ''Ensure that the appropriate access is provided for the service in order for it to access the URI.'' [])
     (create_error 401 ''Base.1.0.ResourceAtUriUnauthorized''
        (''While accessing the resource at '' @ uri @ '', the service received an authorization error.''))"

definition create_insufficient_privilege_error :: "string \<Rightarrow> server_error" where
  "create_insufficient_privilege_error msg = extend_if msg
     (create_message_object ''Base.1.0.InsufficientPrivilege'' msg SevCritical
        ''Either abandon the operation or change the associated access rights and resubmit the request if the operation failed.'' [])
     (create_error 401 ''Base.1.0.InsufficientPrivilege''
        ''There are insufficient privileges for the account or credentials associated with the current session to perform the requested operation.'')"

definition create_property_duplicated_error :: "string \<Rightarrow> string \<Rightarrow> server_error" where
  "create_property_duplicated_error p msg = extend_if msg
     (create_message_object ''Base.1.0.PropertyDuplicate'' msg SevWarning
        ''Remove the duplicate property from the request body and resubmit the request if the operation failed.'' [])
     (create_error 400 ''Base.1.0.PropertyDuplicate''
        (''The property '' @ p @ '' was duplicated in the request.''))"

definition create_property_unknown_error :: "string \<Rightarrow> string \<Rightarrow> server_error" where
  "create_property_unknown_error p msg = extend_if msg
     (create_message_object ''Base.1.0.PropertyUnknown'' msg SevWarning
        ''Remove the unknown property from the request body and resubmit the request if the operation failed.'' [])
     (create_error 400 ''Base.1.0.PropertyUnknown''
        (''The property '' @ p @ '' is not in the list of valid properties for the resource.''))"

definition create_property_type_error :: "string \<Rightarrow> string \<Rightarrow> string \<Rightarrow> server_error" where
  "create_property_type_error p v msg = extend_if msg
     (create_message_object ''Base.1.0.PropertyValueTypeError'' msg SevWarning
        ''Correct the value for the property in the request body and resubmit the request if the operation failed.'' [])
     (create_error 400 ''Base.1.0.PropertyValueTypeError''
        (''The value '' @ v @ '' for the property '' @ p @ '' is a different type than the property can accept.''))"

definition create_property_missing_error :: "string \<Rightarrow> string \<Rightarrow> server_error" where
  "create_property_missing_error p msg = extend_if msg
     (create_message_object ''Base.1.0.PropertyMissing'' msg SevWarning
        ''Ensure that the property is in the request body and has a valid value and resubmit the request if the operation failed.'' [])
     (create_error 400 ''Base.1.0.PropertyMissing''
        (''The property '' @ p @ '' is a required property and must be included in the request.''))"

definition create_value_format_error :: "string \<Rightarrow> string \<Rightarrow> string \<Rightarrow> server_error" where
  "create_value_format_error p v msg = extend_if msg
     (create_message_object ''Base.1.0.PropertyValueFormatError'' msg SevWarning
        ''Correct the value for the property in the request body and resubmit the request if the operation failed.'' [])
     (create_error 400 ''Base.1.0.PropertyValueFormatError''
        (''The value '' @ v @ '' for the property '' @ p @ '' is a different format than the property can accept.''))"

definition create_agent_unreachable_error :: "string \<Rightarrow> server_error" where
  "create_agent_unreachable_error msg = extend_if msg
     (create_message_object ''Base.1.0.ServiceTemporarilyUnavailable'' msg SevCritical
        ''Wait for the indicated retry duration and retry the operation.'' [])
     (create_error 503 ''Base.1.0.ServiceTemporarilyUnavailable''
        (''The service is temporarily unavailable. Retry in '' @ ''5'' @ '' seconds.''))"

definition create_method_not_allowed_error :: "string \<Rightarrow> string \<Rightarrow> server_error" where
  "create_method_not_allowed_error msg resolution = extend_if msg
     (create_message_object ''Base.1.0.GeneralError'' msg SevCritical resolution [])
     (create_error 405 ''Base.1.0.GeneralError''
        ''A general error has occurred. See ExtendedInfo for more information.'')"

definition create_conflict_error :: "string \<Rightarrow> string \<Rightarrow> server_error" where
  "create_conflict_error msg resolution = extend_if msg
     (create_message_object ''Base.1.0.GeneralError'' msg SevCritical resolution [])
     (create_error 409 ''Base.1.0.GeneralError''
        ''A general error has occurred. See ExtendedInfo for more information.'')"

definition create_not_implemented_error :: "string \<Rightarrow> string \<Rightarrow> server_error" where
  "create_not_implemented_error msg resolution = extend_if msg
     (create_message_object ''Base.1.0.GeneralError'' msg SevCritical resolution [])
     (create_error 501 ''Base.1.0.GeneralError''
        ''A general error has occurred. See ExtendedInfo for more information.'')"

definition create_invalid_payload_error :: "string \<Rightarrow> string list \<Rightarrow> string \<Rightarrow> server_error" where
  "create_invalid_payload_error msg json_fields resolution = extend_if msg
     (create_message_object ''Base.1.0.GeneralError'' msg SevCritical resolution json_fields)
     (create_error 400 ''Base.1.0.GeneralError''
        ''A general error has occurred. See ExtendedInfo for more information.'')"

definition create_value_not_in_list_error ::
  "string \<Rightarrow> string \<Rightarrow> string \<Rightarrow> string \<Rightarrow> string list \<Rightarrow> server_error" where
  "create_value_not_in_list_error p v msg resolution related = extend_if msg
     (create_message_object ''Base.1.0.PropertyValueNotInList'' msg SevWarning
        (if resolution = []
         then ''Choose a value from the enumeration list that the implementation can support and resubmit the request if the operation failed.''
         else resolution) related)
     (create_error 400 ''Base.1.0.PropertyValueNotInList''
        (''The value '' @ v @ '' for the property '' @ p @ '' is not in the list of acceptable values.''))"

definition create_error_for_not_allowable_value ::
  "string \<Rightarrow> string \<Rightarrow> string \<Rightarrow> string \<Rightarrow> server_error" where
  "create_error_for_not_allowable_value msg p v allowable =
     create_value_not_in_list_error p v msg
       (''Use one of the allowable values defined in '' @ allowable @ '' property.'') [p]"

text \<open>\<open>create_message_object_from_gami_code\<close>: its switch, then the related property.\<close>

fun gami_message_parts :: "error_code \<Rightarrow> string \<Rightarrow> gami_data \<Rightarrow> string \<times> string \<times> severity \<times> string \<times> string"
where
  "gami_message_parts INVALID_UUID m d =
     (''Base.1.0.InternalError'', ''Could not find one of the requested resources.'', SevCritical,
      ''Resubmit the request. If the problem persists, consider resetting the service.'', [])"
| "gami_message_parts INVALID_PARAMETER m d = (''Base.1.0.InternalError'', m, SevCritical, [], [])"
| "gami_message_parts INVALID_COLLECTION m d = (''Base.1.0.InternalError'', m, SevCritical, [], [])"
| "gami_message_parts COMPUTE m d = (''Base.1.0.InternalError'', m, SevCritical,
      ''Resubmit the request. If the problem persists, consider resetting the service.'', [])"
| "gami_message_parts IPMI m d = (''Base.1.0.InternalError'', m, SevCritical,
      ''Resubmit the request. If the problem persists, consider resetting the service.'', [])"
| "gami_message_parts NETWORK m d = (''Base.1.0.InternalError'', m, SevCritical,
      ''Resubmit the request. If the problem persists, consider resetting the service.'', [])"
| "gami_message_parts FM10000 m d = (''Base.1.0.InternalError'', m, SevCritical,
      ''Resubmit the request. If the problem persists, consider resetting the service.'', [])"
| "gami_message_parts STORAGE m d = (''Base.1.0.InternalError'', m, SevCritical,
      ''Resubmit the request. If the problem persists, consider resetting the service.'', [])"
| "gami_message_parts ISCSI m d = (''Base.1.0.InternalError'', m, SevCritical,
      ''Resubmit the request. If the problem persists, consider resetting the service.'', [])"
| "gami_message_parts LVM m d = (''Base.1.0.InternalError'', m, SevCritical,
      ''Resubmit the request. If the problem persists, consider resetting the service.'', [])"
| "gami_message_parts PCIE_FABRIC m d = (''Base.1.0.InternalError'', m, SevCritical,
      ''Resubmit the request. If the problem persists, consider resetting the service.'', [])"
| "gami_message_parts CHASSIS m d = (''Base.1.0.InternalError'', m, SevCritical,
      ''Resubmit the request. If the problem persists, consider resetting the service.'', [])"
| "gami_message_parts CERTIFICATE m d = (''Base.1.0.InternalError'', m, SevCritical,
      ''Resubmit the request. If the problem persists, consider resetting the service.'', [])"
| "gami_message_parts UNKNOWN_ERROR m d = (''Base.1.0.GeneralError'', m, SevCritical, [], [])"
| "gami_message_parts METHOD_NOT_FOUND m d = (''Base.1.0.GeneralError'', m, SevCritical, [], [])"
| "gami_message_parts NOT_IMPLEMENTED m d = (''Base.1.0.GeneralError'', m, SevCritical, [], [])"
| "gami_message_parts INVALID_VALUE m d = (''Base.1.0.GeneralError'', m, SevCritical, [], [])"
| "gami_message_parts UNSUPPORTED_VALUE m d = (''Base.1.0.GeneralError'', m, SevCritical, [], [])"
| "gami_message_parts INVALID_FIELD m d = (''Base.1.0.GeneralError'', m, SevCritical, [],
      get_field_name_from_json_data d True)"
| "gami_message_parts UNSUPPORTED_FIELD m d = (''Base.1.0.GeneralError'', m, SevCritical, [],
      get_field_name_from_json_data d True)"
| "gami_message_parts INVALID_FIELD_TYPE m d = (''Base.1.0.PropertyValueTypeError'', m, SevWarning,
      ''Correct the value for the property in the request body and resubmit the request if the operation failed.'',
      get_field_name_from_json_data d True)"
| "gami_message_parts DUPLICATED_FIELD m d = (''Base.1.0.PropertyDuplicate'', m, SevWarning,
      ''Remove the duplicate property from the request body and resubmit the request if the operation failed.'',
      get_field_name_from_json_data d True)"
| "gami_message_parts UNEXPECTED_FIELD m d = (''Base.1.0.PropertyUnknown'', m, SevWarning,
      ''Remove the unknown property from the request body and resubmit the request if the operation failed.'',
      get_field_name_from_json_data d True)"
| "gami_message_parts MISSING_FIELD m d = (''Base.1.0.PropertyMissing'', m, SevWarning,
      ''Ensure that the property is in the request body and has a valid value and resubmit the request if the operation failed.'',
      get_field_name_from_json_data d True)"
| "gami_message_parts INVALID_ENUM m d = (''Base.1.0.PropertyValueNotInList'', m, SevWarning,
      ''Choose a value from the enumeration list that the implementation can support and resubmit the request if the operation failed.'',
      get_field_name_from_json_data d True)"
| "gami_message_parts INVALID_VALUE_FORMAT m d = (''Base.1.0.PropertyValueFormatError'', m, SevWarning,
      ''Correct the value for the property in the request body and resubmit the request if the operation failed.'', [])"
| "gami_message_parts NOT_FOUND m d = (''Base.1.0.ResourceMissingAtURI'', m, SevCritical,
      ''Place a valid resource at the URI or correct the URI and resubmit the request.'', [])"

definition create_message_object_from_gami_code ::
  "error_code \<Rightarrow> string \<Rightarrow> gami_data \<Rightarrow> message_object" where
  "create_message_object_from_gami_code c m d =
     (let (code, msg, sev, resolution, property) = gami_message_parts c m d
      in create_message_object code msg sev resolution (if property = [] then [] else [property]))"

definition error_for_gami_code :: "error_code \<Rightarrow> gami_data \<Rightarrow> server_error" where
  "error_for_gami_code c d =
     (case c of
        UNSUPPORTED_FIELD \<Rightarrow> create_invalid_payload_error [] [] []
      | INVALID_FIELD \<Rightarrow> create_invalid_payload_error [] [] []
      | UNSUPPORTED_VALUE \<Rightarrow> create_invalid_payload_error [] [] []
      | INVALID_VALUE \<Rightarrow> create_invalid_payload_error [] [] []
      | INVALID_ENUM \<Rightarrow> create_value_not_in_list_error (get_field_name_from_json_data d False)
                          (get_field_value_from_json_data d False) [] [] []
      | INVALID_VALUE_FORMAT \<Rightarrow> create_value_format_error (get_field_name_from_json_data d False)
                                  (get_field_value_from_json_data d False) []
      | MISSING_FIELD \<Rightarrow> create_property_missing_error (get_field_name_from_json_data d False) []
      | UNEXPECTED_FIELD \<Rightarrow> create_property_unknown_error (get_field_name_from_json_data d False) []
      | INVALID_FIELD_TYPE \<Rightarrow> create_property_type_error (get_field_name_from_json_data d False)
                                (get_field_value_from_json_data d False) []
      | DUPLICATED_FIELD \<Rightarrow> create_property_duplicated_error (get_field_name_from_json_data d False) []
      | NOT_IMPLEMENTED \<Rightarrow> create_not_implemented_error [] []
      | METHOD_NOT_FOUND \<Rightarrow> create_not_implemented_error [] []
      | NOT_FOUND \<Rightarrow> create_resource_missing_error (get_uri_from_json_data d False) []
      | _ \<Rightarrow> create_internal_error [])"

definition create_error_from_gami_exception :: "gami_exception \<Rightarrow> server_error" where
  "create_error_from_gami_exception ex =
     add_extended_message
       (create_message_object_from_gami_code (gami_code ex) (gami_message ex) (gami_data ex))
       (error_for_gami_code (gami_code ex) (gami_data ex))"

text \<open>
  \<open>create_error_from_set_component_attributes_results\<close>: one extended message per failed attribute;
  the attribute's REST name is added where \<open>fields_map\<close> has it.
\<close>

definition create_error_from_set_component_attributes_results ::
  "(error_code \<times> string \<times> string) list \<Rightarrow> (string \<rightharpoonup> string) \<Rightarrow> server_error" where
  "create_error_from_set_component_attributes_results statuses fields_map =
     foldl (\<lambda>err (code, msg, attribute).
              let mo = create_message_object_from_gami_code code msg no_data
              in add_extended_message
                   (case fields_map attribute of
                      Some field \<Rightarrow> add_related_property field mo
                    | None \<Rightarrow> mo) err)
           (create_internal_error []) statuses"

section \<open>What a call may throw\<close>

text \<open>
  \<open>Undefined\<close> marks undefined behaviour of C++ (a division by zero, a read past the end), so that it
  is never silently a value.
\<close>

datatype exn =
    Gami gami_exception
  | ServerExc server_error
  | AgentUnreachable string
  | StdExc string
  | Undefined string

type_synonym 'a result = "exn + 'a"

section \<open>Properties\<close>

lemma set_related_properties_related [simp]:
  "mo_related (set_related_properties ps mo) = map (\<lambda>p. ''#/'' @ p) ps"
  by (simp add: set_related_properties_def)

lemma extend_if_Nil [simp]: "extend_if [] mo se = se"
  by (simp add: extend_if_def)

lemmas factory_defs = create_internal_error_def create_invalid_payload_error_def
  create_value_not_in_list_error_def create_value_format_error_def create_property_missing_error_def
  create_property_unknown_error_def create_property_type_error_def
  create_property_duplicated_error_def create_not_implemented_error_def
  create_resource_missing_error_def create_error_def

lemma error_for_gami_code_extended: "se_extended (error_for_gami_code c d) = []"
  by (cases c) (simp_all add: error_for_gami_code_def factory_defs)

definition gami_http_status :: "error_code \<Rightarrow> nat" where
  "gami_http_status c =
     (if c = NOT_FOUND then 404
      else if c \<in> {NOT_IMPLEMENTED, METHOD_NOT_FOUND} then 501
      else if c \<in> {UNSUPPORTED_FIELD, INVALID_FIELD, UNSUPPORTED_VALUE, INVALID_VALUE, INVALID_ENUM,
                   INVALID_VALUE_FORMAT, MISSING_FIELD, UNEXPECTED_FIELD, INVALID_FIELD_TYPE,
                   DUPLICATED_FIELD} then 400
      else 500)"

lemma error_for_gami_code_status: "http_status_code (error_for_gami_code c d) = gami_http_status c"
  by (cases c) (simp_all add: error_for_gami_code_def factory_defs gami_http_status_def)

text \<open>
  Every agent error becomes one HTTP error: 404 exactly for a missing resource, 501 for an
  unimplemented method, 400 for the faults of the request, 500 for the rest; and it carries exactly
  one extended message.
\<close>

lemma gami_exception_status:
  "http_status_code (create_error_from_gami_exception ex) = gami_http_status (gami_code ex)
   \<and> se_extended (create_error_from_gami_exception ex)
       = [create_message_object_from_gami_code (gami_code ex) (gami_message ex) (gami_data ex)]"
  by (simp add: create_error_from_gami_exception_def add_extended_message_def
      error_for_gami_code_extended error_for_gami_code_status)

definition attribute_message :: "(string \<rightharpoonup> string) \<Rightarrow> error_code \<times> string \<times> string \<Rightarrow> message_object" where
  "attribute_message fields_map st =
     (case st of (code, msg, attribute) \<Rightarrow>
        (let mo = create_message_object_from_gami_code code msg no_data
         in case fields_map attribute of Some field \<Rightarrow> add_related_property field mo | None \<Rightarrow> mo))"

lemma foldl_extended:
  "foldl (\<lambda>err st. add_extended_message (f st) err) e sts = e\<lparr>se_extended := se_extended e @ map f sts\<rparr>"
  by (induction sts arbitrary: e) (simp_all add: add_extended_message_def)

text \<open>
  Every attribute that could not be set is reported with its own message, in the order of the results
  and tied to the field of the request it came from, in one error with status 500.
\<close>

lemma set_attributes_errors_reported:
  "se_extended (create_error_from_set_component_attributes_results sts fm) = map (attribute_message fm) sts
   \<and> http_status_code (create_error_from_set_component_attributes_results sts fm) = 500"
proof -
  have "create_error_from_set_component_attributes_results sts fm
      = foldl (\<lambda>err st. add_extended_message (attribute_message fm st) err) (create_internal_error []) sts"
    by (simp add: create_error_from_set_component_attributes_results_def attribute_message_def
        case_prod_unfold Let_def)
  then show ?thesis
    by (simp add: foldl_extended create_internal_error_def create_error_def)
qed

end
