(* ===== verification/Http_Message.thy ===== *)
theory Http_Message
  imports Std_Map Error_Factory
begin

text \<open>
  Requests, responses, path parameters and the paths and headers built from them
  (\<^verbatim>\<open>rest/server/request.cpp\<close>, \<^verbatim>\<open>response.cpp\<close>, \<^verbatim>\<open>parameters.cpp\<close>, \<^verbatim>\<open>utils.cpp\<close>,
  \<^verbatim>\<open>rest/endpoints/path_builder.cpp\<close>). A response body is the pieces written
  to it, in order: text, or the serialized form of a \<^verbatim>\<open>ServerError\<close>, kept as the error itself.
\<close>

datatype http_method = GET | POST | PATCH | HEAD | PUT | DELETE | OPTIONS | UNKNOWN

section \<open>Path parameters\<close>

type_synonym parameters = "(string, string) smap"

definition param_set :: "string \<Rightarrow> string \<Rightarrow> parameters \<Rightarrow> parameters" where
  "param_set k v ps = smap_put k v ps"

definition param_get :: "parameters \<Rightarrow> string \<Rightarrow> string" where
  "param_get ps k = (case map_of ps k of Some v \<Rightarrow> v | None \<Rightarrow> [])"

section \<open>Requests\<close>

record request =
  req_method :: http_method
  req_url :: string
  req_headers :: "(string, string) smap"
  req_body :: string
  req_secure :: bool
  req_params :: parameters

definition set_header :: "string \<Rightarrow> string \<Rightarrow> request \<Rightarrow> request" where
  "set_header h v r = r\<lparr>req_headers := smap_put (map to_lower h) v (req_headers r)\<rparr>"

definition get_header :: "request \<Rightarrow> string \<Rightarrow> string" where
  "get_header r h = (case map_of (req_headers r) (map to_lower h) of Some v \<Rightarrow> v | None \<Rightarrow> [])"

definition append_body :: "string \<Rightarrow> request \<Rightarrow> request" where
  "append_body b r = r\<lparr>req_body := req_body r @ b\<rparr>"

section \<open>Responses\<close>

datatype body_part = Text string | ErrorBody server_error

record response =
  resp_status :: nat
  resp_headers :: "(string, string) smap"
  resp_body :: "body_part list"

definition new_response :: response where
  "new_response = \<lparr>resp_status = 200, resp_headers = [], resp_body = []\<rparr>"

definition set_status :: "nat \<Rightarrow> response \<Rightarrow> response" where
  "set_status c r = r\<lparr>resp_status := c\<rparr>"

definition set_resp_header :: "string \<Rightarrow> string \<Rightarrow> response \<Rightarrow> response" where
  "set_resp_header h v r = r\<lparr>resp_headers := smap_put h v (resp_headers r)\<rparr>"

definition set_body :: "body_part \<Rightarrow> response \<Rightarrow> response" where
  "set_body b r = r\<lparr>resp_body := [b]\<rparr>"

text \<open>\<open>operator<<\<close>\<close>

definition append_text :: "string \<Rightarrow> response \<Rightarrow> response" where
  "append_text t r = r\<lparr>resp_body := resp_body r @ [Text t]\<rparr>"

text \<open>What every error path does: the error's status and its text.\<close>

definition respond_error :: "server_error \<Rightarrow> response \<Rightarrow> response" where
  "respond_error e r = set_body (ErrorBody e) (set_status (http_status_code e) r)"

definition http_method_not_allowed :: "request \<Rightarrow> response \<Rightarrow> response" where
  "http_method_not_allowed q r = respond_error
     (create_method_not_allowed_error ''Requested operation is not allowed on this resource.'' []) r"

text \<open>The one argument of the call binds to \<open>resource_uri\<close>; the message keeps its empty default.\<close>

definition http_method_not_authorized :: "request \<Rightarrow> response \<Rightarrow> response" where
  "http_method_not_authorized q r = respond_error
     (create_unauthorized_error ''Requested operation is not authorized.'' []) r"

section \<open>Paths\<close>

definition trim_trailing_slash :: "string \<Rightarrow> string" where
  "trim_trailing_slash path =
     (let len = length path
      in if len > 1 \<and> path ! (len - 1) = CHR ''/'' \<and> path ! (len - 2) \<noteq> CHR ''/''
         then take (len - 1) path else path)"

text \<open>A \<^verbatim>\<open>PathBuilder\<close> is the text in its stream.\<close>

definition path_of_request :: "request \<Rightarrow> string" where
  "path_of_request q = trim_trailing_slash (req_url q)"

definition path_append :: "string \<Rightarrow> string \<Rightarrow> string" where
  "path_append seg p = p @ ''/'' @ seg"

definition path_append_variable :: "string \<Rightarrow> string \<Rightarrow> string" where
  "path_append_variable name p = p @ ''/'' @ ''{'' @ name @ ''}''"

definition path_append_regex :: "string \<Rightarrow> string \<Rightarrow> string \<Rightarrow> string" where
  "path_append_regex name regex p = p @ ''/'' @ ''{'' @ name @ '':'' @ regex @ ''}''"

text \<open>\<open>find_first_of(':')\<close> and \<open>substr(0, pos + 1)\<close> on the host header; the port is a \<open>uint16_t\<close>.\<close>

definition with_port :: "16 word \<Rightarrow> string \<Rightarrow> string" where
  "with_port port host =
     (if port \<noteq> 0
      then (let port_string = dec_of_nat (unat port)
            in if CHR '':'' \<in> set host
               then takeWhile (\<lambda>c. c \<noteq> CHR '':'') host @ '':'' @ port_string
               else host @ '':'' @ port_string)
      else host)"

definition build_location_header :: "request \<Rightarrow> bool \<Rightarrow> string \<Rightarrow> 16 word \<Rightarrow> string" where
  "build_location_header q scheme_secure resource_path port =
     (if scheme_secure then ''https://'' else ''http://'')
       @ with_port port (get_header q ''Host'') @ resource_path"

section \<open>Lemmas\<close>

lemma get_set_header: "get_header (set_header h v r) h' =
    (if map to_lower h' = map to_lower h then v else get_header r h')"
  by (simp add: get_header_def set_header_def)

lemma param_get_set: "param_get (param_set k v ps) k' = (if k' = k then v else param_get ps k')"
  by (simp add: param_get_def param_set_def)

lemma resp_status_respond_error [simp]: "resp_status (respond_error e r) = http_status_code e"
  by (simp add: respond_error_def set_body_def set_status_def)

lemma resp_headers_respond_error [simp]: "resp_headers (respond_error e r) = resp_headers r"
  by (simp add: respond_error_def set_body_def set_status_def)

lemma status_not_authorized: "resp_status (http_method_not_authorized q r) = 401"
  by (simp add: http_method_not_authorized_def create_unauthorized_error_def create_error_def)

lemma status_not_allowed: "resp_status (http_method_not_allowed q r) = 405"
  by (simp add: http_method_not_allowed_def create_method_not_allowed_error_def create_error_def
      extend_if_def add_extended_message_def)

text \<open>The location of a created resource: the host's own port is replaced, never doubled.\<close>

lemma with_port_replaces:
  assumes "port \<noteq> 0" and "CHR '':'' \<notin> set name"
  shows "with_port port (name @ CHR '':'' # old) = name @ CHR '':'' # dec_of_nat (unat port)
       \<and> with_port port name = name @ CHR '':'' # dec_of_nat (unat port)"
proof -
  have "takeWhile (\<lambda>c. c \<noteq> CHR '':'') (name @ CHR '':'' # old) = name"
    using assms(2) by (subst takeWhile_append2) auto
  with assms show ?thesis by (simp add: with_port_def)
qed

end
