(* ===== verification/Std_Regex.thy ===== *)
theory Std_Regex
  imports Prelude
begin

text \<open>
  \<^verbatim>\<open>std::regex\<close> and \<^verbatim>\<open>std::regex_match\<close> (ECMAScript grammar) on the patterns the routes use: a
  sequence of characters, dots and bracketed classes, each taken once, optionally, or repeated.
  Groups, alternation, anchors, escapes, negated classes and counted repetition do not occur in the
  code and are refused by the parser here.
\<close>

datatype regex_atom = AnyChar | Literal char | Class "(char \<times> char) list"

datatype quantifier = Once | Maybe | Star | Plus

type_synonym regex = "(regex_atom \<times> quantifier) list"

text \<open>The inside of \<open>[...]\<close>: ranges, and single characters as one-element ranges.\<close>

definition class_item :: "char \<Rightarrow> string \<Rightarrow> (char \<times> char) \<times> string" where
  "class_item c cs =
     (case cs of
        d # e # es \<Rightarrow> if d = CHR ''-'' \<and> e \<noteq> CHR '']'' then ((c, e), es) else ((c, c), cs)
      | _ \<Rightarrow> ((c, c), cs))"

lemma class_item_length: "length (snd (class_item c cs)) \<le> length cs"
  by (simp add: class_item_def split: list.splits)

function parse_class :: "string \<Rightarrow> ((char \<times> char) list \<times> string) option" where
  "parse_class [] = None"
| "parse_class (c # cs) =
     (if c = CHR '']'' then Some ([], cs)
      else if c = CHR ''^'' \<or> c = CHR 0x5C then None
      else map_option (\<lambda>(rs, rest). (fst (class_item c cs) # rs, rest))
             (parse_class (snd (class_item c cs))))"
  by pat_completeness auto
termination
  by (relation "measure length") (simp_all add: class_item_length le_imp_less_Suc)

lemma parse_class_length: "parse_class s = Some (rs, rest) \<Longrightarrow> length rest < length s"
proof (induction s arbitrary: rs rest rule: parse_class.induct)
  case (2 c cs)
  show ?case
  proof (cases "c = CHR '']''")
    case False
    with "2.prems" obtain rs' where "c \<noteq> CHR ''^'' \<and> c \<noteq> CHR 0x5C"
      and "parse_class (snd (class_item c cs)) = Some (rs', rest)"
      by (auto split: if_splits)
    with False "2.IH" have "length rest < length (snd (class_item c cs))" by blast
    with class_item_length [of c cs] show ?thesis by simp
  qed (use "2.prems" in simp)
qed simp

definition special_char :: "char \<Rightarrow> bool" where
  "special_char c \<longleftrightarrow> c \<in> set ''()|^${}]*+?'' \<or> c = CHR 0x5C"

definition parse_atom :: "string \<Rightarrow> (regex_atom \<times> string) option" where
  "parse_atom s =
     (case s of
        [] \<Rightarrow> None
      | c # cs \<Rightarrow>
          if c = CHR ''.'' then Some (AnyChar, cs)
          else if c = CHR ''['' then map_option (\<lambda>(rs, rest). (Class rs, rest)) (parse_class cs)
          else if special_char c then None
          else Some (Literal c, cs))"

fun parse_quantifier :: "string \<Rightarrow> quantifier \<times> string" where
  "parse_quantifier [] = (Once, [])"
| "parse_quantifier (c # cs) =
     (if c = CHR ''*'' then (Star, cs)
      else if c = CHR ''+'' then (Plus, cs)
      else if c = CHR ''?'' then (Maybe, cs)
      else (Once, c # cs))"

lemma parse_atom_length: "parse_atom s = Some (a, rest) \<Longrightarrow> length rest < length s"
  by (auto simp: parse_atom_def dest: parse_class_length split: list.splits if_splits)

lemma parse_quantifier_length: "length (snd (parse_quantifier s)) \<le> length s"
  by (cases s) auto

function parse_regex :: "string \<Rightarrow> regex option" where
  "parse_regex s =
     (if s = [] then Some []
      else (case parse_atom s of
              None \<Rightarrow> None
            | Some (a, rest) \<Rightarrow>
                map_option (\<lambda>r. (a, fst (parse_quantifier rest)) # r)
                  (parse_regex (snd (parse_quantifier rest)))))"
  by pat_completeness auto
termination
proof (relation "measure length", simp)
  fix s x2 a rest
  assume "s \<noteq> []" "parse_atom s = Some x2" "(a, rest) = x2"
  then have "length rest < length s" by (auto dest: parse_atom_length)
  then show "(snd (parse_quantifier rest), s) \<in> measure length"
    using parse_quantifier_length [of rest] by simp
qed

declare parse_regex.simps [simp del]

definition in_range :: "char \<Rightarrow> char \<times> char \<Rightarrow> bool" where
  "in_range c r \<longleftrightarrow> fst r \<le> c \<and> c \<le> snd r"

fun atom_matches :: "regex_atom \<Rightarrow> char \<Rightarrow> bool" where
  "atom_matches AnyChar c \<longleftrightarrow> c \<noteq> CHR 0x0A \<and> c \<noteq> CHR 0x0D"
| "atom_matches (Literal d) c \<longleftrightarrow> c = d"
| "atom_matches (Class rs) c \<longleftrightarrow> list_ex (in_range c) rs"

text \<open>\<^verbatim>\<open>regex_match\<close>: the whole text is matched.\<close>

function regex_match :: "regex \<Rightarrow> string \<Rightarrow> bool" where
  "regex_match [] s \<longleftrightarrow> s = []"
| "regex_match ((a, Once) # r) s \<longleftrightarrow>
     (case s of [] \<Rightarrow> False | c # cs \<Rightarrow> atom_matches a c \<and> regex_match r cs)"
| "regex_match ((a, Maybe) # r) s \<longleftrightarrow>
     regex_match r s \<or> (case s of [] \<Rightarrow> False | c # cs \<Rightarrow> atom_matches a c \<and> regex_match r cs)"
| "regex_match ((a, Star) # r) s \<longleftrightarrow>
     regex_match r s \<or>
     (case s of [] \<Rightarrow> False | c # cs \<Rightarrow> atom_matches a c \<and> regex_match ((a, Star) # r) cs)"
| "regex_match ((a, Plus) # r) s \<longleftrightarrow>
     (case s of [] \<Rightarrow> False | c # cs \<Rightarrow> atom_matches a c \<and> regex_match ((a, Star) # r) cs)"
  by pat_completeness auto
termination
  by (relation "measure (\<lambda>(r, s). 2 * length s + length r + length (filter (\<lambda>q. snd q = Plus) r))") auto

text \<open>One repeated atom at the end accepts exactly the texts all of whose characters it accepts.\<close>

lemma regex_match_Star: "regex_match [(a, Star)] s \<longleftrightarrow> (\<forall>c \<in> set s. atom_matches a c)"
  by (induction s) auto

lemma regex_match_Plus: "regex_match [(a, Plus)] s \<longleftrightarrow> s \<noteq> [] \<and> (\<forall>c \<in> set s. atom_matches a c)"
  by (cases s) (auto simp: regex_match_Star simp del: regex_match.simps(4))

text \<open>The three patterns of \<^verbatim>\<open>PathParam\<close>.\<close>

definition ID_REGEX :: string where "ID_REGEX = ''[0-9]+''"
definition USERNAME_REGEX :: string where "USERNAME_REGEX = ''[a-zA-Z0-9_]+''"
definition XML_REGEX :: string where "XML_REGEX = ''.*.xml''"

lemma parse_ID_REGEX: "parse_regex ID_REGEX = Some [(Class [(CHR ''0'', CHR ''9'')], Plus)]"
  by (simp add: ID_REGEX_def parse_regex.simps parse_atom_def class_item_def)

lemma parse_USERNAME_REGEX: "parse_regex USERNAME_REGEX =
    Some [(Class [(CHR ''a'', CHR ''z''), (CHR ''A'', CHR ''Z''), (CHR ''0'', CHR ''9''), (CHR ''_'', CHR ''_'')], Plus)]"
  by (simp add: USERNAME_REGEX_def parse_regex.simps parse_atom_def class_item_def)

lemma parse_XML_REGEX: "parse_regex XML_REGEX =
    Some [(AnyChar, Star), (AnyChar, Once), (Literal CHR ''x'', Once), (Literal CHR ''m'', Once), (Literal CHR ''l'', Once)]"
  by (simp add: XML_REGEX_def parse_regex.simps parse_atom_def special_char_def)

lemma in_digit_range: "in_range c (CHR ''0'', CHR ''9'') \<longleftrightarrow> is_digit c"
  by (simp add: in_range_def is_digit_def less_eq_char_def)

end
