(* ===== verification/Mux.thy ===== *)
theory Mux
  imports Http_Message Std_Regex
begin

text \<open>
  Routing (\<^verbatim>\<open>rest/server/mux/\<close> and \<^verbatim>\<open>rest/server/multiplexer.cpp\<close>): a path is cut into segments, a
  route's segments become matchers, the first registered route all of whose matchers accept the
  request's segments handles the request, after the access checks. An endpoint is the record of its
  two virtual operations, over any server state \<open>'s\<close>; the response is passed by reference in the
  code and is part of the state here.
\<close>

section \<open>Segments\<close>

definition split_step :: "string list \<times> string \<Rightarrow> char \<Rightarrow> string list \<times> string" where
  "split_step st ch = (case st of (segments, segment) \<Rightarrow>
     if ch = CHR ''/'' then (segments @ [segment], []) else (segments, segment @ [ch]))"

definition split_path :: "string \<Rightarrow> string list" where
  "split_path path =
     (if path = [] then []
      else (let start = (if hd path = CHR ''/'' then tl path else path);
                (segments, segment) = foldl split_step ([], []) start
            in if segment \<noteq> [] then segments @ [segment] else segments))"

datatype matcher =
    EmptyMatcher
  | VariableMatcher string
  | RegexMatcher string regex
  | StaticMatcher string

text \<open>An invalid pattern makes the \<^verbatim>\<open>std::regex\<close> constructor throw.\<close>

definition path_segment_to_matcher :: "string \<Rightarrow> matcher result" where
  "path_segment_to_matcher seg =
     (if seg = [] then Inr EmptyMatcher
      else if hd seg = CHR ''{'' \<and> last seg = CHR ''}''
      then (let trimmed = take (length seg - 2) (tl seg)
            in if CHR '':'' \<notin> set trimmed then Inr (VariableMatcher trimmed)
               else (let name = takeWhile (\<lambda>c. c \<noteq> CHR '':'') trimmed
                     in case parse_regex (drop (Suc (length name)) trimmed) of
                          None \<Rightarrow> Inl (StdExc ''regex_error'')
                        | Some r \<Rightarrow> Inr (RegexMatcher name r)))
      else Inr (StaticMatcher seg))"

fun chunks_to_matchers :: "string list \<Rightarrow> matcher list result" where
  "chunks_to_matchers [] = Inr []"
| "chunks_to_matchers (c # cs) =
     res_bind (path_segment_to_matcher c) (\<lambda>m. res_bind (chunks_to_matchers cs) (\<lambda>ms. Inr (m # ms)))"

definition path_to_segments :: "string \<Rightarrow> matcher list result" where
  "path_to_segments path = chunks_to_matchers (split_path path)"

fun check_match :: "matcher \<Rightarrow> string \<Rightarrow> bool" where
  "check_match EmptyMatcher seg \<longleftrightarrow> True"
| "check_match (VariableMatcher name) seg \<longleftrightarrow> seg \<noteq> []"
| "check_match (RegexMatcher name r) seg \<longleftrightarrow> regex_match r seg"
| "check_match (StaticMatcher pattern) seg \<longleftrightarrow> seg = pattern"

fun get_param :: "matcher \<Rightarrow> string \<Rightarrow> parameters \<Rightarrow> parameters" where
  "get_param EmptyMatcher seg ps = ps"
| "get_param (VariableMatcher name) seg ps = (if name \<noteq> [] then param_set name seg ps else ps)"
| "get_param (RegexMatcher name r) seg ps = (if name \<noteq> [] then param_set name seg ps else ps)"
| "get_param (StaticMatcher pattern) seg ps = ps"

definition segments_match :: "matcher list \<Rightarrow> string list \<Rightarrow> bool" where
  "segments_match ms segs \<longleftrightarrow> length ms = length segs \<and> list_all2 check_match ms segs"

fun collect_params :: "matcher list \<Rightarrow> string list \<Rightarrow> parameters \<Rightarrow> parameters" where
  "collect_params (m # ms) (seg # segs) ps = collect_params ms segs (get_param m seg ps)"
| "collect_params _ _ ps = ps"

definition collect_request_params :: "matcher list \<Rightarrow> string list \<Rightarrow> request \<Rightarrow> request" where
  "collect_request_params ms segs q = q\<lparr>req_params := collect_params ms segs (req_params q)\<rparr>"

section \<open>The multiplexer\<close>

datatype access_type = ACCESS_ALL | SSL_REQUIRED

type_synonym ('s, 'a) handler_action = "('s \<times> response, exn, 'a) action"

record 's endpoint =
  ep_path :: string
  ep_authen :: "request \<Rightarrow> string \<Rightarrow> ('s, exn, bool) action"
  ep_run :: "http_method \<Rightarrow> request \<Rightarrow> ('s, unit) handler_action"

record 's candidate =
  cand_segments :: "matcher list"
  cand_handler :: "'s endpoint"
  cand_path :: string
  cand_access :: access_type

type_synonym 's plugin = "request \<Rightarrow> ('s, unit) handler_action"

record 's mux =
  candidates :: "'s candidate list"
  pre_handlers :: "'s plugin list"
  post_handlers :: "'s plugin list"

definition use_before :: "'s plugin \<Rightarrow> 's mux \<Rightarrow> 's mux" where
  "use_before p mx = mx\<lparr>pre_handlers := pre_handlers mx @ [p]\<rparr>"

definition use_after :: "'s plugin \<Rightarrow> 's mux \<Rightarrow> 's mux" where
  "use_after p mx = mx\<lparr>pre_handlers := pre_handlers mx @ [p]\<rparr>"

definition register_handler :: "'s endpoint \<Rightarrow> access_type \<Rightarrow> 's mux \<Rightarrow> 's mux result" where
  "register_handler h access mx =
     (if List.find (\<lambda>c. cand_path c = ep_path h) (candidates mx) \<noteq> None then Inr mx
      else res_bind (path_to_segments (ep_path h))
             (\<lambda>segs. Inr (mx\<lparr>candidates := candidates mx @
                [\<lparr>cand_segments = segs, cand_handler = h, cand_path = ep_path h,
                  cand_access = access\<rparr>]\<rparr>)))"

definition select_handler :: "'s mux \<Rightarrow> string list \<Rightarrow> string \<Rightarrow> 's candidate result" where
  "select_handler mx segs uri =
     (case List.find (\<lambda>c. segments_match (cand_segments c) segs) (candidates mx) of
        Some c \<Rightarrow> Inr c
      | None \<Rightarrow> Inl (ServerExc (create_resource_missing_error uri
                  ''Invalid endpoint in /redfish/v1 namespace.'')))"

definition is_access_allowed :: "request \<Rightarrow> 's candidate \<Rightarrow> bool" where
  "is_access_allowed q c \<longleftrightarrow> cand_access c = ACCESS_ALL \<or> req_secure q"

text \<open>A change of the response alone, and a call that touches the server state alone.\<close>

definition on_response :: "(response \<Rightarrow> response) \<Rightarrow> ('s, unit) handler_action" where
  "on_response f st = (case st of (s, r) \<Rightarrow> (Inr (), (s, f r)))"

definition on_state :: "('s, exn, 'a) action \<Rightarrow> ('s, 'a) handler_action" where
  "on_state m st = (case st of (s, r) \<Rightarrow> (case m s of (x, s') \<Rightarrow> (x, (s', r))))"

fun method_name :: "http_method \<Rightarrow> string option" where
  "method_name GET = Some ''GET''"
| "method_name POST = Some ''POST''"
| "method_name PATCH = Some ''PATCH''"
| "method_name DELETE = Some ''DELETE''"
| "method_name PUT = Some ''PUT''"
| "method_name _ = None"

definition execute_handler :: "'s endpoint \<Rightarrow> request \<Rightarrow> bool \<Rightarrow> ('s, unit) handler_action" where
  "execute_handler h q is_exception_uri =
     (case method_name (req_method q) of
        Some name \<Rightarrow>
          act_bind (if is_exception_uri then act_return True else on_state (ep_authen h q name))
            (\<lambda>ok. if ok then ep_run h (req_method q) q
                  else on_response (http_method_not_authorized q))
      | None \<Rightarrow> on_response (http_method_not_allowed q))"

fun run_plugins :: "'s plugin list \<Rightarrow> request \<Rightarrow> ('s, unit) handler_action" where
  "run_plugins [] q = act_return ()"
| "run_plugins (p # ps) q = act_bind (p q) (\<lambda>_. run_plugins ps q)"

definition forward_to_handler :: "'s mux \<Rightarrow> request \<Rightarrow> ('s, unit) handler_action" where
  "forward_to_handler mx q =
     act_bind (run_plugins (pre_handlers mx) q) (\<lambda>_.
       (let segs = split_path (req_url q)
        in act_bind (act_read (\<lambda>_. select_handler mx segs (req_url q))) (\<lambda>c.
             if \<not> is_access_allowed q c
             then act_throw (ServerExc (create_unauthorized_error (req_url q)
                                          ''Secure connection is required.''))
             else execute_handler (cand_handler c)
                    (collect_request_params (cand_segments c) segs q) (cand_access c = ACCESS_ALL))))"

section \<open>Cutting paths\<close>

definition join_path :: "string list \<Rightarrow> string" where
  "join_path segs = concat (map (\<lambda>s. CHR ''/'' # s) segs)"

lemma join_path_simps [simp]:
  "join_path [] = []"
  "join_path (s # segs) = CHR ''/'' # s @ join_path segs"
  "join_path (xs @ ys) = join_path xs @ join_path ys"
  by (simp_all add: join_path_def)

lemma split_step_simps [simp]:
  "split_step (segs, seg) (CHR ''/'') = (segs @ [seg], [])"
  "c \<noteq> CHR ''/'' \<Longrightarrow> split_step (segs, seg) c = (segs, seg @ [c])"
  by (simp_all add: split_step_def)

lemma foldl_split_join:
  "foldl split_step (S, w) xs = (a, b) \<Longrightarrow> join_path (a @ [b]) = join_path (S @ [w]) @ xs"
proof (induction xs arbitrary: S w)
  case (Cons c xs)
  then show ?case by (cases "c = CHR ''/''") fastforce+
qed simp

lemma foldl_split_no_slash:
  "CHR ''/'' \<notin> set xs \<Longrightarrow> foldl split_step (S, w) xs = (S, w @ xs)"
  by (induction xs arbitrary: w) auto

lemma foldl_split_segments:
  "\<forall>s \<in> set segs. CHR ''/'' \<notin> set s \<Longrightarrow>
   \<exists>a b. foldl split_step (S, w) (join_path segs) = (a, b) \<and> a @ [b] = S @ w # segs"
proof (induction segs arbitrary: S w)
  case Nil
  then show ?case by simp
next
  case (Cons s segs)
  then have "foldl split_step (S @ [w], []) s = (S @ [w], s)"
    by (simp add: foldl_split_no_slash)
  moreover obtain a b where "foldl split_step (S @ [w], s) (join_path segs) = (a, b)"
    and "a @ [b] = (S @ [w]) @ s # segs"
    using Cons.IH [of "S @ [w]" s] Cons.prems by auto
  ultimately show ?case by simp
qed

lemma foldl_split_clean:
  "foldl split_step (S, w) xs = (a, b) \<Longrightarrow> \<forall>s \<in> set (w # S). CHR ''/'' \<notin> set s
     \<Longrightarrow> \<forall>s \<in> set (b # a). CHR ''/'' \<notin> set s"
proof (induction xs arbitrary: S w)
  case (Cons c xs)
  show ?case
  proof (cases "c = CHR ''/''")
    case True
    with Cons.prems(1) have "foldl split_step (S @ [w], []) xs = (a, b)" by simp
    then show ?thesis by (rule Cons.IH) (use Cons.prems(2) in auto)
  next
    case False
    with Cons.prems(1) have "foldl split_step (S, w @ [c]) xs = (a, b)" by simp
    then show ?thesis by (rule Cons.IH) (use Cons.prems(2) False in auto)
  qed
qed auto

lemma split_path_join_law:
  assumes "\<forall>s \<in> set segs. CHR ''/'' \<notin> set s" and "segs \<noteq> []"
  shows "split_path (join_path segs) = (if last segs = [] then butlast segs else segs)"
proof -
  obtain s rest where segs: "segs = s # rest" using assms(2) by (cases segs) auto
  have "foldl split_step ([], []) (s @ join_path rest) = foldl split_step ([], s) (join_path rest)"
    using assms(1) segs by (simp add: foldl_split_no_slash)
  then obtain a b where ab: "foldl split_step ([], []) (s @ join_path rest) = (a, b)" "a @ [b] = segs"
    using foldl_split_segments [of rest "[]" s] assms(1) segs by auto
  then have "last segs = b" "butlast segs = a" by (metis last_snoc, metis butlast_snoc)
  with ab segs show ?thesis by (auto simp: split_path_def)
qed

text \<open>
  The segments of an absolute path hold no slash, and joined again they are the path, up to one slash
  at its end.
\<close>

lemma join_split_path:
  assumes "path \<noteq> []" and "hd path = CHR ''/''"
  shows "path = join_path (split_path path) @ (if last path = CHR ''/'' then ''/'' else [])
     \<and> (\<forall>s \<in> set (split_path path). CHR ''/'' \<notin> set s)"
proof -
  obtain a b where ab: "foldl split_step ([], []) (tl path) = (a, b)" by force
  have path: "path = join_path (a @ [b])"
    using foldl_split_join [OF ab] assms by (cases path) auto
  have clean: "\<forall>s \<in> set (b # a). CHR ''/'' \<notin> set s"
    using foldl_split_clean [OF ab] by simp
  have split: "split_path path = (if b \<noteq> [] then a @ [b] else a)"
    using assms ab by (simp add: split_path_def)
  have "last path = CHR ''/'' \<longleftrightarrow> b = []"
    using path clean by (cases b rule: rev_cases) auto
  with path split clean show ?thesis by auto
qed

section \<open>Registration\<close>

definition mux_ok :: "'s mux \<Rightarrow> bool" where
  "mux_ok mx \<longleftrightarrow> distinct (map cand_path (candidates mx))
     \<and> (\<forall>c \<in> set (candidates mx). path_to_segments (cand_path c) = Inr (cand_segments c)
                                  \<and> ep_path (cand_handler c) = cand_path c)"

lemma register_handler_cases:
  assumes "register_handler h access mx = Inr mx'"
  obtains (old) "mx' = mx" "ep_path h \<in> cand_path ` set (candidates mx)"
  | (new) segs where "path_to_segments (ep_path h) = Inr segs"
      "ep_path h \<notin> cand_path ` set (candidates mx)"
      "mx' = mx\<lparr>candidates := candidates mx @ [\<lparr>cand_segments = segs, cand_handler = h,
                                              cand_path = ep_path h, cand_access = access\<rparr>]\<rparr>"
proof (cases "List.find (\<lambda>c. cand_path c = ep_path h) (candidates mx)")
  case None
  with assms obtain segs where "path_to_segments (ep_path h) = Inr segs"
    "mx' = mx\<lparr>candidates := candidates mx @ [\<lparr>cand_segments = segs, cand_handler = h,
                                              cand_path = ep_path h, cand_access = access\<rparr>]\<rparr>"
    by (auto simp: register_handler_def result_simps)
  moreover from None have "ep_path h \<notin> cand_path ` set (candidates mx)"
    by (auto simp: find_None_iff)
  ultimately show ?thesis using that(2) by blast
next
  case (Some c)
  with assms have "mx' = mx" by (simp add: register_handler_def)
  moreover from Some have "ep_path h \<in> cand_path ` set (candidates mx)"
    by (auto simp: find_Some_iff in_set_conv_nth intro!: image_eqI)
  ultimately show ?thesis using that(1) by blast
qed

text \<open>
  Registering keeps the routes distinct, and it never changes what an already routed request is
  routed to: the first registration wins.
\<close>

lemma register_handler_keeps_routes:
  assumes "register_handler h access mx = Inr mx'" and "mux_ok mx"
  shows "mux_ok mx'
    \<and> (\<forall>segs uri c. select_handler mx segs uri = Inr c \<longrightarrow> select_handler mx' segs uri = Inr c)"
  using assms(1)
proof (cases rule: register_handler_cases)
  case old
  with assms(2) show ?thesis by simp
next
  case (new segs)
  have "List.find P (xs @ ys) = Some c" if "List.find P xs = Some c" for P xs ys and c :: "'a candidate"
    using that by (induction xs) auto
  with new assms(2) show ?thesis
    by (auto simp: mux_ok_def select_handler_def split: option.splits)
qed

section \<open>Routes with a numeric id\<close>

lemma path_segment_static:
  "seg \<noteq> [] \<Longrightarrow> hd seg \<noteq> CHR ''{'' \<Longrightarrow> path_segment_to_matcher seg = Inr (StaticMatcher seg)"
  by (simp add: path_segment_to_matcher_def)

lemma chunks_static:
  "\<forall>s \<in> set segs. s \<noteq> [] \<and> hd s \<noteq> CHR ''{'' \<Longrightarrow>
   chunks_to_matchers (segs @ rest) = res_bind (chunks_to_matchers rest) (\<lambda>ms. Inr (map StaticMatcher segs @ ms))"
  by (induction segs) (auto simp: path_segment_static res_bind_assoc)

lemma path_segment_regex:
  assumes "CHR '':'' \<notin> set name" and "parse_regex rx = Some r"
  shows "path_segment_to_matcher (''{'' @ name @ '':'' @ rx @ ''}'') = Inr (RegexMatcher name r)"
proof -
  have t: "takeWhile (\<lambda>c. c \<noteq> CHR '':'') (name @ CHR '':'' # rx) = name"
    using assms(1) by (subst takeWhile_append2) auto
  show ?thesis using assms(2) by (simp add: path_segment_to_matcher_def t)
qed

lemma segments_match_static:
  "segments_match (map StaticMatcher base @ [m]) segs
     \<longleftrightarrow> (\<exists>d. segs = base @ [d] \<and> check_match m d)"
proof -
  have "list_all2 check_match (map StaticMatcher base @ [m]) segs
      \<longleftrightarrow> (\<exists>d. segs = base @ [d] \<and> check_match m d)"
  proof (induction base arbitrary: segs)
    case Nil
    then show ?case by (auto simp: list_all2_Cons1)
  next
    case (Cons b base)
    then show ?case by (cases segs) auto
  qed
  then show ?thesis by (auto simp: segments_match_def)
qed

lemma collect_params_static:
  "collect_params (map StaticMatcher base @ [m]) (base @ [d]) ps = get_param m d ps"
  by (induction base arbitrary: ps) auto

text \<open>
  A route that ends in \<^verbatim>\<open>{name:[0-9]+}\<close> accepts exactly its own prefix followed by one or more digits,
  and hands the digits to the handler under that name.
\<close>

lemma id_route:
  assumes base: "\<forall>s \<in> set base. s \<noteq> [] \<and> hd s \<noteq> CHR ''{'' \<and> CHR ''/'' \<notin> set s"
    and name: "CHR '':'' \<notin> set name" "CHR ''/'' \<notin> set name" "name \<noteq> []"
    and route: "path_to_segments (path_append_regex name ID_REGEX (join_path base)) = ms"
  shows "\<exists>r. ms = Inr r \<and>
    (\<forall>segs. segments_match r segs \<longleftrightarrow> (\<exists>d. segs = base @ [d] \<and> d \<noteq> [] \<and> (\<forall>c \<in> set d. is_digit c)))
    \<and> (\<forall>d ps. collect_params r (base @ [d]) ps = param_set name d ps)"
proof -
  let ?seg = "''{'' @ name @ '':'' @ ID_REGEX @ ''}''"
  have "path_append_regex name ID_REGEX (join_path base) = join_path (base @ [?seg])"
    by (simp add: path_append_regex_def)
  then have "split_path (path_append_regex name ID_REGEX (join_path base)) = base @ [?seg]"
    using base name split_path_join_law [of "base @ [?seg]"] by (auto simp: ID_REGEX_def)
  then have "ms = Inr (map StaticMatcher base @
      [RegexMatcher name [(Class [(CHR ''0'', CHR ''9'')], Plus)]])"
    using route base name(1)
    by (simp add: path_to_segments_def chunks_static path_segment_regex [OF _ parse_ID_REGEX, simplified])
  then show ?thesis
    using name(3) by (auto simp: segments_match_static collect_params_static regex_match_Plus in_digit_range
        simp del: regex_match.simps)
qed

section \<open>Access checks\<close>

text \<open>What becomes of a request on a protected route, by the outcome of each check in turn.\<close>

lemma forward_protected:
  assumes "select_handler mx (split_path (req_url q)) (req_url q) = Inr c"
    and "cand_access c = SSL_REQUIRED" and "pre_handlers mx = []"
    and "q' = collect_request_params (cand_segments c) (split_path (req_url q)) q"
  shows "\<not> req_secure q \<Longrightarrow> forward_to_handler mx q (s, r) =
           (Inl (ServerExc (create_unauthorized_error (req_url q) ''Secure connection is required.'')), (s, r))"
    and "req_secure q \<Longrightarrow> method_name (req_method q) = None \<Longrightarrow> forward_to_handler mx q (s, r) =
           (Inr (), (s, http_method_not_allowed q' r))"
    and "req_secure q \<Longrightarrow> method_name (req_method q) = Some n \<Longrightarrow>
           ep_authen (cand_handler c) q' n s = (Inl e, s') \<Longrightarrow>
           forward_to_handler mx q (s, r) = (Inl e, (s', r))"
    and "req_secure q \<Longrightarrow> method_name (req_method q) = Some n \<Longrightarrow>
           ep_authen (cand_handler c) q' n s = (Inr False, s') \<Longrightarrow>
           forward_to_handler mx q (s, r) = (Inr (), (s', http_method_not_authorized q' r))"
    and "req_secure q \<Longrightarrow> method_name (req_method q) = Some n \<Longrightarrow>
           ep_authen (cand_handler c) q' n s = (Inr True, s') \<Longrightarrow>
           forward_to_handler mx q (s, r) = ep_run (cand_handler c) (req_method q) q' (s', r)"
proof -
  have meth: "req_method q' = req_method q"
    using assms(4) by (simp add: collect_request_params_def)
  have fwd: "forward_to_handler mx q (s, r) =
      (if \<not> req_secure q
       then (Inl (ServerExc (create_unauthorized_error (req_url q) ''Secure connection is required.'')), (s, r))
       else execute_handler (cand_handler c) q' False (s, r))"
    using assms by (simp add: forward_to_handler_def is_access_allowed_def act_read_def act_bind_def
        act_throw_def act_return_def Let_def)
  show "\<not> req_secure q \<Longrightarrow> forward_to_handler mx q (s, r) =
      (Inl (ServerExc (create_unauthorized_error (req_url q) ''Secure connection is required.'')), (s, r))"
    by (simp add: fwd)
  show "req_secure q \<Longrightarrow> method_name (req_method q) = None \<Longrightarrow> forward_to_handler mx q (s, r) =
      (Inr (), (s, http_method_not_allowed q' r))"
    by (simp add: fwd execute_handler_def meth on_response_def)
  assume "req_secure q" "method_name (req_method q) = Some n"
  then have run: "forward_to_handler mx q (s, r) =
      act_bind (on_state (ep_authen (cand_handler c) q' n))
        (\<lambda>ok. if ok then ep_run (cand_handler c) (req_method q) q'
              else on_response (http_method_not_authorized q')) (s, r)"
    unfolding fwd execute_handler_def meth by simp
  show "ep_authen (cand_handler c) q' n s = (Inl e, s') \<Longrightarrow>
      forward_to_handler mx q (s, r) = (Inl e, (s', r))"
    and "ep_authen (cand_handler c) q' n s = (Inr False, s') \<Longrightarrow>
      forward_to_handler mx q (s, r) = (Inr (), (s', http_method_not_authorized q' r))"
    and "ep_authen (cand_handler c) q' n s = (Inr True, s') \<Longrightarrow>
      forward_to_handler mx q (s, r) = ep_run (cand_handler c) (req_method q) q' (s', r)"
    by (simp_all add: run act_bind_def on_state_def on_response_def)
qed

text \<open>Plugins meant to run after the handler run before it.\<close>

lemma use_after_is_use_before: "use_after p mx = use_before p mx"
  by (simp add: use_after_def use_before_def)

end
