(* ===== verification/Json_Value.thy ===== *)
theory Json_Value
  imports Error_Factory
begin

text \<open>
  JSON values (\<^verbatim>\<open>common/json-cxx\<close>, \<^verbatim>\<open>value.cpp\<close> and \<^verbatim>\<open>number.cpp\<close>): the tagged union as a datatype, an
  object as the list of its members in the order they were added. A double is kept as the
  expression the code evaluates to compute it; what the floating-point unit does with one is
  the record \<open>fpu\<close>, an argument of the operations that need it.
\<close>

section \<open>Numbers\<close>

datatype dbl =
    DTenth
  | DNat nat
  | DOfUint "64 word"
  | DOfInt "64 word"
  | DBits "64 word"
  | DAdd dbl dbl
  | DSub dbl dbl
  | DMul dbl dbl
  | DPow dbl "64 word"
  | DLit string
  | DNeg dbl
  | DFabs dbl
  | DFmod dbl dbl

record fpu =
  fpu_to_int64 :: "dbl \<Rightarrow> 64 word"
  fpu_to_uint64 :: "dbl \<Rightarrow> 64 word"
  fpu_print :: "dbl \<Rightarrow> string"
  fpu_less :: "dbl \<Rightarrow> dbl \<Rightarrow> bool"
  fpu_near :: "dbl \<Rightarrow> dbl \<Rightarrow> bool"

datatype number = NInt "64 word" | NUint "64 word" | NDouble dbl

fun number_Uint64 :: "fpu \<Rightarrow> number \<Rightarrow> 64 word" where
  "number_Uint64 fp (NInt i) = i"
| "number_Uint64 fp (NUint u) = u"
| "number_Uint64 fp (NDouble d) = fpu_to_uint64 fp d"

fun number_Int64 :: "fpu \<Rightarrow> number \<Rightarrow> 64 word" where
  "number_Int64 fp (NInt i) = i"
| "number_Int64 fp (NUint u) = u"
| "number_Int64 fp (NDouble d) = fpu_to_int64 fp d"

definition number_Uint :: "fpu \<Rightarrow> number \<Rightarrow> 32 word" where
  "number_Uint fp n = ucast (number_Uint64 fp n)"

definition number_Int :: "fpu \<Rightarrow> number \<Rightarrow> 32 word" where
  "number_Int fp n = ucast (number_Int64 fp n)"

fun number_Double :: "number \<Rightarrow> dbl" where
  "number_Double (NInt i) = DOfInt i"
| "number_Double (NUint u) = DOfUint u"
| "number_Double (NDouble d) = d"

text \<open>\<open>+=\<close> and \<open><\<close> read the right operand at 32 bits.\<close>

fun number_add :: "fpu \<Rightarrow> number \<Rightarrow> number \<Rightarrow> number" where
  "number_add fp (NInt i) n = NInt (i + scast (number_Int fp n))"
| "number_add fp (NUint u) n = NUint (u + ucast (number_Uint fp n))"
| "number_add fp (NDouble d) n = NDouble (DAdd d (number_Double n))"

fun number_eq :: "fpu \<Rightarrow> number \<Rightarrow> number \<Rightarrow> bool" where
  "number_eq fp (NInt i) n \<longleftrightarrow> i = number_Int64 fp n"
| "number_eq fp (NUint u) n \<longleftrightarrow> u = number_Uint64 fp n"
| "number_eq fp (NDouble d) n \<longleftrightarrow> fpu_near fp d (number_Double n)"

fun number_less :: "fpu \<Rightarrow> number \<Rightarrow> number \<Rightarrow> bool" where
  "number_less fp (NInt i) n \<longleftrightarrow> sint i < sint (number_Int fp n)"
| "number_less fp (NUint u) n \<longleftrightarrow> u < ucast (number_Uint fp n)"
| "number_less fp (NDouble d) n \<longleftrightarrow> fpu_less fp d (number_Double n)"

section \<open>Values\<close>

datatype json =
    JNil
  | JBool bool
  | JNumber number
  | JString string
  | JArray "json list"
  | JObject "(string \<times> json) list"

fun is_object :: "json \<Rightarrow> bool" where
  "is_object (JObject ms) \<longleftrightarrow> True" | "is_object _ \<longleftrightarrow> False"

fun is_array :: "json \<Rightarrow> bool" where
  "is_array (JArray xs) \<longleftrightarrow> True" | "is_array _ \<longleftrightarrow> False"

fun is_string :: "json \<Rightarrow> bool" where
  "is_string (JString s) \<longleftrightarrow> True" | "is_string _ \<longleftrightarrow> False"

fun is_number :: "json \<Rightarrow> bool" where
  "is_number (JNumber n) \<longleftrightarrow> True" | "is_number _ \<longleftrightarrow> False"

fun is_boolean :: "json \<Rightarrow> bool" where
  "is_boolean (JBool b) \<longleftrightarrow> True" | "is_boolean _ \<longleftrightarrow> False"

definition is_null :: "json \<Rightarrow> bool" where
  "is_null v \<longleftrightarrow> v = JNil"

fun json_size :: "json \<Rightarrow> nat" where
  "json_size (JObject ms) = length ms"
| "json_size (JArray xs) = length xs"
| "json_size _ = 0"

fun json_clear :: "json \<Rightarrow> json" where
  "json_clear (JObject ms) = JObject []"
| "json_clear (JArray xs) = JArray []"
| "json_clear (JString s) = JString []"
| "json_clear (JNumber n) = JNumber (NInt 0)"
| "json_clear (JBool b) = JBool False"
| "json_clear JNil = JNil"

subsection \<open>Members\<close>

fun is_member :: "json \<Rightarrow> string \<Rightarrow> bool" where
  "is_member (JObject ms) key \<longleftrightarrow> (\<exists>m \<in> set ms. key = fst m)"
| "is_member _ key \<longleftrightarrow> False"

fun erase_member :: "string \<Rightarrow> (string \<times> json) list \<Rightarrow> (string \<times> json) list" where
  "erase_member key [] = []"
| "erase_member key (m # ms) = (if key = fst m then ms else m # erase_member key ms)"

fun json_erase :: "string \<Rightarrow> json \<Rightarrow> nat \<times> json" where
  "json_erase key (JObject ms) =
     (if is_member (JObject ms) key then (1, JObject (erase_member key ms)) else (0, JObject ms))"
| "json_erase key v = (0, v)"

text \<open>\<open>operator[]\<close> on a constant value, and the assignment \<open>v[key] = x\<close>.\<close>

fun get_member :: "json \<Rightarrow> string \<Rightarrow> json" where
  "get_member (JObject ms) key = (case map_of ms key of Some v \<Rightarrow> v | None \<Rightarrow> JNil)"
| "get_member v key = v"

fun update_member :: "string \<Rightarrow> json \<Rightarrow> (string \<times> json) list \<Rightarrow> (string \<times> json) list" where
  "update_member key x [] = [(key, x)]"
| "update_member key x (m # ms) = (if key = fst m then (key, x) # ms else m # update_member key x ms)"

fun set_member :: "string \<Rightarrow> json \<Rightarrow> json \<Rightarrow> json" where
  "set_member key x (JObject ms) = JObject (update_member key x ms)"
| "set_member key x JNil = JObject [(key, x)]"
| "set_member key x v = x"

definition json_object :: "(string \<times> json) list \<Rightarrow> json" where
  "json_object init_list = foldl (\<lambda>v m. set_member (fst m) (snd m) v) (JObject []) init_list"

fun json_push_back :: "json \<Rightarrow> json \<Rightarrow> json" where
  "json_push_back x JNil = JArray [x]"
| "json_push_back x (JArray xs) = JArray (xs @ [x])"
| "json_push_back x v = v"

fun json_push_pair :: "string \<times> json \<Rightarrow> json \<Rightarrow> json" where
  "json_push_pair m JNil = JObject [m]"
| "json_push_pair m (JObject ms) = JObject (update_member (fst m) (snd m) ms)"
| "json_push_pair m (JArray xs) = JArray (xs @ [JObject [m]])"
| "json_push_pair m v = v"

text \<open>\<open>+=\<close>\<close>

fun json_append :: "fpu \<Rightarrow> json \<Rightarrow> json \<Rightarrow> json" where
  "json_append fp (JObject ms) v =
     (case v of JObject ns \<Rightarrow> foldl (\<lambda>w m. set_member (fst m) (snd m) w) (JObject ms) ns | _ \<Rightarrow> JObject ms)"
| "json_append fp (JArray xs) v =
     (case v of JArray ys \<Rightarrow> JArray (xs @ ys)
      | JObject ns \<Rightarrow> JArray (xs @ map (\<lambda>m. JObject [m]) ns)
      | _ \<Rightarrow> JArray (xs @ [v]))"
| "json_append fp (JString s) v = (case v of JString t \<Rightarrow> JString (s @ t) | _ \<Rightarrow> JString s)"
| "json_append fp (JNumber n) v = (case v of JNumber k \<Rightarrow> JNumber (number_add fp n k) | _ \<Rightarrow> JNumber n)"
| "json_append fp JNil v = v"
| "json_append fp (JBool b) v = JBool b"

subsection \<open>Typed reads\<close>

text \<open>Reading a value as another type throws \<^verbatim>\<open>Value::Exception\<close>, a \<^verbatim>\<open>std::runtime_error\<close>.\<close>

fun as_string :: "json \<Rightarrow> string result" where
  "as_string (JString s) = Inr s"
| "as_string _ = Inl (StdExc (''JSON isn'' @ [CHR 0x27] @ ''t a string''))"

fun as_bool :: "json \<Rightarrow> bool result" where
  "as_bool (JBool b) = Inr b"
| "as_bool _ = Inl (StdExc (''JSON isn'' @ [CHR 0x27] @ ''t a boolean''))"

fun as_number :: "json \<Rightarrow> number result" where
  "as_number (JNumber n) = Inr n"
| "as_number _ = Inl (StdExc (''JSON isn'' @ [CHR 0x27] @ ''t a number''))"

definition as_int :: "fpu \<Rightarrow> json \<Rightarrow> 32 word result" where
  "as_int fp v = res_bind (as_number v) (\<lambda>n. Inr (number_Int fp n))"

definition as_uint :: "fpu \<Rightarrow> json \<Rightarrow> 32 word result" where
  "as_uint fp v = res_bind (as_number v) (\<lambda>n. Inr (number_Uint fp n))"

definition as_int64 :: "fpu \<Rightarrow> json \<Rightarrow> 64 word result" where
  "as_int64 fp v = res_bind (as_number v) (\<lambda>n. Inr (number_Int64 fp n))"

definition as_uint64 :: "fpu \<Rightarrow> json \<Rightarrow> 64 word result" where
  "as_uint64 fp v = res_bind (as_number v) (\<lambda>n. Inr (number_Uint64 fp n))"

definition as_double :: "json \<Rightarrow> dbl result" where
  "as_double v = res_bind (as_number v) (\<lambda>n. Inr (number_Double n))"

fun as_array :: "json \<Rightarrow> json list result" where
  "as_array (JArray xs) = Inr xs"
| "as_array _ = Inl (StdExc (''JSON isn'' @ [CHR 0x27] @ ''t an array''))"

fun as_object :: "json \<Rightarrow> (string \<times> json) list result" where
  "as_object (JObject ms) = Inr ms"
| "as_object _ = Inl (StdExc (''JSON isn'' @ [CHR 0x27] @ ''t an object''))"

text \<open>\<open>begin() .. end()\<close> of a constant value: a scalar is a range whose begin and end are the same place.\<close>

fun json_elements :: "json \<Rightarrow> json list" where
  "json_elements (JArray xs) = xs"
| "json_elements (JObject ms) = map snd ms"
| "json_elements _ = []"

section \<open>Well-formed values\<close>

text \<open>No object, at any depth, has a member twice.\<close>

fun json_wf :: "json \<Rightarrow> bool" where
  "json_wf (JArray xs) \<longleftrightarrow> (\<forall>x \<in> set xs. json_wf x)"
| "json_wf (JObject ms) \<longleftrightarrow> distinct (map fst ms) \<and> (\<forall>m \<in> set ms. json_wf (snd m))"
| "json_wf _ \<longleftrightarrow> True"

lemma map_of_update_member [simp, store_simps]:
  "map_of (update_member key x ms) = (map_of ms)(key \<mapsto> x)"
  by (induction ms) (auto simp: fun_eq_iff)

lemma fst_update_member [simp]:
  "fst ` set (update_member key x ms) = insert key (fst ` set ms)"
  by (induction ms) auto

lemma distinct_update_member [simp, inv_intros]:
  "distinct (map fst ms) \<Longrightarrow> distinct (map fst (update_member key x ms))"
  by (induction ms) (auto simp: image_iff dest: arg_cong [of _ _ fst])

lemma set_update_member:
  "set (update_member key x ms) \<subseteq> insert (key, x) (set ms)"
  by (induction ms) auto

lemma is_member_iff: "is_member (JObject ms) key \<longleftrightarrow> map_of ms key \<noteq> None"
  by (auto simp: map_of_eq_None_iff)

lemma map_of_erase_member [store_simps]:
  "distinct (map fst ms) \<Longrightarrow> map_of (erase_member key ms) = (map_of ms)(key := None)"
  by (induction ms) (auto simp: fun_eq_iff map_of_eq_None_iff)

lemma json_wf_set_member [inv_intros]:
  assumes "json_wf v" "json_wf x" "is_object v \<or> v = JNil"
  shows "json_wf (set_member key x v)"
  using assms set_update_member by (cases v) fastforce+

lemma get_set_member [simp, store_simps]:
  "is_object v \<or> v = JNil \<Longrightarrow>
   get_member (set_member key x v) key' = (if key' = key then x else if v = JNil then JNil else get_member v key')"
  by (cases v) auto

lemma set_member_object [simp]: "is_object v \<or> v = JNil \<Longrightarrow> is_object (set_member key x v)"
  by (cases v) auto


end
