(* ===== verification/Session_Manager.thy ===== *)
theory Session_Manager
  imports Std_Map Json_Value
begin

text \<open>
  The login sessions (\<^verbatim>\<open>rest/session/manager/session_manager.cpp\<close>). Each operation below is one
  critical section of the manager's mutex; the calls made of several of them are composed with
  \<open>act_bind\<close>. The clock is an argument, in milliseconds, as the 64-bit value \<^verbatim>\<open>gettimeofday\<close> is folded
  into. Ids and the configured maximum are \<open>uint64_t\<close> and \<open>uint32_t\<close> counters, kept as numbers: the
  search for a free id visits at most one id more than there are sessions (\<open>first_free_id_le\<close>), so
  its 32-bit variable does not wrap with fewer than \<open>2^32 - 1\<close> sessions.
\<close>

record session =
  sess_id :: nat
  sess_token :: string
  sess_srcip :: string
  sess_username :: string
  sess_password :: string
  sess_role :: string
  sess_time :: "64 word"

record session_manager =
  max_sessions :: nat
  session_timeout :: "64 word"
  session_enabled :: bool
  basic_enabled :: bool
  sessions :: "(string, session) smap"

definition new_session_manager :: session_manager where
  "new_session_manager = \<lparr>max_sessions = 20, session_timeout = 600, session_enabled = False,
     basic_enabled = False, sessions = []\<rparr>"

type_synonym 'a sm_action = "(session_manager, exn, 'a) action"

definition session_named_missing :: "string \<Rightarrow> exn" where
  "session_named_missing u = Gami (not_found_exc (''Session '' @ [CHR 0x27] @ u @ [CHR 0x27] @ '' not found.''))"

definition session_id_missing :: "nat \<Rightarrow> exn" where
  "session_id_missing i = Gami (not_found_exc (''Session (ID: '' @ dec_of_nat i @ '') not found.''))"

section \<open>Configuration\<close>

definition delAllSession :: "session_manager \<Rightarrow> session_manager" where
  "delAllSession mgr = mgr\<lparr>sessions := []\<rparr>"

definition SetSessionConfigEnable :: "bool \<Rightarrow> session_manager \<Rightarrow> session_manager" where
  "SetSessionConfigEnable enable mgr =
     (if enable = False then delAllSession mgr else mgr)\<lparr>session_enabled := enable\<rparr>"

definition SetBasicAuthenServiceConfigEnable :: "bool \<Rightarrow> session_manager \<Rightarrow> session_manager" where
  "SetBasicAuthenServiceConfigEnable enable mgr = mgr\<lparr>basic_enabled := enable\<rparr>"

definition SetSessionConfigTimeOut :: "64 word \<Rightarrow> session_manager \<Rightarrow> session_manager" where
  "SetSessionConfigTimeOut t mgr = mgr\<lparr>session_timeout := t\<rparr>"

definition SetSessionConfigMaxSessions :: "nat \<Rightarrow> session_manager \<Rightarrow> session_manager" where
  "SetSessionConfigMaxSessions n mgr = mgr\<lparr>max_sessions := n\<rparr>"

text \<open>
  The saved settings, and \<open>addSessionConfig\<close>, which takes them over one by one: a member of the wrong
  type stops it after the ones before it.
\<close>

definition session_config_to_json :: "session_manager \<Rightarrow> json" where
  "session_config_to_json mgr = json_object
     [(''BasicAuthenEnabled'', JBool (basic_enabled mgr)), (''ServiceEnabled'', JBool (session_enabled mgr)),
      (''SessionTimeout'', JNumber (NUint (session_timeout mgr))),
      (''SessionMaxSessions'', JNumber (NUint (of_nat (max_sessions mgr))))]"

definition addSessionConfig :: "fpu \<Rightarrow> json \<Rightarrow> unit sm_action" where
  "addSessionConfig fp j =
     act_bind (act_read (\<lambda>_. as_bool (get_member j ''BasicAuthenEnabled''))) (\<lambda>b.
     act_bind (act_modify (SetBasicAuthenServiceConfigEnable b)) (\<lambda>_.
     act_bind (act_read (\<lambda>_. as_bool (get_member j ''ServiceEnabled''))) (\<lambda>e.
     act_bind (act_modify (SetSessionConfigEnable e)) (\<lambda>_.
     act_bind (act_read (\<lambda>_. as_uint64 fp (get_member j ''SessionTimeout''))) (\<lambda>t.
     act_bind (act_modify (SetSessionConfigTimeOut t)) (\<lambda>_.
     act_bind (act_read (\<lambda>_. as_uint64 fp (get_member j ''SessionMaxSessions''))) (\<lambda>m.
     act_modify (SetSessionConfigMaxSessions (unat m)))))))))"

lemma session_config_round_trip:
  assumes "max_sessions mgr < 2 ^ 64"
  shows "addSessionConfig fp (session_config_to_json mgr) mgr' =
    (Inr (), mgr'\<lparr>basic_enabled := basic_enabled mgr, session_enabled := session_enabled mgr,
       session_timeout := session_timeout mgr, max_sessions := max_sessions mgr,
       sessions := (if session_enabled mgr then sessions mgr' else [])\<rparr>)"
  using assms
  by (cases mgr')
    (simp add: addSessionConfig_def session_config_to_json_def json_object_def act_bind_def act_read_def
      act_modify_def as_uint64_def SetSessionConfigEnable_def SetBasicAuthenServiceConfigEnable_def
      SetSessionConfigTimeOut_def SetSessionConfigMaxSessions_def delAllSession_def unat_of_nat)

section \<open>Adding\<close>

text \<open>
  The first id from 1 that no session has, or \<open>MaxSessions + 1\<close> if there is none up to the maximum.
  The loop runs over a copy of the sessions sorted by id; only membership is asked of it.
\<close>

function first_free_id :: "nat list \<Rightarrow> nat \<Rightarrow> nat \<Rightarrow> nat" where
  "first_free_id used maximum i =
     (if i \<le> maximum then (if i \<in> set used then first_free_id used maximum (Suc i) else i) else i)"
  by pat_completeness auto
termination
  by (relation "measure (\<lambda>(used, maximum, i). Suc maximum - i)") auto

declare first_free_id.simps [simp del]

definition used_ids :: "(string, session) smap \<Rightarrow> nat list" where
  "used_ids m = map (sess_id \<circ> snd) m"

definition addSession :: "session \<Rightarrow> bool \<Rightarrow> 64 word \<Rightarrow> nat sm_action" where
  "addSession s isupdate now mgr =
     (if map_of (sessions mgr) (sess_username s) \<noteq> None
      then (Inl (ServerExc (create_resource_already_exists_error
              (''Session '' @ [CHR 0x27] @ sess_username s @ [CHR 0x27] @ '' already exists.''))), mgr)
      else (let i = (if isupdate = False
                     then first_free_id (used_ids (sessions mgr)) (max_sessions mgr) 1 else 0);
                s1 = (if isupdate = False then s\<lparr>sess_id := i\<rparr> else s);
                s2 = s1\<lparr>sess_time := now\<rparr>
            in (Inr i, mgr\<lparr>sessions := smap_put (sess_username s2) s2 (sessions mgr)\<rparr>)))"

section \<open>Looking up\<close>

definition getSession_by_name :: "session_manager \<Rightarrow> string \<Rightarrow> session result" where
  "getSession_by_name mgr u =
     (case map_of (sessions mgr) u of None \<Rightarrow> Inl (session_named_missing u) | Some s \<Rightarrow> Inr s)"

definition checkSession_by_name :: "session_manager \<Rightarrow> string \<Rightarrow> bool" where
  "checkSession_by_name mgr u \<longleftrightarrow> map_of (sessions mgr) u \<noteq> None"

definition getSession_by_Token :: "session_manager \<Rightarrow> string \<Rightarrow> session result" where
  "getSession_by_Token mgr token =
     (case List.find (\<lambda>e. sess_token (snd e) = token) (sessions mgr) of
        Some e \<Rightarrow> Inr (snd e)
      | None \<Rightarrow> Inl (Gami (not_found_exc ''Session not found.'')))"

definition getSession_by_id :: "session_manager \<Rightarrow> nat \<Rightarrow> session result" where
  "getSession_by_id mgr i =
     (case entry_by_id sess_id i (sessions mgr) of
        Some e \<Rightarrow> getSession_by_name mgr (sess_username (snd e))
      | None \<Rightarrow> Inl (session_id_missing i))"

definition Session_size :: "session_manager \<Rightarrow> nat" where
  "Session_size mgr = length (sessions mgr)"

section \<open>Removing\<close>

definition delSession_by_name :: "string \<Rightarrow> unit sm_action" where
  "delSession_by_name u mgr =
     (if map_of (sessions mgr) u = None then (Inl (session_named_missing u), mgr)
      else (Inr (), mgr\<lparr>sessions := smap_erase u (sessions mgr)\<rparr>))"

definition delSession_by_id :: "nat \<Rightarrow> unit sm_action" where
  "delSession_by_id i mgr =
     (case entry_by_id sess_id i (sessions mgr) of
        Some e \<Rightarrow> delSession_by_name (sess_username (snd e)) mgr
      | None \<Rightarrow> (Inl (session_id_missing i), mgr))"

section \<open>Refreshing and expiring\<close>

definition updateSessionTimestamp :: "string \<Rightarrow> string \<Rightarrow> 64 word \<Rightarrow> bool sm_action" where
  "updateSessionTimestamp token src_ip now =
     (if length token \<noteq> 0
      then act_bind (act_read (\<lambda>mgr. getSession_by_Token mgr token)) (\<lambda>s.
             if sess_token s = token
             then act_bind (delSession_by_name (sess_username s)) (\<lambda>_.
                    act_bind (addSession s True now) (\<lambda>_.
                      act_return (src_ip = sess_srcip s)))
             else act_return False)
      else act_return False)"

definition session_expired :: "64 word \<Rightarrow> 64 word \<Rightarrow> session \<Rightarrow> bool" where
  "session_expired now timeout s \<longleftrightarrow> (now - sess_time s) div 1000 \<ge> timeout"

text \<open>One round of \<open>CheckSessionTimeout\<close>: over a copy of the sessions, each expired one is removed by id.\<close>

fun expire_all :: "64 word \<Rightarrow> 64 word \<Rightarrow> (string \<times> session) list \<Rightarrow> unit sm_action" where
  "expire_all now timeout [] = act_return ()"
| "expire_all now timeout (item # items) =
     (if session_expired now timeout (snd item)
      then act_bind (delSession_by_id (sess_id (snd item))) (\<lambda>_. expire_all now timeout items)
      else expire_all now timeout items)"

definition CheckSessionTimeout_round :: "64 word \<Rightarrow> unit sm_action" where
  "CheckSessionTimeout_round now mgr = expire_all now (session_timeout mgr) (sessions mgr) mgr"

section \<open>The invariant\<close>

definition sessions_ok :: "session_manager \<Rightarrow> bool" where
  "sessions_ok mgr \<longleftrightarrow> registry_ok sess_username sess_id (sessions mgr)"

interpretation session_registry: named_registry map_of smap_put smap_erase "\<lambda>m. m" smap_ok
  sess_username sess_id "registry_ok sess_username sess_id"
  by unfold_locales (rule registry_ok_iff)

lemma first_free_id_bounds:
  "i \<le> Suc maximum \<Longrightarrow> i \<le> first_free_id used maximum i \<and> first_free_id used maximum i \<le> Suc maximum"
proof (induction used maximum i rule: first_free_id.induct)
  case (1 used maximum i)
  then show ?case by (subst (1 2) first_free_id.simps) fastforce
qed

lemma first_free_id_skipped:
  "i \<le> j \<Longrightarrow> j < first_free_id used maximum i \<Longrightarrow> j \<in> set used"
proof (induction used maximum i rule: first_free_id.induct)
  case (1 used maximum i)
  with first_free_id.simps [of used maximum i] show ?case
    by (cases "i = j") (auto split: if_splits)
qed

lemma first_free_id_unused:
  "first_free_id used maximum i \<le> maximum \<Longrightarrow> first_free_id used maximum i \<notin> set used"
proof (induction used maximum i rule: first_free_id.induct)
  case (1 used maximum i)
  then show ?case by (auto simp: first_free_id.simps [of used maximum i] split: if_splits)
qed

lemma first_free_id_le: "first_free_id used maximum 1 \<le> Suc (length used)"
proof -
  obtain i where "1 \<le> i" "i \<le> Suc (length used)" "i \<notin> set used"
    using pigeonhole_free by blast
  then show ?thesis using first_free_id_skipped [of 1 i used maximum] by force
qed

lemma first_free_id_room:
  assumes "length used < maximum"
  shows "first_free_id used maximum 1 \<notin> set used
    \<and> 1 \<le> first_free_id used maximum 1 \<and> first_free_id used maximum 1 \<le> maximum"
proof -
  have "first_free_id used maximum 1 \<le> maximum"
    using first_free_id_le [of used maximum] assms by simp
  moreover have "1 \<le> first_free_id used maximum 1"
    using first_free_id_bounds [of 1 maximum used] by simp
  ultimately show ?thesis by (simp add: first_free_id_unused)
qed

lemma used_ids_iff:
  "smap_ok m \<Longrightarrow> i \<in> set (used_ids m) \<longleftrightarrow> (\<exists>k v. map_of m k = Some v \<and> sess_id v = i)"
  by (auto simp: used_ids_def simp flip: smap_ok_in_set) (metis image_eqI snd_conv)+

lemma length_used_ids [simp]: "length (used_ids m) = length m"
  by (simp add: used_ids_def)

section \<open>What the operations do\<close>

lemma addSession_fresh:
  assumes "map_of (sessions mgr) (sess_username s) = None"
  shows "addSession s False now mgr =
    (let i = first_free_id (used_ids (sessions mgr)) (max_sessions mgr) 1
     in (Inr i, mgr\<lparr>sessions := smap_put (sess_username s) (s\<lparr>sess_id := i, sess_time := now\<rparr>) (sessions mgr)\<rparr>))"
  using assms by (simp add: addSession_def Let_def)

text \<open>
  A new session, where there is room: it gets the smallest id no session has, between 1 and the
  maximum, it is found under its name with that id and the current time, the other sessions stay,
  and the invariant is kept.
\<close>

lemma addSession_law:
  assumes "sessions_ok mgr" and "Session_size mgr < max_sessions mgr"
    and "map_of (sessions mgr) (sess_username s) = None"
  shows "\<exists>i mgr'. addSession s False now mgr = (Inr i, mgr')
    \<and> 1 \<le> i \<and> i \<le> max_sessions mgr
    \<and> (\<forall>u v. map_of (sessions mgr) u = Some v \<longrightarrow> sess_id v \<noteq> i)
    \<and> (\<forall>j. 1 \<le> j \<longrightarrow> j < i \<longrightarrow> (\<exists>u v. map_of (sessions mgr) u = Some v \<and> sess_id v = j))
    \<and> map_of (sessions mgr') =
        (map_of (sessions mgr))(sess_username s \<mapsto> s\<lparr>sess_id := i, sess_time := now\<rparr>)
    \<and> sessions_ok mgr'"
proof -
  let ?m = "sessions mgr" and ?i = "first_free_id (used_ids (sessions mgr)) (max_sessions mgr) 1"
  let ?s = "s\<lparr>sess_id := ?i, sess_time := now\<rparr>"
  have ok: "registry_ok sess_username sess_id ?m" and sm: "smap_ok ?m"
    using assms(1) by (auto simp: sessions_ok_def registry_ok_def)
  have room: "?i \<notin> set (used_ids ?m)" "1 \<le> ?i" "?i \<le> max_sessions mgr"
    using first_free_id_room [of "used_ids ?m" "max_sessions mgr"] assms(2)
    by (auto simp: Session_size_def)
  have skip: "j \<in> set (used_ids ?m)" if "1 \<le> j" "j < ?i" for j
    using that by (rule first_free_id_skipped)
  have free: "sess_id v \<noteq> ?i" if "map_of ?m u = Some v" for u v
    using that room(1) used_ids_iff [OF sm] by blast
  have "registry_ok sess_username sess_id (smap_put (sess_username ?s) ?s ?m)"
    using ok free by (intro session_registry.coherent_put) auto
  then show ?thesis
    using room skip free
    by (auto simp: addSession_fresh [OF assms(3)] Let_def sessions_ok_def used_ids_iff [OF sm])
qed

lemma addSession_duplicate:
  assumes "map_of (sessions mgr) (sess_username s) = Some old"
  shows "\<exists>e. addSession s isupdate now mgr = (Inl (ServerExc e), mgr) \<and> http_status_code e = 400"
  using assms by (simp add: addSession_def create_resource_already_exists_error_def extend_if_def
      create_error_def add_extended_message_def)

lemma entry_by_id_iff:
  "sessions_ok mgr \<Longrightarrow> entry_by_id sess_id i (sessions mgr) = Some (u, s)
     \<longleftrightarrow> map_of (sessions mgr) u = Some s \<and> sess_id s = i"
  by (simp add: sessions_ok_def entry_by_id_def session_registry.by_id_iff)

lemma sessions_ok_name:
  "sessions_ok mgr \<Longrightarrow> map_of (sessions mgr) u = Some s \<Longrightarrow> sess_username s = u"
  by (simp add: sessions_ok_def registry_ok_iff)

lemma delSession_by_id_found:
  assumes "sessions_ok mgr" and "map_of (sessions mgr) u = Some s"
  shows "delSession_by_id (sess_id s) mgr = (Inr (), mgr\<lparr>sessions := smap_erase u (sessions mgr)\<rparr>)"
proof -
  have "entry_by_id sess_id (sess_id s) (sessions mgr) = Some (u, s)"
    using assms by (simp add: entry_by_id_iff)
  with assms show ?thesis
    by (simp add: delSession_by_id_def delSession_by_name_def sessions_ok_name)
qed

lemma sessions_ok_erase: "sessions_ok mgr \<Longrightarrow> sessions_ok (mgr\<lparr>sessions := smap_erase u (sessions mgr)\<rparr>)"
  by (simp add: sessions_ok_def session_registry.coherent_erase)

text \<open>
  Logging out by id removes exactly the session that has the id, and fails with \<open>NotFound\<close>, changing
  nothing, if none has it.
\<close>

lemma delSession_by_id_correct:
  assumes "sessions_ok mgr"
  shows "(\<forall>u s. map_of (sessions mgr) u = Some s \<and> sess_id s = i \<longrightarrow>
            (\<exists>mgr'. delSession_by_id i mgr = (Inr (), mgr') \<and> sessions_ok mgr'
               \<and> map_of (sessions mgr') = (map_of (sessions mgr))(u := None)))
    \<and> ((\<nexists>u s. map_of (sessions mgr) u = Some s \<and> sess_id s = i) \<longrightarrow>
         delSession_by_id i mgr = (Inl (session_id_missing i), mgr))"
proof (intro conjI allI impI)
  fix u s
  assume "map_of (sessions mgr) u = Some s \<and> sess_id s = i"
  then show "\<exists>mgr'. delSession_by_id i mgr = (Inr (), mgr') \<and> sessions_ok mgr'
      \<and> map_of (sessions mgr') = (map_of (sessions mgr))(u := None)"
    using assms delSession_by_id_found sessions_ok_erase by fastforce
next
  assume "\<nexists>u s. map_of (sessions mgr) u = Some s \<and> sess_id s = i"
  then have "entry_by_id sess_id i (sessions mgr) = None"
    using assms by (auto simp: sessions_ok_def entry_by_id_def session_registry.by_id_None)
  then show "delSession_by_id i mgr = (Inl (session_id_missing i), mgr)"
    by (simp add: delSession_by_id_def)
qed

section \<open>Expiry\<close>

lemma filter_smap_erase: "filter P (smap_erase k m) = filter (\<lambda>e. P e \<and> fst e \<noteq> k) m"
  by (simp add: smap_erase_def conj_commute)

lemma expire_all_correct:
  assumes "sessions_ok mgr" and "distinct (map fst items)"
    and "\<forall>e \<in> set items. map_of (sessions mgr) (fst e) = Some (snd e)"
  shows "expire_all now timeout items mgr =
    (Inr (), mgr\<lparr>sessions := filter (\<lambda>e. \<not> (fst e \<in> fst ` set items \<and> session_expired now timeout (snd e)))
                                (sessions mgr)\<rparr>)"
  using assms
proof (induction items arbitrary: mgr)
  case Nil
  then show ?case by (simp add: act_return_def)
next
  case (Cons item items)
  obtain u s where item: "item = (u, s)" by force
  have us: "map_of (sessions mgr) u = Some s" using Cons.prems item by simp
  have sm: "smap_ok (sessions mgr)"
    using Cons.prems(1) by (auto simp: sessions_ok_def registry_ok_def)
  have only: "snd e = s" if "e \<in> set (sessions mgr)" "fst e = u" for e
    using that us smap_ok_in_set [OF sm, of "fst e" "snd e"] by auto
  show ?case
  proof (cases "session_expired now timeout s")
    case True
    let ?mgr = "mgr\<lparr>sessions := smap_erase u (sessions mgr)\<rparr>"
    have "expire_all now timeout items ?mgr = (Inr (), ?mgr\<lparr>sessions :=
        filter (\<lambda>e. \<not> (fst e \<in> fst ` set items \<and> session_expired now timeout (snd e))) (sessions ?mgr)\<rparr>)"
      using Cons.prems item sessions_ok_erase [OF Cons.prems(1)] by (intro Cons.IH) auto
    moreover have "filter (\<lambda>e. \<not> (fst e \<in> fst ` set items \<and> session_expired now timeout (snd e)) \<and> fst e \<noteq> u) (sessions mgr)
        = filter (\<lambda>e. \<not> (fst e \<in> fst ` set (item # items) \<and> session_expired now timeout (snd e))) (sessions mgr)"
      using True only item by (intro filter_cong) auto
    ultimately show ?thesis
      using True item delSession_by_id_found [OF Cons.prems(1) us]
      by (simp add: act_bind_def filter_smap_erase)
  next
    case False
    have "filter (\<lambda>e. \<not> (fst e \<in> fst ` set items \<and> session_expired now timeout (snd e))) (sessions mgr)
        = filter (\<lambda>e. \<not> (fst e \<in> fst ` set (item # items) \<and> session_expired now timeout (snd e))) (sessions mgr)"
      using False only item by (intro filter_cong) auto
    with False Cons item show ?thesis by simp
  qed
qed

text \<open>
  A round of the timeout thread removes exactly the sessions idle for the timeout or longer, and
  throws nothing.
\<close>

lemma timeout_round_law:
  assumes "sessions_ok mgr"
  shows "CheckSessionTimeout_round now mgr =
    (Inr (), mgr\<lparr>sessions := filter (\<lambda>e. \<not> session_expired now (session_timeout mgr) (snd e)) (sessions mgr)\<rparr>)"
proof -
  have sm: "smap_ok (sessions mgr)"
    using assms by (auto simp: sessions_ok_def registry_ok_def)
  have "CheckSessionTimeout_round now mgr = (Inr (), mgr\<lparr>sessions :=
      filter (\<lambda>e. \<not> (fst e \<in> fst ` set (sessions mgr) \<and> session_expired now (session_timeout mgr) (snd e)))
        (sessions mgr)\<rparr>)"
    unfolding CheckSessionTimeout_round_def using assms smap_ok_distinct [OF sm] smap_ok_in_set [OF sm]
    by (intro expire_all_correct) auto
  then show ?thesis by (simp cong: filter_cong)
qed

section \<open>Refreshing\<close>

lemma smap_put_erase_same: "smap_ok m \<Longrightarrow> smap_put k v (smap_erase k m) = smap_put k v m"
  by (rule smap_ext) (auto simp: smap_ok_put smap_ok_erase)

text \<open>
  A request that carries the token of a session restarts the session's idle time, whatever address
  it comes from; the result tells whether the address is the one the session was opened from.
\<close>

lemma updateSessionTimestamp_law:
  assumes "sessions_ok mgr" and "token \<noteq> []" and "getSession_by_Token mgr token = Inr s"
  shows "updateSessionTimestamp token src_ip now mgr =
     (Inr (src_ip = sess_srcip s),
      mgr\<lparr>sessions := smap_put (sess_username s) (s\<lparr>sess_time := now\<rparr>) (sessions mgr)\<rparr>)
   \<and> sessions_ok (snd (updateSessionTimestamp token src_ip now mgr))"
proof -
  have sm: "smap_ok (sessions mgr)" and ok: "registry_ok sess_username sess_id (sessions mgr)"
    using assms(1) by (auto simp: sessions_ok_def registry_ok_def)
  obtain u where "List.find (\<lambda>e. sess_token (snd e) = token) (sessions mgr) = Some (u, s)"
    using assms(3) by (auto simp: getSession_by_Token_def split: option.splits)
  from smap.find_entryD [OF sm this]
  have us: "map_of (sessions mgr) u = Some s" and tok: "sess_token s = token" by auto
  then have u: "sess_username s = u" using assms(1) by (simp add: sessions_ok_name)
  have upd: "updateSessionTimestamp token src_ip now mgr =
      (Inr (src_ip = sess_srcip s),
       mgr\<lparr>sessions := smap_put u (s\<lparr>sess_time := now\<rparr>) (sessions mgr)\<rparr>)"
    using assms(2,3) us tok u
    by (simp add: updateSessionTimestamp_def act_bind_def act_read_def act_return_def
        delSession_by_name_def addSession_def smap_put_erase_same [OF sm])
  have "registry_ok sess_username sess_id
      (smap_put (sess_username (s\<lparr>sess_time := now\<rparr>)) (s\<lparr>sess_time := now\<rparr>) (sessions mgr))"
    using ok us u by (intro session_registry.coherent_put) (auto simp: registry_ok_iff)
  with upd u show ?thesis by (simp add: sessions_ok_def)
qed

section \<open>What the manager promises\<close>

text \<open>
  C9: Adding a session where there is room: a user who already has one is refused with status 400 and
  nothing changes; otherwise the session gets the smallest id no session has, between 1 and the
  maximum, is found under its user with that id and the current time, the other sessions stay, and
  names and ids stay unique.
\<close>

theorem addSession_correct:
  assumes "sessions_ok mgr" and "Session_size mgr < max_sessions mgr"
  shows "case map_of (sessions mgr) (sess_username s) of
      Some old \<Rightarrow> \<exists>e. addSession s False now mgr = (Inl (ServerExc e), mgr) \<and> http_status_code e = 400
    | None \<Rightarrow> \<exists>i mgr'. addSession s False now mgr = (Inr i, mgr')
        \<and> 1 \<le> i \<and> i \<le> max_sessions mgr
        \<and> i = (LEAST j. 1 \<le> j \<and> (\<forall>u v. map_of (sessions mgr) u = Some v \<longrightarrow> sess_id v \<noteq> j))
        \<and> map_of (sessions mgr') =
            (map_of (sessions mgr))(sess_username s \<mapsto> s\<lparr>sess_id := i, sess_time := now\<rparr>)
        \<and> sessions_ok mgr'"
proof (cases "map_of (sessions mgr) (sess_username s)")
  case None
  obtain i mgr' where i: "addSession s False now mgr = (Inr i, mgr')" "1 \<le> i" "i \<le> max_sessions mgr"
      "\<forall>u v. map_of (sessions mgr) u = Some v \<longrightarrow> sess_id v \<noteq> i"
      "\<forall>j. 1 \<le> j \<longrightarrow> j < i \<longrightarrow> (\<exists>u v. map_of (sessions mgr) u = Some v \<and> sess_id v = j)"
      "map_of (sessions mgr') = (map_of (sessions mgr))(sess_username s \<mapsto> s\<lparr>sess_id := i, sess_time := now\<rparr>)"
      "sessions_ok mgr'"
    using addSession_law [OF assms None] by blast
  have "(LEAST j. 1 \<le> j \<and> (\<forall>u v. map_of (sessions mgr) u = Some v \<longrightarrow> sess_id v \<noteq> j)) = i"
    using i(2,4,5) by (intro Least_equality) (simp, meson not_less)
  with None i show ?thesis by auto
qed (use addSession_duplicate in auto)

text \<open>
  A request's token: an empty one leaves everything as it is, an unknown one is \<open>NotFound\<close>, and a
  known one restarts its session's idle time, whatever address it comes from; the result tells
  whether the address is the one the session was opened from.
\<close>

lemma updateSessionTimestamp_correct:
  assumes "sessions_ok mgr"
  shows "updateSessionTimestamp token src_ip now mgr =
    (if token = [] then (Inr False, mgr)
     else case getSession_by_Token mgr token of
            Inl e \<Rightarrow> (Inl e, mgr)
          | Inr s \<Rightarrow> (Inr (src_ip = sess_srcip s),
              mgr\<lparr>sessions := smap_put (sess_username s) (s\<lparr>sess_time := now\<rparr>) (sessions mgr)\<rparr>))
    \<and> sessions_ok (snd (updateSessionTimestamp token src_ip now mgr))"
proof (cases "token = [] \<or> (\<exists>e. getSession_by_Token mgr token = Inl e)")
  case True
  with assms show ?thesis
    by (auto simp: updateSessionTimestamp_def act_bind_def act_read_def act_return_def)
next
  case False
  then obtain s where "getSession_by_Token mgr token = Inr s" "token \<noteq> []"
    by (cases "getSession_by_Token mgr token") auto
  moreover from updateSessionTimestamp_law [OF assms this(2,1), of src_ip now]
  have "updateSessionTimestamp token src_ip now mgr = (Inr (src_ip = sess_srcip s),
      mgr\<lparr>sessions := smap_put (sess_username s) (s\<lparr>sess_time := now\<rparr>) (sessions mgr)\<rparr>)"
    and "sessions_ok (snd (updateSessionTimestamp token src_ip now mgr))" by blast+
  ultimately show ?thesis by auto
qed

text \<open>
  C37: A round of the timeout thread throws nothing and leaves exactly the sessions idle for less than
  the timeout, the idle time taken in whole seconds and modulo \<open>2^64\<close> milliseconds.
\<close>

theorem timeout_round_correct:
  assumes "sessions_ok mgr"
  shows "\<exists>mgr'. CheckSessionTimeout_round now mgr = (Inr (), mgr') \<and> sessions_ok mgr'
    \<and> (\<forall>u. map_of (sessions mgr') u = (case map_of (sessions mgr) u of
           None \<Rightarrow> None
         | Some s \<Rightarrow> if unat (now - sess_time s) div 1000 < unat (session_timeout mgr) then Some s else None))"
proof -
  let ?live = "\<lambda>e. \<not> session_expired now (session_timeout mgr) (snd e)"
  have ok: "registry_ok sess_username sess_id (sessions mgr)" using assms by (simp add: sessions_ok_def)
  then have sm: "smap_ok (sessions mgr)" by (simp add: registry_ok_def)
  have ok': "registry_ok sess_username sess_id (filter ?live (sessions mgr))"
    using ok by (auto simp: registry_ok_def smap_ok_filter distinct_map_filter)
  have live: "session_expired now (session_timeout mgr) s \<longleftrightarrow>
      \<not> unat (now - sess_time s) div 1000 < unat (session_timeout mgr)" for s
    by (simp add: session_expired_def word_le_nat_alt unat_div not_less)
  have "map_of (filter ?live (sessions mgr)) u = (case map_of (sessions mgr) u of
      None \<Rightarrow> None | Some s \<Rightarrow> if ?live (u, s) then Some s else None)" for u
  proof (cases "map_of (filter ?live (sessions mgr)) u")
    case None
    moreover have "\<not> ?live (u, s)" if "map_of (sessions mgr) u = Some s" for s
      using None that smap_ok_in_set [OF sm, of u s] by (auto simp: map_of_eq_None_iff image_iff)
    ultimately show ?thesis by (auto split: option.split)
  next
    case (Some s)
    then have "(u, s) \<in> set (filter ?live (sessions mgr))" by (rule map_of_SomeD)
    with Some smap_ok_in_set [OF sm, of u s] show ?thesis by auto
  qed
  with ok' live show ?thesis by (auto simp: timeout_round_law [OF assms] sessions_ok_def split: option.split)
qed

end
