(* ===== verification/Json_Text.thy ===== *)
theory Json_Text
  imports Json_Value
begin

text \<open>
  JSON text (\<^verbatim>\<open>common/json-cxx\<close>): the compact serializer and the deserializer. A reader takes the
  text from \<open>m_current\<close> to \<open>m_end\<close> and returns what is left of it; a failed reader returns the
  error code, the position it failed at, and the key of a duplicate. At \<open>m_end\<close> the code reads the
  terminating zero of the string (\<open>peek\<close>).
\<close>

unbundle bit_operations_syntax

section \<open>Serializing\<close>

definition dec_of_int64 :: "64 word \<Rightarrow> string" where
  "dec_of_int64 w = (if sint w < 0 then CHR ''-'' # dec_of_nat (nat (- sint w)) else dec_of_nat (nat (sint w)))"

fun write_number :: "fpu \<Rightarrow> number \<Rightarrow> string" where
  "write_number fp (NInt i) = dec_of_int64 i"
| "write_number fp (NUint u) = dec_of_nat (unat u)"
| "write_number fp (NDouble d) = fpu_print fp d"

definition needs_escape :: "char \<Rightarrow> bool" where
  "needs_escape ch \<longleftrightarrow> CHR 0x5C = ch \<or> CHR 0x22 = ch"

definition escape_characters :: "string \<Rightarrow> string" where
  "escape_characters str =
     (if filter needs_escape str = [] then str
      else concat (map (\<lambda>ch. if needs_escape ch then [CHR 0x5C, ch] else [ch]) str))"

definition write_string :: "string \<Rightarrow> string" where
  "write_string str = CHR 0x22 # escape_characters str @ [CHR 0x22]"

definition write_boolean :: "bool \<Rightarrow> string" where
  "write_boolean b = (if b then ''true'' else ''false'')"

fun write_value :: "fpu \<Rightarrow> json \<Rightarrow> string" where
  "write_value fp (JObject ms) =
     CHR ''{'' # (let body = concat (map (\<lambda>m. write_string (fst m) @ [CHR '':''] @ write_value fp (snd m) @ [CHR '','']) ms)
                 in if length ms > 0 then butlast body else body) @ [CHR ''}'']"
| "write_value fp (JArray xs) =
     CHR ''['' # (let body = concat (map (\<lambda>v. write_value fp v @ [CHR '','']) xs)
                 in if length xs > 0 then butlast body else body) @ [CHR '']'']"
| "write_value fp (JString s) = write_string s"
| "write_value fp (JNumber n) = write_number fp n"
| "write_value fp (JBool b) = write_boolean b"
| "write_value fp JNil = ''null''"

section \<open>Deserializing\<close>

datatype json_error_code =
    END_OF_FILE | MISS_VALUE | MISS_QUOTE | MISS_COLON | MISS_CURLY_CLOSE | MISS_SQUARE_CLOSE
  | NOT_MATCH_NULL | NOT_MATCH_TRUE | NOT_MATCH_FALSE | INVALID_WHITESPACE | INVALID_ESCAPE
  | INVALID_UNICODE | INVALID_NUMBER_INTEGER | INVALID_NUMBER_FRACTION | INVALID_NUMBER_EXPONENT
  | DUPLICATE_KEY

type_synonym 'a read = "(json_error_code \<times> string \<times> string) + 'a \<times> string"

definition failed :: "json_error_code \<Rightarrow> string \<Rightarrow> 'a read" where
  "failed c s = Inl (c, s, [])"

definition peek :: "string \<Rightarrow> char" where
  "peek s = (case s of [] \<Rightarrow> CHR 0x00 | c # _ \<Rightarrow> c)"

definition is_space :: "char \<Rightarrow> bool" where
  "is_space ch \<longleftrightarrow> CHR '' '' = ch \<or> CHR 0x0A = ch \<or> CHR 0x0D = ch \<or> CHR 0x09 = ch"

fun read_whitespaces :: "string \<Rightarrow> unit read" where
  "read_whitespaces [] = failed END_OF_FILE []"
| "read_whitespaces (ch # s) = (if is_space ch then read_whitespaces s else Inr ((), ch # s))"

definition read_colon :: "string \<Rightarrow> unit read" where
  "read_colon s = (case read_whitespaces s of Inl e \<Rightarrow> Inl e
     | Inr (_, s1) \<Rightarrow> if CHR '':'' \<noteq> peek s1 then failed MISS_COLON s1 else Inr ((), tl s1))"

definition read_quote :: "string \<Rightarrow> unit read" where
  "read_quote s = (case read_whitespaces s of Inl e \<Rightarrow> Inl e
     | Inr (_, s1) \<Rightarrow> if CHR 0x22 \<noteq> peek s1 then failed MISS_QUOTE s1 else Inr ((), tl s1))"

subsection \<open>Strings\<close>

definition hex_digit :: "char \<Rightarrow> nat option" where
  "hex_digit c = (let ch = of_char c :: nat in
     if 48 \<le> ch \<and> ch \<le> 57 then Some (ch - 48)
     else if 65 \<le> ch \<and> ch \<le> 70 then Some (ch - 55)
     else if 97 \<le> ch \<and> ch \<le> 102 then Some (ch - 87)
     else None)"

fun read_hex :: "nat \<Rightarrow> nat \<Rightarrow> string \<Rightarrow> nat read" where
  "read_hex 0 code s = Inr (code, s)"
| "read_hex (Suc n) code s =
     (case hex_digit (peek s) of
        Some d \<Rightarrow> read_hex n (push_bit 4 code OR d) (tl s)
      | None \<Rightarrow> failed INVALID_UNICODE s)"

definition read_unicode :: "string \<Rightarrow> nat read" where
  "read_unicode s = (if length s \<le> 4 then failed END_OF_FILE s else read_hex 4 0 s)"

lemma read_hex_length: "read_hex n code s = Inr (c, r) \<Longrightarrow> length r \<le> length s"
proof (induction n code s rule: read_hex.induct)
  case (2 n code s)
  then show ?case by (fastforce simp: failed_def split: option.splits)
qed simp

lemma read_unicode_length: "read_unicode s = Inr (c, r) \<Longrightarrow> length r \<le> length s"
  by (auto simp: read_unicode_def failed_def read_hex_length split: if_splits)

text \<open>
  \<open>count_string_chars\<close> runs ahead to the closing quote. The count only sizes a buffer; what matters
  is the error it may find, at a position of its own that \<open>m_current\<close> does not follow.
\<close>

function count_string_chars :: "string \<Rightarrow> json_error_code option" where
  "count_string_chars [] = Some END_OF_FILE"
| "count_string_chars (c # s) =
     (if c = CHR 0x22 then None
      else if c = CHR 0x5C
      then (if peek s = CHR ''u''
            then (case read_unicode (tl s) of Inl (e, _) \<Rightarrow> Some e | Inr (_, r) \<Rightarrow> count_string_chars r)
            else count_string_chars (tl s))
      else count_string_chars s)"
  by pat_completeness auto
termination
proof (relation "measure length", goal_cases)
  case (2 c s v a b)
  then show ?case by (cases s) (auto dest!: read_unicode_length)
qed (auto simp: le_imp_less_Suc)

text \<open>\<open>decode_utf16_surrogate_pair\<close> and the UTF-8 bytes of a code, as written.\<close>

definition decode_utf16_surrogate_pair :: "nat \<Rightarrow> nat \<Rightarrow> nat" where
  "decode_utf16_surrogate_pair hi lo = 0x10000 OR push_bit 10 (0x03F AND hi) OR (0x3FF AND lo)"

definition utf8_bytes :: "nat \<Rightarrow> string" where
  "utf8_bytes code =
     (if code < 0x80 then [char_of code]
      else if code < 0x800
      then [char_of (0xC0 OR (0x1F AND drop_bit 6 code)), char_of (0x80 OR (0x3F AND code))]
      else if code < 0x10000
      then [char_of (0xE0 OR (0x0F AND drop_bit 12 code)), char_of (0x80 OR (0x3F AND drop_bit 6 code)),
            char_of (0x80 OR (0x3F AND code))]
      else [char_of (0xF0 OR (0x07 AND drop_bit 18 code)), char_of (0x80 OR (0x3F AND drop_bit 12 code)),
            char_of (0x80 OR (0x3F AND drop_bit 6 code)), char_of (0x80 OR (0x3F AND code))])"

text \<open>The bounds are compared with the pair in the order of \<^verbatim>\<open>std::pair\<close>, lexicographically.\<close>

definition is_surrogate_pair :: "nat \<Rightarrow> nat \<Rightarrow> bool" where
  "is_surrogate_pair hi lo \<longleftrightarrow>
     (0xD800 < hi \<or> 0xD800 = hi \<and> 0xDC00 \<le> lo) \<and> (hi < 0xDBFF \<or> hi = 0xDBFF \<and> lo \<le> 0xDFFF)"

definition read_string_unicode :: "string \<Rightarrow> string read" where
  "read_string_unicode s = (case read_unicode s of Inl e \<Rightarrow> Inl e
     | Inr (code, s1) \<Rightarrow>
         if length s1 > 6 \<and> peek s1 = CHR 0x5C \<and> peek (tl s1) = CHR ''u''
         then (case read_unicode (drop 2 s1) of Inl e \<Rightarrow> Inl e
               | Inr (second, s2) \<Rightarrow>
                   if is_surrogate_pair code second
                   then Inr (utf8_bytes (decode_utf16_surrogate_pair code second), s2)
                   else Inr (utf8_bytes code, s1))
         else Inr (utf8_bytes code, s1))"

definition read_string_escape :: "string \<Rightarrow> string read" where
  "read_string_escape s = (let ch = peek s in
     if ch = CHR 0x22 \<or> ch = CHR 0x5C \<or> ch = CHR ''/'' then Inr ([ch], tl s)
     else if ch = CHR ''n'' then Inr ([CHR 0x0A], tl s)
     else if ch = CHR ''r'' then Inr ([CHR 0x0D], tl s)
     else if ch = CHR ''t'' then Inr ([CHR 0x09], tl s)
     else if ch = CHR ''b'' then Inr ([CHR 0x08], tl s)
     else if ch = CHR ''f'' then Inr ([CHR 0x0C], tl s)
     else if ch = CHR ''u'' then read_string_unicode (tl s)
     else failed INVALID_ESCAPE s)"

lemma read_string_unicode_length:
  "read_string_unicode s = Inr (x, r) \<Longrightarrow> length r \<le> length s"
  unfolding read_string_unicode_def
  by (auto split: sum.splits prod.splits if_splits dest!: read_unicode_length)

lemma read_string_escape_length:
  "read_string_escape s = Inr (x, r) \<Longrightarrow> length r \<le> length s"
  unfolding read_string_escape_def Let_def
  by (auto simp: failed_def split: if_splits dest!: read_string_unicode_length)

function read_chars :: "string \<Rightarrow> string \<Rightarrow> string read" where
  "read_chars str [] = failed END_OF_FILE []"
| "read_chars str (ch # s) =
     (if ch = CHR 0x22 then Inr (str, s)
      else if ch = CHR 0x5C
      then (case read_string_escape s of Inl e \<Rightarrow> Inl e | Inr (x, r) \<Rightarrow> read_chars (str @ x) r)
      else read_chars (str @ [ch]) s)"
  by pat_completeness auto
termination
  by (relation "measure (\<lambda>(str, s). length s)") (auto dest!: read_string_escape_length)

definition read_string :: "string \<Rightarrow> string read" where
  "read_string s = (case count_string_chars s of Some e \<Rightarrow> failed e s | None \<Rightarrow> read_chars [] s)"

lemma read_chars_length: "read_chars str s = Inr (x, r) \<Longrightarrow> length r \<le> length s"
proof (induction str s rule: read_chars.induct)
  case (2 str ch s)
  then show ?case
    by (auto split: if_splits sum.splits prod.splits dest!: read_string_escape_length) fastforce+
qed (simp add: failed_def)

lemma read_string_length: "read_string s = Inr (x, r) \<Longrightarrow> length r \<le> length s"
  by (auto simp: read_string_def failed_def read_chars_length split: option.splits)

subsection \<open>Numbers\<close>

text \<open>
  The digits of an unsigned number and the position reached; no value if there is no digit or the
  number does not fit in 64 bits.
\<close>

fun read_more_digits :: "64 word \<Rightarrow> string \<Rightarrow> 64 word option \<times> string" where
  "read_more_digits value [] = (Some value, [])"
| "read_more_digits value (c # s) =
     (if is_digit c
      then (let new_value = 10 * value; new_last_digit = of_nat (digit_val c) in
            if new_value div 10 \<noteq> value then (None, c # s)
            else if new_value > - 1 - new_last_digit then (None, c # s)
            else read_more_digits (new_value + new_last_digit) s)
      else (Some value, c # s))"

definition read_number_digit :: "string \<Rightarrow> 64 word option \<times> string" where
  "read_number_digit s =
     (if s \<noteq> [] \<and> is_digit (hd s) then read_more_digits (of_nat (digit_val (hd s))) (tl s) else (None, s))"

text \<open>The integral part: \<open>negative\<close> tells whether a minus sign was read.\<close>

definition read_number_integer :: "bool \<Rightarrow> string \<Rightarrow> number option \<times> string" where
  "read_number_integer negative s = (case read_number_digit s of
       (None, r) \<Rightarrow> (None, r)
     | (Some value, r) \<Rightarrow>
         if \<not> negative then (Some (NUint value), r)
         else if value > 0x8000000000000000 then (None, r)
         else (Some (NInt (- value)), r))"

fun read_fraction_digits :: "dbl \<Rightarrow> dbl \<Rightarrow> string \<Rightarrow> dbl read" where
  "read_fraction_digits step fractional [] = failed END_OF_FILE []"
| "read_fraction_digits step fractional (c # s) =
     (if is_digit c
      then read_fraction_digits (DMul DTenth step) (DAdd fractional (DMul step (DNat (digit_val c)))) s
      else Inr (fractional, c # s))"

definition read_number_fractional :: "number \<Rightarrow> string \<Rightarrow> number read" where
  "read_number_fractional n s = (case read_fraction_digits DTenth (DNat 0) s of Inl e \<Rightarrow> Inl e
     | Inr (fractional, r) \<Rightarrow> Inr (NDouble (case n of
           NUint u \<Rightarrow> DAdd (DOfUint u) fractional
         | NInt i \<Rightarrow> DSub (DOfInt i) fractional
         | NDouble d \<Rightarrow> DAdd d fractional), r))"

text \<open>
  A negative exponent multiplies \<open>m_double\<close>: on an integer, the union member that was not written,
  which holds the integer's bits.
\<close>

fun scale_number :: "fpu \<Rightarrow> bool \<Rightarrow> 64 word \<Rightarrow> number \<Rightarrow> number" where
  "scale_number fp negative value (NInt i) =
     (if negative then NDouble (DMul (DBits i) (DPow DTenth value))
      else NInt (i * fpu_to_int64 fp (DPow (DNat 10) value)))"
| "scale_number fp negative value (NUint u) =
     (if negative then NDouble (DMul (DBits u) (DPow DTenth value))
      else NUint (u * fpu_to_uint64 fp (DPow (DNat 10) value)))"
| "scale_number fp negative value (NDouble d) =
     NDouble (DMul d (DPow (if negative then DTenth else DNat 10) value))"

definition read_number_exponent :: "fpu \<Rightarrow> number \<Rightarrow> string \<Rightarrow> number option \<times> string" where
  "read_number_exponent fp n s =
     (let s1 = (if peek s = CHR ''+'' \<or> peek s = CHR ''-'' then tl s else s)
      in case read_number_digit s1 of
           (None, r) \<Rightarrow> (None, r)
         | (Some value, r) \<Rightarrow> (Some (scale_number fp (peek s = CHR ''-'') value n), r))"

definition read_number_tail :: "fpu \<Rightarrow> number \<Rightarrow> string \<Rightarrow> number read" where
  "read_number_tail fp n s =
     (case (if peek s = CHR ''.'' then read_number_fractional n (tl s) else Inr (n, s)) of
        Inl e \<Rightarrow> Inl e
      | Inr (n1, s1) \<Rightarrow>
          if peek s1 = CHR ''E'' \<or> peek s1 = CHR ''e''
          then (case read_number_exponent fp n1 (tl s1) of
                  (None, r) \<Rightarrow> failed INVALID_NUMBER_EXPONENT r
                | (Some n2, r) \<Rightarrow> Inr (n2, r))
          else Inr (n1, s1))"

definition read_number :: "fpu \<Rightarrow> string \<Rightarrow> number read" where
  "read_number fp s =
     (let negative = (peek s = CHR ''-''); s1 = (if negative then tl s else s)
      in if peek s1 = CHR ''0''
         then read_number_tail fp (if negative then NInt 0 else NUint 0) (tl s1)
         else (case read_number_integer negative s1 of
                 (None, r) \<Rightarrow> failed INVALID_NUMBER_INTEGER r
               | (Some n, r) \<Rightarrow> read_number_tail fp n r))"

subsection \<open>Values\<close>

definition read_literal :: "string \<Rightarrow> json_error_code \<Rightarrow> json \<Rightarrow> string \<Rightarrow> json read" where
  "read_literal word mismatch v s =
     (if length s < length word then failed END_OF_FILE s
      else if take (length word) s \<noteq> word then failed mismatch s
      else Inr (v, drop (length word) s))"

definition is_duplicate :: "(string \<times> json) list \<Rightarrow> string \<Rightarrow> bool" where
  "is_duplicate ms key \<longleftrightarrow> List.find (\<lambda>m. fst m = key) ms \<noteq> None"

text \<open>Every reader leaves at most what it was given, so the nested calls of \<open>read_value\<close> end.\<close>

lemma read_whitespaces_length: "read_whitespaces s = Inr (u, r) \<Longrightarrow> length r \<le> length s"
  by (induction s) (auto simp: failed_def split: if_splits)

lemma tl_peek_less: "length s \<le> n \<Longrightarrow> peek s \<noteq> CHR 0x00 \<Longrightarrow> length (tl s) < n"
  by (cases s) (auto simp: peek_def)

lemma read_quote_length: "read_quote s = Inr (u, r) \<Longrightarrow> length r < length s"
  by (auto simp: read_quote_def failed_def split: sum.splits prod.splits if_splits
      dest!: read_whitespaces_length intro!: tl_peek_less dest: sym)

lemma read_colon_length: "read_colon s = Inr (u, r) \<Longrightarrow> length r < length s"
  by (auto simp: read_colon_def failed_def split: sum.splits prod.splits if_splits
      dest!: read_whitespaces_length intro!: tl_peek_less dest: sym)

lemma read_more_digits_length: "length (snd (read_more_digits v s)) \<le> length s"
  by (induction v s rule: read_more_digits.induct) (auto simp: Let_def le_Suc_eq)

lemma read_number_digit_length: "read_number_digit s = (v, r) \<Longrightarrow> length r \<le> length s"
  using read_more_digits_length [of "of_nat (digit_val (hd s))" "tl s"]
  by (cases s) (auto simp: read_number_digit_def split: if_splits)

lemma read_number_integer_length: "read_number_integer b s = (v, r) \<Longrightarrow> length r \<le> length s"
  by (auto simp: read_number_integer_def split: prod.splits option.splits if_splits
      dest: read_number_digit_length)

lemma read_fraction_digits_length:
  "read_fraction_digits step f s = Inr (v, r) \<Longrightarrow> length r \<le> length s"
  by (induction step f s rule: read_fraction_digits.induct) (auto simp: failed_def split: if_splits)

lemma read_number_exponent_length:
  "read_number_exponent fp n s = (v, r) \<Longrightarrow> length r \<le> length s"
  by (cases s)
    (auto simp: read_number_exponent_def Let_def split: prod.splits option.splits if_splits
      dest!: read_number_digit_length)

lemma read_number_tail_length: "read_number_tail fp n s = Inr (v, r) \<Longrightarrow> length r \<le> length s"
  by (cases s)
    (fastforce simp: read_number_tail_def read_number_fractional_def failed_def
      split: sum.splits prod.splits option.splits if_splits
      dest!: read_number_exponent_length read_fraction_digits_length)+

lemma read_number_length: "read_number fp s = Inr (v, r) \<Longrightarrow> length r \<le> length s"
  by (fastforce simp: read_number_def failed_def Let_def split: prod.splits option.splits if_splits
      dest!: read_number_tail_length read_number_integer_length)

lemma read_literal_length: "read_literal w e v s = Inr (x, r) \<Longrightarrow> length r \<le> length s"
  by (auto simp: read_literal_def failed_def split: if_splits)

lemmas reader_lengths = read_whitespaces_length read_quote_length read_colon_length
  read_string_length read_number_length read_literal_length

definition shrinks :: "string \<Rightarrow> 'a read \<Rightarrow> bool" where
  "shrinks s x \<longleftrightarrow> (\<forall>v r. x = Inr (v, r) \<longrightarrow> length r \<le> length s)"

lemma shrinks_case:
  "(\<And>a r. x = Inr (a, r) \<Longrightarrow> shrinks s (f a r)) \<Longrightarrow>
   shrinks s (case x of Inl e \<Rightarrow> Inl e | Inr (a, r) \<Rightarrow> f a r)"
  by (cases x) (auto simp: shrinks_def)

lemma shrinks_if:
  "(b \<Longrightarrow> shrinks s x) \<Longrightarrow> (\<not> b \<Longrightarrow> shrinks s y) \<Longrightarrow> shrinks s (if b then x else y)"
  by simp

lemma shrinks_simps [simp]:
  "shrinks s (Inr (v, r)) \<longleftrightarrow> length r \<le> length s"
  "shrinks s (Inl e)" "shrinks s (failed c p)"
  by (auto simp: shrinks_def failed_def)

lemma shrinks_literal: "length p \<le> length s \<Longrightarrow> shrinks s (read_literal w e v p)"
  by (auto simp: shrinks_def dest: read_literal_length)

lemma shrinksD: "shrinks s x \<Longrightarrow> x = Inr (v, r) \<Longrightarrow> length r \<le> length s"
  by (simp add: shrinks_def)

lemmas shrinks_intros = shrinks_case shrinks_if shrinks_literal

lemma read_whitespaces_rest:
  "read_whitespaces s = Inr (u, r) \<Longrightarrow> 0 < length r \<and> length r \<le> length s \<and> \<not> is_space (peek r)"
  by (induction s) (auto simp: failed_def peek_def split: if_splits)

function read_value :: "fpu \<Rightarrow> string \<Rightarrow> json read"
  and read_array_element :: "fpu \<Rightarrow> string \<Rightarrow> json list read"
  and read_object_member :: "fpu \<Rightarrow> string \<Rightarrow> (string \<times> json) list read"
where
  "read_value fp s = (case read_whitespaces s of Inl e \<Rightarrow> Inl e | Inr (_, s1) \<Rightarrow>
     (let c = peek s1; r = tl s1 in
      if c = CHR 0x22
      then (case read_string r of Inl e \<Rightarrow> Inl e | Inr (str, r1) \<Rightarrow> Inr (JString str, r1))
      else if c = CHR ''{''
      then (case read_whitespaces r of Inl e \<Rightarrow> Inl e | Inr (_, r1) \<Rightarrow>
              if peek r1 = CHR ''}'' then Inr (JObject [], tl r1)
              else (case read_object_member fp r1 of Inl e \<Rightarrow> Inl e | Inr (ms, r2) \<Rightarrow> Inr (JObject ms, r2)))
      else if c = CHR ''[''
      then (case read_whitespaces r of Inl e \<Rightarrow> Inl e | Inr (_, r1) \<Rightarrow>
              if peek r1 = CHR '']'' then Inr (JArray [], tl r1)
              else (case read_array_element fp r1 of Inl e \<Rightarrow> Inl e | Inr (xs, r2) \<Rightarrow> Inr (JArray xs, r2)))
      else if c = CHR ''t'' then read_literal ''true'' NOT_MATCH_TRUE (JBool True) s1
      else if c = CHR ''f'' then read_literal ''false'' NOT_MATCH_FALSE (JBool False) s1
      else if c = CHR ''n'' then read_literal ''null'' NOT_MATCH_NULL JNil s1
      else if c = CHR ''-'' \<or> is_digit c
      then (case read_number fp s1 of Inl e \<Rightarrow> Inl e | Inr (n, r1) \<Rightarrow> Inr (JNumber n, r1))
      else failed MISS_VALUE s1))"
| "read_array_element fp s =
     (case read_value fp s of Inl e \<Rightarrow> Inl e | Inr (v, s1) \<Rightarrow>
      (case read_whitespaces s1 of Inl e \<Rightarrow> Inl e | Inr (_, s2) \<Rightarrow>
        if peek s2 = CHR '',''
        then (case read_array_element fp (tl s2) of Inl e \<Rightarrow> Inl e | Inr (xs, s3) \<Rightarrow> Inr (v # xs, s3))
        else if peek s2 = CHR '']'' then Inr ([v], tl s2)
        else failed MISS_SQUARE_CLOSE s2))"
| "read_object_member fp s =
     (case read_quote s of Inl e \<Rightarrow> Inl e | Inr (_, s1) \<Rightarrow>
      (case read_string s1 of Inl e \<Rightarrow> Inl e | Inr (key, s2) \<Rightarrow>
       (case read_colon s2 of Inl e \<Rightarrow> Inl e | Inr (_, s3) \<Rightarrow>
        (case read_value fp s3 of Inl e \<Rightarrow> Inl e | Inr (v, s4) \<Rightarrow>
         (case read_whitespaces s4 of Inl e \<Rightarrow> Inl e | Inr (_, s5) \<Rightarrow>
           if peek s5 = CHR '',''
           then (case read_object_member fp (tl s5) of Inl e \<Rightarrow> Inl e | Inr (ms, s6) \<Rightarrow>
                   if is_duplicate ms key then Inl (DUPLICATE_KEY, s6, key) else Inr ((key, v) # ms, s6))
           else if peek s5 = CHR ''}'' then Inr ([(key, v)], tl s5)
           else failed MISS_CURLY_CLOSE s5)))))"
  by pat_completeness auto

lemma readers_shrink:
  "read_value_read_array_element_read_object_member_dom (Inl (fp, s)) \<Longrightarrow>
     shrinks s (read_value fp s)"
  "read_value_read_array_element_read_object_member_dom (Inr (Inl (fp, s))) \<Longrightarrow>
     shrinks s (read_array_element fp s)"
  "read_value_read_array_element_read_object_member_dom (Inr (Inr (fp, s))) \<Longrightarrow>
     shrinks s (read_object_member fp s)"
proof (induction rule: read_value_read_array_element_read_object_member.pinduct)
  case (1 fp s)
  have obj: "shrinks s (Inr (JObject v, q))"
    if "read_whitespaces s = Inr (u, r)" "peek r = CHR ''{''" "read_whitespaces (tl r) = Inr (u1, r1)"
      "peek r1 \<noteq> CHR ''}''" "read_object_member fp r1 = Inr (v, q)" for u u1 r r1 v q
    using "1.IH"(1) [OF that(1) refl refl refl _ _ that(3) refl] that
    by (auto dest!: shrinksD read_whitespaces_length)
  have arr: "shrinks s (Inr (JArray v, q))"
    if "read_whitespaces s = Inr (u, r)" "peek r = CHR ''[''" "read_whitespaces (tl r) = Inr (u1, r1)"
      "peek r1 \<noteq> CHR '']''" "read_array_element fp r1 = Inr (v, q)" for u u1 r r1 v q
    using "1.IH"(2) [OF that(1) refl refl refl _ _ _ that(3) refl] that
    by (auto dest!: shrinksD read_whitespaces_length)
  show ?case
    unfolding read_value.psimps [OF "1.hyps"] Let_def
    by (intro shrinks_intros)
      (erule (4) obj | erule (4) arr | fastforce dest!: reader_lengths)+
next
  case (2 fp s)
  have el: "shrinks s (read_value fp s)" by (rule "2.IH"(1))
  have els: "shrinks s (Inr (v # vs, q))"
    if "read_value fp s = Inr (v, s1)" "read_whitespaces s1 = Inr (u, s2)" "peek s2 = CHR '',''"
      "read_array_element fp (tl s2) = Inr (vs, q)" for v s1 u s2 vs q
    using "2.IH"(2) [OF that(1) refl that(2) refl that(3)] that
    by (auto dest!: shrinksD shrinksD [OF el] read_whitespaces_length)
  show ?case
    unfolding read_array_element.psimps [OF "2.hyps"]
    by (intro shrinks_intros) (erule (3) els | fastforce dest!: reader_lengths shrinksD [OF el])+
next
  case (3 fp s)
  have el: "shrinks s3 (read_value fp s3)"
    if "read_quote s = Inr (u, s1)" "read_string s1 = Inr (key, s2)" "read_colon s2 = Inr (u1, s3)"
    for u s1 key s2 u1 s3
    using "3.IH"(1) [OF that(1) refl that(2) refl that(3) refl] .
  have els: "length q \<le> length s"
    if "read_quote s = Inr (u, s1)" "read_string s1 = Inr (key, s2)" "read_colon s2 = Inr (u1, s3)"
      "read_value fp s3 = Inr (v, s4)" "read_whitespaces s4 = Inr (u2, s5)" "peek s5 = CHR '',''"
      "read_object_member fp (tl s5) = Inr (ms, q)"
    for u s1 key s2 u1 s3 v s4 u2 s5 ms q
    using "3.IH"(2) [OF that(1) refl that(2) refl that(3) refl that(4) refl that(5) refl that(6)]
      el [OF that(1-3)] that
    by (auto dest!: shrinksD reader_lengths)
  have last: "length (tl s5) \<le> length s"
    if "read_quote s = Inr (u, s1)" "read_string s1 = Inr (key, s2)" "read_colon s2 = Inr (u1, s3)"
      "read_value fp s3 = Inr (v, s4)" "read_whitespaces s4 = Inr (u2, s5)"
    for u s1 key s2 u1 s3 v s4 u2 s5
    using el [OF that(1-3)] that by (auto dest!: shrinksD reader_lengths)
  show ?case
    unfolding read_object_member.psimps [OF "3.hyps"]
    by (intro shrinks_intros)
      (simp_all only: shrinks_simps, (erule (6) els | erule (4) last)+)
qed

termination read_value
  by (relation "measure (\<lambda>x. case x of Inl (fp, s) \<Rightarrow> 2 * length s
    | Inr (Inl (fp, s)) \<Rightarrow> Suc (2 * length s) | Inr (Inr (fp, s)) \<Rightarrow> Suc (2 * length s))")
    (auto dest!: read_whitespaces_rest read_quote_length read_colon_length read_string_length
      shrinksD [OF readers_shrink(1)], simp_all only: length_greater_0_conv [symmetric])

declare read_value.simps [simp del] read_array_element.simps [simp del] read_object_member.simps [simp del]

section \<open>The deserializer\<close>

record json_error =
  err_code :: json_error_code
  err_line :: nat
  err_column :: nat
  err_size :: nat
  err_offset :: nat
  err_data :: string

text \<open>Line and column, counted over the text up to the place of the error.\<close>

definition line_column_step :: "nat \<times> nat \<Rightarrow> char \<Rightarrow> nat \<times> nat" where
  "line_column_step lc c = (if c = CHR 0x0A then (Suc (fst lc), 1) else (fst lc, Suc (snd lc)))"

definition get_error :: "string \<Rightarrow> json_error_code \<times> string \<times> string \<Rightarrow> json_error" where
  "get_error text e = (case e of (code, rest, data) \<Rightarrow>
     (let offset = length text - length rest;
          lc = foldl line_column_step (1, 1) (take offset text)
      in \<lparr>err_code = code, err_line = fst lc, err_column = snd lc, err_size = length text,
          err_offset = offset, err_data = data\<rparr>))"

definition deserialize :: "fpu \<Rightarrow> string \<Rightarrow> json_error + json" where
  "deserialize fp text = (case read_value fp text of
       Inl e \<Rightarrow> Inl (get_error text e)
     | Inr (v, r) \<Rightarrow> (case read_whitespaces r of
           Inl _ \<Rightarrow> Inr v
         | Inr (_, r1) \<Rightarrow> Inl (get_error text (INVALID_WHITESPACE, r1, []))))"

fun decode_error :: "json_error_code \<Rightarrow> string" where
  "decode_error END_OF_FILE = ''End of file reached.''"
| "decode_error MISS_QUOTE = ''Missing quote '' @ [CHR 0x27, CHR 0x22, CHR 0x27] @ '' for string.''"
| "decode_error MISS_COLON = ''Missing colon '' @ [CHR 0x27, CHR '':'', CHR 0x27] @ '' in member pair.''"
| "decode_error MISS_CURLY_CLOSE = ''Missing comma '' @ [CHR 0x27, CHR '','', CHR 0x27] @ '' or closing curly ''
     @ [CHR 0x27, CHR ''}'', CHR 0x27] @ '' for object.''"
| "decode_error MISS_SQUARE_CLOSE = ''Missing comma '' @ [CHR 0x27, CHR '','', CHR 0x27] @ '' or closing square ''
     @ [CHR 0x27, CHR '']'', CHR 0x27] @ '' for array.''"
| "decode_error NOT_MATCH_NULL = ''Did you mean '' @ [CHR 0x27] @ ''null'' @ [CHR 0x27, CHR ''?'']"
| "decode_error NOT_MATCH_TRUE = ''Did you mean '' @ [CHR 0x27] @ ''true'' @ [CHR 0x27, CHR ''?'']"
| "decode_error NOT_MATCH_FALSE = ''Did you mean '' @ [CHR 0x27] @ ''false'' @ [CHR 0x27, CHR ''?'']"
| "decode_error MISS_VALUE = ''Missing value in array/member.''"
| "decode_error INVALID_WHITESPACE = ''Invalid whitespace character.''"
| "decode_error INVALID_ESCAPE = ''Invalid escape character.''"
| "decode_error INVALID_UNICODE = ''Invalid unicode.''"
| "decode_error INVALID_NUMBER_INTEGER = ''Invalid integral part of a number. Check for possible overflows beyond ''
     @ ''the range of uint64 (for positive numbers) or int64 (for negative numbers)''"
| "decode_error INVALID_NUMBER_FRACTION = ''Invalid number fractional part.''"
| "decode_error INVALID_NUMBER_EXPONENT = ''Invalid number exponent part.''"
| "decode_error DUPLICATE_KEY = ''Duplicate key in object.''"

section \<open>What the deserializer accepts\<close>

definition yields :: "('a \<Rightarrow> bool) \<Rightarrow> 'a read \<Rightarrow> bool" where
  "yields P x \<longleftrightarrow> (\<forall>v r. x = Inr (v, r) \<longrightarrow> P v)"

lemma yields_case:
  "(\<And>a r. x = Inr (a, r) \<Longrightarrow> yields P (f a r)) \<Longrightarrow>
   yields P (case x of Inl e \<Rightarrow> Inl e | Inr (a, r) \<Rightarrow> f a r)"
  by (cases x) (auto simp: yields_def)

lemma yields_if:
  "(b \<Longrightarrow> yields P x) \<Longrightarrow> (\<not> b \<Longrightarrow> yields P y) \<Longrightarrow> yields P (if b then x else y)"
  by simp

lemma yields_simps [simp]:
  "yields P (Inr (v, r)) \<longleftrightarrow> P v" "yields P (Inl e)" "yields P (failed c p)"
  by (auto simp: yields_def failed_def)

lemma yields_literal: "P v \<Longrightarrow> yields P (read_literal w e v p)"
  by (auto simp: yields_def read_literal_def failed_def)

lemma yieldsD: "yields P x \<Longrightarrow> x = Inr (v, r) \<Longrightarrow> P v"
  by (simp add: yields_def)

lemmas yields_intros = yields_case yields_if yields_literal

definition members_wf :: "(string \<times> json) list \<Rightarrow> bool" where
  "members_wf ms \<longleftrightarrow> json_wf (JObject ms)"

lemma is_duplicate_iff: "is_duplicate ms key \<longleftrightarrow> key \<in> fst ` set ms"
  by (force simp: is_duplicate_def find_None_iff)

lemma members_wf_Nil [simp]: "members_wf []" "\<not> is_duplicate [] key"
  by (simp_all add: members_wf_def is_duplicate_def)

lemma members_wf_Cons:
  "members_wf ((key, v) # ms) \<longleftrightarrow> \<not> is_duplicate ms key \<and> json_wf v \<and> members_wf ms"
  by (auto simp: members_wf_def is_duplicate_iff)

lemma readers_wf:
  "yields json_wf (read_value fp s)"
  "yields (list_all json_wf) (read_array_element fp s)"
  "yields members_wf (read_object_member fp s)"
proof (induction fp s and fp s and fp s
    rule: read_value_read_array_element_read_object_member.induct)
  case (1 fp s)
  have obj: "yields json_wf (Inr (JObject ms, q))"
    if "read_whitespaces s = Inr (u, r)" "peek r = CHR ''{''" "read_whitespaces (tl r) = Inr (u1, r1)"
      "peek r1 \<noteq> CHR ''}''" "read_object_member fp r1 = Inr (ms, q)" for u u1 r r1 ms q
    using "1.IH"(1) [OF that(1) refl refl refl _ _ that(3) refl] that
    by (auto dest!: yieldsD simp: members_wf_def)
  have arr: "yields json_wf (Inr (JArray xs, q))"
    if "read_whitespaces s = Inr (u, r)" "peek r = CHR ''[''" "read_whitespaces (tl r) = Inr (u1, r1)"
      "peek r1 \<noteq> CHR '']''" "read_array_element fp r1 = Inr (xs, q)" for u u1 r r1 xs q
    using "1.IH"(2) [OF that(1) refl refl refl _ _ _ that(3) refl] that
    by (auto dest!: yieldsD simp: list_all_iff)
  show ?case
    unfolding read_value.simps [of fp s] Let_def
    by (intro yields_intros) (erule (4) obj | erule (4) arr | simp)+
next
  case (2 fp s)
  then show ?case
    unfolding read_array_element.simps [of fp s]
    by (intro yields_intros) (fastforce dest: yieldsD)+
next
  case (3 fp s)
  have el: "json_wf v"
    if "read_quote s = Inr (u, s1)" "read_string s1 = Inr (key, s2)" "read_colon s2 = Inr (u1, s3)"
      "read_value fp s3 = Inr (v, s4)" for u s1 key s2 u1 s3 v s4
    using "3.IH"(1) [OF that(1) refl that(2) refl that(3) refl] that(4) by (rule yieldsD)
  have els: "members_wf ms"
    if "read_quote s = Inr (u, s1)" "read_string s1 = Inr (key, s2)" "read_colon s2 = Inr (u1, s3)"
      "read_value fp s3 = Inr (v, s4)" "read_whitespaces s4 = Inr (u2, s5)" "peek s5 = CHR '',''"
      "read_object_member fp (tl s5) = Inr (ms, q)"
    for u s1 key s2 u1 s3 v s4 u2 s5 ms q
    using "3.IH"(2) [OF that(1) refl that(2) refl that(3) refl that(4) refl that(5) refl that(6)] that(7)
    by (rule yieldsD)
  show ?case
    unfolding read_object_member.simps [of fp s]
    by (intro yields_intros)
      (simp_all only: yields_simps members_wf_Cons, auto intro: el els)
qed

text \<open>What is accepted never has a member twice in one object, at any depth.\<close>

lemma deserialize_wf: "deserialize fp text = Inr v \<Longrightarrow> json_wf v"
  using readers_wf(1) [of fp]
  by (auto simp: deserialize_def dest: yieldsD split: sum.splits prod.splits)

section \<open>Reading back what was written\<close>

lemma escape_characters_eq:
  "escape_characters str = concat (map (\<lambda>ch. if needs_escape ch then [CHR 0x5C, ch] else [ch]) str)"
proof (cases "filter needs_escape str = []")
  case True
  then have "\<forall>ch \<in> set str. \<not> needs_escape ch" by (simp add: filter_empty_conv)
  then have "concat (map (\<lambda>ch. if needs_escape ch then [CHR 0x5C, ch] else [ch]) str) = str"
    by (induction str) auto
  with True show ?thesis by (simp add: escape_characters_def)
qed (simp add: escape_characters_def)

lemma escape_Cons:
  "escape_characters (c # s) = (if needs_escape c then [CHR 0x5C, c] else [c]) @ escape_characters s"
  by (simp add: escape_characters_eq)

lemma escape_Nil [simp]: "escape_characters [] = []"
  by (simp add: escape_characters_eq)

lemma count_escaped: "count_string_chars (escape_characters s @ CHR 0x22 # rest) = None"
  by (induction s) (auto simp: escape_Cons needs_escape_def peek_def)

lemma read_escaped:
  "read_chars str (escape_characters s @ CHR 0x22 # rest) = Inr (str @ s, rest)"
  by (induction s arbitrary: str)
    (auto simp: escape_Cons needs_escape_def peek_def read_string_escape_def Let_def)

lemma read_string_written: "read_string (escape_characters s @ CHR 0x22 # rest) = Inr (s, rest)"
  by (simp add: read_string_def count_escaped read_escaped)

lemma digits_value_ge:
  "m \<le> foldl (\<lambda>acc c. 10 * acc + digit_val c) m ds"
proof (induction ds arbitrary: m)
  case (Cons d ds)
  have "m \<le> 10 * m + digit_val d" by simp
  also have "\<dots> \<le> foldl (\<lambda>acc c. 10 * acc + digit_val c) (10 * m + digit_val d) ds" by (rule Cons.IH)
  finally show ?case by simp
qed simp

lemma digit_step_word:
  fixes v :: "64 word"
  assumes "d < 10" and "10 * unat v + d < 2 ^ 64"
  shows "10 * v div 10 = v" and "\<not> 10 * v > - 1 - of_nat d" and "unat (10 * v + of_nat d) = 10 * unat v + d"
proof -
  have m: "unat (10 * v) = 10 * unat v"
    using assms by (subst unat_mult_lem [THEN iffD1]) auto
  have d: "unat (of_nat d :: 64 word) = d"
    using assms by (simp add: unat_of_nat)
  show "10 * v div 10 = v"
    by (rule word_unat_eq_iff [THEN iffD2]) (simp add: unat_div m)
  show s: "unat (10 * v + of_nat d) = 10 * unat v + d"
    using assms m d by (subst unat_add_lem [THEN iffD1]) auto
  have "unat (- 1 - of_nat d :: 64 word) = 2 ^ 64 - 1 - d"
    by (subst unat_sub) (simp_all add: d unsigned_minus_1_eq_mask mask_eq_exp_minus_1)
  with assms m show "\<not> 10 * v > - 1 - of_nat d"
    by (simp add: word_less_nat_alt)
qed

lemma read_more_digits_written:
  assumes "\<forall>c \<in> set ds. is_digit c" and "foldl (\<lambda>acc c. 10 * acc + digit_val c) (unat v) ds < 2 ^ 64"
    and "rest = [] \<or> \<not> is_digit (hd rest)"
  shows "read_more_digits v (ds @ rest) =
    (Some (of_nat (foldl (\<lambda>acc c. 10 * acc + digit_val c) (unat v) ds)), rest)"
  using assms
proof (induction ds arbitrary: v)
  case Nil
  then show ?case by (cases rest) auto
next
  case (Cons d ds)
  let ?f = "foldl (\<lambda>acc c. 10 * acc + digit_val c)"
  have d: "is_digit d" "digit_val d < 10" using Cons.prems by (auto simp: digit_val_less)
  have "10 * unat v + digit_val d < 2 ^ 64"
    using Cons.prems(2) digits_value_ge [of "10 * unat v + digit_val d" ds] by simp
  note w = digit_step_word [OF d(2) this]
  show ?case
    using Cons w d by (simp add: Let_def)
qed

text \<open>Where a number may end: what follows is not read as part of it.\<close>

definition number_end :: "string \<Rightarrow> bool" where
  "number_end rest \<longleftrightarrow> rest = []
     \<or> \<not> is_digit (hd rest) \<and> hd rest \<notin> {CHR ''.'', CHR ''e'', CHR ''E''}"

lemma number_end_peek:
  "number_end rest \<Longrightarrow> peek rest \<noteq> CHR ''.'' \<and> peek rest \<noteq> CHR ''e'' \<and> peek rest \<noteq> CHR ''E''"
  by (cases rest) (auto simp: number_end_def peek_def)

lemma read_number_tail_end: "number_end rest \<Longrightarrow> read_number_tail fp n rest = Inr (n, rest)"
  using number_end_peek [of rest] by (simp add: read_number_tail_def)

lemma dec_of_nat_0: "dec_of_nat 0 = ''0''"
proof -
  have "of_char (CHR ''0'') = (48 :: nat)" by simp
  then have "char_of (48 :: nat) = CHR ''0''" by (metis char_of_char)
  then show ?thesis by (subst dec_of_nat.simps) (simp add: digit_char_def)
qed

lemma hd_dec_of_nat: "n \<noteq> 0 \<Longrightarrow> hd (dec_of_nat n) \<noteq> CHR ''0''"
proof (induction n rule: dec_of_nat.induct)
  case (1 n)
  show ?case
  proof (cases "n < 10")
    case True
    with 1 have "digit_val (hd (dec_of_nat n)) = n" by (subst dec_of_nat.simps) simp
    moreover have "digit_val (CHR ''0'') = 0" by (simp add: digit_val_def)
    ultimately show ?thesis using 1 by metis
  next
    case False
    then have "hd (dec_of_nat n) = hd (dec_of_nat (n div 10))"
      by (subst dec_of_nat.simps) (simp add: hd_append)
    with False 1 show ?thesis by simp
  qed
qed

lemma read_number_digit_written:
  assumes "n < 2 ^ 64" and "number_end rest"
  shows "read_number_digit (dec_of_nat n @ rest) = (Some (of_nat n), rest)"
proof -
  let ?f = "foldl (\<lambda>acc c. 10 * acc + digit_val c)"
  obtain d ds where s: "dec_of_nat n = d # ds" by (cases "dec_of_nat n") auto
  have dig: "is_digit d" "digit_val d < 10" "\<forall>c \<in> set ds. is_digit c"
    using dec_of_nat_digits [of n] s by (auto simp: digit_val_less)
  have n: "?f (digit_val d) ds = n"
    using nat_of_dec_of_nat [of n] s by (simp add: nat_of_dec_def)
  have v: "unat (of_nat (digit_val d) :: 64 word) = digit_val d"
    using dig by (simp add: unat_of_nat)
  have "read_more_digits (of_nat (digit_val d)) (ds @ rest) = (Some (of_nat n), rest)"
    using read_more_digits_written [OF dig(3), of "of_nat (digit_val d)" rest] assms n v
    by (auto simp: number_end_def)
  with dig s show ?thesis by (simp add: read_number_digit_def)
qed

lemma read_number_nat:
  assumes "n < 2 ^ 64" and "number_end rest"
  shows "read_number fp (dec_of_nat n @ rest) = Inr (NUint (of_nat n), rest)"
proof -
  obtain d ds where s: "dec_of_nat n = d # ds" by (cases "dec_of_nat n") auto
  have "is_digit d" using dec_of_nat_digits [of n] s by auto
  then have d: "peek (dec_of_nat n @ rest) \<noteq> CHR ''-''"
    using s by (auto simp: peek_def is_digit_def)
  show ?thesis
  proof (cases "n = 0")
    case True
    with assms show ?thesis
      by (simp add: read_number_def dec_of_nat_0 peek_def read_number_tail_end)
  next
    case False
    with s have "peek (dec_of_nat n @ rest) \<noteq> CHR ''0''"
      using hd_dec_of_nat [of n] by (simp add: peek_def)
    with d show ?thesis
      using assms
      by (simp add: read_number_def read_number_integer_def read_number_digit_written read_number_tail_end)
  qed
qed

lemma read_number_negative:
  assumes "0 < n" and "n \<le> 2 ^ 63" and "number_end rest"
  shows "read_number fp (CHR ''-'' # dec_of_nat n @ rest) = Inr (NInt (- of_nat n), rest)"
proof -
  obtain d ds where s: "dec_of_nat n = d # ds" by (cases "dec_of_nat n") auto
  with assms(1) have d: "peek (dec_of_nat n @ rest) \<noteq> CHR ''0''"
    using hd_dec_of_nat [of n] by (simp add: peek_def)
  have "unat (of_nat n :: 64 word) = n" using assms(2) by (simp add: unat_of_nat)
  then have "\<not> (of_nat n :: 64 word) > 0x8000000000000000"
    using assms(2) by (simp add: word_less_nat_alt)
  with d show ?thesis
    using assms
    by (simp add: read_number_def read_number_integer_def read_number_digit_written read_number_tail_end
        peek_def [of "CHR ''-'' # _"])
qed

text \<open>A number keeps its value but loses whether it was held signed: what is not negative is read as unsigned.\<close>

fun read_back_number :: "number \<Rightarrow> number" where
  "read_back_number (NInt i) = (if sint i < 0 then NInt i else NUint i)"
| "read_back_number n = n"

fun is_integer :: "number \<Rightarrow> bool" where
  "is_integer (NDouble d) \<longleftrightarrow> False" | "is_integer _ \<longleftrightarrow> True"

lemma read_number_written:
  assumes "is_integer n" and "number_end rest"
  shows "read_number fp (write_number fp n @ rest) = Inr (read_back_number n, rest)"
proof (cases n)
  case (NInt i)
  have r: "- (2 ^ 63) \<le> sint i" "sint i < 2 ^ 63"
    using sint_ge [of i] sint_lt [of i] by simp_all
  show ?thesis
  proof (cases "sint i < 0")
    case True
    define n where "n = nat (- sint i)"
    have "0 < n" "n \<le> 2 ^ 63" using True r by (auto simp: n_def)
    moreover have "(- of_nat n :: 64 word) = i"
    proof -
      have "(- of_nat n :: 64 word) = of_int (sint i)" using True by (simp add: n_def)
      then show ?thesis by simp
    qed
    ultimately show ?thesis
      using read_number_negative [of n rest fp] NInt True assms(2) by (simp add: dec_of_int64_def n_def)
  next
    case False
    then have "of_nat (nat (sint i)) = i" by simp
    moreover have "nat (sint i) < 2 ^ 64" using r False by auto
    ultimately show ?thesis
      using read_number_nat [of "nat (sint i)" rest fp] NInt False assms(2)
      by (simp add: dec_of_int64_def)
  qed
next
  case (NUint u)
  have "unat u < 2 ^ 64" using unsigned_less [of u] by simp
  with NUint assms(2) show ?thesis by (simp add: read_number_nat)
qed (use assms in simp)

text \<open>What is read back for a value: the same value, its non-negative numbers unsigned.\<close>

fun read_back :: "json \<Rightarrow> json" where
  "read_back (JObject ms) = JObject (map (\<lambda>m. (fst m, read_back (snd m))) ms)"
| "read_back (JArray xs) = JArray (map read_back xs)"
| "read_back (JNumber n) = JNumber (read_back_number n)"
| "read_back v = v"

text \<open>Values without doubles.\<close>

fun json_integral :: "json \<Rightarrow> bool" where
  "json_integral (JObject ms) \<longleftrightarrow> (\<forall>m \<in> set ms. json_integral (snd m))"
| "json_integral (JArray xs) \<longleftrightarrow> (\<forall>x \<in> set xs. json_integral x)"
| "json_integral (JNumber n) \<longleftrightarrow> is_integer n"
| "json_integral v \<longleftrightarrow> True"

text \<open>The elements of a container as the writer leaves them, once the last comma is removed.\<close>

fun separated :: "string list \<Rightarrow> string" where
  "separated [] = []"
| "separated [x] = x"
| "separated (x # xs) = x @ CHR '','' # separated xs"

lemma concat_commas: "xs \<noteq> [] \<Longrightarrow> concat (map (\<lambda>x. x @ [CHR '','']) xs) = separated xs @ [CHR '','']"
  by (induction xs rule: separated.induct) auto

lemma butlast_commas:
  "(let body = concat (map (\<lambda>x. f x @ [CHR '','']) xs) in if length xs > 0 then butlast body else body)
     = separated (map f xs)"
  using concat_commas [of "map f xs"] by (cases "xs = []") (simp_all add: o_def)

definition write_member :: "fpu \<Rightarrow> string \<times> json \<Rightarrow> string" where
  "write_member fp m = write_string (fst m) @ CHR '':'' # write_value fp (snd m)"

lemma write_array_eq: "write_value fp (JArray xs) = CHR ''['' # separated (map (write_value fp) xs) @ [CHR '']'']"
  using butlast_commas [of "write_value fp" xs] by simp

lemma write_object_eq: "write_value fp (JObject ms) = CHR ''{'' # separated (map (write_member fp) ms) @ [CHR ''}'']"
  using butlast_commas [of "write_member fp" ms] by (simp add: write_member_def)

declare write_value.simps(1,2) [simp del]

lemma read_whitespaces_stop: "s \<noteq> [] \<Longrightarrow> \<not> is_space (hd s) \<Longrightarrow> read_whitespaces s = Inr ((), s)"
  by (cases s) auto

text \<open>What a written value begins with.\<close>

definition value_start :: "char \<Rightarrow> bool" where
  "value_start c \<longleftrightarrow> c = CHR ''-'' \<or> is_digit c \<or> c \<in> set (CHR 0x22 # ''{[tfn'')"

lemma value_start_stop:
  "value_start c \<Longrightarrow> \<not> is_space c \<and> c \<noteq> CHR '']'' \<and> c \<noteq> CHR ''}''"
  by (auto simp: value_start_def is_space_def is_digit_def)

lemma write_value_start:
  "json_integral v \<Longrightarrow> write_value fp v \<noteq> [] \<and> value_start (hd (write_value fp v))"
proof (cases v)
  case (JNumber n)
  assume "json_integral v"
  with JNumber show ?thesis
    by (cases n) (auto simp: dec_of_int64_def value_start_def hd_dec_of_nat_digit)
qed (auto simp: write_object_eq write_array_eq write_string_def write_boolean_def value_start_def)

lemma number_end_close [simp]:
  "number_end []" "number_end (CHR '','' # s)" "number_end (CHR '']'' # s)" "number_end (CHR ''}'' # s)"
  by (simp_all add: number_end_def is_digit_def)

lemma is_space_close [simp]:
  "\<not> is_space (CHR '','')" "\<not> is_space (CHR '']'')" "\<not> is_space (CHR ''}'')" "\<not> is_space (CHR '':'')"
  "\<not> is_space (CHR 0x22)"
  by (simp_all add: is_space_def)

lemma peek_Cons [simp]: "peek (c # s) = c"
  by (simp add: peek_def)

text \<open>One element and what follows it, given that the element is read back.\<close>

lemma read_elements_written:
  assumes "xs \<noteq> []"
    and "\<And>x rest. x \<in> set xs \<Longrightarrow> number_end rest \<Longrightarrow>
           read_value fp (write_value fp x @ rest) = Inr (read_back x, rest)"
  shows "read_array_element fp (separated (map (write_value fp) xs) @ CHR '']'' # rest)
           = Inr (map read_back xs, rest)"
  using assms
proof (induction xs rule: induct_list012)
  case (2 x)
  then show ?case by (subst read_array_element.simps) simp
next
  case (3 x y zs)
  then show ?case by (subst read_array_element.simps) simp
qed simp

lemma read_quote_written: "read_quote (CHR 0x22 # s) = Inr ((), s)"
  by (simp add: read_quote_def)

lemma read_colon_written: "read_colon (CHR '':'' # s) = Inr ((), s)"
  by (simp add: read_colon_def)

lemma read_members_written:
  assumes "ms \<noteq> []" and "distinct (map fst ms)"
    and "\<And>m rest. m \<in> set ms \<Longrightarrow> number_end rest \<Longrightarrow>
           read_value fp (write_value fp (snd m) @ rest) = Inr (read_back (snd m), rest)"
  shows "read_object_member fp (separated (map (write_member fp) ms) @ CHR ''}'' # rest)
           = Inr (map (\<lambda>m. (fst m, read_back (snd m))) ms, rest)"
  using assms
proof (induction ms rule: induct_list012)
  case (2 x)
  then show ?case
    by (subst read_object_member.simps)
      (simp add: write_member_def write_string_def read_quote_written read_string_written read_colon_written)
next
  case (3 x y zs)
  then have "\<not> is_duplicate (map (\<lambda>m. (fst m, read_back (snd m))) (y # zs)) (fst x)"
    by (auto simp: is_duplicate_iff image_iff)
  with 3 show ?case
    by (subst read_object_member.simps)
      (simp add: write_member_def [of fp x] write_string_def read_quote_written read_string_written read_colon_written)
qed simp

lemma peek_append: "x \<noteq> [] \<Longrightarrow> peek (x @ s) = hd x"
  by (cases x) simp_all

lemma separated_hd: "xs \<noteq> [] \<Longrightarrow> hd xs \<noteq> [] \<Longrightarrow> separated xs \<noteq> [] \<and> hd (separated xs) = hd (hd xs)"
  by (induction xs rule: separated.induct) auto

lemma read_number_dispatch:
  assumes "peek s = CHR ''-'' \<or> is_digit (peek s)"
  shows "read_value fp s = (case read_number fp s of Inl e \<Rightarrow> Inl e | Inr (n, r) \<Rightarrow> Inr (JNumber n, r))"
proof -
  have s: "s \<noteq> []" using assms by (auto simp: peek_def is_digit_def)
  then have "hd s = peek s" by (cases s) simp_all
  with assms have "\<not> is_space (hd s)" using value_start_stop [of "hd s"] by (auto simp: value_start_def)
  with s have "read_whitespaces s = Inr ((), s)" by (rule read_whitespaces_stop)
  moreover have "peek s \<notin> set (CHR 0x22 # ''{[tfn'')"
    using assms by (auto simp: is_digit_def)
  ultimately show ?thesis
    using assms by (subst read_value.simps) (simp add: Let_def)
qed

lemma read_value_written:
  "json_integral v \<Longrightarrow> json_wf v \<Longrightarrow> number_end rest \<Longrightarrow>
   read_value fp (write_value fp v @ rest) = Inr (read_back v, rest)"
proof (induction v arbitrary: rest)
  case JNil
  then show ?case
    by (subst read_value.simps) (simp add: is_space_def read_literal_def Let_def)
next
  case (JBool b)
  then show ?case
    by (subst read_value.simps) (cases b; simp add: write_boolean_def is_space_def read_literal_def Let_def)
next
  case (JNumber n)
  then have n: "is_integer n" by simp
  then have "write_number fp n \<noteq> []" "peek (write_number fp n @ rest) = CHR ''-'' \<or> is_digit (peek (write_number fp n @ rest))"
    by (cases n; simp add: dec_of_int64_def peek_append hd_dec_of_nat_digit)+
  then show ?case
    using n JNumber.prems by (simp add: read_number_dispatch read_number_written)
next
  case (JString s)
  then show ?case
    by (subst read_value.simps) (simp add: write_string_def read_string_written Let_def)
next
  case (JArray xs)
  show ?case
  proof (cases "xs = []")
    case True
    then show ?thesis
      by (subst read_value.simps) (simp add: write_array_eq is_space_def Let_def)
  next
    case False
    let ?s = "separated (map (write_value fp) xs) @ CHR '']'' # rest"
    have x: "write_value fp (hd xs) \<noteq> []" "value_start (hd (write_value fp (hd xs)))"
      using write_value_start [of "hd xs" fp] False JArray.prems by auto
    then have "?s \<noteq> []" "value_start (hd ?s)"
      using separated_hd [of "map (write_value fp) xs"] False by (auto simp: hd_map)
    then have "read_whitespaces ?s = Inr ((), ?s)" "peek ?s \<noteq> CHR '']''"
      using value_start_stop [of "hd ?s"] peek_append [of ?s "[]"] by (auto intro!: read_whitespaces_stop)
    moreover have "read_array_element fp ?s = Inr (map read_back xs, rest)"
      using False JArray by (intro read_elements_written) auto
    ultimately show ?thesis
      using False by (subst read_value.simps) (simp add: write_array_eq is_space_def Let_def)
  qed
next
  case (JObject ms)
  show ?case
  proof (cases "ms = []")
    case True
    then show ?thesis
      by (subst read_value.simps) (simp add: write_object_eq is_space_def Let_def)
  next
    case False
    let ?s = "separated (map (write_member fp) ms) @ CHR ''}'' # rest"
    have "?s \<noteq> []" "hd ?s = CHR 0x22"
      using separated_hd [of "map (write_member fp) ms"] False
      by (auto simp: hd_map write_member_def write_string_def)
    then have "read_whitespaces ?s = Inr ((), ?s)" "peek ?s \<noteq> CHR ''}''"
      using peek_append [of ?s "[]"] by (auto intro!: read_whitespaces_stop)
    moreover have "read_object_member fp ?s = Inr (map (\<lambda>m. (fst m, read_back (snd m))) ms, rest)"
    proof (intro read_members_written)
      fix m rest'
      assume m: "m \<in> set ms" "number_end rest'"
      obtain k v where kv: "m = (k, v)" by force
      with m JObject.prems show "read_value fp (write_value fp (snd m) @ rest') = Inr (read_back (snd m), rest')"
        using kv JObject.IH [of m v rest'] by (metis insertI1 json_integral.simps(1) json_wf.simps(2) prod_set_simps(2) snd_conv)
    qed (use False JObject in auto)
    ultimately show ?thesis
      using False by (subst read_value.simps) (simp add: write_object_eq is_space_def Let_def)
  qed
qed

text \<open>
  Round trip: the text the compact serializer writes for a value without doubles and without
  duplicate members is accepted by the deserializer and gives the value back, its non-negative
  numbers held unsigned.
\<close>

lemma serialize_law:
  assumes "json_integral v" and "json_wf v"
  shows "deserialize fp (write_value fp v) = Inr (read_back v)"
  using read_value_written [OF assms, of "[]" fp] by (simp add: deserialize_def failed_def)

text \<open>
  A number written without an exponent must be followed by some character once it has a fraction:
  a text that ends in the fraction is an error.
\<close>

lemma read_fraction_digits_end:
  "\<forall>c \<in> set ds. is_digit c \<Longrightarrow> read_fraction_digits step f ds = failed END_OF_FILE []"
  by (induction ds arbitrary: step f) auto

text \<open>
  A number with a fraction as the whole text is not read: the end of the text inside the fraction is
  an error, so \<^verbatim>\<open>1.5\<close> alone is rejected.
\<close>

lemma top_level_fraction_rejected:
  assumes "n < 2 ^ 64" and "\<forall>c \<in> set ds. is_digit c"
  shows "\<exists>e. deserialize fp (dec_of_nat n @ CHR ''.'' # ds) = Inl e \<and> err_code e = END_OF_FILE"
proof -
  have rd: "\<And>m. read_number_tail fp m (CHR ''.'' # ds) = failed END_OF_FILE []"
    using assms(2) by (simp add: read_number_tail_def read_number_fractional_def read_fraction_digits_end failed_def)
  let ?s = "dec_of_nat n @ CHR ''.'' # ds"
  obtain d es where s: "dec_of_nat n = d # es" by (cases "dec_of_nat n") auto
  have d: "is_digit d" "\<forall>c \<in> set es. is_digit c" "digit_val d < 10"
    using dec_of_nat_digits [of n] s by (auto simp: digit_val_less)
  then have m: "d \<noteq> CHR ''-''" by (auto simp: is_digit_def)
  have "read_number fp ?s = failed END_OF_FILE []"
  proof (cases "n = 0")
    case True
    then show ?thesis by (simp add: read_number_def dec_of_nat_0 rd)
  next
    case False
    with s have z: "d \<noteq> CHR ''0''" using hd_dec_of_nat [of n] by simp
    have "foldl (\<lambda>acc c. 10 * acc + digit_val c) (digit_val d) es = n"
      using nat_of_dec_of_nat [of n] s by (simp add: nat_of_dec_def)
    then have "read_number_digit ?s = (Some (of_nat n), CHR ''.'' # ds)"
      using read_more_digits_written [OF d(2), of "of_nat (digit_val d)" "CHR ''.'' # ds"] assms(1) d s
      by (simp add: read_number_digit_def unat_of_nat is_digit_def [of "CHR ''.''"])
    with m z s show ?thesis by (simp add: read_number_def read_number_integer_def rd)
  qed
  moreover have "peek ?s = d" using s by simp
  ultimately show ?thesis
    using d by (simp add: deserialize_def read_number_dispatch failed_def get_error_def Let_def)
qed

text \<open>Surrogate pairs.\<close>

lemma and_mask_mod: "0x3F AND (n :: nat) = n mod 64" "0x3FF AND (n :: nat) = n mod 1024"
  using take_bit_eq_mask [of 6 n] take_bit_eq_mask [of 10 n]
  by (simp_all add: take_bit_eq_mod mask_eq_exp_minus_1 and.commute)

lemma or_shifted_add:
  assumes "b < 2 ^ k"
  shows "push_bit k a OR b = push_bit k a + (b :: nat)"
proof (rule disjunctive_add [symmetric])
  fix n
  have "\<not> bit b n" if "k \<le> n"
    using assms that by (metis bit_take_bit_iff not_le take_bit_nat_eq_self)
  then show "\<not> bit (push_bit k a) n \<or> \<not> bit b n"
    by (auto simp: bit_push_bit_iff_nat)
qed

text \<open>
  A pair gives its code point only up to the last six bits of its first half: the code points from
  \<open>0x20000\<close> on are folded into the plane below.
\<close>

lemma surrogate_pair_code:
  assumes "0xD800 \<le> hi" "hi \<le> 0xDBFF" "0xDC00 \<le> lo" "lo \<le> 0xDFFF"
  shows "decode_utf16_surrogate_pair hi lo = 0x10000 + ((hi - 0xD800) mod 64) * 1024 + (lo - 0xDC00)"
proof -
  have lo: "lo mod 1024 = lo - 0xDC00"
  proof -
    have "lo = (lo - 0xDC00) + 55 * 1024" using assms by simp
    then have "lo mod 1024 = (lo - 0xDC00) mod 1024" by (metis mod_mult_self1)
    with assms show ?thesis by simp
  qed
  have hi: "hi mod 64 = (hi - 0xD800) mod 64"
  proof -
    have "hi = (hi - 0xD800) + 864 * 64" using assms by simp
    then show ?thesis by (metis mod_mult_self1)
  qed
  have "0x10000 OR push_bit 10 (hi mod 64) = 0x10000 + push_bit 10 (hi mod 64)"
    using or_shifted_add [of "push_bit 10 (hi mod 64)" 16 1] by (simp add: push_bit_eq_mult)
  also have "\<dots> = push_bit 10 (64 + hi mod 64)" by (simp add: push_bit_eq_mult)
  finally have "decode_utf16_surrogate_pair hi lo = push_bit 10 (64 + hi mod 64) OR (lo mod 1024)"
    by (simp add: decode_utf16_surrogate_pair_def and_mask_mod flip: or.assoc)
  also have "\<dots> = push_bit 10 (64 + hi mod 64) + lo mod 1024"
    by (rule or_shifted_add) simp
  finally show ?thesis using lo hi by (simp add: push_bit_eq_mult)
qed

text \<open>
  C6: Round trip: a written value without doubles is read back as the same value, its non-negative
  numbers unsigned, which is written as the same text again.
\<close>

theorem serialize_round_trip:
  assumes "json_integral v" and "json_wf v"
  shows "deserialize fp (write_value fp v) = Inr (read_back v) \<and> json_wf (read_back v)
    \<and> write_value fp (read_back v) = write_value fp v"
proof -
  have d: "deserialize fp (write_value fp v) = Inr (read_back v)" using assms by (rule serialize_law)
  have unsigned: "nat (sint i) = unat i" if "\<not> sint i < 0" for i :: "64 word"
  proof -
    have "nat (sint i) < 2 ^ 64" using that sint_lt [of i] by auto
    then have "unat (of_nat (nat (sint i)) :: 64 word) = nat (sint i)" by (simp add: unat_of_nat)
    then show ?thesis using that by simp
  qed
  have number: "write_number fp (read_back_number n) = write_number fp n" for n
    by (cases n) (auto simp: dec_of_int64_def unsigned)
  have "write_value fp (read_back v) = write_value fp v"
    by (induction v rule: read_back.induct)
      (auto simp: number write_array_eq write_object_eq write_member_def intro!: arg_cong [of _ _ separated])
  with d deserialize_wf [OF d] show ?thesis by simp
qed

end
