(* ===== verification/Account.thy ===== *)
theory Account
  imports Std_Map Json_Text
begin

text \<open>
  One user account (\<^verbatim>\<open>rest/account/model/account.hpp\<close>): the password check with its failure counter
  and lock-out, the timer that unlocks, and the JSON form it is saved in. \<^verbatim>\<open>crypt\<close> of the C library,
  the time and the process id that seed a new salt are the record \<open>crypt_env\<close>; the steady clock is an
  argument, in nanoseconds. The \<^verbatim>\<open>int\<close> members are integers: the failure counter overflows, which is
  undefined in C++, only after \<open>2^31 - 1\<close> failures in a row without a lock.
\<close>

record crypt_env =
  env_crypt :: "string \<Rightarrow> string \<Rightarrow> string"
  env_time :: "64 word"
  env_pid :: "64 word"

record accountservice =
  svc_enabled :: bool
  svc_aflt :: int
  svc_alt :: int
  svc_ald :: int
  svc_alcra :: int

definition new_accountservice :: accountservice where
  "new_accountservice = \<lparr>svc_enabled = False, svc_aflt = 3, svc_alt = 5, svc_ald = 30, svc_alcra = 30\<rparr>"

record account =
  acc_id :: nat
  acc_name :: string
  acc_username :: string
  acc_roleid :: string
  acc_salt :: string
  acc_password :: string
  acc_enabled :: bool
  acc_locked :: bool
  acc_loginf :: int
  acc_loginftime :: int

definition new_account :: account where
  "new_account = \<lparr>acc_id = 0, acc_name = [], acc_username = [], acc_roleid = [], acc_salt = [],
     acc_password = [], acc_enabled = True, acc_locked = False, acc_loginf = 0, acc_loginftime = 0\<rparr>"

section \<open>Passwords\<close>

definition seedchars :: string where
  "seedchars = ''./0123456789ABCDEFGHIJKLMNOPQRSTUVWXYZabcdefghijklmnopqrstuvwxyz''"

definition gen_salt :: "64 word \<Rightarrow> 64 word \<Rightarrow> string" where
  "gen_salt now pid =
     (let seed = [now, pid XOR (drop_bit 14 now AND 0x30000)]
      in map (\<lambda>i. seedchars ! unat (drop_bit ((i mod 5) * 6) (seed ! (i div 5)) AND 0x3f)) [0..<8])"

text \<open>The \<^verbatim>\<open>strtok\<close> loop over \<^verbatim>\<open>$\<close>: the last non-empty field.\<close>

function last_token :: "string \<Rightarrow> string \<Rightarrow> string" where
  "last_token mypass s =
     (let rest = dropWhile (\<lambda>c. c = CHR ''$'') s
      in if rest = [] then mypass
         else last_token (takeWhile (\<lambda>c. c \<noteq> CHR ''$'') rest) (dropWhile (\<lambda>c. c \<noteq> CHR ''$'') rest))"
  by pat_completeness auto
termination
proof (relation "measure (\<lambda>(_, s). length s)", goal_cases)
  case (2 mypass s rest)
  have "rest \<noteq> []" using 2 by simp
  then obtain c cs where rest: "rest = c # cs" by (metis neq_Nil_conv)
  with 2(1) have "c \<noteq> CHR ''$''" using hd_dropWhile [of "\<lambda>c. c = CHR ''$''" s] by (metis list.distinct(1) list.sel(1))
  with rest have "length (dropWhile (\<lambda>c. c \<noteq> CHR ''$'') rest) < length rest"
    by (simp add: le_imp_less_Suc length_dropWhile_le)
  moreover have "length rest \<le> length s" using 2 by (simp add: length_dropWhile_le)
  ultimately show ?case by simp
qed simp

declare last_token.simps [simp del]

text \<open>
  \<open>encry\<close>: hashes with the account's salt, which it makes first if there is none. The code copies
  eight characters of the salt; a salt shorter than seven is read past its end, which is undefined.
\<close>

definition encry :: "crypt_env \<Rightarrow> string \<Rightarrow> account \<Rightarrow> string \<times> account" where
  "encry env passwd a =
     (let a1 = (if acc_salt a = [] then a\<lparr>acc_salt := gen_salt (env_time env) (env_pid env)\<rparr> else a);
          salt = ''$5$'' @ take 8 (acc_salt a1)
      in (last_token [] (env_crypt env (c_str passwd) (c_str salt)), a1))"

definition set_password :: "crypt_env \<Rightarrow> string \<Rightarrow> bool \<Rightarrow> account \<Rightarrow> account" where
  "set_password env password need_encrypt a =
     (if need_encrypt then (case encry env password a of (h, a1) \<Rightarrow> a1\<lparr>acc_password := h\<rparr>)
      else a\<lparr>acc_password := password\<rparr>)"

text \<open>
  The password check: its result (zero is success), the account after it, and the messages logged.
  The remainder by a zero logging threshold traps.
\<close>

definition over_threshold :: "account \<Rightarrow> string" where
  "over_threshold a = acc_username a @ '' Fail over threshold''"

definition checkpw ::
  "crypt_env \<Rightarrow> accountservice \<Rightarrow> int \<Rightarrow> string \<Rightarrow> account \<Rightarrow> int result \<times> account \<times> string list" where
  "checkpw env svc now password a =
     (if \<not> acc_enabled a then (Inr 1, a, [])
      else if acc_locked a then (Inr 1, a, [])
      else (case encry env password a of (h, a1) \<Rightarrow>
        if acc_password a1 = h
        then (let a2 = a1\<lparr>acc_loginf := 0\<rparr> in (Inr (acc_loginf a2), a2, []))
        else (let a2 = a1\<lparr>acc_loginf := acc_loginf a1 + 1\<rparr>
              in if svc_aflt svc = 0 then (Inl (Undefined ''division by zero''), a2, [])
                 else (let log = (if svc_aflt svc dvd acc_loginf a2 then [over_threshold a2] else []);
                           a3 = (if acc_loginf a2 > svc_alt svc \<and> 0 \<noteq> svc_alt svc
                                 then a2\<lparr>acc_locked := True\<rparr> else a2);
                           a4 = a3\<lparr>acc_loginftime := now\<rparr>
                       in (Inr (acc_loginf a4), a4, log)))))"

text \<open>\<^verbatim>\<open>duration_cast<seconds>\<close>, which rounds towards zero.\<close>

definition seconds_between :: "int \<Rightarrow> int \<Rightarrow> int" where
  "seconds_between start stop =
     (if start \<le> stop then (stop - start) div 1000000000 else - ((start - stop) div 1000000000))"

definition timekick_account :: "accountservice \<Rightarrow> int \<Rightarrow> account \<Rightarrow> account" where
  "timekick_account svc now a =
     (if acc_loginf a \<noteq> 0
      then (let elapse = seconds_between (acc_loginftime a) now
            in if acc_locked a
               then (if elapse > svc_ald svc then a\<lparr>acc_loginf := 0, acc_locked := False\<rparr> else a)
               else (if elapse > svc_alcra svc then a\<lparr>acc_loginf := 0\<rparr> else a))
      else if acc_locked a then a\<lparr>acc_locked := False\<rparr>
      else a)"

section \<open>The saved form\<close>

definition account_to_json :: "account \<Rightarrow> json" where
  "account_to_json a = json_object
     [(''Name'', JString (acc_name a)), (''UserName'', JString (acc_username a)),
      (''Salt'', JString (acc_salt a)), (''Password'', JString (acc_password a)),
      (''RoleId'', JString (acc_roleid a)), (''Locked'', JBool (acc_locked a)),
      (''Enabled'', JBool (acc_enabled a))]"

definition account_from_json :: "json \<Rightarrow> account result" where
  "account_from_json j =
     res_bind (as_string (get_member j ''Name'')) (\<lambda>name.
     res_bind (as_string (get_member j ''UserName'')) (\<lambda>username.
     res_bind (as_string (get_member j ''Salt'')) (\<lambda>salt.
     res_bind (as_string (get_member j ''Password'')) (\<lambda>password.
     res_bind (as_string (get_member j ''RoleId'')) (\<lambda>roleid.
     res_bind (as_bool (get_member j ''Locked'')) (\<lambda>locked.
     res_bind (as_bool (get_member j ''Enabled'')) (\<lambda>enabled.
       Inr (new_account\<lparr>acc_name := name, acc_username := username, acc_salt := salt,
              acc_password := password, acc_enabled := enabled, acc_locked := locked,
              acc_roleid := roleid\<rparr>))))))))"

text \<open>What is saved of an account: not its id, nor its failed logins.\<close>

definition saved_part :: "account \<Rightarrow> account" where
  "saved_part a = a\<lparr>acc_id := 0, acc_loginf := 0, acc_loginftime := 0\<rparr>"

lemma account_to_json_eq:
  "account_to_json a = JObject
     [(''Name'', JString (acc_name a)), (''UserName'', JString (acc_username a)),
      (''Salt'', JString (acc_salt a)), (''Password'', JString (acc_password a)),
      (''RoleId'', JString (acc_roleid a)), (''Locked'', JBool (acc_locked a)),
      (''Enabled'', JBool (acc_enabled a))]"
  by (simp add: account_to_json_def json_object_def)

lemma account_round_trip: "account_from_json (account_to_json a) = Inr (saved_part a)"
  by (cases a) (simp add: account_to_json_eq account_from_json_def saved_part_def new_account_def)

section \<open>Passwords are checked as they were set\<close>

lemma encry_salted [simp]: "acc_salt a \<noteq> [] \<Longrightarrow> encry env p a = (last_token [] (env_crypt env (c_str p) (c_str (''$5$'' @ take 8 (acc_salt a)))), a)"
  by (simp add: encry_def)

lemma gen_salt_neq_Nil [simp]: "gen_salt t p \<noteq> []"
  by (simp add: gen_salt_def Let_def)

lemma encry_account:
  "snd (encry env p a) = (if acc_salt a = [] then a\<lparr>acc_salt := gen_salt (env_time env) (env_pid env)\<rparr> else a)"
  by (simp add: encry_def Let_def)

text \<open>
  A password that was set passes the check of an enabled, unlocked account, at any later time and
  with any later process id, and clears the failures. A different one passes only if it hashes to
  the same text under the salt.
\<close>

lemma set_password_check:
  assumes "acc_enabled a" and "\<not> acc_locked a" and "env_crypt env' = env_crypt env"
  shows "\<exists>b. checkpw env' svc now p (set_password env p True a) = (Inr 0, b, []) \<and> acc_loginf b = 0"
proof -
  obtain h a1 where e: "encry env p a = (h, a1)" by force
  have a1: "a1 = (if acc_salt a = [] then a\<lparr>acc_salt := gen_salt (env_time env) (env_pid env)\<rparr> else a)"
    using encry_account [of env p a] e by simp
  define b where "b = a1\<lparr>acc_password := h\<rparr>"
  have "h = last_token [] (env_crypt env (c_str p) (c_str (''$5$'' @ take 8 (acc_salt a1))))"
    using e a1 by (auto simp: encry_def Let_def split: if_splits)
  moreover have "acc_salt b \<noteq> []" using a1 by (simp add: b_def)
  ultimately have "encry env' p b = (acc_password b, b)"
    using assms(3) by (simp add: b_def)
  moreover have "acc_enabled b" "\<not> acc_locked b" using assms a1 by (auto simp: b_def)
  ultimately have "checkpw env' svc now p b = (Inr 0, b\<lparr>acc_loginf := 0\<rparr>, [])"
    by (simp add: checkpw_def)
  moreover have "set_password env p True a = b" by (simp add: set_password_def e b_def)
  ultimately show ?thesis by simp
qed

section \<open>Lock-out\<close>

text \<open>A wrong password: one the account's hash does not accept.\<close>

definition wrong_password :: "crypt_env \<Rightarrow> account \<Rightarrow> string \<Rightarrow> bool" where
  "wrong_password env a p \<longleftrightarrow> fst (encry env p a) \<noteq> acc_password a"

definition attempt :: "crypt_env \<Rightarrow> accountservice \<Rightarrow> int \<times> string \<Rightarrow> account \<Rightarrow> account" where
  "attempt env svc tp a = fst (snd (checkpw env svc (fst tp) (snd tp) a))"

lemma attempt_wrong:
  assumes "acc_enabled a" "acc_salt a \<noteq> []" "wrong_password env a (snd tp)" "svc_aflt svc \<noteq> 0"
  shows "attempt env svc tp a = (if acc_locked a then a
    else a\<lparr>acc_loginf := acc_loginf a + 1,
           acc_locked := (acc_loginf a + 1 > svc_alt svc \<and> svc_alt svc \<noteq> 0),
           acc_loginftime := fst tp\<rparr>)"
  using assms by (auto simp: attempt_def checkpw_def wrong_password_def Let_def)

lemma wrong_password_cong:
  "acc_salt a = acc_salt b \<Longrightarrow> acc_password a = acc_password b \<Longrightarrow> wrong_password env a p = wrong_password env b p"
  by (simp add: wrong_password_def encry_def Let_def)

lemma attempts_wrong:
  assumes "acc_enabled a" "acc_salt a \<noteq> []" "\<forall>tp \<in> set tps. wrong_password env a (snd tp)"
    and "svc_aflt svc \<noteq> 0" "0 < svc_alt svc" "0 \<le> acc_loginf a"
    and "acc_locked a \<longleftrightarrow> acc_loginf a > svc_alt svc"
    and "acc_loginf a \<le> svc_alt svc + 1"
  shows "acc_loginf (fold (attempt env svc) tps a) = min (acc_loginf a + int (length tps)) (svc_alt svc + 1)
    \<and> (acc_locked (fold (attempt env svc) tps a) \<longleftrightarrow> acc_loginf a + int (length tps) > svc_alt svc)"
  using assms
proof (induction tps arbitrary: a)
  case Nil
  then show ?case by simp
next
  case (Cons tp tps)
  let ?a = "attempt env svc tp a"
  have a: "?a = (if acc_locked a then a
    else a\<lparr>acc_loginf := acc_loginf a + 1,
           acc_locked := (acc_loginf a + 1 > svc_alt svc \<and> svc_alt svc \<noteq> 0),
           acc_loginftime := fst tp\<rparr>)"
    using Cons.prems by (intro attempt_wrong) auto
  have "acc_loginf (fold (attempt env svc) tps ?a) = min (acc_loginf ?a + int (length tps)) (svc_alt svc + 1)
    \<and> (acc_locked (fold (attempt env svc) tps ?a) \<longleftrightarrow> acc_loginf ?a + int (length tps) > svc_alt svc)"
  proof (rule Cons.IH)
    show "\<forall>tp \<in> set tps. wrong_password env ?a (snd tp)"
      using Cons.prems(3) a wrong_password_cong [of ?a a env] by auto
  qed (use Cons.prems a in auto)
  then show ?case using a Cons.prems by (auto simp: min_def)
qed



text \<open>A logging threshold of zero makes the first wrong password trap.\<close>

lemma zero_threshold_law:
  assumes "acc_enabled a" "\<not> acc_locked a" "wrong_password env a p" "svc_aflt svc = 0"
  shows "\<exists>what. fst (checkpw env svc now p a) = Inl (Undefined what)"
  using assms encry_account [of env p a]
  by (auto simp: checkpw_def wrong_password_def Let_def split: prod.splits if_splits)

end
