(* ===== verification/Account_Manager.thy ===== *)
theory Account_Manager
  imports Account
begin

text \<open>
  The user accounts and roles (\<^verbatim>\<open>rest/account/manager/account_manager.cpp\<close>) and the files they are kept
  in (\<^verbatim>\<open>account_config.cpp\<close>, \<^verbatim>\<open>role_config.cpp\<close>). Every operation is one critical section of a mutex
  of the manager. The 64-bit id counters are numbers.
\<close>

datatype privilege_type = Login | ConfigureManager | ConfigureUsers | ConfigureSelf | ConfigureComponents

record role =
  role_id :: nat
  role_name :: string
  role_ispredefined :: bool
  role_privileges :: "privilege_type list"
  role_roleid :: string

definition new_role :: role where
  "new_role = \<lparr>role_id = 0, role_name = [], role_ispredefined = False, role_privileges = [], role_roleid = []\<rparr>"

record account_manager =
  am_id :: nat
  am_rid :: nat
  am_roles :: "(string, role) smap"
  am_accounts :: "(string, account) smap"
  am_service :: accountservice
  am_log :: "string list"

definition new_account_manager :: account_manager where
  "new_account_manager = \<lparr>am_id = 1, am_rid = 1, am_roles = [], am_accounts = [],
     am_service = new_accountservice, am_log = []\<rparr>"

type_synonym 'a am_action = "(account_manager, exn, 'a) action"

definition account_missing :: "string \<Rightarrow> exn" where
  "account_missing u = Gami (not_found_exc (''Account '' @ quoted u @ '' not found.''))"

definition account_id_missing :: "nat \<Rightarrow> exn" where
  "account_id_missing i = Gami (not_found_exc (''Account (ID: '' @ dec_of_nat i @ '') not found.''))"

definition role_missing :: "string \<Rightarrow> exn" where
  "role_missing r = Gami (not_found_exc (''Role '' @ quoted r @ '' not found.''))"

definition role_id_missing :: "nat \<Rightarrow> exn" where
  "role_id_missing i = Gami (not_found_exc (''Role (ID: '' @ dec_of_nat i @ '') not found.''))"

section \<open>Roles\<close>

definition addRole :: "role \<Rightarrow> nat am_action" where
  "addRole r am =
     (if map_of (am_roles am) (role_roleid r) \<noteq> None
      then (Inl (ServerExc (create_resource_already_exists_error
              (''role '' @ quoted (role_roleid r) @ '' already exists.''))), am)
      else (let r1 = r\<lparr>role_id := am_rid am\<rparr>
            in (Inr (role_id r1), am\<lparr>am_rid := am_rid am + 1,
                  am_roles := smap_put (role_roleid r1) r1 (am_roles am)\<rparr>)))"

definition getRole_by_roleid :: "account_manager \<Rightarrow> string \<Rightarrow> role result" where
  "getRole_by_roleid am rid =
     (case map_of (am_roles am) rid of None \<Rightarrow> Inl (role_missing rid) | Some r \<Rightarrow> Inr r)"

definition getRole_by_id :: "account_manager \<Rightarrow> nat \<Rightarrow> role result" where
  "getRole_by_id am i =
     (case entry_by_id role_id i (am_roles am) of
        Some e \<Rightarrow> getRole_by_roleid am (role_roleid (snd e))
      | None \<Rightarrow> Inl (role_id_missing i))"

definition delRole_by_roleid :: "string \<Rightarrow> unit am_action" where
  "delRole_by_roleid rid am =
     (if map_of (am_roles am) rid = None
      then (Inl (Gami (not_found_exc (''RoleID '' @ quoted rid @ '' not found.''))), am)
      else (Inr (), am\<lparr>am_roles := smap_erase rid (am_roles am)\<rparr>))"

definition delRole_by_id :: "nat \<Rightarrow> unit am_action" where
  "delRole_by_id i am =
     (case entry_by_id role_id i (am_roles am) of
        Some e \<Rightarrow> delRole_by_roleid (role_roleid (snd e)) am
      | None \<Rightarrow> (Inl (role_id_missing i), am))"

definition Role_size :: "account_manager \<Rightarrow> nat" where
  "Role_size am = length (am_roles am)"

section \<open>Accounts\<close>

definition addAccount :: "account \<Rightarrow> nat am_action" where
  "addAccount a am =
     (if map_of (am_accounts am) (acc_username a) \<noteq> None
      then (Inl (ServerExc (create_resource_already_exists_error
              (''Account '' @ quoted (acc_username a) @ '' already exists.''))), am)
      else (let a1 = a\<lparr>acc_id := am_id am\<rparr>
            in (Inr (acc_id a1), am\<lparr>am_id := am_id am + 1,
                  am_accounts := smap_put (acc_username a1) a1 (am_accounts am)\<rparr>)))"

definition AccountExisted :: "account_manager \<Rightarrow> string \<Rightarrow> bool" where
  "AccountExisted am u \<longleftrightarrow> map_of (am_accounts am) u \<noteq> None"

definition getAccount_by_name :: "account_manager \<Rightarrow> string \<Rightarrow> account result" where
  "getAccount_by_name am u =
     (case map_of (am_accounts am) u of None \<Rightarrow> Inl (account_missing u) | Some a \<Rightarrow> Inr a)"

definition getAccount_by_id :: "account_manager \<Rightarrow> nat \<Rightarrow> account result" where
  "getAccount_by_id am i =
     (case entry_by_id acc_id i (am_accounts am) of
        Some e \<Rightarrow> getAccount_by_name am (acc_username (snd e))
      | None \<Rightarrow> Inl (account_id_missing i))"

definition delAccount_by_name :: "string \<Rightarrow> unit am_action" where
  "delAccount_by_name u am =
     (if map_of (am_accounts am) u = None then (Inl (account_missing u), am)
      else if u = ''admin''
      then (Inl (ServerExc (create_error_for_not_allowable_value
              (quoted ''admin'' @ '' Can not be removed'') ''username'' ''admin'' [])), am)
      else (Inr (), am\<lparr>am_accounts := smap_erase u (am_accounts am)\<rparr>))"

definition delAccount_by_id :: "nat \<Rightarrow> unit am_action" where
  "delAccount_by_id i am =
     (case entry_by_id acc_id i (am_accounts am) of
        Some e \<Rightarrow> delAccount_by_name (acc_username (snd e)) am
      | None \<Rightarrow> (Inl (account_id_missing i), am))"

definition modAccount :: "string \<Rightarrow> account \<Rightarrow> unit am_action" where
  "modAccount u a =
     act_bind (if u \<noteq> acc_username a then delAccount_by_name u else act_return ())
       (\<lambda>_ am. (Inr (), am\<lparr>am_accounts := smap_put (acc_username a) a (am_accounts am)\<rparr>))"

definition account_login :: "crypt_env \<Rightarrow> int \<Rightarrow> string \<Rightarrow> string \<Rightarrow> int am_action" where
  "account_login env now u password am =
     (case map_of (am_accounts am) u of
        None \<Rightarrow> (Inl (account_missing u), am)
      | Some a \<Rightarrow> (case checkpw env (am_service am) now password a of (res, a1, log) \<Rightarrow>
          (res, am\<lparr>am_accounts := smap_put u a1 (am_accounts am), am_log := am_log am @ log\<rparr>)))"

definition timekick :: "int \<Rightarrow> account_manager \<Rightarrow> account_manager" where
  "timekick now am =
     am\<lparr>am_accounts := map (\<lambda>(u, a). (u, timekick_account (am_service am) now a)) (am_accounts am)\<rparr>"

definition Account_size :: "account_manager \<Rightarrow> nat" where
  "Account_size am = length (am_accounts am)"

section \<open>Files\<close>

text \<open>The content \<open>saveAccounts\<close> writes, and what \<open>loadAccounts\<close> makes of a file's content.\<close>

definition get_accounts_json :: "(string, account) smap \<Rightarrow> json" where
  "get_accounts_json m = foldl (\<lambda>j e. json_push_back (account_to_json (snd e)) j) (JArray []) m"

definition saveAccounts :: "fpu \<Rightarrow> account_manager \<Rightarrow> string" where
  "saveAccounts fp am = write_value fp (get_accounts_json (am_accounts am))"

definition load_account :: "json \<Rightarrow> unit am_action" where
  "load_account j =
     act_bind (act_read (\<lambda>_. account_from_json j)) (\<lambda>a.
       if acc_username a = ''admin'' then modAccount ''admin'' a
       else act_bind (addAccount a) (\<lambda>_. act_return ()))"

fun load_account_list :: "json list \<Rightarrow> unit am_action" where
  "load_account_list [] = act_return ()"
| "load_account_list (j # js) = act_bind (load_account j) (\<lambda>_. load_account_list js)"

text \<open>
  The exception that stops the load is caught and logged; accounts loaded before it stay. A
  malformed file throws inside the same \<^verbatim>\<open>try\<close>.
\<close>

definition loadAccounts :: "fpu \<Rightarrow> string \<Rightarrow> account_manager \<Rightarrow> account_manager" where
  "loadAccounts fp content am =
     (if content = [] then am
      else (case deserialize fp content of
              Inl _ \<Rightarrow> am
            | Inr (JArray js) \<Rightarrow> snd (load_account_list js am)
            | Inr _ \<Rightarrow> am))"

definition load_admin :: "crypt_env \<Rightarrow> account_manager \<Rightarrow> account_manager" where
  "load_admin env am =
     (let a = new_account\<lparr>acc_username := ''admin''\<rparr>;
          a1 = (set_password env ''redfish'' True a)\<lparr>acc_enabled := True, acc_locked := False,
                 acc_roleid := ''Administrator''\<rparr>
      in snd (addAccount a1 am))"

definition predefined_role :: "string \<Rightarrow> privilege_type list \<Rightarrow> role" where
  "predefined_role rid privileges =
     new_role\<lparr>role_ispredefined := True, role_privileges := privileges, role_roleid := rid\<rparr>"

definition loadPreRoles :: "account_manager \<Rightarrow> account_manager" where
  "loadPreRoles am = snd (act_bind (addRole (predefined_role ''Administrator''
         [Login, ConfigureManager, ConfigureUsers, ConfigureSelf, ConfigureComponents]))
      (\<lambda>_. act_bind (addRole (predefined_role ''Operator'' [Login, ConfigureSelf, ConfigureComponents]))
      (\<lambda>_. addRole (predefined_role ''ReadOnlyUser'' [Login, ConfigureSelf]))) am)"

text \<open>
  \<open>saveRoles\<close> first takes the predefined roles out of a copy of the map. Its loop moves on only when it
  erases; \<open>None\<close> is a loop that never ends.
\<close>

partial_function (option) drop_predefined :: "(string, role) smap \<Rightarrow> (string, role) smap \<Rightarrow> (string, role) smap option" where
  "drop_predefined before after =
     (case after of
        [] \<Rightarrow> Some before
      | e # rest \<Rightarrow> if role_ispredefined (snd e) then drop_predefined before rest
                    else drop_predefined before after)"

section \<open>The invariant\<close>

definition accounts_ok :: "account_manager \<Rightarrow> bool" where
  "accounts_ok am \<longleftrightarrow> registry_ok acc_username acc_id (am_accounts am)
     \<and> (\<forall>e \<in> set (am_accounts am). acc_id (snd e) < am_id am)"

definition roles_ok :: "account_manager \<Rightarrow> bool" where
  "roles_ok am \<longleftrightarrow> registry_ok role_roleid role_id (am_roles am)
     \<and> (\<forall>e \<in> set (am_roles am). role_id (snd e) < am_rid am)"

interpretation account_registry: named_registry map_of smap_put smap_erase "\<lambda>m. m" smap_ok
  acc_username acc_id "registry_ok acc_username acc_id"
  by unfold_locales (rule registry_ok_iff)

interpretation role_registry: named_registry map_of smap_put smap_erase "\<lambda>m. m" smap_ok
  role_roleid role_id "registry_ok role_roleid role_id"
  by unfold_locales (rule registry_ok_iff)

lemma registry_smap_ok: "registry_ok f g m \<Longrightarrow> smap_ok m"
  by (simp add: registry_ok_def)

lemma accounts_ok_iff:
  "accounts_ok am \<longleftrightarrow> registry_ok acc_username acc_id (am_accounts am)
     \<and> (\<forall>u a. map_of (am_accounts am) u = Some a \<longrightarrow> acc_id a < am_id am)"
  unfolding accounts_ok_def
  by (metis registry_smap_ok smap_ok_in_set prod.collapse snd_conv)

lemma roles_ok_iff:
  "roles_ok am \<longleftrightarrow> registry_ok role_roleid role_id (am_roles am)
     \<and> (\<forall>u r. map_of (am_roles am) u = Some r \<longrightarrow> role_id r < am_rid am)"
  unfolding roles_ok_def
  by (metis registry_smap_ok smap_ok_in_set prod.collapse snd_conv)

lemma accounts_ok_new [simp]: "accounts_ok new_account_manager" "roles_ok new_account_manager"
  by (simp_all add: accounts_ok_def roles_ok_def new_account_manager_def registry_ok_def)

lemma account_name: "accounts_ok am \<Longrightarrow> map_of (am_accounts am) u = Some a \<Longrightarrow> acc_username a = u"
  by (simp add: accounts_ok_def registry_ok_iff)

text \<open>Filing an account under its name keeps the invariant if no other entry has its id.\<close>

lemma accounts_ok_put:
  assumes "accounts_ok am" and "acc_id a < n" "am_id am \<le> n"
    and "\<And>k b. map_of (am_accounts am) k = Some b \<Longrightarrow> k \<noteq> acc_username a \<Longrightarrow> acc_id b \<noteq> acc_id a"
  shows "accounts_ok (am\<lparr>am_id := n, am_accounts := smap_put (acc_username a) a (am_accounts am)\<rparr>)"
proof -
  have "registry_ok acc_username acc_id (smap_put (acc_username a) a (am_accounts am))"
    using assms by (intro account_registry.coherent_put) (auto simp: accounts_ok_def)
  then show ?thesis using assms(1-3) by (fastforce simp: accounts_ok_iff)
qed

lemma accounts_ok_erase:
  "accounts_ok am \<Longrightarrow> accounts_ok (am\<lparr>am_accounts := smap_erase u (am_accounts am)\<rparr>)"
  by (auto simp: accounts_ok_iff account_registry.coherent_erase)

text \<open>
  A new account is filed under its name with an id no account ever had in this run, and the other
  accounts stay.
\<close>

lemma addAccount_law:
  assumes "accounts_ok am" and "map_of (am_accounts am) (acc_username a) = None"
  shows "\<exists>am'. addAccount a am = (Inr (am_id am), am') \<and> accounts_ok am'
    \<and> map_of (am_accounts am') = (map_of (am_accounts am))(acc_username a \<mapsto> a\<lparr>acc_id := am_id am\<rparr>)
    \<and> (\<forall>u b. map_of (am_accounts am) u = Some b \<longrightarrow> acc_id b \<noteq> am_id am)
    \<and> am_id am < am_id am'"
proof -
  let ?a = "a\<lparr>acc_id := am_id am\<rparr>"
  have "accounts_ok (am\<lparr>am_id := am_id am + 1, am_accounts := smap_put (acc_username ?a) ?a (am_accounts am)\<rparr>)"
    using assms(1) by (intro accounts_ok_put) (fastforce simp: accounts_ok_iff)+
  then show ?thesis
    using assms by (fastforce simp: addAccount_def Let_def accounts_ok_iff)
qed

lemma addRole_ok: "roles_ok am \<Longrightarrow> roles_ok (snd (addRole r am))"
proof -
  assume ok: "roles_ok am"
  let ?r = "r\<lparr>role_id := am_rid am\<rparr>"
  have "registry_ok role_roleid role_id (smap_put (role_roleid ?r) ?r (am_roles am))"
    using ok by (intro role_registry.coherent_put) (fastforce simp: roles_ok_iff)+
  then show ?thesis
    using ok by (fastforce simp: addRole_def Let_def roles_ok_iff)
qed

text \<open>The predefined roles are there after start-up, each with its own id and privileges.\<close>

lemma loadPreRoles_roles:
  "am_roles (loadPreRoles new_account_manager) =
     [(''Administrator'', (predefined_role ''Administrator''
         [Login, ConfigureManager, ConfigureUsers, ConfigureSelf, ConfigureComponents])\<lparr>role_id := 1\<rparr>),
      (''Operator'', (predefined_role ''Operator'' [Login, ConfigureSelf, ConfigureComponents])\<lparr>role_id := 2\<rparr>),
      (''ReadOnlyUser'', (predefined_role ''ReadOnlyUser'' [Login, ConfigureSelf])\<lparr>role_id := 3\<rparr>)]"
  by (simp add: loadPreRoles_def act_bind_def addRole_def Let_def predefined_role_def new_role_def
      new_account_manager_def less_list_code)

section \<open>Removing and renaming\<close>

lemma account_by_id_iff:
  "accounts_ok am \<Longrightarrow> entry_by_id acc_id i (am_accounts am) = Some (u, a)
     \<longleftrightarrow> map_of (am_accounts am) u = Some a \<and> acc_id a = i"
  by (simp add: accounts_ok_def entry_by_id_def account_registry.by_id_iff)

text \<open>
  Removing an account by name: an unknown name and \<open>admin\<close> are refused and nothing changes; any
  other account is removed, and only it.
\<close>

lemma delAccount_correct:
  assumes "accounts_ok am"
  shows "case map_of (am_accounts am) u of
      None \<Rightarrow> delAccount_by_name u am = (Inl (account_missing u), am)
    | Some a \<Rightarrow>
        if u = ''admin'' then \<exists>e. delAccount_by_name u am = (Inl (ServerExc e), am) \<and> http_status_code e = 400
        else \<exists>am'. delAccount_by_name u am = (Inr (), am') \<and> accounts_ok am'
               \<and> map_of (am_accounts am') = (map_of (am_accounts am))(u := None)"
  using accounts_ok_erase [OF assms, of u]
  by (auto simp: delAccount_by_name_def create_error_for_not_allowable_value_def
      create_value_not_in_list_error_def create_error_def extend_if_def add_extended_message_def split: option.split)

lemma delAccount_by_id_eq:
  "accounts_ok am \<Longrightarrow> map_of (am_accounts am) u = Some a \<Longrightarrow>
   delAccount_by_id (acc_id a) am = delAccount_by_name u am"
  using account_by_id_iff [of am "acc_id a" u a]
  by (simp add: delAccount_by_id_def account_name)

text \<open>
  Replacing an account, possibly under a new name: the old name is gone, the new one holds the given
  account, the others stay. Whatever account already had the new name is lost.
\<close>

lemma modAccount_law:
  assumes "accounts_ok am" and "map_of (am_accounts am) u = Some old" and "acc_id a = acc_id old"
    and "u = acc_username a \<or> u \<noteq> ''admin''"
  shows "\<exists>am'. modAccount u a am = (Inr (), am') \<and> accounts_ok am'
    \<and> map_of (am_accounts am') = (map_of (am_accounts am))(u := None, acc_username a \<mapsto> a)"
proof -
  have lt: "acc_id a < am_id am" using assms(1-3) by (simp add: accounts_ok_iff)
  have only: "k = u" if "map_of (am_accounts am) k = Some b" "acc_id b = acc_id a" for k b
    using assms(1-3) that by (auto simp: accounts_ok_iff registry_ok_iff)
  show ?thesis
  proof (cases "u = acc_username a")
    case True
    have "accounts_ok (am\<lparr>am_id := am_id am, am_accounts := smap_put (acc_username a) a (am_accounts am)\<rparr>)"
      using assms(1) lt order_refl by (rule accounts_ok_put) (use only True in blast)
    with True show ?thesis by (auto simp: modAccount_def)
  next
    case False
    let ?am = "am\<lparr>am_accounts := smap_erase u (am_accounts am)\<rparr>"
    have "accounts_ok (?am\<lparr>am_id := am_id ?am, am_accounts := smap_put (acc_username a) a (am_accounts ?am)\<rparr>)"
      using accounts_ok_erase [OF assms(1)] lt
      by (intro accounts_ok_put) (use only in \<open>auto split: if_splits\<close>)
    with False assms show ?thesis
      by (auto simp: modAccount_def act_bind_def delAccount_by_name_def)
  qed
qed

section \<open>Logging in\<close>

lemma checkpw_frame:
  assumes "checkpw env svc now p a = (res, a1, log)"
  shows "acc_username a1 = acc_username a \<and> acc_id a1 = acc_id a \<and> acc_roleid a1 = acc_roleid a
    \<and> acc_enabled a1 = acc_enabled a \<and> acc_password a1 = acc_password a"
  using assms encry_account [of env p a]
  by (auto simp: checkpw_def Let_def split: prod.splits if_splits)

lemma checkpw_zero: "checkpw env svc now p a = (Inr 0, a1, log) \<Longrightarrow> acc_enabled a \<and> \<not> acc_locked a"
  by (cases "acc_enabled a"; cases "acc_locked a") (simp_all add: checkpw_def)

text \<open>
  A login never changes who the accounts are: only the failure bookkeeping and the salt of the
  account that is tried. The result is zero only for an enabled, unlocked account.
\<close>

lemma login_law:
  assumes "accounts_ok am" and "map_of (am_accounts am) u = Some a"
    and "account_login env now u p am = (res, am')"
  shows "accounts_ok am'
    \<and> (\<exists>a'. map_of (am_accounts am') = (map_of (am_accounts am))(u \<mapsto> a')
          \<and> acc_username a' = u \<and> acc_id a' = acc_id a \<and> acc_password a' = acc_password a
          \<and> acc_roleid a' = acc_roleid a)
    \<and> (res = Inr 0 \<longrightarrow> acc_enabled a \<and> \<not> acc_locked a)"
proof -
  obtain a1 log where c: "checkpw env (am_service am) now p a = (res, a1, log)"
    and am': "am' = am\<lparr>am_accounts := smap_put u a1 (am_accounts am), am_log := am_log am @ log\<rparr>"
    using assms(2,3) by (auto simp: account_login_def split: prod.splits)
  have u: "acc_username a = u" using assms account_name by blast
  note fr = checkpw_frame [OF c]
  have "accounts_ok (am\<lparr>am_id := am_id am, am_accounts := smap_put (acc_username a1) a1 (am_accounts am)\<rparr>)"
    using assms(1,2) fr u by (intro accounts_ok_put) (auto simp: accounts_ok_iff registry_ok_iff)
  then have "accounts_ok am'" using fr u am' by (simp add: accounts_ok_def)
  moreover have "res = Inr 0 \<longrightarrow> acc_enabled a \<and> \<not> acc_locked a"
    using c checkpw_zero by auto
  ultimately show ?thesis using fr u am' by auto
qed

lemma map_of_timekick:
  "map_of (am_accounts (timekick now am)) u
     = map_option (timekick_account (am_service am) now) (map_of (am_accounts am) u)"
  by (simp add: timekick_def map_of_map)

lemma timekick_frame [simp]:
  "acc_username (timekick_account svc now a) = acc_username a" "acc_id (timekick_account svc now a) = acc_id a"
  by (simp_all add: timekick_account_def Let_def)

lemma accounts_ok_timekick: "accounts_ok am \<Longrightarrow> accounts_ok (timekick now am)"
proof -
  assume ok: "accounts_ok am"
  have keys: "map fst (am_accounts (timekick now am)) = map fst (am_accounts am)"
    by (simp add: timekick_def o_def case_prod_beta)
  then have "smap_ok (am_accounts (timekick now am))"
    using ok by (simp add: accounts_ok_def registry_ok_def smap_ok_def)
  moreover have "am_id (timekick now am) = am_id am" by (simp add: timekick_def)
  ultimately show ?thesis
    using ok by (auto simp: accounts_ok_iff registry_ok_iff map_of_timekick)
qed

section \<open>The administrator account\<close>

text \<open>Everything that can happen to the manager after start-up, in any order.\<close>

inductive account_step :: "crypt_env \<Rightarrow> account_manager \<Rightarrow> account_manager \<Rightarrow> bool" for env where
  step_addAccount: "addAccount a am = (r, am') \<Longrightarrow> account_step env am am'"
| step_delAccount_by_name: "delAccount_by_name u am = (r, am') \<Longrightarrow> account_step env am am'"
| step_delAccount_by_id: "delAccount_by_id i am = (r, am') \<Longrightarrow> account_step env am am'"
| step_modAccount: "modAccount u a am = (r, am') \<Longrightarrow> account_step env am am'"
| step_login: "account_login env now u p am = (r, am') \<Longrightarrow> account_step env am am'"
| step_timekick: "account_step env am (timekick now am)"
| step_addRole: "addRole role am = (r, am') \<Longrightarrow> account_step env am am'"
| step_delRole_by_roleid: "delRole_by_roleid rid am = (r, am') \<Longrightarrow> account_step env am am'"
| step_delRole_by_id: "delRole_by_id i am = (r, am') \<Longrightarrow> account_step env am am'"
| step_service: "account_step env am (am\<lparr>am_service := svc\<rparr>)"

inductive_cases account_stepE: "account_step env am am'"

definition has_admin :: "account_manager \<Rightarrow> bool" where
  "has_admin am \<longleftrightarrow> map_of (am_accounts am) ''admin'' \<noteq> None"

lemma delAccount_by_name_admin: "has_admin am \<Longrightarrow> has_admin (snd (delAccount_by_name u am))"
  by (auto simp: delAccount_by_name_def has_admin_def)

lemma account_step_admin: "account_step env am am' \<Longrightarrow> has_admin am \<Longrightarrow> has_admin am'"
proof (induction rule: account_step.induct)
  case (step_delAccount_by_name u am r am')
  then show ?case using delAccount_by_name_admin [of am u] by simp
next
  case (step_delAccount_by_id i am r am')
  then show ?case
    using delAccount_by_name_admin [of am]
    by (auto simp: delAccount_by_id_def split: option.splits) (metis snd_conv)
next
  case (step_modAccount u a am r am')
  then show ?case
    using delAccount_by_name_admin [of am u]
    by (auto simp: modAccount_def act_bind_def act_return_def has_admin_def
        split: if_splits prod.splits sum.splits)
next
  case (step_login now u p am r am')
  then show ?case by (auto simp: account_login_def has_admin_def split: option.splits prod.splits)
next
  case (step_timekick am now)
  then show ?case by (simp add: has_admin_def map_of_timekick)
qed (auto simp: addAccount_def addRole_def delRole_by_roleid_def delRole_by_id_def has_admin_def Let_def
    split: if_splits option.splits)

text \<open>
  Whatever requests are served, in whatever order, there is an account named \<open>admin\<close>: it can be
  changed, but neither removed nor renamed.
\<close>

lemma admin_never_removed:
  assumes "(account_step env)\<^sup>*\<^sup>* (load_admin env new_account_manager) am"
  shows "map_of (am_accounts am) ''admin'' \<noteq> None"
proof -
  have "has_admin (load_admin env new_account_manager)"
    by (simp add: has_admin_def load_admin_def Let_def addAccount_def new_account_manager_def set_password_def
        new_account_def encry_def)
  with assms have "has_admin am"
    by (induction rule: rtranclp_induct) (auto intro: account_step_admin)
  then show ?thesis by (simp add: has_admin_def)
qed

section \<open>Saving and loading\<close>

lemma get_accounts_json_eq: "get_accounts_json m = JArray (map (account_to_json \<circ> snd) m)"
proof -
  have "foldl (\<lambda>j e. json_push_back (account_to_json (snd e)) j) (JArray xs) m
      = JArray (xs @ map (account_to_json \<circ> snd) m)" for xs
    by (induction m arbitrary: xs) simp_all
  then show ?thesis by (simp add: get_accounts_json_def)
qed

lemma saveAccounts_read:
  "deserialize fp (saveAccounts fp am) = Inr (JArray (map (account_to_json \<circ> snd) (am_accounts am)))"
  unfolding saveAccounts_def get_accounts_json_eq
  by (subst serialize_law) (auto simp: account_to_json_eq)

text \<open>While the file is loaded: the id 0 of a replaced \<open>admin\<close> is no one else's.\<close>

definition loading_ok :: "account_manager \<Rightarrow> bool" where
  "loading_ok am \<longleftrightarrow> accounts_ok am \<and> 0 < am_id am
     \<and> (\<forall>u b. map_of (am_accounts am) u = Some b \<longrightarrow> u \<noteq> ''admin'' \<longrightarrow> acc_id b \<noteq> 0)"

lemma load_account_saved:
  assumes "loading_ok am" and "acc_username a = ''admin'' \<or> map_of (am_accounts am) (acc_username a) = None"
  shows "\<exists>am' b. load_account (account_to_json a) am = (Inr (), am') \<and> loading_ok am'
    \<and> saved_part b = saved_part a
    \<and> map_of (am_accounts am') = (map_of (am_accounts am))(acc_username a \<mapsto> b)"
proof (cases "acc_username a = ''admin''")
  case True
  let ?a = "saved_part a"
  have "accounts_ok (am\<lparr>am_id := am_id am, am_accounts := smap_put (acc_username ?a) ?a (am_accounts am)\<rparr>)"
    using assms(1) True by (intro accounts_ok_put) (auto simp: loading_ok_def saved_part_def)
  with True assms(1) show ?thesis
    by (intro exI [of _ "am\<lparr>am_accounts := smap_put ''admin'' ?a (am_accounts am)\<rparr>"] exI [of _ ?a])
      (auto simp: load_account_def act_bind_def act_read_def account_round_trip modAccount_def
        act_return_def saved_part_def loading_ok_def)
next
  case False
  let ?a = "saved_part a"
  have "map_of (am_accounts am) (acc_username ?a) = None" using assms False by (simp add: saved_part_def)
  from addAccount_law [OF _ this] assms(1) obtain am' where
    am': "addAccount ?a am = (Inr (am_id am), am')" "accounts_ok am'"
      "map_of (am_accounts am') = (map_of (am_accounts am))(acc_username ?a \<mapsto> ?a\<lparr>acc_id := am_id am\<rparr>)"
      "am_id am < am_id am'"
    by (auto simp: loading_ok_def)
  have "load_account (account_to_json a) am = (Inr (), am')"
    using am' False by (simp add: load_account_def act_bind_def act_read_def account_round_trip
        act_return_def saved_part_def)
  moreover have "loading_ok am'"
    using assms(1) am' False by (auto simp: loading_ok_def saved_part_def)
  moreover have "saved_part (?a\<lparr>acc_id := am_id am\<rparr>) = saved_part a" "acc_username ?a = acc_username a"
    by (simp_all add: saved_part_def)
  ultimately show ?thesis using am'(3) by metis
qed

lemma load_account_list_saved:
  assumes "loading_ok am" and "distinct (map fst es)" and "\<forall>e \<in> set es. acc_username (snd e) = fst e"
    and "\<forall>u \<in> fst ` set es. u = ''admin'' \<or> map_of (am_accounts am) u = None"
  shows "\<exists>am'. load_account_list (map (account_to_json \<circ> snd) es) am = (Inr (), am') \<and> loading_ok am'
    \<and> (\<forall>u. map_option saved_part (map_of (am_accounts am') u) =
          (case map_of es u of Some a \<Rightarrow> Some (saved_part a)
           | None \<Rightarrow> map_option saved_part (map_of (am_accounts am) u)))"
  using assms
proof (induction es arbitrary: am)
  case Nil
  then show ?case by (simp add: act_return_def)
next
  case (Cons e es)
  obtain u a where e: "e = (u, a)" by force
  with Cons.prems have u: "acc_username a = u" by simp
  obtain am1 b where l: "load_account (account_to_json a) am = (Inr (), am1)" "loading_ok am1"
      "saved_part b = saved_part a" "map_of (am_accounts am1) = (map_of (am_accounts am))(u \<mapsto> b)"
    using load_account_saved [OF Cons.prems(1), of a] Cons.prems(4) e u by auto
  have "\<exists>am'. load_account_list (map (account_to_json \<circ> snd) es) am1 = (Inr (), am') \<and> loading_ok am'
    \<and> (\<forall>u. map_option saved_part (map_of (am_accounts am') u) =
          (case map_of es u of Some a \<Rightarrow> Some (saved_part a)
           | None \<Rightarrow> map_option saved_part (map_of (am_accounts am1) u)))"
  proof (rule Cons.IH)
    show "\<forall>u' \<in> fst ` set es. u' = ''admin'' \<or> map_of (am_accounts am1) u' = None"
    proof
      fix u'
      assume u': "u' \<in> fst ` set es"
      then have "u' \<noteq> u" using Cons.prems(2) e by auto
      then show "u' = ''admin'' \<or> map_of (am_accounts am1) u' = None"
        using Cons.prems(4) l(4) u' by auto
    qed
  qed (use Cons.prems l in auto)
  then obtain am' where am': "load_account_list (map (account_to_json \<circ> snd) es) am1 = (Inr (), am')"
      "loading_ok am'"
      "\<And>u. map_option saved_part (map_of (am_accounts am') u) =
          (case map_of es u of Some a \<Rightarrow> Some (saved_part a)
           | None \<Rightarrow> map_option saved_part (map_of (am_accounts am1) u))"
    by blast
  have "map_of es u = None" using Cons.prems(2) e by (auto simp: map_of_eq_None_iff)
  then show ?case
    using e l am' by (intro exI [of _ am']) (auto simp: act_bind_def comp_def split: option.split)
qed

text \<open>
  Restart: what is saved and loaded again into a fresh manager, after its default \<open>admin\<close> was
  created, is the same accounts: names, hashes, salts, roles and flags; ids are new and failures
  are forgotten.
\<close>

lemma accounts_survive_law:
  assumes "accounts_ok am" and "map_of (am_accounts am) ''admin'' \<noteq> None"
  shows "accounts_ok (loadAccounts fp (saveAccounts fp am) (load_admin env new_account_manager))
    \<and> (\<forall>u. map_option saved_part (map_of (am_accounts
              (loadAccounts fp (saveAccounts fp am) (load_admin env new_account_manager))) u)
         = map_option saved_part (map_of (am_accounts am) u))"
proof -
  let ?s = "load_admin env new_account_manager"
  obtain b where adm: "am_accounts ?s = [(''admin'', b)]" "acc_id b = 1" "acc_username b = ''admin''" "am_id ?s = 2"
    by (simp add: load_admin_def addAccount_def Let_def new_account_manager_def set_password_def
        new_account_def encry_def)
  then have "accounts_ok ?s"
    by (simp add: accounts_ok_def registry_ok_def smap_ok_def)
  then have "loading_ok ?s" using adm by (auto simp: loading_ok_def)
  moreover have sm: "smap_ok (am_accounts am)" "\<forall>e \<in> set (am_accounts am). acc_username (snd e) = fst e"
    using assms(1) by (auto simp: accounts_ok_def registry_ok_def)
  ultimately have "\<exists>am'. load_account_list (map (account_to_json \<circ> snd) (am_accounts am)) ?s = (Inr (), am')
    \<and> loading_ok am'
    \<and> (\<forall>u. map_option saved_part (map_of (am_accounts am') u) =
          (case map_of (am_accounts am) u of Some a \<Rightarrow> Some (saved_part a)
           | None \<Rightarrow> map_option saved_part (map_of (am_accounts ?s) u)))"
    using adm smap_ok_distinct [of "am_accounts am"] by (intro load_account_list_saved) auto
  moreover have "saveAccounts fp am \<noteq> []"
    by (simp add: saveAccounts_def get_accounts_json_eq write_array_eq)
  ultimately obtain am' where am': "loadAccounts fp (saveAccounts fp am) ?s = am'" "accounts_ok am'"
      "\<And>u. map_option saved_part (map_of (am_accounts am') u) =
          (case map_of (am_accounts am) u of Some a \<Rightarrow> Some (saved_part a)
           | None \<Rightarrow> map_option saved_part (map_of (am_accounts ?s) u))"
    by (auto simp: loadAccounts_def saveAccounts_read loading_ok_def)
  moreover have "map_of (am_accounts ?s) u = None" if "map_of (am_accounts am) u = None" for u
    using that assms(2) adm(1) by auto
  ultimately show ?thesis by (auto split: option.split)
qed

section \<open>Saving the roles\<close>

lemma drop_predefined_all:
  assumes "drop_predefined before after = Some m"
  shows "\<forall>e \<in> set after. role_ispredefined (snd e)"
proof (rule drop_predefined.raw_induct [OF _ assms, of "\<lambda>before after m. \<forall>e \<in> set after. role_ispredefined (snd e)"])
  fix f :: "(string, role) smap \<Rightarrow> (string, role) smap \<Rightarrow> (string, role) smap option" and before after m
  assume "\<And>before after m. f before after = Some m \<Longrightarrow> \<forall>e \<in> set after. role_ispredefined (snd e)"
    and "(case after of [] \<Rightarrow> Some before | e # rest \<Rightarrow>
        if role_ispredefined (snd e) then f before rest else f before after) = Some m"
  then show "\<forall>e \<in> set after. role_ispredefined (snd e)"
    by (cases after) (fastforce split: if_splits)+
qed

lemma drop_predefined_predefined:
  "\<forall>e \<in> set after. role_ispredefined (snd e) \<Longrightarrow> drop_predefined before after = Some before"
  by (induction after) (simp_all add: drop_predefined.simps)

text \<open>
  C36: Writing the roles file ends exactly when every role is predefined, and then there is nothing
  left to write; with one role of the user's own the loop never ends.
\<close>

theorem saveRoles_ends_iff:
  "drop_predefined [] (am_roles am) =
     (if \<forall>e \<in> set (am_roles am). role_ispredefined (snd e) then Some [] else None)"
  using drop_predefined_all [of "[]" "am_roles am"] drop_predefined_predefined [of "am_roles am" "[]"]
  by (cases "drop_predefined [] (am_roles am)") auto

section \<open>What the manager promises\<close>

text \<open>
  Adding an account: a name that is taken is refused with status 400 and nothing changes; otherwise
  the account is found under its name with an id no account has or had, and the others stay.
\<close>

lemma addAccount_correct:
  assumes "accounts_ok am"
  shows "case map_of (am_accounts am) (acc_username a) of
      Some old \<Rightarrow> \<exists>e. addAccount a am = (Inl (ServerExc e), am) \<and> http_status_code e = 400
    | None \<Rightarrow> \<exists>am'. addAccount a am = (Inr (am_id am), am') \<and> accounts_ok am'
        \<and> map_of (am_accounts am') = (map_of (am_accounts am))(acc_username a \<mapsto> a\<lparr>acc_id := am_id am\<rparr>)
        \<and> (\<forall>u b. map_of (am_accounts am) u = Some b \<longrightarrow> acc_id b \<noteq> am_id am) \<and> am_id am < am_id am'"
proof (cases "map_of (am_accounts am) (acc_username a)")
  case None
  with addAccount_law [OF assms] show ?thesis by simp
next
  case (Some old)
  then show ?thesis
    by (simp add: addAccount_def create_resource_already_exists_error_def extend_if_def create_error_def
        add_extended_message_def)
qed

text \<open>
  Replacing an account, possibly under a new name: \<open>admin\<close> cannot be renamed; otherwise the old name is
  gone, the new one holds the given account, the others stay. Whatever account already had the
  new name is lost.
\<close>

lemma modAccount_correct:
  assumes "accounts_ok am" and "map_of (am_accounts am) u = Some old" and "acc_id a = acc_id old"
  shows "if u = ''admin'' \<and> acc_username a \<noteq> ''admin''
    then \<exists>e. modAccount u a am = (Inl (ServerExc e), am) \<and> http_status_code e = 400
    else \<exists>am'. modAccount u a am = (Inr (), am') \<and> accounts_ok am'
      \<and> map_of (am_accounts am') = (map_of (am_accounts am))(u := None, acc_username a \<mapsto> a)"
proof (cases "u = ''admin'' \<and> acc_username a \<noteq> ''admin''")
  case True
  with assms(2) show ?thesis
    by (auto simp: modAccount_def act_bind_def delAccount_by_name_def create_error_for_not_allowable_value_def
        create_value_not_in_list_error_def create_error_def extend_if_def add_extended_message_def)
next
  case False
  with modAccount_law [OF assms] show ?thesis by auto
qed

text \<open>
  A login is refused for an unknown name and otherwise changes at most the failure bookkeeping, the
  lock and the salt of the account that is tried: no name, id, password, role or other account. Its
  result is zero only for an enabled account that is not locked.
\<close>

lemma login_correct:
  assumes "accounts_ok am"
  shows "case map_of (am_accounts am) u of
      None \<Rightarrow> account_login env now u p am = (Inl (account_missing u), am)
    | Some a \<Rightarrow> \<exists>res am' a'. account_login env now u p am = (res, am') \<and> accounts_ok am'
        \<and> map_of (am_accounts am') = (map_of (am_accounts am))(u \<mapsto> a')
        \<and> acc_username a' = u \<and> acc_id a' = acc_id a \<and> acc_password a' = acc_password a
        \<and> acc_roleid a' = acc_roleid a
        \<and> (res = Inr 0 \<longrightarrow> acc_enabled a \<and> \<not> acc_locked a)"
proof (cases "map_of (am_accounts am) u")
  case None
  then show ?thesis by (simp add: account_login_def)
next
  case (Some a)
  obtain res am' where l: "account_login env now u p am = (res, am')" by force
  from login_law [OF assms Some l] Some l show ?thesis by auto
qed

end
