(* ===== verification/Validators.thy ===== *)
theory Validators
  imports Std_Map Json_Text Std_Regex
begin

text \<open>
  Validation of request bodies (\<^verbatim>\<open>agent_framework\<close> \<open>ProcedureValidator\<close> and its \<open>ValidityChecker\<close>s,
  \<^verbatim>\<open>rest/validators/json_validator.cpp\<close> and the schemas). A body is converted to jsoncpp's value type,
  whose objects are ordered by key. What jsoncpp answers about a number, and its printed form of a
  value, are the record \<open>jsoncpp\<close>; \<open>None\<close> there is the exception it throws for a number out of range.
  The argument of a checker is \<open>None\<close> for \<open>NON_EXISTING_VALUE\<close>.
\<close>

record jsoncpp =
  jc_isInt :: "number \<Rightarrow> bool"
  jc_isInt64 :: "number \<Rightarrow> bool"
  jc_isUInt64 :: "number \<Rightarrow> bool"
  jc_isDouble :: "number \<Rightarrow> bool"
  jc_isReal :: "number \<Rightarrow> bool"
  jc_to_intValue :: "number \<Rightarrow> bool"
  jc_to_uintValue :: "number \<Rightarrow> bool"
  jc_asInt :: "number \<Rightarrow> int option"
  jc_asUInt :: "number \<Rightarrow> int option"
  jc_asInt64 :: "number \<Rightarrow> int option"
  jc_asDouble :: "number \<Rightarrow> dbl"
  jc_styled :: "json \<Rightarrow> string"

section \<open>Checkers\<close>

datatype number_type = TYPE_ANYTHING | TYPE_INT32 | TYPE_UINT32 | TYPE_INT64 | TYPE_UINT64

datatype checker =
    Checker_always
  | Checker_any
  | Checker_never
  | Checker_string
  | Checker_boolean
  | Checker_integer
  | Checker_real
  | Checker_object
  | Checker_array
  | Checker_array_of checker nat nat
  | Checker_numeric number_type "int option" "int option"
  | Checker_double "dbl option" "dbl option"
  | Checker_uuid
  | Checker_enum "string list"
  | Checker_regex regex
  | Checker_attribute "(string \<times> checker) list"
  | Checker_optional checker
  | Checker_nullable checker
  | Checker_composite checker checker

type_synonym procedure = "(string \<times> checker) list"

text \<open>\<open>ValidationException\<close>, and the exception of jsoncpp that nothing here catches.\<close>

datatype vfail =
    Invalid error_code string string json
  | Json_exception string

type_synonym vresult = "vfail + unit"

definition invalid :: "error_code \<Rightarrow> string \<Rightarrow> json option \<Rightarrow> vresult" where
  "invalid code msg v = Inl (Invalid code msg [] (case v of None \<Rightarrow> JNil | Some j \<Rightarrow> j))"

fun append_field :: "string \<Rightarrow> vresult \<Rightarrow> vresult" where
  "append_field name (Inl (Invalid code msg field v)) =
     Inl (Invalid code msg (if field = [] then name else name @ CHR ''/'' # field) v)"
| "append_field name r = r"

text \<open>\<open>ValidityChecker::validate\<close>, the check all the others begin with.\<close>

definition check_present :: "json option \<Rightarrow> vresult" where
  "check_present v = (case v of
       None \<Rightarrow> invalid MISSING_FIELD ''Mandatory field is not present.'' v
     | Some j \<Rightarrow> if is_null j then invalid INVALID_FIELD_TYPE ''Value null is not allowed.'' v else Inr ())"

definition check_type :: "(json \<Rightarrow> bool) \<Rightarrow> string \<Rightarrow> json option \<Rightarrow> vresult" where
  "check_type is_type msg v = res_bind (check_present v) (\<lambda>_.
     if is_type (the v) then Inr () else invalid INVALID_FIELD_TYPE msg v)"

definition on_number :: "(number \<Rightarrow> bool) \<Rightarrow> json \<Rightarrow> bool" where
  "on_number f v = (case v of JNumber n \<Rightarrow> f n | _ \<Rightarrow> False)"

definition type_error_msg :: "string \<Rightarrow> string" where
  "type_error_msg t = ''Property value is not valid '' @ t @ '' type.''"

subsection \<open>Numbers\<close>

definition is_integral :: "fpu \<Rightarrow> dbl \<Rightarrow> bool" where
  "is_integral fp d =
     (let result = DFabs (DFmod d (DNat 1));
          r1 = (if fpu_less fp result (DNeg (DLit ''0.5'')) then DAdd result (DNat 1)
                else if fpu_less fp (DLit ''0.5'') result then DSub result (DNat 1) else result);
          r2 = (if fpu_less fp r1 (DNat 0) then DNeg r1 else r1)
      in fpu_less fp r2 (DLit ''1.0e-10''))"

text \<open>\<open>(has_min \<and> x < min) \<or> (has_max \<and> x > max)\<close>, where reading \<open>x\<close> may throw.\<close>

definition range_violated :: "int option \<Rightarrow> int option \<Rightarrow> int option \<Rightarrow> bool option" where
  "range_violated x mn mx =
     (if mn = None \<and> mx = None then Some False
      else map_option (\<lambda>i. (case mn of None \<Rightarrow> False | Some m \<Rightarrow> i < m)
                         \<or> (case mx of None \<Rightarrow> False | Some m \<Rightarrow> i > m)) x)"

definition check_range :: "int option \<Rightarrow> int option \<Rightarrow> int option \<Rightarrow> string \<Rightarrow> json option \<Rightarrow> vresult" where
  "check_range x mn mx msg v = (case range_violated x mn mx of
       None \<Rightarrow> Inl (Json_exception ''LargestInt out of range'')
     | Some True \<Rightarrow> invalid INVALID_VALUE_FORMAT msg v
     | Some False \<Rightarrow> Inr ())"

definition check_fraction :: "jsoncpp \<Rightarrow> fpu \<Rightarrow> number \<Rightarrow> json option \<Rightarrow> vresult" where
  "check_fraction jc fp n v =
     (if jc_isDouble jc n \<and> \<not> is_integral fp (jc_asDouble jc n)
      then invalid INVALID_VALUE_FORMAT ''Provided number value with a fractional part.'' v else Inr ())"

definition check_number_as ::
  "jsoncpp \<Rightarrow> fpu \<Rightarrow> number_type \<Rightarrow> int option \<Rightarrow> int option \<Rightarrow> number \<Rightarrow> json option \<Rightarrow> vresult" where
  "check_number_as jc fp ty mn mx n v = (case ty of
       TYPE_ANYTHING \<Rightarrow> Inr ()
     | TYPE_INT32 \<Rightarrow>
         if \<not> jc_to_intValue jc n
         then invalid INVALID_FIELD_TYPE ''Property value is not valid 32-bit integer type.'' v
         else res_bind (check_fraction jc fp n v)
                (\<lambda>_. check_range (jc_asInt jc n) mn mx ''32-bit integer value out of range.'' v)
     | TYPE_UINT32 \<Rightarrow>
         if \<not> jc_to_uintValue jc n
         then invalid INVALID_FIELD_TYPE ''Property value is not valid unsigned 32-bit number type.'' v
         else res_bind (check_fraction jc fp n v)
                (\<lambda>_. check_range (jc_asUInt jc n) mn mx ''Unsigned 32-bit integer value out of range.'' v)
     | TYPE_INT64 \<Rightarrow> res_bind (check_fraction jc fp n v) (\<lambda>_.
         if \<not> jc_isInt64 jc n \<or> jc_isReal jc n
         then invalid INVALID_VALUE_FORMAT ''Value out of Int64 range.'' v
         else check_range (jc_asInt64 jc n) mn mx ''Value out of Int64 range.'' v)
     | TYPE_UINT64 \<Rightarrow> res_bind (check_fraction jc fp n v) (\<lambda>_.
         if \<not> jc_isUInt64 jc n then invalid INVALID_VALUE_FORMAT ''Value out of UInt64 range.'' v
         else check_range (jc_asUInt jc n) mn mx ''Value out of UInt64 range.'' v))"

definition not_a_number_msg :: "number_type \<Rightarrow> string" where
  "not_a_number_msg ty = (case ty of
       TYPE_INT32 \<Rightarrow> ''Property value is not valid 32-bit integer type.''
     | TYPE_UINT32 \<Rightarrow> ''Property value is not valid unsigned 32-bit number type.''
     | TYPE_INT64 \<Rightarrow> '' Property value is not valid number type.''
     | TYPE_UINT64 \<Rightarrow> ''Property value is not valid unsigned number type.''
     | TYPE_ANYTHING \<Rightarrow> ''Property value is not valid number type.'')"

definition check_number ::
  "jsoncpp \<Rightarrow> fpu \<Rightarrow> number_type \<Rightarrow> int option \<Rightarrow> int option \<Rightarrow> json option \<Rightarrow> vresult" where
  "check_number jc fp ty mn mx v = res_bind (check_present v) (\<lambda>_. case the v of
       JNumber n \<Rightarrow> check_number_as jc fp ty mn mx n v
     | JBool b \<Rightarrow> if ty = TYPE_ANYTHING then invalid INVALID_FIELD_TYPE ''Boolean value is not a number.'' v
                  else invalid INVALID_FIELD_TYPE (not_a_number_msg ty) v
     | _ \<Rightarrow> invalid INVALID_FIELD_TYPE (not_a_number_msg ty) v)"

definition check_double :: "jsoncpp \<Rightarrow> fpu \<Rightarrow> dbl option \<Rightarrow> dbl option \<Rightarrow> json option \<Rightarrow> vresult" where
  "check_double jc fp mn mx v = res_bind (check_present v) (\<lambda>_. case the v of
       JNumber n \<Rightarrow>
         if (case mn of None \<Rightarrow> False | Some m \<Rightarrow> fpu_less fp (jc_asDouble jc n) m)
           \<or> (case mx of None \<Rightarrow> False | Some m \<Rightarrow> fpu_less fp m (jc_asDouble jc n))
         then invalid INVALID_VALUE_FORMAT ''Value out of range.'' v else Inr ()
     | _ \<Rightarrow> invalid INVALID_FIELD_TYPE ''Property value is not valid number type.'' v)"

subsection \<open>Strings\<close>

definition check_string :: "(string \<Rightarrow> vresult) \<Rightarrow> json option \<Rightarrow> vresult" where
  "check_string f v = res_bind (check_present v) (\<lambda>_. case the v of
       JString s \<Rightarrow> f s
     | _ \<Rightarrow> invalid INVALID_FIELD_TYPE ''Property value is not valid string type.'' v)"

definition is_hex :: "char \<Rightarrow> bool" where
  "is_hex c \<longleftrightarrow> hex_digit c \<noteq> None"

definition uuid_pattern :: string where
  "uuid_pattern = ''xxxxxxxx-xxxx-xxxx-xxxx-xxxxxxxxxxxx''"

fun check_uuid_chars :: "json option \<Rightarrow> (char \<times> char) list \<Rightarrow> vresult" where
  "check_uuid_chars v [] = Inr ()"
| "check_uuid_chars v ((p, c) # rest) =
     (if p = CHR ''x''
      then (if is_hex c then check_uuid_chars v rest
            else invalid INVALID_VALUE_FORMAT ''Invalid UUID hex number.'' v)
      else if p \<noteq> c then invalid INVALID_VALUE_FORMAT ''Invalid UUID format.'' v
      else check_uuid_chars v rest)"

definition check_uuid :: "json option \<Rightarrow> vresult" where
  "check_uuid v = check_string (\<lambda>s.
     if length s \<noteq> length uuid_pattern then invalid INVALID_VALUE_FORMAT ''Incorrect UUID length.'' v
     else check_uuid_chars v (zip uuid_pattern s)) v"

definition join_values :: "string list \<Rightarrow> string" where
  "join_values vs = concat (map (\<lambda>s. s @ '' '') vs)"

definition check_enum :: "string list \<Rightarrow> json option \<Rightarrow> vresult" where
  "check_enum values v = check_string (\<lambda>s.
     if c_str s \<in> set values then Inr ()
     else if s = []
     then Inl (Invalid INVALID_ENUM (''Empty value is not in constraint values: [ '' @ join_values values @ '']'')
                 [] (JString ''<empty>''))
     else invalid INVALID_ENUM (''Value '' @ [CHR 0x27] @ s @ [CHR 0x27]
            @ '' is not in constraint values: [ '' @ join_values values @ '']'') v) v"

definition check_regex :: "regex \<Rightarrow> json option \<Rightarrow> vresult" where
  "check_regex r v = check_string (\<lambda>s.
     if regex_match r s then Inr ()
     else invalid INVALID_FIELD_TYPE ''Value is malformed or does not match its expected form.'' v) v"

subsection \<open>All checkers\<close>

fun first_failure :: "nat \<Rightarrow> vresult list \<Rightarrow> vresult" where
  "first_failure i [] = Inr ()"
| "first_failure i (r # rs) =
     (case append_field (dec_of_nat i) r of Inl e \<Rightarrow> Inl e | Inr _ \<Rightarrow> first_failure (Suc i) rs)"

definition array_size_msg :: "nat \<Rightarrow> nat \<Rightarrow> string" where
  "array_size_msg mn mx = ''Invalid array size. Valid size range is <'' @ dec_of_nat mn @ ''; '' @ dec_of_nat mx @ ''>.''"

text \<open>
  \<open>check_fields\<close> is the loop of \<open>ProcedureValidator::validate\<close>, with the members not yet asked for; what
  is left of them after the last field is unexpected.
\<close>

fun check :: "jsoncpp \<Rightarrow> fpu \<Rightarrow> checker \<Rightarrow> json option \<Rightarrow> vresult"
  and check_fields :: "jsoncpp \<Rightarrow> fpu \<Rightarrow> procedure \<Rightarrow> json \<Rightarrow> string list \<Rightarrow> vresult"
where
  "check jc fp Checker_always v = Inr ()"
| "check jc fp Checker_any v = check_present v"
| "check jc fp Checker_never v = invalid INVALID_FIELD ''This value is never valid.'' v"
| "check jc fp Checker_string v = check_type is_string (type_error_msg ''string'') v"
| "check jc fp Checker_boolean v = check_type is_boolean (type_error_msg ''boolean'') v"
| "check jc fp Checker_integer v = check_type (on_number (jc_isInt jc)) (type_error_msg ''integer'') v"
| "check jc fp Checker_real v = check_type (on_number (jc_isDouble jc)) (type_error_msg ''real'') v"
| "check jc fp Checker_object v = check_type is_object (type_error_msg ''object'') v"
| "check jc fp Checker_array v = check_type is_array (type_error_msg ''array'') v"
| "check jc fp (Checker_array_of c mn mx) v = res_bind (check_present v) (\<lambda>_. case the v of
       JArray xs \<Rightarrow>
         if mx < mn then Inr ()
         else if mn \<le> length xs \<and> length xs \<le> mx
         then first_failure 0 (map (\<lambda>x. check jc fp c (Some x)) xs)
         else invalid INVALID_VALUE_FORMAT (array_size_msg mn mx) v
     | _ \<Rightarrow> invalid INVALID_FIELD_TYPE (type_error_msg ''array'') v)"
| "check jc fp (Checker_numeric ty mn mx) v = check_number jc fp ty mn mx v"
| "check jc fp (Checker_double mn mx) v = check_double jc fp mn mx v"
| "check jc fp Checker_uuid v = check_uuid v"
| "check jc fp (Checker_enum values) v = check_enum values v"
| "check jc fp (Checker_regex r) v = check_regex r v"
| "check jc fp (Checker_attribute flds) v = res_bind (check_present v) (\<lambda>_. case the v of
       JObject ms \<Rightarrow> check_fields jc fp flds (JObject ms) (map fst ms)
     | _ \<Rightarrow> invalid INVALID_FIELD_TYPE (type_error_msg ''object'') v)"
| "check jc fp (Checker_optional c) v = (if v = None then Inr () else check jc fp c v)"
| "check jc fp (Checker_nullable c) v = (if v = Some JNil then Inr () else check jc fp c v)"
| "check jc fp (Checker_composite c d) v = res_bind (check jc fp c v) (\<lambda>_. check jc fp d v)"
| "check_fields jc fp [] request members =
     (case members of [] \<Rightarrow> Inr ()
      | m # _ \<Rightarrow> Inl (Invalid UNEXPECTED_FIELD ''Unexpected field in json.'' m (get_member request m)))"
| "check_fields jc fp ((name, c) # flds) request members =
     (case append_field name (check jc fp c
             (if name \<in> set members then Some (get_member request name) else None)) of
        Inl e \<Rightarrow> Inl e
      | Inr _ \<Rightarrow> check_fields jc fp flds request (removeAll name members))"

section \<open>Procedures\<close>

text \<open>\<open>to_json_rpc\<close>: the same value with its members in key order, the last of equal ones kept.\<close>

fun to_json_rpc :: "json \<Rightarrow> json" where
  "to_json_rpc (JObject ms) =
     JObject (foldl (\<lambda>m e. smap_put (fst e) (snd e) m) [] (map (\<lambda>e. (fst e, to_json_rpc (snd e))) ms))"
| "to_json_rpc (JArray xs) = JArray (map to_json_rpc xs)"
| "to_json_rpc v = v"

definition validate_value :: "jsoncpp \<Rightarrow> fpu \<Rightarrow> procedure \<Rightarrow> json \<Rightarrow> vresult" where
  "validate_value jc fp flds request =
     (if is_null request \<and> flds = [] then Inr ()
      else if \<not> is_null request \<and> \<not> is_object request
      then invalid INVALID_FIELD ''Request is not a JSON object.'' (Some request)
      else check_fields jc fp flds request (case request of JObject ms \<Rightarrow> map fst ms | _ \<Rightarrow> []))"

definition validate_procedure :: "jsoncpp \<Rightarrow> fpu \<Rightarrow> procedure \<Rightarrow> json \<Rightarrow> unit result" where
  "validate_procedure jc fp flds req = (case validate_value jc fp flds (to_json_rpc req) of
       Inr _ \<Rightarrow> Inr ()
     | Inl (Invalid code msg field v) \<Rightarrow>
         Inl (Gami \<lparr>gami_code = code, gami_message = msg,
                gami_data = no_data\<lparr>data_field_name := field, data_field_value := jc_styled jc v\<rparr>\<rparr>)
     | Inl (Json_exception what) \<Rightarrow> Inl (StdExc what))"

text \<open>\<open>create_validators\<close>: a field named again is checked by both.\<close>

fun merge_validator :: "string \<Rightarrow> checker \<Rightarrow> procedure \<Rightarrow> procedure" where
  "merge_validator name c [] = [(name, c)]"
| "merge_validator name c ((n, d) # flds) =
     (if n = name then (n, Checker_composite d c) # flds else (n, d) # merge_validator name c flds)"

definition create_validators :: "(string \<times> checker) list \<Rightarrow> procedure" where
  "create_validators args = foldl (\<lambda>flds (name, c). merge_validator name c flds) [] args"

section \<open>What is accepted\<close>

text \<open>The values a checker is meant to accept.\<close>

definition accepts_number :: "jsoncpp \<Rightarrow> fpu \<Rightarrow> number_type \<Rightarrow> int option \<Rightarrow> int option \<Rightarrow> number \<Rightarrow> bool" where
  "accepts_number jc fp ty mn mx n \<longleftrightarrow>
     (let whole = (jc_isDouble jc n \<longrightarrow> is_integral fp (jc_asDouble jc n))
      in case ty of
           TYPE_ANYTHING \<Rightarrow> True
         | TYPE_INT32 \<Rightarrow> jc_to_intValue jc n \<and> whole \<and> range_violated (jc_asInt jc n) mn mx = Some False
         | TYPE_UINT32 \<Rightarrow> jc_to_uintValue jc n \<and> whole \<and> range_violated (jc_asUInt jc n) mn mx = Some False
         | TYPE_INT64 \<Rightarrow> whole \<and> jc_isInt64 jc n \<and> \<not> jc_isReal jc n
             \<and> range_violated (jc_asInt64 jc n) mn mx = Some False
         | TYPE_UINT64 \<Rightarrow> whole \<and> jc_isUInt64 jc n \<and> range_violated (jc_asUInt jc n) mn mx = Some False)"

definition accepts_double :: "jsoncpp \<Rightarrow> fpu \<Rightarrow> dbl option \<Rightarrow> dbl option \<Rightarrow> number \<Rightarrow> bool" where
  "accepts_double jc fp mn mx n \<longleftrightarrow>
     \<not> ((case mn of None \<Rightarrow> False | Some m \<Rightarrow> fpu_less fp (jc_asDouble jc n) m)
       \<or> (case mx of None \<Rightarrow> False | Some m \<Rightarrow> fpu_less fp m (jc_asDouble jc n)))"

definition is_uuid :: "string \<Rightarrow> bool" where
  "is_uuid s \<longleftrightarrow> list_all2 (\<lambda>p c. if p = CHR ''x'' then is_hex c else c = p) uuid_pattern s"

fun accepts :: "jsoncpp \<Rightarrow> fpu \<Rightarrow> checker \<Rightarrow> json option \<Rightarrow> bool" where
  "accepts jc fp Checker_always v = True"
| "accepts jc fp Checker_any v = (v \<noteq> None \<and> v \<noteq> Some JNil)"
| "accepts jc fp Checker_never v = False"
| "accepts jc fp Checker_string v = (case v of Some (JString _) \<Rightarrow> True | _ \<Rightarrow> False)"
| "accepts jc fp Checker_boolean v = (case v of Some (JBool _) \<Rightarrow> True | _ \<Rightarrow> False)"
| "accepts jc fp Checker_integer v = (case v of Some (JNumber n) \<Rightarrow> jc_isInt jc n | _ \<Rightarrow> False)"
| "accepts jc fp Checker_real v = (case v of Some (JNumber n) \<Rightarrow> jc_isDouble jc n | _ \<Rightarrow> False)"
| "accepts jc fp Checker_object v = (case v of Some (JObject _) \<Rightarrow> True | _ \<Rightarrow> False)"
| "accepts jc fp Checker_array v = (case v of Some (JArray _) \<Rightarrow> True | _ \<Rightarrow> False)"
| "accepts jc fp (Checker_array_of c mn mx) v = (case v of
       Some (JArray xs) \<Rightarrow> mx < mn \<or> mn \<le> length xs \<and> length xs \<le> mx \<and> (\<forall>x \<in> set xs. accepts jc fp c (Some x))
     | _ \<Rightarrow> False)"
| "accepts jc fp (Checker_numeric ty mn mx) v =
     (case v of Some (JNumber n) \<Rightarrow> accepts_number jc fp ty mn mx n | _ \<Rightarrow> False)"
| "accepts jc fp (Checker_double mn mx) v =
     (case v of Some (JNumber n) \<Rightarrow> accepts_double jc fp mn mx n | _ \<Rightarrow> False)"
| "accepts jc fp Checker_uuid v = (case v of Some (JString s) \<Rightarrow> is_uuid s | _ \<Rightarrow> False)"
| "accepts jc fp (Checker_enum values) v = (case v of Some (JString s) \<Rightarrow> c_str s \<in> set values | _ \<Rightarrow> False)"
| "accepts jc fp (Checker_regex r) v = (case v of Some (JString s) \<Rightarrow> regex_match r s | _ \<Rightarrow> False)"
| "accepts jc fp (Checker_attribute flds) v = (case v of
       Some (JObject ms) \<Rightarrow> (\<forall>f \<in> set flds. accepts jc fp (snd f) (map_of ms (fst f)))
         \<and> fst ` set ms \<subseteq> fst ` set flds
     | _ \<Rightarrow> False)"
| "accepts jc fp (Checker_optional c) v = (v = None \<or> accepts jc fp c v)"
| "accepts jc fp (Checker_nullable c) v = (v = Some JNil \<or> accepts jc fp c v)"
| "accepts jc fp (Checker_composite c d) v = (accepts jc fp c v \<and> accepts jc fp d v)"

definition conforms :: "jsoncpp \<Rightarrow> fpu \<Rightarrow> procedure \<Rightarrow> json \<Rightarrow> bool" where
  "conforms jc fp flds v \<longleftrightarrow> accepts jc fp (Checker_attribute flds) (Some (if v = JNil then JObject [] else v))"

text \<open>No procedure, at any depth, names a field twice.\<close>

fun checker_wf :: "checker \<Rightarrow> bool" where
  "checker_wf (Checker_array_of c mn mx) = checker_wf c"
| "checker_wf (Checker_attribute flds) = (distinct (map fst flds) \<and> (\<forall>f \<in> set flds. checker_wf (snd f)))"
| "checker_wf (Checker_optional c) = checker_wf c"
| "checker_wf (Checker_nullable c) = checker_wf c"
| "checker_wf (Checker_composite c d) = (checker_wf c \<and> checker_wf d)"
| "checker_wf c = True"

lemma invalid_not_Inr [simp]: "invalid c m v \<noteq> Inr u"
  by (simp add: invalid_def)

lemma append_field_Inr [simp]: "append_field n r = Inr u \<longleftrightarrow> r = Inr u"
  by (cases "(n, r)" rule: append_field.cases) auto

lemma check_present_iff [simp]: "check_present v = Inr u \<longleftrightarrow> v \<noteq> None \<and> v \<noteq> Some JNil"
  by (auto simp: check_present_def is_null_def split: option.split)

lemma check_type_iff: "check_type P msg v = Inr u \<longleftrightarrow> v \<noteq> None \<and> v \<noteq> Some JNil \<and> P (the v)"
  by (auto simp: check_type_def result_simps)

lemma first_failure_iff: "first_failure i rs = Inr u \<longleftrightarrow> (\<forall>r \<in> set rs. r = Inr ())"
  by (induction rs arbitrary: i) (auto split: sum.split)

lemma check_string_iff:
  "check_string f v = Inr u \<longleftrightarrow> (\<exists>s. v = Some (JString s) \<and> f s = Inr ())"
  by (auto simp: check_string_def result_simps split: json.splits)

lemma check_uuid_chars_iff:
  "length ps = length cs \<Longrightarrow> check_uuid_chars v (zip ps cs) = Inr u
     \<longleftrightarrow> list_all2 (\<lambda>p c. if p = CHR ''x'' then is_hex c else c = p) ps cs"
  by (induction ps cs rule: list_induct2) auto

lemma check_uuid_iff: "check_uuid v = Inr u \<longleftrightarrow> (\<exists>s. v = Some (JString s) \<and> is_uuid s)"
proof -
  have "(if length s \<noteq> length uuid_pattern then invalid INVALID_VALUE_FORMAT ''Incorrect UUID length.'' v
     else check_uuid_chars v (zip uuid_pattern s)) = Inr () \<longleftrightarrow> is_uuid s" for s
    using check_uuid_chars_iff [of uuid_pattern s v]
    by (auto simp: is_uuid_def dest: list_all2_lengthD)
  then show ?thesis by (simp add: check_uuid_def check_string_iff)
qed

lemma check_range_iff: "check_range x mn mx msg v = Inr u \<longleftrightarrow> range_violated x mn mx = Some False"
  by (auto simp: check_range_def split: option.split bool.split)

lemma check_fraction_iff:
  "check_fraction jc fp n v = Inr u \<longleftrightarrow> (jc_isDouble jc n \<longrightarrow> is_integral fp (jc_asDouble jc n))"
  by (auto simp: check_fraction_def)

lemma check_number_iff:
  "check_number jc fp ty mn mx v = Inr u \<longleftrightarrow> (\<exists>n. v = Some (JNumber n) \<and> accepts_number jc fp ty mn mx n)"
  by (auto simp: check_number_def check_number_as_def accepts_number_def result_simps Let_def
      check_range_iff check_fraction_iff split: json.splits number_type.split if_splits)

lemma check_double_iff:
  "check_double jc fp mn mx v = Inr u \<longleftrightarrow> (\<exists>n. v = Some (JNumber n) \<and> accepts_double jc fp mn mx n)"
  by (auto simp: check_double_def accepts_double_def result_simps split: json.splits)

lemma check_fields_iff:
  assumes "distinct (map fst flds)"
    and "\<And>f v. f \<in> set flds \<Longrightarrow> check jc fp (snd f) v = Inr () \<longleftrightarrow> accepts jc fp (snd f) v"
  shows "check_fields jc fp flds request members = Inr u \<longleftrightarrow>
    (\<forall>f \<in> set flds. accepts jc fp (snd f)
       (if fst f \<in> set members then Some (get_member request (fst f)) else None))
    \<and> set members \<subseteq> fst ` set flds"
  using assms
proof (induction flds arbitrary: members)
  case Nil
  then show ?case by (auto split: list.split)
next
  case (Cons f flds)
  obtain name c where f: "f = (name, c)" by force
  have c: "check jc fp c v = Inr () \<longleftrightarrow> accepts jc fp c v" for v
    using Cons.prems(2) [of f] f by simp
  have IH: "check_fields jc fp flds request (removeAll name members) = Inr u \<longleftrightarrow>
    (\<forall>g \<in> set flds. accepts jc fp (snd g)
       (if fst g \<in> set (removeAll name members) then Some (get_member request (fst g)) else None))
    \<and> set (removeAll name members) \<subseteq> fst ` set flds"
    using Cons.prems by (intro Cons.IH) auto
  have same: "(\<forall>g \<in> set flds. accepts jc fp (snd g)
       (if fst g \<in> set (removeAll name members) then Some (get_member request (fst g)) else None))
    \<longleftrightarrow> (\<forall>g \<in> set flds. accepts jc fp (snd g)
       (if fst g \<in> set members then Some (get_member request (fst g)) else None))"
  proof (rule ball_cong [OF refl])
    fix g
    assume "g \<in> set flds"
    then have "fst g \<noteq> name" using Cons.prems(1) f by auto
    then show "accepts jc fp (snd g) (if fst g \<in> set (removeAll name members) then Some (get_member request (fst g)) else None)
      \<longleftrightarrow> accepts jc fp (snd g) (if fst g \<in> set members then Some (get_member request (fst g)) else None)"
      by simp
  qed
  let ?r = "check jc fp c (if name \<in> set members then Some (get_member request name) else None)"
  have "check_fields jc fp (f # flds) request members = Inr u \<longleftrightarrow>
    ?r = Inr () \<and> check_fields jc fp flds request (removeAll name members) = Inr u"
    using append_field_Inr [of name ?r "()"] unfolding f
    by (cases "append_field name ?r") simp_all
  then show ?case
    unfolding IH same c using f by auto
qed

lemma lookup_members: "(if k \<in> fst ` set ms then Some (get_member (JObject ms) k) else None) = map_of ms k"
proof (cases "map_of ms k")
  case None
  then have "k \<notin> fst ` set ms" by (simp add: map_of_eq_None_iff)
  with None show ?thesis by simp
next
  case (Some v)
  then have "k \<in> fst ` set ms" by (force dest: map_of_SomeD)
  with Some show ?thesis by simp
qed

lemma check_iff: "checker_wf c \<Longrightarrow> check jc fp c v = Inr u \<longleftrightarrow> accepts jc fp c v"
proof (induction c arbitrary: v u)
  case (Checker_array_of c mn mx)
  then show ?case
    by (auto simp: result_simps first_failure_iff split: json.splits option.splits)
next
  case (Checker_attribute flds)
  have "check_fields jc fp flds (JObject ms) (map fst ms) = Inr u \<longleftrightarrow>
      (\<forall>f \<in> set flds. accepts jc fp (snd f) (map_of ms (fst f))) \<and> fst ` set ms \<subseteq> fst ` set flds" for ms
    using Checker_attribute by (subst check_fields_iff) (auto simp: lookup_members)
  then show ?case
    by (auto simp: result_simps split: json.splits option.splits)
qed (auto simp: check_type_iff check_string_iff check_uuid_iff check_number_iff check_double_iff
    check_enum_def check_regex_def on_number_def result_simps
    split: json.splits option.splits if_splits elim: is_string.elims is_boolean.elims is_array.elims is_object.elims)

lemma map_of_foldl_put:
  "distinct (map fst es) \<Longrightarrow>
   map_of (foldl (\<lambda>m e. smap_put (fst e) (snd e) m) m0 es) = map_of m0 ++ map_of es"
proof (induction es arbitrary: m0)
  case (Cons e es)
  have "map_of es (fst e) = None" using Cons.prems by (auto simp: map_of_eq_None_iff)
  with Cons show ?case by (cases e) (auto simp: fun_eq_iff map_add_def split: option.split)
qed simp

lemma smap_ok_foldl_put: "smap_ok m0 \<Longrightarrow> smap_ok (foldl (\<lambda>m e. smap_put (fst e) (snd e) m) m0 es)"
  by (induction es arbitrary: m0) (auto intro: smap_ok_put)

lemma to_json_rpc_members:
  assumes "distinct (map fst ms)"
  shows "\<exists>ns. to_json_rpc (JObject ms) = JObject ns \<and> smap_ok ns
    \<and> map_of ns = (\<lambda>k. map_option to_json_rpc (map_of ms k))"
proof -
  let ?es = "map (\<lambda>e. (fst e, to_json_rpc (snd e))) ms"
  have "distinct (map fst ?es)" using assms by (simp add: comp_def)
  from map_of_foldl_put [OF this, of "[]"]
  have "map_of (foldl (\<lambda>m e. smap_put (fst e) (snd e) m) [] ?es) = (\<lambda>k. map_option to_json_rpc (map_of ms k))"
    by (simp add: map_of_map [of to_json_rpc, unfolded case_prod_beta] fun_eq_iff comp_def)
  with smap_ok_foldl_put [of "[]" ?es] show ?thesis by simp
qed

lemma to_json_rpc_scalar [simp]:
  "to_json_rpc v = JString s \<longleftrightarrow> v = JString s" "to_json_rpc v = JBool b \<longleftrightarrow> v = JBool b"
  "to_json_rpc v = JNumber n \<longleftrightarrow> v = JNumber n" "to_json_rpc v = JNil \<longleftrightarrow> v = JNil"
  by (cases v; simp)+

text \<open>
  The validator accepts a body exactly when it conforms to the procedure: every field, present or
  absent, is one its checker allows, and there is no other member. Anything else is answered with an
  exception.
\<close>

lemma validate_law:
  assumes "checker_wf (Checker_attribute flds)" and "json_wf v"
  shows "validate_procedure jc fp flds v = Inr () \<longleftrightarrow> conforms jc fp flds (to_json_rpc v)"
proof -
  have c: "check_fields jc fp flds (JObject ms) (map fst ms) = Inr () \<longleftrightarrow> accepts jc fp (Checker_attribute flds) (Some (JObject ms))" for ms
    using check_iff [OF assms(1), of jc fp "Some (JObject ms)" "()"] by (simp add: result_simps)
  have n: "check_fields jc fp flds JNil [] = Inr () \<longleftrightarrow> accepts jc fp (Checker_attribute flds) (Some (JObject []))"
    using assms(1) by (subst check_fields_iff) (auto simp: check_iff)
  have "validate_value jc fp flds w = Inr () \<longleftrightarrow> conforms jc fp flds w" for w
  proof (cases w)
    case JNil
    then show ?thesis using n by (auto simp: validate_value_def conforms_def is_null_def)
  next
    case (JObject ms)
    then show ?thesis using c [of ms] by (simp add: validate_value_def conforms_def is_null_def)
  qed (simp_all add: validate_value_def conforms_def is_null_def)
  from this [of "to_json_rpc v"] show ?thesis
    by (auto simp: validate_procedure_def split: sum.split vfail.split)
qed

lemma merge_validator_names:
  "fst ` set (merge_validator n c flds) = insert n (fst ` set flds)
   \<and> (distinct (map fst flds) \<longrightarrow> distinct (map fst (merge_validator n c flds)))"
  by (induction n c flds rule: merge_validator.induct) auto

lemma create_validators_distinct: "distinct (map fst (create_validators args))"
proof -
  have "distinct (map fst flds) \<Longrightarrow> distinct (map fst (foldl (\<lambda>flds (n, c). merge_validator n c flds) flds args))" for flds
    by (induction args arbitrary: flds) (auto simp: merge_validator_names)
  then show ?thesis by (simp add: create_validators_def)
qed

text \<open>
  The 64-bit unsigned checker reads the number with the 32-bit \<open>asUInt\<close>: as soon as it has a bound, a
  larger number that jsoncpp will not read so makes it throw an exception that is not a validation
  error, although the number is a valid 64-bit one within the bounds.
\<close>

lemma uint64_bound_throws:
  assumes "jc_isUInt64 jc n" and "\<not> jc_isDouble jc n" and "jc_asUInt jc n = None"
    and "mn \<noteq> None \<or> mx \<noteq> None"
  shows "\<exists>what. check jc fp (Checker_numeric TYPE_UINT64 mn mx) (Some (JNumber n)) = Inl (Json_exception what)"
  using assms
  by (auto simp: check_number_def check_number_as_def check_present_def is_null_def check_fraction_def
      check_range_def range_violated_def)

section \<open>Request bodies\<close>

definition json_position :: "json_error \<Rightarrow> string" where
  "json_position e = '' at line '' @ dec_of_nat (err_line e) @ '' and column '' @ dec_of_nat (err_column e)"

definition deserialize_json_from_request :: "fpu \<Rightarrow> string \<Rightarrow> json result" where
  "deserialize_json_from_request fp body = (case deserialize fp body of
       Inr v \<Rightarrow> Inr v
     | Inl e \<Rightarrow> Inl (ServerExc (if err_code e = DUPLICATE_KEY
         then create_property_duplicated_error (err_data e) (''Detected duplicate key in JSON'' @ json_position e)
         else create_malformed_json_error (''Requested JSON is malformed'' @ json_position e
                @ '' recognized as: '' @ decode_error (err_code e)))))"

definition validate_request_body :: "jsoncpp \<Rightarrow> fpu \<Rightarrow> procedure \<Rightarrow> string \<Rightarrow> json result" where
  "validate_request_body jc fp schema body =
     res_bind (deserialize_json_from_request fp body)
       (\<lambda>j. res_bind (validate_procedure jc fp schema j) (\<lambda>_. Inr j))"

definition EmptyObjectSchema :: procedure where
  "EmptyObjectSchema = create_validators []"

definition validate_empty_request :: "jsoncpp \<Rightarrow> fpu \<Rightarrow> string \<Rightarrow> unit result" where
  "validate_empty_request jc fp body =
     (if body \<noteq> [] then res_bind (validate_request_body jc fp EmptyObjectSchema body) (\<lambda>_. Inr ()) else Inr ())"

definition SimpleObjectSchema :: procedure where
  "SimpleObjectSchema = create_validators [(''@odata.id'', Checker_string)]"

definition AccountPatchSchema :: procedure where
  "AccountPatchSchema = create_validators
     [(''Name'', Checker_optional Checker_string), (''Locked'', Checker_optional Checker_boolean),
      (''Enabled'', Checker_optional Checker_boolean), (''UserName'', Checker_optional Checker_string),
      (''Password'', Checker_optional Checker_string), (''RoleId'', Checker_optional Checker_string)]"

definition AccountCollectionPostSchema :: procedure where
  "AccountCollectionPostSchema = create_validators
     [(''Name'', Checker_string), (''Locked'', Checker_boolean), (''Enabled'', Checker_boolean),
      (''UserName'', Checker_string), (''Password'', Checker_string), (''RoleId'', Checker_string)]"

definition SessionCollectionPostSchema :: procedure where
  "SessionCollectionPostSchema = create_validators
     [(''UserName'', Checker_string), (''Password'', Checker_string)]"

definition SessionServicePostSchema :: procedure where
  "SessionServicePostSchema = create_validators
     [(''ServiceEnabled'', Checker_boolean), (''SessionTimeout'', Checker_integer)]"

definition AccountServicePostSchema :: procedure where
  "AccountServicePostSchema = create_validators
     [(''ServiceEnabled'', Checker_boolean), (''AuthFailureLoggingThreshold'', Checker_integer),
      (''AccountLockoutThreshold'', Checker_integer), (''AccountLockoutDuration'', Checker_integer),
      (''AccountLockoutCounterResetAfter'', Checker_integer)]"

lemmas schema_defs = EmptyObjectSchema_def SimpleObjectSchema_def AccountPatchSchema_def
  AccountCollectionPostSchema_def SessionCollectionPostSchema_def SessionServicePostSchema_def
  AccountServicePostSchema_def create_validators_def

text \<open>
  What a handler may rely on once a body was accepted: it is an object (or \<open>null\<close>) without repeated
  members, and each member it reads is one its field's checker accepts.
\<close>

definition body_field :: "json \<Rightarrow> string \<Rightarrow> json option" where
  "body_field v k = (if is_member v k then Some (to_json_rpc (get_member v k)) else None)"

lemma validated_body:
  assumes "validate_request_body jc fp flds body = Inr v" and "checker_wf (Checker_attribute flds)"
  shows "(v = JNil \<or> is_object v)
    \<and> (\<forall>f \<in> set flds. accepts jc fp (snd f) (body_field v (fst f)))"
proof -
  have d: "deserialize fp body = Inr v" and val: "validate_procedure jc fp flds v = Inr ()"
    using assms(1)
    by (auto simp: validate_request_body_def deserialize_json_from_request_def result_simps split: sum.splits)
  have wf: "json_wf v" using d by (rule deserialize_wf)
  have c: "conforms jc fp flds (to_json_rpc v)" using validate_law [OF assms(2) wf] val by simp
  show ?thesis
  proof (cases v)
    case JNil
    with c show ?thesis by (simp add: conforms_def body_field_def)
  next
    case (JObject ms)
    with wf have "distinct (map fst ms)" by simp
    from to_json_rpc_members [OF this] obtain ns where ns: "to_json_rpc (JObject ms) = JObject ns"
      "map_of ns = (\<lambda>k. map_option to_json_rpc (map_of ms k))" by blast
    have "map_option to_json_rpc (map_of ms k) = body_field v k" for k
      using JObject by (auto simp: body_field_def is_member_iff simp del: is_member.simps split: option.split)
    with c JObject ns show ?thesis by (simp add: conforms_def)
  qed (use c in \<open>simp_all add: conforms_def\<close>)
qed

lemma accepts_body_field:
  "accepts jc fp Checker_string (body_field v k) \<longleftrightarrow> is_member v k \<and> (\<exists>s. get_member v k = JString s)"
  "accepts jc fp Checker_boolean (body_field v k) \<longleftrightarrow> is_member v k \<and> (\<exists>b. get_member v k = JBool b)"
  "accepts jc fp Checker_integer (body_field v k)
     \<longleftrightarrow> is_member v k \<and> (\<exists>n. get_member v k = JNumber n \<and> jc_isInt jc n)"
  "accepts jc fp (Checker_optional c) (body_field v k) \<longleftrightarrow> (is_member v k \<longrightarrow> accepts jc fp c (body_field v k))"
  by (cases "get_member v k"; auto simp: body_field_def)+

text \<open>A malformed or repeated-key body is answered with status 400, and so is one the schema refuses.\<close>

lemma deserialize_error_status:
  "deserialize_json_from_request fp body = Inl e \<Longrightarrow> \<exists>se. e = ServerExc se \<and> http_status_code se = 400"
  by (auto simp: deserialize_json_from_request_def create_property_duplicated_error_def
      create_malformed_json_error_def create_error_def extend_if_def add_extended_message_def split: sum.splits if_splits)

text \<open>
  C5: Validation decides exactly what the schema says: a body is let through if and only if it is
  read as JSON and its value conforms to the schema, and then it is handed on unchanged.
\<close>

theorem request_validation:
  assumes "checker_wf (Checker_attribute flds)"
  shows "validate_request_body jc fp flds body = Inr v
    \<longleftrightarrow> deserialize fp body = Inr v \<and> conforms jc fp flds (to_json_rpc v)"
proof -
  have "validate_request_body jc fp flds body = Inr v
      \<longleftrightarrow> deserialize fp body = Inr v \<and> validate_procedure jc fp flds v = Inr ()"
    by (auto simp: validate_request_body_def deserialize_json_from_request_def result_simps split: sum.splits)
  then show ?thesis using validate_law [OF assms deserialize_wf] by blast
qed

end
