(* ===== verification/Rest_Endpoints.thy ===== *)
theory Rest_Endpoints
  imports Mux Session_Manager Account_Manager Validators
begin

text \<open>
  Authentication and the endpoints of the account and session services (\<^verbatim>\<open>rest/endpoints/\<close>:
  \<^verbatim>\<open>endpoint_base.cpp\<close>, \<^verbatim>\<open>session_collection.cpp\<close>, \<^verbatim>\<open>sessions.cpp\<close>, \<^verbatim>\<open>session_service.cpp\<close>,
  \<^verbatim>\<open>account.cpp\<close>, \<^verbatim>\<open>account_accounts_collection.cpp\<close>, \<^verbatim>\<open>account_service.cpp\<close>, \<^verbatim>\<open>role.cpp\<close>), and the
  connector that turns every exception into a response. The singletons are the state \<open>rest_state\<close>;
  clocks, random numbers, \<^verbatim>\<open>crypt\<close> and the libraries are the environment \<open>rest_env\<close>, fixed while one
  request is served.
\<close>

record rest_env =
  env_crypt_env :: crypt_env
  env_fpu :: fpu
  env_jsoncpp :: jsoncpp
  env_now_ms :: "64 word"
  env_now :: int
  env_rand :: "32 word \<Rightarrow> nat \<Rightarrow> nat"

record rest_state =
  rs_sessions :: session_manager
  rs_accounts :: account_manager
  rs_accounts_file :: string
  rs_sessions_file :: string

type_synonym 'a rest_action = "(rest_state, exn, 'a) action"
type_synonym handler = "(rest_state, unit) handler_action"

definition on_sessions :: "'a sm_action \<Rightarrow> 'a rest_action" where
  "on_sessions m st = (case m (rs_sessions st) of (r, s) \<Rightarrow> (r, st\<lparr>rs_sessions := s\<rparr>))"

definition on_accounts :: "'a am_action \<Rightarrow> 'a rest_action" where
  "on_accounts m st = (case m (rs_accounts st) of (r, s) \<Rightarrow> (r, st\<lparr>rs_accounts := s\<rparr>))"

definition save_accounts_file :: "rest_env \<Rightarrow> unit rest_action" where
  "save_accounts_file env = act_modify (\<lambda>st. st\<lparr>rs_accounts_file := saveAccounts (env_fpu env) (rs_accounts st)\<rparr>)"

definition saveSessionsConfig :: "rest_env \<Rightarrow> unit rest_action" where
  "saveSessionsConfig env = act_modify (\<lambda>st. st\<lparr>rs_sessions_file :=
     write_value (env_fpu env) (session_config_to_json (rs_sessions st))\<rparr>)"

definition set_response :: "rest_env \<Rightarrow> json \<Rightarrow> ('s, unit) handler_action" where
  "set_response env j = on_response (append_text (write_value (env_fpu env) j))"

section \<open>Authentication\<close>

definition read_only_blocked :: "account \<Rightarrow> string \<Rightarrow> bool" where
  "read_only_blocked a meth \<longleftrightarrow>
     acc_roleid a = ''ReadOnlyUser'' \<and> (meth = ''POST'' \<or> meth = ''PATCH'' \<or> meth = ''DELETE'')"

definition session_authen :: "rest_env \<Rightarrow> string \<Rightarrow> string \<Rightarrow> string \<Rightarrow> bool rest_action" where
  "session_authen env token srcip meth =
     act_bind (act_read (\<lambda>st. Inr (Session_size (rs_sessions st)))) (\<lambda>n.
       if n = 0 then act_return False
       else act_bind (on_sessions (updateSessionTimestamp token srcip (env_now_ms env))) (\<lambda>ok.
         if ok
         then act_bind (act_read (\<lambda>st. getSession_by_Token (rs_sessions st) token)) (\<lambda>s.
              act_bind (act_read (\<lambda>st. getAccount_by_name (rs_accounts st) (sess_username s))) (\<lambda>a.
                act_return (\<not> read_only_blocked a meth)))
         else act_return False))"

definition basic_authen :: "rest_env \<Rightarrow> string \<Rightarrow> string \<Rightarrow> string \<Rightarrow> bool rest_action" where
  "basic_authen env u p meth =
     act_bind (act_read (\<lambda>st. getAccount_by_name (rs_accounts st) u)) (\<lambda>a.
       if acc_locked a then act_return False
       else if \<not> acc_enabled a then act_return False
       else if read_only_blocked a meth then act_return False
       else act_bind (on_accounts (account_login (env_crypt_env env) (env_now env) u p)) (\<lambda>res.
         act_return (res = 0)))"

definition authen_check :: "rest_env \<Rightarrow> request \<Rightarrow> string \<Rightarrow> bool rest_action" where
  "authen_check env q meth =
     (let token = get_header q ''xAuthGen''; u = get_header q ''UserName'';
          p = get_header q ''Password''; srcip = get_header q ''SrcIp''
      in act_bind (act_read (\<lambda>st. Inr (session_enabled (rs_sessions st), basic_enabled (rs_sessions st))))
           (\<lambda>(sess, basic).
             if \<not> sess \<and> \<not> basic then act_return True
             else if token \<noteq> [] \<and> sess then session_authen env token srcip meth
             else if u \<noteq> [] \<and> p \<noteq> [] \<and> basic then basic_authen env u p meth
             else act_return False))"

text \<open>What the HTTP library delivers becomes the headers \<open>authen_check\<close> reads.\<close>

definition prepare_request ::
  "(string \<times> string) list \<Rightarrow> (string \<times> string) option \<Rightarrow> string option \<Rightarrow> request \<Rightarrow> request" where
  "prepare_request headers basic client_ip q =
     (let q1 = foldl (\<lambda>r h. set_header (fst h) (snd h) r) q headers;
          xAuthGen = c_str (get_header q1 ''X-Auth-Token'');
          q2 = (case basic of None \<Rightarrow> q1
                | Some (u, p) \<Rightarrow> set_header ''Password'' p (set_header ''UserName'' u q1));
          q3 = (case client_ip of None \<Rightarrow> q2 | Some ip \<Rightarrow> set_header ''SrcIp'' ip q2)
      in if xAuthGen \<noteq> [] then set_header ''xAuthGen'' xAuthGen q3 else q3)"

section \<open>Sessions\<close>

definition token_chars :: string where
  "token_chars = ''0123456789ABCDEFGHIJKLMNOPQRSTUVWXYZabcdefghijklmnopqrstuvwxyz''"

definition gen_token :: "(nat \<Rightarrow> nat) \<Rightarrow> string" where
  "gen_token rand = map (\<lambda>i. token_chars ! (rand i mod (length token_chars - 1))) [0..<32]"

text \<open>
  \<^verbatim>\<open>srand(time(0))\<close> before each token: \<open>env_rand seed\<close> is the sequence \<^verbatim>\<open>rand()\<close> delivers after \<^verbatim>\<open>srand(seed)\<close>.
\<close>

definition login_token :: "rest_env \<Rightarrow> string" where
  "login_token env = gen_token (env_rand env (ucast (env_time (env_crypt_env env))))"

definition session_to_model :: "json \<Rightarrow> session result" where
  "session_to_model j =
     res_bind (as_string (get_member j ''UserName'')) (\<lambda>u.
     res_bind (as_string (get_member j ''Password'')) (\<lambda>p.
       Inr \<lparr>sess_id = 0, sess_token = [], sess_srcip = [], sess_username = u, sess_password = p,
            sess_role = [], sess_time = 0\<rparr>))"

definition session_prototype :: "(string \<times> json) list" where
  "session_prototype =
     [(''@odata.context'', JString ''/redfish/v1/$metadata#Session.Session''), (''@odata.id'', JNil),
      (''@odata.type'', JString ''#Session.v1_0_0.Session''), (''Name'', JString ''User Session''),
      (''Description'', JString ''User Session''), (''UserName'', JNil)]"

text \<open>
  \<open>"..." + id\<close> on a string literal and an integer moves the pointer: the first \<open>id\<close> characters are
  skipped, and past the terminating zero it is undefined.
\<close>

definition literal_plus :: "string \<Rightarrow> nat \<Rightarrow> string result" where
  "literal_plus s i = (if i \<le> length s then Inr (drop i s) else Inl (Undefined ''pointer past the end''))"

text \<open>A login that the checks let through: an old session of the user is replaced by the new one.\<close>

definition open_session :: "rest_env \<Rightarrow> session \<Rightarrow> account \<Rightarrow> string \<Rightarrow> string \<Rightarrow> nat rest_action" where
  "open_session env s a token srcip =
     act_bind (act_read (\<lambda>st. getRole_by_roleid (rs_accounts st) (acc_roleid a))) (\<lambda>r.
     act_bind (act_read (\<lambda>st. Inr (checkSession_by_name (rs_sessions st) (sess_username s)))) (\<lambda>exists.
     act_bind (if exists
               then act_bind (act_read (\<lambda>st. getSession_by_name (rs_sessions st) (sess_username s)))
                      (\<lambda>old. on_sessions (delSession_by_id (sess_id old)))
               else act_return ()) (\<lambda>_.
       on_sessions (addSession (s\<lparr>sess_token := token, sess_role := role_roleid r, sess_srcip := srcip\<rparr>)
                      False (env_now_ms env)))))"

definition session_created :: "rest_env \<Rightarrow> string \<Rightarrow> string \<Rightarrow> nat \<Rightarrow> handler" where
  "session_created env u token i =
     act_bind (act_read (\<lambda>_. literal_plus ''/redfish/v1/SessionService/Sessions/'' i)) (\<lambda>path.
     act_bind (on_response (set_resp_header ''X-Auth-Token'' token)) (\<lambda>_.
     act_bind (on_response (set_resp_header ''Location''
                (''/redfish/v1/SessionService/Sessions/'' @ dec_of_nat i))) (\<lambda>_.
     act_bind (on_response (set_status 201)) (\<lambda>_.
       set_response env (set_member ''@odata.id'' (JString path)
         (set_member ''Id'' (JNumber (NUint (of_nat i)))
           (set_member ''UserName'' (JString u) (json_object session_prototype))))))))"

definition good_length :: "string \<Rightarrow> bool" where
  "good_length s \<longleftrightarrow> length s \<le> 256 \<and> length s > 0"

definition session_collection_post :: "rest_env \<Rightarrow> request \<Rightarrow> handler" where
  "session_collection_post env q =
     act_bind (on_state (act_read (\<lambda>st. Inr (rs_sessions st)))) (\<lambda>mgr.
       if \<not> session_enabled mgr then on_response (set_status 503)
       else if Session_size mgr \<ge> max_sessions mgr then on_response (set_status 503)
       else
         act_bind (act_read (\<lambda>_. validate_request_body (env_jsoncpp env) (env_fpu env)
                              SessionCollectionPostSchema (req_body q))) (\<lambda>j.
         act_bind (act_read (\<lambda>_. session_to_model j)) (\<lambda>s.
           if \<not> (is_member j ''UserName'' \<or> is_member j ''Password'') then act_return ()
           else
             (let u = sess_username s; p = sess_password s;
                  srcip = get_header q ''SrcIp''; token = login_token env
              in if \<not> (good_length u \<and> good_length p) then on_response (set_status 401)
                 else
                   act_bind (on_state (act_read (\<lambda>st. getAccount_by_name (rs_accounts st) u))) (\<lambda>a.
                     if acc_locked a then on_response (set_status 503)
                     else
                       act_bind (on_state (on_accounts
                           (account_login (env_crypt_env env) (env_now env) u p))) (\<lambda>res.
                         if res \<noteq> 0 then on_response (set_status 401)
                         else
                           act_bind (on_state (act_read (\<lambda>st. getAccount_by_name (rs_accounts st) u))) (\<lambda>a1.
                             if \<not> acc_enabled a1 then on_response (set_status 401)
                             else act_bind (on_state (open_session env s a token srcip))
                                    (session_created env u token))))))))"

text \<open>\<^verbatim>\<open>atoi\<close> on the digits the route admits; from \<open>2^31\<close> on it is undefined.\<close>

definition session_param :: "request \<Rightarrow> nat" where
  "session_param q = nat_of_dec (takeWhile is_digit (param_get (req_params q) ''SessionId''))"

definition session_get :: "rest_env \<Rightarrow> request \<Rightarrow> handler" where
  "session_get env q =
     act_bind (on_state (act_read (\<lambda>st. Inr (rs_sessions st)))) (\<lambda>mgr.
       if session_param q > max_sessions mgr then on_response (set_status 404)
       else act_bind (act_read (\<lambda>_. getSession_by_id mgr (session_param q))) (\<lambda>s.
              set_response env (set_member ''UserName'' (JString (sess_username s))
                (set_member ''Id'' (JString (param_get (req_params q) ''SessionId''))
                  (set_member ''@odata.id'' (JString (path_of_request q))
                    (json_object session_prototype))))))"

definition session_del :: "request \<Rightarrow> handler" where
  "session_del q =
     act_bind (on_state (on_sessions (delSession_by_id (session_param q))))
       (\<lambda>_. on_response (set_status 200))"

definition session_collection_del :: "request \<Rightarrow> handler" where
  "session_collection_del q = on_response (set_status 204)"

definition session_collection_get :: "rest_env \<Rightarrow> request \<Rightarrow> handler" where
  "session_collection_get env q =
     act_bind (on_state (act_read (\<lambda>st. Inr (rs_sessions st)))) (\<lambda>mgr.
       set_response env (json_object
         [(''@odata.context'', JString ''/redfish/v1/$metadata#SessionCollection.SessionCollection''),
          (''@odata.id'', JString (path_of_request q)),
          (''@odata.type'', JString ''#SessionCollection.SessionCollection''),
          (''Name'', JString ''Session Collection''), (''Description'', JString ''Session Collection''),
          (''Members@odata.count'', JNumber (NUint (of_nat (Session_size mgr)))),
          (''Members'', JArray (map (\<lambda>e. JObject [(''@odata.id'',
              JString (path_append (dec_of_nat (sess_id (snd e))) (path_of_request q)))]) (sessions mgr)))]))"

definition session_service_post :: "rest_env \<Rightarrow> request \<Rightarrow> handler" where
  "session_service_post env q =
     act_bind (act_read (\<lambda>_. validate_request_body (env_jsoncpp env) (env_fpu env)
                          SessionServicePostSchema (req_body q))) (\<lambda>j.
     act_bind (act_read (\<lambda>_. as_uint64 (env_fpu env) (get_member j ''SessionTimeout''))) (\<lambda>t.
     act_bind (on_state (on_sessions (act_modify (SetSessionConfigTimeOut t)))) (\<lambda>_.
     act_bind (act_read (\<lambda>_. as_bool (get_member j ''ServiceEnabled''))) (\<lambda>b.
     act_bind (on_state (on_sessions (act_modify (SetSessionConfigEnable b)))) (\<lambda>_.
     act_bind (on_state (saveSessionsConfig env)) (\<lambda>_.
       on_response (set_status 200)))))))"

section \<open>Accounts\<close>

definition account_param :: "request \<Rightarrow> string" where
  "account_param q = param_get (req_params q) ''accountId''"

definition account_prototype :: "(string \<times> json) list" where
  "account_prototype =
     [(''@odata.context'', JString ''/redfish/v1/$metadata#ManagerAccount.ManagerAccount''),
      (''@odata.id'', JNil), (''@odata.type'', JString ''#ManagerAccount.v1_0_0.ManagerAccount''),
      (''Id'', JNil), (''Name'', JNil), (''Description'', JNil), (''UserName'', JNil), (''Password'', JNil),
      (''Locked'', JNil), (''Enabled'', JNil), (''RoleId'', JNil), (''Links'', JObject [(''Role'', JNil)])]"

definition account_members :: "account \<Rightarrow> (string \<times> json) list" where
  "account_members a =
     [(''Name'', JString (acc_name a)), (''UserName'', JString (acc_username a)),
      (''Password'', JString (acc_password a)), (''Locked'', JBool (acc_locked a)),
      (''RoleId'', JString (acc_roleid a)), (''Enabled'', JBool (acc_enabled a))]"

definition set_members :: "(string \<times> json) list \<Rightarrow> json \<Rightarrow> json" where
  "set_members ms j = foldl (\<lambda>v m. set_member (fst m) (snd m) v) j ms"

definition account_get :: "rest_env \<Rightarrow> request \<Rightarrow> handler" where
  "account_get env q =
     act_bind (on_state (act_read (\<lambda>st. getAccount_by_name (rs_accounts st) (account_param q)))) (\<lambda>a.
     act_bind (on_state (act_read (\<lambda>st. getRole_by_roleid (rs_accounts st) (acc_roleid a)))) (\<lambda>r.
       (let j = set_members (account_members a)
                  (set_member ''Id'' (JString (account_param q))
                    (set_member ''@odata.id'' (JString (req_url q)) (json_object account_prototype)));
            link = JObject [(''@odata.id'', JString (path_append (dec_of_nat (role_id r))
                     (path_append ''Roles'' (path_append ''AccountService'' ''/redfish/v1''))))]
        in set_response env (set_member ''Links'' (set_member ''Role'' link (get_member j ''Links'')) j))))"

definition account_del :: "rest_env \<Rightarrow> request \<Rightarrow> handler" where
  "account_del env q =
     act_bind (on_state (on_accounts (delAccount_by_name (account_param q)))) (\<lambda>_.
     act_bind (on_state (save_accounts_file env)) (\<lambda>_.
       on_response (set_status 200)))"

text \<open>The member is read and used only if it is there.\<close>

definition if_member :: "json \<Rightarrow> string \<Rightarrow> (json \<Rightarrow> 'b result) \<Rightarrow> ('b \<Rightarrow> 'a \<Rightarrow> 'a) \<Rightarrow> 'a \<Rightarrow> 'a result" where
  "if_member j k read f a =
     (if is_member j k then res_bind (read (get_member j k)) (\<lambda>x. Inr (f x a)) else Inr a)"

definition patch_username :: "account_manager \<Rightarrow> json \<Rightarrow> account \<Rightarrow> account result" where
  "patch_username am j a =
     (if is_member j ''UserName''
      then res_bind (as_string (get_member j ''UserName'')) (\<lambda>u.
             if u \<noteq> acc_username a \<and> AccountExisted am u
             then Inl (Gami (invalid_value_exc ''new UserName already Existed''))
             else Inr (a\<lparr>acc_username := u\<rparr>))
      else Inr a)"

definition patch_members :: "crypt_env \<Rightarrow> account_manager \<Rightarrow> json \<Rightarrow> account \<Rightarrow> account result" where
  "patch_members cenv am j a =
     res_bind (patch_username am j a) (\<lambda>a.
     res_bind (if_member j ''Password'' as_string (\<lambda>p. set_password cenv p True) a) (\<lambda>a.
     res_bind (if_member j ''Name'' as_string (\<lambda>n a. a\<lparr>acc_name := n\<rparr>) a) (\<lambda>a.
     res_bind (if_member j ''Enabled'' as_bool (\<lambda>b a. a\<lparr>acc_enabled := b\<rparr>) a) (\<lambda>a.
       if_member j ''Locked'' as_bool (\<lambda>b a. a\<lparr>acc_locked := b\<rparr>) a))))"

definition respond_not_found :: "request \<Rightarrow> gami_exception \<Rightarrow> response \<Rightarrow> response" where
  "respond_not_found q ex =
     respond_error (create_error_from_gami_exception (not_found_at (gami_message ex) (req_url q)))"

definition store_account :: "rest_env \<Rightarrow> request \<Rightarrow> string \<Rightarrow> account \<Rightarrow> handler" where
  "store_account env q old_username a =
     act_bind (on_state (on_accounts (modAccount old_username a))) (\<lambda>_.
     act_bind (on_state (save_accounts_file env)) (\<lambda>_.
       account_get env (q\<lparr>req_params := param_set ''accountId'' (acc_username a) (req_params q)\<rparr>)))"

definition account_patch :: "rest_env \<Rightarrow> request \<Rightarrow> handler" where
  "account_patch env q =
     act_bind (on_state (act_read (\<lambda>st. getAccount_by_name (rs_accounts st) (account_param q)))) (\<lambda>old.
     act_bind (act_read (\<lambda>_. validate_request_body (env_jsoncpp env) (env_fpu env)
                          AccountPatchSchema (req_body q))) (\<lambda>j.
     act_bind (on_state (act_read (\<lambda>st. patch_members (env_crypt_env env) (rs_accounts st) j old))) (\<lambda>a.
       if is_member j ''RoleId''
       then act_bind (act_read (\<lambda>_. as_string (get_member j ''RoleId''))) (\<lambda>rid.
            act_bind (on_state (act_read (\<lambda>st. Inr (getRole_by_roleid (rs_accounts st) rid)))) (\<lambda>found.
              case found of
                Inl (Gami ex) \<Rightarrow> on_response (respond_not_found q ex)
              | Inl e \<Rightarrow> act_throw e
              | Inr _ \<Rightarrow> store_account env q (acc_username old) (a\<lparr>acc_roleid := rid\<rparr>)))
       else store_account env q (acc_username old) a)))"

definition account_to_model :: "crypt_env \<Rightarrow> json \<Rightarrow> account result" where
  "account_to_model cenv j =
     res_bind (as_string (get_member j ''Name'')) (\<lambda>name.
     res_bind (as_bool (get_member j ''Enabled'')) (\<lambda>enabled.
     res_bind (as_bool (get_member j ''Locked'')) (\<lambda>locked.
     res_bind (as_string (get_member j ''UserName'')) (\<lambda>username.
     res_bind (as_string (get_member j ''Password'')) (\<lambda>password.
     res_bind (as_string (get_member j ''RoleId'')) (\<lambda>roleid.
       Inr ((set_password cenv password True
               (new_account\<lparr>acc_name := name, acc_username := username\<rparr>))
             \<lparr>acc_roleid := roleid, acc_enabled := enabled, acc_locked := locked\<rparr>)))))))"

definition account_collection_post :: "rest_env \<Rightarrow> request \<Rightarrow> handler" where
  "account_collection_post env q =
     act_bind (act_read (\<lambda>_. validate_request_body (env_jsoncpp env) (env_fpu env)
                          AccountCollectionPostSchema (req_body q))) (\<lambda>j.
     act_bind (act_read (\<lambda>_. account_to_model (env_crypt_env env) j)) (\<lambda>a.
     act_bind (act_read (\<lambda>_. as_string (get_member j ''RoleId''))) (\<lambda>rid.
     act_bind (on_state (act_read (\<lambda>st. Inr (getRole_by_roleid (rs_accounts st) rid)))) (\<lambda>found.
       case found of
         Inl (Gami ex) \<Rightarrow> on_response (respond_not_found q ex)
       | Inl e \<Rightarrow> act_throw e
       | Inr _ \<Rightarrow>
           act_bind (on_state (on_accounts (addAccount a))) (\<lambda>i.
           act_bind (on_state (save_accounts_file env)) (\<lambda>_.
           act_bind (on_response (set_resp_header ''Location''
                       (path_append (dec_of_nat i) (path_of_request q)))) (\<lambda>_.
             on_response (set_status 201))))))))"

definition account_collection_get :: "rest_env \<Rightarrow> request \<Rightarrow> handler" where
  "account_collection_get env q =
     act_bind (on_state (act_read (\<lambda>st. Inr (rs_accounts st)))) (\<lambda>am.
       set_response env (json_object
         [(''@odata.context'', JString ''/redfish/v1/$metadata#AccountService.AccountService''),
          (''@odata.id'', JString (path_of_request q)),
          (''@odata.type'', JString ''#ManagerAccountCollection.ManagerAccountCollection''),
          (''Name'', JString ''Accounts Collection''),
          (''Members@odata.count'', JNumber (NUint (of_nat (Account_size am)))),
          (''Members'', JArray (map (\<lambda>e. JObject [(''@odata.id'',
              JString (path_append (acc_username (snd e)) (path_of_request q)))]) (am_accounts am)))]))"

text \<open>\<open>Accountservice::from_json\<close> reads every member before it sets any.\<close>

definition accountservice_from_json :: "fpu \<Rightarrow> json \<Rightarrow> accountservice result" where
  "accountservice_from_json fp j =
     res_bind (as_bool (get_member j ''ServiceEnabled'')) (\<lambda>enable.
     res_bind (as_int fp (get_member j ''AuthFailureLoggingThreshold'')) (\<lambda>aflt.
     res_bind (as_int fp (get_member j ''AccountLockoutThreshold'')) (\<lambda>alt.
     res_bind (as_int fp (get_member j ''AccountLockoutDuration'')) (\<lambda>ald.
     res_bind (as_int fp (get_member j ''AccountLockoutCounterResetAfter'')) (\<lambda>alcra.
       Inr \<lparr>svc_enabled = enable, svc_aflt = sint aflt, svc_alt = sint alt, svc_ald = sint ald,
            svc_alcra = sint alcra\<rparr>)))))"

definition account_service_patch :: "rest_env \<Rightarrow> request \<Rightarrow> handler" where
  "account_service_patch env q =
     act_bind (act_read (\<lambda>_. validate_request_body (env_jsoncpp env) (env_fpu env)
                          AccountServicePostSchema (req_body q))) (\<lambda>j.
     act_bind (act_read (\<lambda>_. accountservice_from_json (env_fpu env) j)) (\<lambda>svc.
     act_bind (on_state (on_accounts (act_modify (\<lambda>am. am\<lparr>am_service := svc\<rparr>)))) (\<lambda>_.
       on_response (set_status 200))))"

section \<open>Roles\<close>

text \<open>\<open>id_to_uint64\<close>\<close>

definition id_to_uint64 :: "string \<Rightarrow> nat result" where
  "id_to_uint64 s =
     (if \<not> (\<forall>c \<in> set s. is_digit c)
      then Inl (Gami (not_found_exc (s @ '' could not be converted to REST ID, because it'' @ [CHR 0x27] @ ''s not a number string.'')))
      else if s = []
      then Inl (Gami (not_found_exc (s @ '' could not be converted to REST ID, because it'' @ [CHR 0x27] @ ''s not a proper ID.'')))
      else if nat_of_dec s \<ge> 2 ^ 64
      then Inl (Gami (not_found_exc (s @ '' could not be converted to REST ID, because it'' @ [CHR 0x27] @ ''s too big.'')))
      else Inr (nat_of_dec s))"

fun privilege_string :: "privilege_type \<Rightarrow> string" where
  "privilege_string Login = ''Login''"
| "privilege_string ConfigureManager = ''ConfigureManager''"
| "privilege_string ConfigureUsers = ''ConfigureUsers''"
| "privilege_string ConfigureSelf = ''ConfigureSelf''"
| "privilege_string ConfigureComponents = ''ConfigureComponents''"

definition role_get :: "rest_env \<Rightarrow> request \<Rightarrow> handler" where
  "role_get env q =
     act_bind (act_read (\<lambda>_. id_to_uint64 (param_get (req_params q) ''roleId''))) (\<lambda>i.
     act_bind (on_state (act_read (\<lambda>st. getRole_by_id (rs_accounts st) i))) (\<lambda>r.
       set_response env (json_object
         [(''@odata.context'', JString ''/redfish/v1/$metadata#Role.Role''),
          (''@odata.id'', JString (req_url q)), (''@odata.type'', JString ''#Role.v1_0_0.Role''),
          (''Id'', JString (param_get (req_params q) ''roleId'')), (''Name'', JString (role_name r)),
          (''Description'', JNil), (''IsPredefined'', JBool (role_ispredefined r)),
          (''AssignedPrivileges'', JArray (map (JString \<circ> privilege_string) (role_privileges r)))])))"

definition role_del :: "request \<Rightarrow> handler" where
  "role_del q =
     act_bind (act_read (\<lambda>_. id_to_uint64 (param_get (req_params q) ''roleId''))) (\<lambda>i.
     act_bind (on_state (on_accounts (delRole_by_id i))) (\<lambda>_.
       on_response (set_status 204)))"

section \<open>The connector\<close>

text \<open>
  \<open>Connector::handle\<close>: whatever the handler throws becomes a response. An agent's error with code
  \<open>NOT_FOUND\<close> is the class \<^verbatim>\<open>NotFound\<close>; a crash is not an exception and ends the process.
\<close>

fun connector_error :: "request \<Rightarrow> exn \<Rightarrow> response \<Rightarrow> response" where
  "connector_error q (AgentUnreachable what) r = respond_error
     (create_agent_unreachable_error ''Could not connect to underlying agent.'') r"
| "connector_error q (Gami ex) r = (if gami_code ex = NOT_FOUND then respond_not_found q ex r
     else respond_error (create_error_from_gami_exception ex) r)"
| "connector_error q (ServerExc e) r = respond_error e r"
| "connector_error q (StdExc what) r = respond_error (create_internal_error []) r"
| "connector_error q (Undefined what) r = r"

definition connector_handle :: "('s \<Rightarrow> request \<Rightarrow> bool) \<Rightarrow> (request \<Rightarrow> ('s, unit) handler_action)
    \<Rightarrow> request \<Rightarrow> 's \<Rightarrow> (string + response) \<times> 's" where
  "connector_handle access_allowed callback q s =
     (case (if access_allowed s q then callback q (s, new_response)
            else (Inl (ServerExc (create_insufficient_privilege_error
               ''Credentials do not have sufficient privileges for the requested operation.'')), (s, new_response))) of
        (Inr _, (s', r)) \<Rightarrow> (Inr r, s')
      | (Inl (Undefined what), (s', r)) \<Rightarrow> (Inl what, s')
      | (Inl e, (s', r)) \<Rightarrow> (Inr (connector_error q e r), s'))"

section \<open>The services of the root\<close>

definition service_status :: json where
  "service_status = JObject [(''State'', JString ''Enabled''), (''Health'', JString ''OK''), (''HealthRollup'', JString ''OK'')]"

definition session_service_get :: "rest_env \<Rightarrow> request \<Rightarrow> handler" where
  "session_service_get env q =
     act_bind (on_state (act_read (\<lambda>st. Inr (rs_sessions st)))) (\<lambda>mgr.
       set_response env (json_object
         [(''@odata.context'', JString ''/redfish/v1/$metadata#SessionService.SessionService''),
          (''@odata.id'', JString (path_of_request q)),
          (''@odata.type'', JString ''#SessionService.v1_0_0.SessionService''),
          (''Id'', JString ''SessionService''), (''Name'', JString ''Session Service''),
          (''Description'', JString ''Session Service ''), (''Status'', service_status), (''Oem'', JObject []),
          (''ServiceEnabled'', JBool (session_enabled mgr)),
          (''SessionTimeout'', JNumber (NUint (session_timeout mgr))),
          (''Sessions'', JObject [(''@odata.id'', JString ''/redfish/v1/SessionService/Sessions'')])]))"

definition account_service_get :: "rest_env \<Rightarrow> request \<Rightarrow> handler" where
  "account_service_get env q =
     act_bind (on_state (act_read (\<lambda>st. Inr (am_service (rs_accounts st))))) (\<lambda>svc.
       set_response env (json_object
         [(''@odata.context'', JString ''/redfish/v1/$metadata#AccountService.AccountService''),
          (''@odata.id'', JString (path_of_request q)),
          (''@odata.type'', JString ''#AccountService.v1_0_0.AccountService''),
          (''Id'', JString ''AccountService''), (''Name'', JString ''Account Service''),
          (''Description'', JString ''Account Service ''), (''Status'', service_status), (''Oem'', JObject []),
          (''ServiceEnabled'', JBool True),
          (''AuthFailureLoggingThreshold'', JNumber (NInt (of_int (svc_aflt svc)))),
          (''MinPasswordLength'', JNumber (NInt 6)), (''MaxPasswordLength'', JNumber (NInt 24)),
          (''AccountLockoutThreshold'', JNumber (NInt (of_int (svc_alt svc)))),
          (''AccountLockoutDuration'', JNumber (NInt (of_int (svc_ald svc)))),
          (''AccountLockoutCounterResetAfter'', JNumber (NInt (of_int (svc_alcra svc)))),
          (''Accounts'', JObject [(''@odata.id'', JString ''/redfish/v1/AccountService/Accounts'')]),
          (''Roles'', JObject [(''@odata.id'', JString ''/redfish/v1/AccountService/Roles'')])]))"

definition role_collection_get :: "rest_env \<Rightarrow> request \<Rightarrow> handler" where
  "role_collection_get env q =
     act_bind (on_state (act_read (\<lambda>st. Inr (rs_accounts st)))) (\<lambda>am.
       set_response env (json_object
         [(''@odata.context'', JString ''/redfish/v1/$metadata#RoleCollection.RoleCollection''),
          (''@odata.id'', JString (path_of_request q)),
          (''@odata.type'', JString ''#RoleCollection.RoleCollection''),
          (''Name'', JString ''Roles Collection''),
          (''Members@odata.count'', JNumber (NUint (of_nat (Role_size am)))),
          (''Members'', JArray (map (\<lambda>e. JObject [(''@odata.id'',
              JString (path_append (dec_of_nat (role_id (snd e))) (path_of_request q)))]) (am_roles am)))]))"

definition role_collection_post :: "request \<Rightarrow> handler" where
  "role_collection_post q = on_response (set_status 201)"

section \<open>The endpoints and their routes\<close>

text \<open>An operation an endpoint does not override answers that the method is not allowed.\<close>

definition make_endpoint :: "rest_env \<Rightarrow> string \<Rightarrow> (http_method \<Rightarrow> (request \<Rightarrow> handler) option) \<Rightarrow> rest_state endpoint" where
  "make_endpoint env path ops = \<lparr>ep_path = path, ep_authen = authen_check env,
     ep_run = (\<lambda>m q. case ops m of Some h \<Rightarrow> h q | None \<Rightarrow> on_response (http_method_not_allowed q))\<rparr>"

definition account_service_path :: string where
  "account_service_path = path_append ''AccountService'' ''/redfish/v1''"

definition session_service_path :: string where
  "session_service_path = path_append ''SessionService'' ''/redfish/v1''"

definition rest_endpoints :: "rest_env \<Rightarrow> (rest_state endpoint \<times> access_type) list" where
  "rest_endpoints env =
     [(make_endpoint env account_service_path
         [GET \<mapsto> account_service_get env, PATCH \<mapsto> account_service_patch env], SSL_REQUIRED),
      (make_endpoint env (path_append ''Accounts'' account_service_path)
         [GET \<mapsto> account_collection_get env, POST \<mapsto> account_collection_post env], SSL_REQUIRED),
      (make_endpoint env (path_append ''Roles'' account_service_path)
         [GET \<mapsto> role_collection_get env, POST \<mapsto> role_collection_post], SSL_REQUIRED),
      (make_endpoint env (path_append_regex ''accountId'' USERNAME_REGEX (path_append ''Accounts'' account_service_path))
         [GET \<mapsto> account_get env, PATCH \<mapsto> account_patch env, DELETE \<mapsto> account_del env], SSL_REQUIRED),
      (make_endpoint env (path_append_regex ''roleId'' ID_REGEX (path_append ''Roles'' account_service_path))
         [GET \<mapsto> role_get env, PATCH \<mapsto> role_get env, DELETE \<mapsto> role_del], SSL_REQUIRED),
      (make_endpoint env session_service_path
         [GET \<mapsto> session_service_get env, POST \<mapsto> session_service_post env], SSL_REQUIRED),
      (make_endpoint env (path_append ''Sessions'' session_service_path)
         [GET \<mapsto> session_collection_get env, POST \<mapsto> session_collection_post env,
          DELETE \<mapsto> session_collection_del], ACCESS_ALL),
      (make_endpoint env (path_append_regex ''SessionId'' ID_REGEX (path_append ''Sessions'' session_service_path))
         [GET \<mapsto> session_get env, DELETE \<mapsto> session_del], SSL_REQUIRED)]"

fun register_all :: "('s endpoint \<times> access_type) list \<Rightarrow> 's mux \<Rightarrow> 's mux result" where
  "register_all [] mx = Inr mx"
| "register_all ((h, access) # rest) mx = res_bind (register_handler h access mx) (register_all rest)"

definition rest_mux :: "rest_env \<Rightarrow> rest_state mux result" where
  "rest_mux env = register_all (rest_endpoints env) \<lparr>candidates = [], pre_handlers = [], post_handlers = []\<rparr>"

end
