(* ===== verification/Rest_Security.thy ===== *)
theory Rest_Security
  imports Rest_Endpoints
begin

text \<open>
  What the account and session services guarantee from one end to the other: who is let through,
  what a request leaves behind, and what it is answered with.
\<close>

section \<open>Sequencing\<close>

lemma act_bind_Inr:
  "act_bind m f s = (Inr b, s') \<longleftrightarrow> (\<exists>a s1. m s = (Inr a, s1) \<and> f a s1 = (Inr b, s'))"
  by (auto simp: act_bind_def split: prod.splits sum.splits)

lemma act_bind_step: "m s = (Inr a, s1) \<Longrightarrow> act_bind m f s = f a s1"
  by (simp add: act_bind_def)

lemma act_bind_fail: "m s = (Inl e, s1) \<Longrightarrow> act_bind m f s = (Inl e, s1)"
  by (simp add: act_bind_def)

lemma act_simps [simp]:
  "act_return a s = (Inr a, s)" "act_throw e s = (Inl e, s)" "act_read f s = (f s, s)"
  "act_modify g s = (Inr (), g s)"
  "on_state m (st, r) = (case m st of (x, st') \<Rightarrow> (x, (st', r)))"
  "on_response h (st, r) = (Inr (), (st, h r))"
  by (simp_all add: act_return_def act_throw_def act_read_def act_modify_def on_state_def on_response_def)

section \<open>Bodies that were validated can be read\<close>

lemma schema_eqs:
  "AccountCollectionPostSchema =
     [(''Name'', Checker_string), (''Locked'', Checker_boolean), (''Enabled'', Checker_boolean),
      (''UserName'', Checker_string), (''Password'', Checker_string), (''RoleId'', Checker_string)]"
  "SessionCollectionPostSchema = [(''UserName'', Checker_string), (''Password'', Checker_string)]"
  "AccountServicePostSchema =
     [(''ServiceEnabled'', Checker_boolean), (''AuthFailureLoggingThreshold'', Checker_integer),
      (''AccountLockoutThreshold'', Checker_integer), (''AccountLockoutDuration'', Checker_integer),
      (''AccountLockoutCounterResetAfter'', Checker_integer)]"
  "AccountPatchSchema =
     [(''Name'', Checker_optional Checker_string), (''Locked'', Checker_optional Checker_boolean),
      (''Enabled'', Checker_optional Checker_boolean), (''UserName'', Checker_optional Checker_string),
      (''Password'', Checker_optional Checker_string), (''RoleId'', Checker_optional Checker_string)]"
  by (simp_all add: schema_defs)

lemma session_body_readable:
  assumes "validate_request_body jc fp SessionCollectionPostSchema body = Inr j"
  shows "\<exists>u p. get_member j ''UserName'' = JString u \<and> get_member j ''Password'' = JString p
    \<and> is_member j ''UserName''"
  using validated_body [OF assms] by (auto simp: schema_eqs accepts_body_field simp del: accepts.simps)

text \<open>
  C40: Every request body the validator lets through for a new account is one the handler reads without
  an exception: no request can make it fail with an internal error there.
\<close>

theorem account_body_readable:
  assumes "validate_request_body jc fp AccountCollectionPostSchema body = Inr j"
  shows "\<exists>a. account_to_model cenv j = Inr a \<and> get_member j ''UserName'' = JString (acc_username a)"
proof -
  obtain n l e u p r where
    "get_member j ''Name'' = JString n" "get_member j ''Locked'' = JBool l" "get_member j ''Enabled'' = JBool e"
    "get_member j ''UserName'' = JString u" "get_member j ''Password'' = JString p" "get_member j ''RoleId'' = JString r"
    using validated_body [OF assms] by (auto simp: schema_eqs accepts_body_field simp del: accepts.simps)
  then show ?thesis
    by (simp add: account_to_model_def set_password_def encry_def new_account_def Let_def)
qed

section \<open>Who is let through\<close>

definition authen_on :: "rest_state \<Rightarrow> bool" where
  "authen_on st \<longleftrightarrow> session_enabled (rs_sessions st) \<or> basic_enabled (rs_sessions st)"

lemma token_session:
  assumes "sessions_ok mgr" and "getSession_by_Token mgr token = Inr s"
  shows "map_of (sessions mgr) (sess_username s) = Some s" and "sess_token s = token"
proof -
  obtain u where u: "List.find (\<lambda>e. sess_token (snd e) = token) (sessions mgr) = Some (u, s)"
    using assms(2) by (auto simp: getSession_by_Token_def split: option.splits)
  have "smap_ok (sessions mgr)" using assms(1) by (simp add: sessions_ok_def registry_ok_def)
  from smap.find_entryD [OF this u] sessions_ok_name [OF assms(1)]
  show "map_of (sessions mgr) (sess_username s) = Some s" and "sess_token s = token" by auto
qed

lemma token_after_refresh:
  assumes "sessions_ok mgr" and "getSession_by_Token mgr token = Inr s"
  shows "getSession_by_Token (mgr\<lparr>sessions := smap_put (sess_username s) (s\<lparr>sess_time := t\<rparr>) (sessions mgr)\<rparr>) token
    = Inr (s\<lparr>sess_time := t\<rparr>)"
proof -
  obtain u where u: "List.find (\<lambda>e. sess_token (snd e) = token) (sessions mgr) = Some (u, s)"
    using assms(2) by (auto simp: getSession_by_Token_def split: option.splits)
  have sm: "smap_ok (sessions mgr)" using assms(1) by (simp add: sessions_ok_def registry_ok_def)
  from smap.find_entryD [OF sm u] have us: "map_of (sessions mgr) u = Some s" and t: "sess_token s = token" by auto
  have "sess_username s = u" using sessions_ok_name [OF assms(1) us] .
  then show ?thesis
    using find_smap_put [OF sm u, of "s\<lparr>sess_time := t\<rparr>"] t by (simp add: getSession_by_Token_def)
qed

lemma token_session_nonempty:
  "getSession_by_Token mgr token = Inr s \<Longrightarrow> Session_size mgr \<noteq> 0"
  by (auto simp: getSession_by_Token_def Session_size_def split: option.splits)

text \<open>
  A request with a session token: the session is refreshed in any case; the request is let through
  exactly from the address the session was opened from, by an account that exists, unless the
  account is read-only and the method writes.
\<close>

lemma session_authen_eq:
  assumes "sessions_ok (rs_sessions st)" and "token \<noteq> []" and "getSession_by_Token (rs_sessions st) token = Inr s"
  shows "session_authen env token srcip meth st =
    ((if sess_srcip s \<noteq> srcip then Inr False
      else case map_of (am_accounts (rs_accounts st)) (sess_username s) of
             None \<Rightarrow> Inl (account_missing (sess_username s))
           | Some a \<Rightarrow> Inr (\<not> read_only_blocked a meth)),
     st\<lparr>rs_sessions := (rs_sessions st)\<lparr>sessions :=
        smap_put (sess_username s) (s\<lparr>sess_time := env_now_ms env\<rparr>) (sessions (rs_sessions st))\<rparr>\<rparr>)"
proof -
  note upd = updateSessionTimestamp_law [OF assms, of srcip "env_now_ms env"]
  note tok = token_after_refresh [OF assms(1,3), of "env_now_ms env"]
  have "Session_size (rs_sessions st) \<noteq> 0" using assms(3) by (rule token_session_nonempty)
  then show ?thesis
    using upd tok
    by (auto simp: session_authen_def act_bind_def on_sessions_def getAccount_by_name_def split: option.split)
qed

lemma updateSessionTimestamp_unknown:
  assumes "getSession_by_Token mgr token = Inl e"
  shows "fst (updateSessionTimestamp token srcip now mgr) \<noteq> Inr True"
  using assms by (auto simp: updateSessionTimestamp_def act_bind_def)

lemma session_authen_token:
  assumes "session_authen env token srcip meth st = (Inr b, st')" and "b"
  shows "\<exists>s. getSession_by_Token (rs_sessions st) token = Inr s"
proof (cases "getSession_by_Token (rs_sessions st) token")
  case (Inl e)
  from updateSessionTimestamp_unknown [OF this, of srcip "env_now_ms env"] assms
  show ?thesis
    by (auto simp: session_authen_def act_bind_Inr on_sessions_def split: if_splits prod.splits)
qed simp

lemma basic_authen_sound:
  assumes "basic_authen env u p meth st = (Inr True, st')"
  shows "\<exists>a a' log. map_of (am_accounts (rs_accounts st)) u = Some a
    \<and> acc_enabled a \<and> \<not> acc_locked a \<and> \<not> read_only_blocked a meth
    \<and> checkpw (env_crypt_env env) (am_service (rs_accounts st)) (env_now env) p a = (Inr 0, a', log)"
  using assms
  by (auto simp: basic_authen_def act_bind_Inr getAccount_by_name_def on_accounts_def account_login_def
      split: option.splits if_splits prod.splits)

lemma authen_check_eq:
  "authen_check env q meth st =
     (if \<not> authen_on st then (Inr True, st)
      else if get_header q ''xAuthGen'' \<noteq> [] \<and> session_enabled (rs_sessions st)
      then session_authen env (get_header q ''xAuthGen'') (get_header q ''SrcIp'') meth st
      else if get_header q ''UserName'' \<noteq> [] \<and> get_header q ''Password'' \<noteq> [] \<and> basic_enabled (rs_sessions st)
      then basic_authen env (get_header q ''UserName'') (get_header q ''Password'') meth st
      else (Inr False, st))"
  by (simp add: authen_check_def authen_on_def Let_def act_bind_def)

text \<open>
  Authentication is sound: when it is on, a request is let through only for an existing account
  that may use the method, and either with the token of a session of that account opened from the
  same address, or with the account's password while it is enabled and not locked.
\<close>

lemma authen_sound_law:
  assumes "authen_check env q meth st = (Inr True, st')"
    and "authen_on st" and "sessions_ok (rs_sessions st)"
  shows "\<exists>a. \<not> read_only_blocked a meth \<and>
    ((\<exists>s. getSession_by_Token (rs_sessions st) (get_header q ''xAuthGen'') = Inr s
        \<and> sess_srcip s = get_header q ''SrcIp''
        \<and> map_of (am_accounts (rs_accounts st)) (sess_username s) = Some a)
     \<or> (map_of (am_accounts (rs_accounts st)) (get_header q ''UserName'') = Some a
        \<and> acc_enabled a \<and> \<not> acc_locked a
        \<and> fst (checkpw (env_crypt_env env) (am_service (rs_accounts st)) (env_now env)
                 (get_header q ''Password'') a) = Inr 0))"
proof (cases "get_header q ''xAuthGen'' \<noteq> [] \<and> session_enabled (rs_sessions st)")
  case True
  then have sa: "session_authen env (get_header q ''xAuthGen'') (get_header q ''SrcIp'') meth st = (Inr True, st')"
    using assms(1,2) by (simp add: authen_check_eq)
  obtain s where "getSession_by_Token (rs_sessions st) (get_header q ''xAuthGen'') = Inr s"
    using session_authen_token [OF sa] by auto
  with session_authen_eq [OF assms(3) _ this, of env "get_header q ''SrcIp''" meth] True sa
  show ?thesis by (auto split: if_splits option.splits)
next
  case False
  then have "basic_authen env (get_header q ''UserName'') (get_header q ''Password'') meth st = (Inr True, st')"
    using assms(1,2) by (auto simp: authen_check_eq split: if_splits)
  from basic_authen_sound [OF this] show ?thesis by fastforce
qed

text \<open>
  A session stays usable when its account is locked or disabled: with the token and the address the
  answer of the check does not depend on either flag.
\<close>

lemma session_ignores_lock_law:
  assumes "sessions_ok (rs_sessions st)" and "session_enabled (rs_sessions st)"
    and "getSession_by_Token (rs_sessions st) (get_header q ''xAuthGen'') = Inr s"
    and "get_header q ''xAuthGen'' \<noteq> []" and "sess_srcip s = get_header q ''SrcIp''"
    and "map_of (am_accounts (rs_accounts st)) (sess_username s) = Some a"
  shows "fst (authen_check env q meth st) = Inr (\<not> read_only_blocked a meth)"
  using assms session_authen_eq [OF assms(1,4,3), of env "get_header q ''SrcIp''" meth]
  by (simp add: authen_check_eq authen_on_def)

section \<open>Logging in\<close>

lemma open_session_correct:
  assumes "sessions_ok (rs_sessions st)" and "Session_size (rs_sessions st) < max_sessions (rs_sessions st)"
    and "map_of (am_roles (rs_accounts st)) (acc_roleid a) = Some role"
  shows "\<exists>i mgr. open_session env s a token srcip st = (Inr i, st\<lparr>rs_sessions := mgr\<rparr>)
    \<and> sessions_ok mgr \<and> 1 \<le> i \<and> i \<le> max_sessions (rs_sessions st)
    \<and> max_sessions mgr = max_sessions (rs_sessions st) \<and> Session_size mgr \<le> max_sessions mgr
    \<and> map_of (sessions mgr) = (map_of (sessions (rs_sessions st)))(sess_username s \<mapsto>
        s\<lparr>sess_token := token, sess_role := role_roleid role, sess_srcip := srcip,
          sess_id := i, sess_time := env_now_ms env\<rparr>)"
proof -
  let ?mgr = "rs_sessions st" and ?u = "sess_username s"
  let ?s = "s\<lparr>sess_token := token, sess_role := role_roleid role, sess_srcip := srcip\<rparr>"
  define mgr1 where "mgr1 = ?mgr\<lparr>sessions := smap_erase ?u (sessions ?mgr)\<rparr>"
  have sm: "smap_ok (sessions ?mgr)" using assms(1) by (simp add: sessions_ok_def registry_ok_def)
  have same: "mgr1 = ?mgr" if "map_of (sessions ?mgr) ?u = None"
  proof -
    have "filter (\<lambda>e. fst e \<noteq> ?u) (sessions ?mgr) = sessions ?mgr"
      using that by (force simp: map_of_eq_None_iff filter_id_conv)
    then show ?thesis by (simp add: mgr1_def smap_erase_def)
  qed
  have ok1: "sessions_ok mgr1" using assms(1) by (simp add: mgr1_def sessions_ok_erase)
  have fewer: "Session_size mgr1 \<le> Session_size ?mgr" "max_sessions mgr1 = max_sessions ?mgr"
    by (simp_all add: mgr1_def Session_size_def smap_erase_def)
  then have room: "Session_size mgr1 < max_sessions mgr1" using assms(2) by simp
  have free: "map_of (sessions mgr1) (sess_username ?s) = None" by (simp add: mgr1_def)
  obtain i mgr2 where add: "addSession ?s False (env_now_ms env) mgr1 = (Inr i, mgr2)"
      "1 \<le> i" "i \<le> max_sessions mgr1" "sessions_ok mgr2"
      "map_of (sessions mgr2) = (map_of (sessions mgr1))(?u \<mapsto> ?s\<lparr>sess_id := i, sess_time := env_now_ms env\<rparr>)"
    using addSession_law [OF ok1 room free, of "env_now_ms env"] by auto
  have m2: "mgr2 = mgr1\<lparr>sessions := smap_put ?u (?s\<lparr>sess_id := i, sess_time := env_now_ms env\<rparr>) (sessions mgr1)\<rparr>"
    using add(1) free by (auto simp: addSession_def Let_def)
  have size2: "Session_size mgr2 \<le> Suc (Session_size mgr1)"
    using length_smap_put [of "sessions mgr1" ?u] ok1
    by (auto simp: m2 Session_size_def sessions_ok_def registry_ok_def)
  have "open_session env s a token srcip st = (Inr i, st\<lparr>rs_sessions := mgr2\<rparr>)"
  proof (cases "map_of (sessions ?mgr) ?u")
    case None
    then show ?thesis
      using assms(3) add(1) same
      by (simp add: open_session_def act_bind_def getRole_by_roleid_def checkSession_by_name_def on_sessions_def)
  next
    case (Some old)
    then show ?thesis
      using assms(3) add(1) delSession_by_id_found [OF assms(1) Some]
      by (simp add: open_session_def act_bind_def getRole_by_roleid_def checkSession_by_name_def
          getSession_by_name_def on_sessions_def mgr1_def)
  qed
  then show ?thesis
    using add room fewer size2 m2
    by (intro exI [of _ i] exI [of _ mgr2]) (auto simp: mgr1_def fun_eq_iff)
qed

lemma open_session_no_role:
  "map_of (am_roles (rs_accounts st)) (acc_roleid a) = None \<Longrightarrow>
   open_session env s a token srcip st = (Inl (role_missing (acc_roleid a)), st)"
  by (simp add: open_session_def act_bind_def getRole_by_roleid_def)

text \<open>
  Logging in: a request that is answered with status 201 named an enabled account that was not
  locked and gave its password; afterwards the user has exactly one session, the new one, with the
  token of the answer, the address of the client and an id up to the maximum, and there are never
  more sessions than the maximum.
\<close>

lemma session_login_law:
  assumes "session_collection_post env q (st, r) = (Inr (), (st', r'))"
    and "resp_status r \<noteq> 201" and "resp_status r' = 201"
    and "sessions_ok (rs_sessions st)"
  shows "\<exists>j u p a s. validate_request_body (env_jsoncpp env) (env_fpu env) SessionCollectionPostSchema (req_body q) = Inr j
    \<and> get_member j ''UserName'' = JString u
    \<and> map_of (am_accounts (rs_accounts st)) u = Some a \<and> acc_enabled a \<and> \<not> acc_locked a
    \<and> fst (checkpw (env_crypt_env env) (am_service (rs_accounts st)) (env_now env) p a) = Inr 0
    \<and> map_of (sessions (rs_sessions st')) = (map_of (sessions (rs_sessions st)))(u \<mapsto> s)
    \<and> sess_token s = login_token env \<and> map_of (resp_headers r') ''X-Auth-Token'' = Some (sess_token s)
    \<and> sess_srcip s = get_header q ''SrcIp'' \<and> 1 \<le> sess_id s \<and> sess_id s \<le> max_sessions (rs_sessions st)
    \<and> sessions_ok (rs_sessions st') \<and> Session_size (rs_sessions st') \<le> max_sessions (rs_sessions st')"
proof -
  let ?mgr = "rs_sessions st" and ?tok = "login_token env"
  have en: "session_enabled ?mgr" and room: "Session_size ?mgr < max_sessions ?mgr"
    using assms(1-3) by (auto simp: session_collection_post_def act_bind_Inr set_status_def split: if_splits)
  then obtain j s where
    j: "validate_request_body (env_jsoncpp env) (env_fpu env) SessionCollectionPostSchema (req_body q) = Inr j"
    and s: "session_to_model j = Inr s"
    using assms(1) by (auto simp: session_collection_post_def act_bind_Inr)
  from session_body_readable [OF j] obtain u p where un: "get_member j ''UserName'' = JString u" and
    "get_member j ''UserName'' = JString u" "get_member j ''Password'' = JString p" and mem: "is_member j ''UserName''"
    by auto
  with s have su: "sess_username s = u" "sess_password s = p" by (auto simp: session_to_model_def)
  have rest: "act_bind (on_state (act_read (\<lambda>st. getAccount_by_name (rs_accounts st) u))) (\<lambda>a.
      if acc_locked a then on_response (set_status 503)
      else act_bind (on_state (on_accounts (account_login (env_crypt_env env) (env_now env) u p))) (\<lambda>res.
        if res \<noteq> 0 then on_response (set_status 401)
        else act_bind (on_state (act_read (\<lambda>st. getAccount_by_name (rs_accounts st) u))) (\<lambda>a1.
          if \<not> acc_enabled a1 then on_response (set_status 401)
          else act_bind (on_state (open_session env s a ?tok (get_header q ''SrcIp''))) (session_created env u ?tok))))
      (st, r) = (Inr (), (st', r'))"
    using assms(1-3) en room j s su mem
    by (auto simp: session_collection_post_def act_bind_step Let_def set_status_def split: if_splits)
  then obtain a where a: "map_of (am_accounts (rs_accounts st)) u = Some a" and unl: "\<not> acc_locked a"
    using assms(2,3) by (auto simp: act_bind_Inr getAccount_by_name_def set_status_def split: option.splits if_splits)
  obtain res a' log where chk: "checkpw (env_crypt_env env) (am_service (rs_accounts st)) (env_now env) p a = (res, a', log)"
    by (metis prod_cases3)
  define am1 where "am1 = (rs_accounts st)\<lparr>am_accounts := smap_put u a' (am_accounts (rs_accounts st)),
      am_log := am_log (rs_accounts st) @ log\<rparr>"
  have lg: "on_accounts (account_login (env_crypt_env env) (env_now env) u p) st = (res, st\<lparr>rs_accounts := am1\<rparr>)"
    using a chk by (simp add: on_accounts_def account_login_def am1_def)
  let ?st1 = "st\<lparr>rs_accounts := am1\<rparr>"
  have res: "res = Inr 0" and en1: "acc_enabled a'"
    and post: "act_bind (on_state (open_session env s a ?tok (get_header q ''SrcIp''))) (session_created env u ?tok)
        (?st1, r) = (Inr (), (st', r'))"
    using rest a unl lg assms(2,3)
    by (auto simp: act_bind_Inr getAccount_by_name_def set_status_def am1_def split: option.splits if_splits)
  have en0: "acc_enabled a" using checkpw_frame [OF chk] en1 by simp
  obtain role where role: "map_of (am_roles (rs_accounts ?st1)) (acc_roleid a) = Some role"
    using post open_session_no_role [of ?st1 a env s ?tok "get_header q ''SrcIp''"]
    by (cases "map_of (am_roles (rs_accounts ?st1)) (acc_roleid a)") (auto simp: act_bind_def)
  obtain i mgr where os: "open_session env s a ?tok (get_header q ''SrcIp'') ?st1 = (Inr i, ?st1\<lparr>rs_sessions := mgr\<rparr>)"
      "sessions_ok mgr" "1 \<le> i" "i \<le> max_sessions ?mgr" "max_sessions mgr = max_sessions ?mgr"
      "Session_size mgr \<le> max_sessions mgr"
      "map_of (sessions mgr) = (map_of (sessions ?mgr))(u \<mapsto>
         s\<lparr>sess_token := ?tok, sess_role := role_roleid role, sess_srcip := get_header q ''SrcIp'',
           sess_id := i, sess_time := env_now_ms env\<rparr>)"
    using open_session_correct [of ?st1 a role env s ?tok "get_header q ''SrcIp''"] assms(4) room role su by auto
  from post os(1) have "session_created env u ?tok i (?st1\<lparr>rs_sessions := mgr\<rparr>, r) = (Inr (), (st', r'))"
    by (simp add: act_bind_def)
  then have st': "rs_sessions st' = mgr" and hd: "map_of (resp_headers r') ''X-Auth-Token'' = Some ?tok"
    by (auto simp: session_created_def act_bind_Inr set_response_def set_resp_header_def set_status_def append_text_def)
  show ?thesis
    using j un a unl en0 chk res os st' hd
    by (intro exI [of _ j] exI [of _ u] exI [of _ p] exI [of _ a] exI) auto
qed

section \<open>Answers\<close>

lemma create_error_statuses [simp]:
  "http_status_code (create_internal_error m) = 500"
  "http_status_code (create_agent_unreachable_error m) = 503"
  "http_status_code (create_insufficient_privilege_error m) = 401"
  by (simp_all add: create_internal_error_def create_agent_unreachable_error_def
      create_insufficient_privilege_error_def create_error_def extend_if_def add_extended_message_def)

lemma not_found_status [simp]:
  "http_status_code (create_error_from_gami_exception (not_found_at m uri)) = 404"
  by (simp add: create_error_from_gami_exception_def add_extended_message_def error_for_gami_code_status
      not_found_at_def gami_http_status_def is_communication_error_def)

text \<open>
  C8: The connector answers every exception: a request gets no response only if the process crashes.
  What is not found is a 404, an unreachable agent a 503, an error of the server its own status, any
  other exception a 500.
\<close>

theorem connector_answers:
  assumes "callback q (s, new_response) = (Inl e, (s', r))" and "access_allowed s q"
  shows "case e of
      Undefined what \<Rightarrow> connector_handle access_allowed callback q s = (Inl what, s')
    | Gami ex \<Rightarrow> \<exists>r'. connector_handle access_allowed callback q s = (Inr r', s')
        \<and> (gami_code ex = NOT_FOUND \<longrightarrow> resp_status r' = 404)
        \<and> (gami_code ex \<noteq> NOT_FOUND \<longrightarrow> resp_status r' = http_status_code (create_error_from_gami_exception ex))
    | AgentUnreachable what \<Rightarrow> \<exists>r'. connector_handle access_allowed callback q s = (Inr r', s') \<and> resp_status r' = 503
    | ServerExc se \<Rightarrow> \<exists>r'. connector_handle access_allowed callback q s = (Inr r', s') \<and> resp_status r' = http_status_code se
    | StdExc what \<Rightarrow> \<exists>r'. connector_handle access_allowed callback q s = (Inr r', s') \<and> resp_status r' = 500"
  using assms by (auto simp: connector_handle_def respond_not_found_def split: exn.split)

end
