(* ===== verification/Rest_Service.thy ===== *)
theory Rest_Service
  imports Rest_Security
begin

text \<open>
  The running service: what \<^verbatim>\<open>app.cpp\<close> builds at the start, and what it goes through afterwards,
  requests routed by the multiplexer and the two periodic tasks. The invariant of the managers
  holds in every state it reaches.
\<close>

section \<open>Start\<close>

text \<open>\<open>loadSessionsConfig\<close>: an exception stops it and is logged; settings taken over stay.\<close>

definition loadSessionsConfig :: "fpu \<Rightarrow> string \<Rightarrow> session_manager \<Rightarrow> session_manager" where
  "loadSessionsConfig fp content mgr =
     (if content = [] then mgr
      else (case deserialize fp content of
              Inl _ \<Rightarrow> mgr
            | Inr j \<Rightarrow> snd (addSessionConfig fp j mgr)))"

definition boot :: "rest_env \<Rightarrow> string \<Rightarrow> string \<Rightarrow> rest_state" where
  "boot env accounts_file sessions_file =
     \<lparr>rs_sessions = loadSessionsConfig (env_fpu env) sessions_file new_session_manager,
      rs_accounts = loadPreRoles (loadAccounts (env_fpu env) accounts_file
                      (load_admin (env_crypt_env env) new_account_manager)),
      rs_accounts_file = accounts_file, rs_sessions_file = sessions_file\<rparr>"

section \<open>The sessions' invariant\<close>

text \<open>Beyond unique names and ids: the ids are those the maximum admits, so there are never more.\<close>

definition sessions_inv :: "session_manager \<Rightarrow> bool" where
  "sessions_inv mgr \<longleftrightarrow> sessions_ok mgr \<and> Session_size mgr \<le> max_sessions mgr
     \<and> (\<forall>u s. map_of (sessions mgr) u = Some s \<longrightarrow> 1 \<le> sess_id s \<and> sess_id s \<le> max_sessions mgr)"

section \<open>The invariant of the services\<close>

definition accounts_inv :: "account_manager \<Rightarrow> bool" where
  "accounts_inv am \<longleftrightarrow> accounts_ok am \<and> roles_ok am \<and> has_admin am"

definition rest_ok :: "rest_state \<Rightarrow> bool" where
  "rest_ok st \<longleftrightarrow> sessions_inv (rs_sessions st) \<and> accounts_inv (rs_accounts st)"

definition keeps_ok :: "'a rest_action \<Rightarrow> bool" where
  "keeps_ok m \<longleftrightarrow> keeps rest_ok m"

definition handler_ok :: "(rest_state, 'a) handler_action \<Rightarrow> bool" where
  "handler_ok h \<longleftrightarrow> keeps (\<lambda>sr. rest_ok (fst sr)) h"

lemma handler_ok_bind [inv_intros]: "handler_ok m \<Longrightarrow> (\<And>a. handler_ok (f a)) \<Longrightarrow> handler_ok (act_bind m f)"
  unfolding handler_ok_def by (rule keeps_bind)

lemma handler_ok_basic [inv_intros]:
  "handler_ok (act_return a)" "handler_ok (act_throw e)" "handler_ok (act_read f)" "handler_ok (on_response g)"
  by (auto simp: handler_ok_def keeps_def act_return_def act_throw_def act_read_def on_response_def)

lemma handler_ok_if [inv_intros]: "handler_ok x \<Longrightarrow> handler_ok y \<Longrightarrow> handler_ok (if b then x else y)"
  by simp

lemma handler_ok_state [inv_intros]: "keeps_ok m \<Longrightarrow> handler_ok (on_state m)"
  by (auto simp: handler_ok_def keeps_ok_def keeps_def on_state_def split: prod.split)

lemma keeps_ok_bind [inv_intros]: "keeps_ok m \<Longrightarrow> (\<And>a. keeps_ok (f a)) \<Longrightarrow> keeps_ok (act_bind m f)"
  unfolding keeps_ok_def by (rule keeps_bind)

lemma keeps_ok_basic [inv_intros]:
  "keeps_ok (act_return a)" "keeps_ok (act_throw e)" "keeps_ok (act_read f)"
  by (simp_all add: keeps_ok_def keeps_return keeps_throw keeps_read)

lemma keeps_ok_if [inv_intros]: "keeps_ok x \<Longrightarrow> keeps_ok y \<Longrightarrow> keeps_ok (if b then x else y)"
  by simp

lemma keeps_ok_sessions [inv_intros]:
  "(\<And>mgr. sessions_inv mgr \<Longrightarrow> sessions_inv (snd (m mgr))) \<Longrightarrow> keeps_ok (on_sessions m)"
  by (auto simp: keeps_ok_def keeps_def on_sessions_def rest_ok_def split: prod.split) (metis snd_conv)

lemma keeps_ok_accounts [inv_intros]:
  "(\<And>am. accounts_inv am \<Longrightarrow> accounts_inv (snd (m am))) \<Longrightarrow> keeps_ok (on_accounts m)"
  by (auto simp: keeps_ok_def keeps_def on_accounts_def rest_ok_def split: prod.split) (metis snd_conv)

lemma keeps_ok_files [inv_intros]: "keeps_ok (save_accounts_file env)" "keeps_ok (saveSessionsConfig env)"
  by (auto simp: keeps_ok_def keeps_def save_accounts_file_def saveSessionsConfig_def act_modify_def rest_ok_def)

subsection \<open>The managers' operations\<close>

lemma sessions_inv_fewer:
  assumes "sessions_inv mgr" and "sessions_ok mgr'" and "max_sessions mgr' = max_sessions mgr"
    and "Session_size mgr' \<le> Session_size mgr"
    and "\<And>u s'. map_of (sessions mgr') u = Some s' \<Longrightarrow> \<exists>s. map_of (sessions mgr) u = Some s \<and> sess_id s' = sess_id s"
  shows "sessions_inv mgr'"
  using assms by (fastforce simp: sessions_inv_def)

lemma registry_ok_filter: "registry_ok f g m \<Longrightarrow> registry_ok f g (filter P m)"
  by (auto simp: registry_ok_def smap_ok_filter distinct_map_filter)

lemma sessions_inv_filter:
  assumes "sessions_inv mgr" shows "sessions_inv (mgr\<lparr>sessions := filter P (sessions mgr)\<rparr>)"
proof (rule sessions_inv_fewer [OF assms])
  have ok: "registry_ok sess_username sess_id (sessions mgr)"
    using assms by (simp add: sessions_inv_def sessions_ok_def)
  then show "sessions_ok (mgr\<lparr>sessions := filter P (sessions mgr)\<rparr>)"
    by (simp add: sessions_ok_def registry_ok_filter)
  fix u s'
  assume "map_of (sessions (mgr\<lparr>sessions := filter P (sessions mgr)\<rparr>)) u = Some s'"
  then have "(u, s') \<in> set (sessions mgr)" by (auto dest: map_of_SomeD)
  with ok show "\<exists>s. map_of (sessions mgr) u = Some s \<and> sess_id s' = sess_id s"
    by (auto simp: registry_ok_def smap_ok_in_set)
qed (simp_all add: Session_size_def)

lemma sessions_inv_erase: "sessions_inv mgr \<Longrightarrow> sessions_inv (mgr\<lparr>sessions := smap_erase u (sessions mgr)\<rparr>)"
  unfolding smap_erase_def by (rule sessions_inv_filter)

lemma sessions_inv_delete: "sessions_inv mgr \<Longrightarrow> sessions_inv (snd (delSession_by_id i mgr))"
  by (auto simp: delSession_by_id_def delSession_by_name_def sessions_inv_erase split: option.split)

lemma sessions_inv_settings:
  "sessions_inv mgr \<Longrightarrow> sessions_inv (SetSessionConfigTimeOut t mgr)"
  "sessions_inv mgr \<Longrightarrow> sessions_inv (SetSessionConfigEnable b mgr)"
  by (simp_all add: SetSessionConfigTimeOut_def SetSessionConfigEnable_def delAllSession_def sessions_inv_def
      sessions_ok_def registry_ok_def Session_size_def)

lemma sessions_inv_update: "sessions_inv mgr \<Longrightarrow> sessions_inv (snd (updateSessionTimestamp token ip now mgr))"
proof (cases "token = [] \<or> (\<exists>e. getSession_by_Token mgr token = Inl e)")
  case True
  assume "sessions_inv mgr"
  with True show ?thesis by (auto simp: updateSessionTimestamp_def act_bind_def)
next
  case False
  assume inv: "sessions_inv mgr"
  then have ok: "sessions_ok mgr" by (simp add: sessions_inv_def)
  from False obtain s where s: "getSession_by_Token mgr token = Inr s" and t: "token \<noteq> []"
    by (cases "getSession_by_Token mgr token") auto
  have us: "map_of (sessions mgr) (sess_username s) = Some s"
    using token_session [OF ok s] by simp
  note upd = updateSessionTimestamp_law [OF ok t s, of ip now]
  have "length (smap_put (sess_username s) (s\<lparr>sess_time := now\<rparr>) (sessions mgr)) = length (sessions mgr)"
    using us ok by (subst length_smap_put) (auto simp: sessions_ok_def registry_ok_def)
  with upd us inv show ?thesis
    by (intro sessions_inv_fewer [OF inv]) (auto simp: Session_size_def split: if_splits)
qed

lemma sessions_inv_round: "sessions_inv mgr \<Longrightarrow> sessions_inv (snd (CheckSessionTimeout_round now mgr))"
  by (simp add: timeout_round_law sessions_inv_def [of mgr, THEN iffD1] sessions_inv_filter)

lemma accounts_inv_step:
  "accounts_inv am \<Longrightarrow> account_step env am am' \<Longrightarrow> accounts_ok am' \<Longrightarrow> roles_ok am' \<Longrightarrow> accounts_inv am'"
  by (simp add: accounts_inv_def account_step_admin)

lemma accounts_inv_login: "accounts_inv am \<Longrightarrow> accounts_inv (snd (account_login env now u p am))"
proof (cases "map_of (am_accounts am) u")
  case (Some a)
  assume inv: "accounts_inv am"
  obtain res am' where l: "account_login env now u p am = (res, am')" by force
  from inv Some l have "accounts_ok am'" using login_law [of am u a env now p res am'] by (simp add: accounts_inv_def)
  moreover have "am_roles am' = am_roles am \<and> am_rid am' = am_rid am"
    using l by (auto simp: account_login_def split: option.splits prod.splits)
  ultimately show ?thesis
    using inv l step_login [OF l] account_step_admin by (auto simp: accounts_inv_def roles_ok_def)
qed (simp add: account_login_def)

lemma accounts_inv_delete: "accounts_inv am \<Longrightarrow> accounts_inv (snd (delAccount_by_name u am))"
  using delAccount_by_name_admin [of am u]
  by (auto simp: accounts_inv_def delAccount_by_name_def accounts_ok_erase roles_ok_def)

lemma accounts_inv_add: "accounts_inv am \<Longrightarrow> accounts_inv (snd (addAccount a am))"
proof (cases "map_of (am_accounts am) (acc_username a)")
  case None
  assume inv: "accounts_inv am"
  with None addAccount_law [of am a] obtain am' where l: "addAccount a am = (Inr (am_id am), am')" "accounts_ok am'"
    by (auto simp: accounts_inv_def)
  moreover have "am_roles am' = am_roles am \<and> am_rid am' = am_rid am"
    using l(1) by (auto simp: addAccount_def Let_def split: if_splits)
  ultimately show ?thesis
    using inv step_addAccount [OF l(1)] account_step_admin by (auto simp: accounts_inv_def roles_ok_def)
qed (simp add: addAccount_def)

lemma accounts_inv_mod:
  assumes "accounts_inv am" and "map_of (am_accounts am) u = Some old" and "acc_id a = acc_id old"
  shows "accounts_inv (snd (modAccount u a am))"
proof (cases "u = acc_username a \<or> u \<noteq> ''admin''")
  case True
  with assms modAccount_law [of am u old a] obtain am' where l: "modAccount u a am = (Inr (), am')" "accounts_ok am'"
    by (auto simp: accounts_inv_def)
  moreover have "am_roles am' = am_roles am \<and> am_rid am' = am_rid am"
    using l(1) by (auto simp: modAccount_def act_bind_Inr act_return_def delAccount_by_name_def split: if_splits)
  ultimately show ?thesis
    using assms(1) step_modAccount [OF l(1)] account_step_admin by (auto simp: accounts_inv_def roles_ok_def)
next
  case False
  with assms show ?thesis by (auto simp: modAccount_def act_bind_def delAccount_by_name_def)
qed

lemma accounts_inv_delRole: "accounts_inv am \<Longrightarrow> accounts_inv (snd (delRole_by_id i am))"
  by (auto simp: accounts_inv_def delRole_by_id_def delRole_by_roleid_def accounts_ok_def has_admin_def
      roles_ok_iff role_registry.coherent_erase split: option.split)

lemma accounts_inv_service: "accounts_inv am \<Longrightarrow> accounts_inv (am\<lparr>am_service := svc\<rparr>)"
  by (simp add: accounts_inv_def accounts_ok_def roles_ok_def has_admin_def)

lemma accounts_inv_timekick: "accounts_inv am \<Longrightarrow> accounts_inv (timekick now am)"
  by (simp add: accounts_inv_def accounts_ok_timekick roles_ok_def has_admin_def map_of_timekick)
    (simp add: timekick_def)


subsection \<open>The endpoints\<close>

lemma handler_ok_response [inv_intros]: "handler_ok (set_response env j)"
  by (simp add: set_response_def handler_ok_basic)

lemma handler_ok_found [inv_intros]:
  assumes "\<And>ex. handler_ok (f ex)" and "\<And>a. handler_ok (g a)"
  shows "handler_ok (case x of Inl (Gami ex) \<Rightarrow> f ex | Inl e \<Rightarrow> act_throw e | Inr a \<Rightarrow> g a)"
  using assms by (auto simp: handler_ok_basic split: sum.split exn.split)

lemma keeps_ok_modify [inv_intros]:
  "(\<And>mgr. sessions_inv mgr \<Longrightarrow> sessions_inv (f mgr)) \<Longrightarrow> keeps_ok (on_sessions (act_modify f))"
  "(\<And>am. accounts_inv am \<Longrightarrow> accounts_inv (g am)) \<Longrightarrow> keeps_ok (on_accounts (act_modify g))"
  by (rule keeps_ok_sessions, simp) (rule keeps_ok_accounts, simp)

lemmas manager_invs = sessions_inv_delete sessions_inv_settings sessions_inv_update accounts_inv_login
  accounts_inv_delete accounts_inv_add accounts_inv_delRole accounts_inv_service

lemma handler_ok_get [inv_intros]:
  "handler_ok (session_service_get env q)" "handler_ok (account_service_get env q)"
  "handler_ok (role_collection_get env q)" "handler_ok (role_get env q)"
  "handler_ok (account_get env q)" "handler_ok (account_collection_get env q)"
  "handler_ok (session_get env q)" "handler_ok (session_collection_get env q)"
  unfolding session_service_get_def account_service_get_def role_collection_get_def role_get_def Let_def
    account_get_def account_collection_get_def session_get_def session_collection_get_def
  by (intro inv_intros)+

lemma handler_ok_write [inv_intros]:
  "handler_ok (session_del q)" "handler_ok (session_collection_del q)" "handler_ok (session_service_post env q)"
  "handler_ok (account_del env q)" "handler_ok (account_collection_post env q)"
  "handler_ok (account_service_patch env q)" "handler_ok (role_del q)" "handler_ok (role_collection_post q)"
  unfolding session_del_def session_collection_del_def session_service_post_def account_del_def role_del_def
    account_collection_post_def account_service_patch_def role_collection_post_def
  by (intro inv_intros manager_invs; assumption)+

text \<open>Where a call needs more than the invariant, what is left of the request is run from one state.\<close>

lemma handler_ok_at:
  "rest_ok (fst (snd (m sr))) \<Longrightarrow> (\<And>a. handler_ok (f a)) \<Longrightarrow> rest_ok (fst (snd (act_bind m f sr)))"
  by (auto simp: act_bind_def handler_ok_def keeps_def split: prod.splits sum.splits)

lemma if_member_frame:
  "if_member j k read f a = Inr b \<Longrightarrow> (\<And>x. acc_id (f x a) = acc_id a) \<Longrightarrow> acc_id b = acc_id a"
  by (cases "is_member j k"; cases "read (get_member j k)") (auto simp: if_member_def)

lemma set_password_id: "acc_id (set_password cenv p b a) = acc_id a"
  by (auto simp: set_password_def encry_def split: prod.split)

lemma patch_members_id:
  assumes "patch_members cenv am j a = Inr b" shows "acc_id b = acc_id a"
proof -
  obtain a1 a2 a3 a4 where
    "patch_username am j a = Inr a1"
    "if_member j ''Password'' as_string (\<lambda>p. set_password cenv p True) a1 = Inr a2"
    "if_member j ''Name'' as_string (\<lambda>n a. a\<lparr>acc_name := n\<rparr>) a2 = Inr a3"
    "if_member j ''Enabled'' as_bool (\<lambda>b a. a\<lparr>acc_enabled := b\<rparr>) a3 = Inr a4"
    "if_member j ''Locked'' as_bool (\<lambda>b a. a\<lparr>acc_locked := b\<rparr>) a4 = Inr b"
    using assms by (auto simp: patch_members_def res_bind_Inr_iff)
  moreover have "acc_id a1 = acc_id a"
    using calculation(1) by (auto simp: patch_username_def res_bind_Inr_iff split: if_splits)
  ultimately show ?thesis
    by (auto simp: set_password_id dest!: if_member_frame)
qed

lemma store_account_ok:
  assumes "rest_ok st" and "map_of (am_accounts (rs_accounts st)) u = Some old" and "acc_id a = acc_id old"
  shows "rest_ok (fst (snd (store_account env q u a (st, r))))"
  unfolding store_account_def
proof (rule handler_ok_at)
  show "rest_ok (fst (snd (on_state (on_accounts (modAccount u a)) (st, r))))"
    using assms accounts_inv_mod [of "rs_accounts st" u old a]
    by (auto simp: on_accounts_def rest_ok_def split: prod.split)
qed (intro inv_intros)

lemma account_patch_ok: "handler_ok (account_patch env q)"
  unfolding handler_ok_def keeps_def
proof (intro allI impI)
  fix sr :: "rest_state \<times> response"
  obtain st r where sr: "sr = (st, r)" by force
  assume "rest_ok (fst sr)"
  then have ok: "rest_ok st" using sr by simp
  have names: "accounts_ok (rs_accounts st)" using ok by (simp add: rest_ok_def accounts_inv_def)
  have stored: "rest_ok (fst (snd (store_account env q (acc_username old) (a\<lparr>acc_roleid := rid\<rparr>) (st, r'))))"
    "rest_ok (fst (snd (store_account env q (acc_username old) a (st, r'))))"
    if "map_of (am_accounts (rs_accounts st)) (account_param q) = Some old"
      "patch_members (env_crypt_env env) (rs_accounts st) j old = Inr a" for old j a rid r'
    using that(1) patch_members_id [OF that(2)] account_name [OF names that(1)]
    by (auto intro!: store_account_ok [where old = old] ok)
  show "rest_ok (fst (snd (account_patch env q sr)))"
    using ok stored
    by (auto simp: sr account_patch_def act_bind_def getAccount_by_name_def
        split: option.split sum.split exn.split)
qed

section \<open>Opening a session\<close>

definition has_room :: "rest_state \<Rightarrow> bool" where
  "has_room st \<longleftrightarrow> rest_ok st \<and> Session_size (rs_sessions st) < max_sessions (rs_sessions st)"

lemma open_session_ok:
  assumes "has_room st"
  shows "rest_ok (snd (open_session env s a token srcip st))"
proof (cases "map_of (am_roles (rs_accounts st)) (acc_roleid a)")
  case None
  with assms show ?thesis by (simp add: open_session_no_role has_room_def)
next
  case (Some role)
  from assms have "sessions_inv (rs_sessions st)" and room: "Session_size (rs_sessions st) < max_sessions (rs_sessions st)"
    and "accounts_inv (rs_accounts st)"
    by (auto simp: has_room_def rest_ok_def)
  moreover from this open_session_correct [OF _ room Some, of env s token srcip]
  obtain i mgr where
    "open_session env s a token srcip st = (Inr i, st\<lparr>rs_sessions := mgr\<rparr>)"
    "sessions_ok mgr" "1 \<le> i" "i \<le> max_sessions (rs_sessions st)"
    "max_sessions mgr = max_sessions (rs_sessions st)" "Session_size mgr \<le> max_sessions mgr"
    "map_of (sessions mgr) = (map_of (sessions (rs_sessions st)))(sess_username s \<mapsto>
        s\<lparr>sess_token := token, sess_role := role_roleid role, sess_srcip := srcip,
          sess_id := i, sess_time := env_now_ms env\<rparr>)"
    by (auto simp: sessions_inv_def)
  ultimately show ?thesis by (auto simp: rest_ok_def sessions_inv_def)
qed

text \<open>Checking a password touches no session, so the room that was found is still there.\<close>

definition handler_room :: "(rest_state, 'a) handler_action \<Rightarrow> bool" where
  "handler_room h \<longleftrightarrow> (\<forall>sr. has_room (fst sr) \<longrightarrow> rest_ok (fst (snd (h sr))))"

lemma handler_room_read:
  "(\<And>x. handler_room (f x)) \<Longrightarrow> handler_room (act_bind (act_read g) f)"
  "(\<And>x. handler_room (f x)) \<Longrightarrow> handler_room (act_bind (on_state (act_read h)) f)"
  by (auto simp: handler_room_def act_bind_def has_room_def split: sum.split prod.split)

lemma handler_room_login:
  assumes "\<And>x. handler_room (f x)"
  shows "handler_room (act_bind (on_state (on_accounts (account_login cenv now u p))) f)"
proof -
  have "has_room (st\<lparr>rs_accounts := snd (account_login cenv now u p (rs_accounts st))\<rparr>)" if "has_room st" for st
    using that accounts_inv_login by (auto simp: has_room_def rest_ok_def)
  then show ?thesis
    using assms
    by (auto simp: handler_room_def act_bind_def on_accounts_def split: sum.split prod.split)
      (metis fst_conv snd_conv has_room_def)+
qed

lemma handler_room_ok: "handler_ok h \<Longrightarrow> handler_room h"
  by (auto simp: handler_room_def handler_ok_def keeps_def has_room_def)

lemma handler_room_if: "handler_room x \<Longrightarrow> handler_room y \<Longrightarrow> handler_room (if b then x else y)"
  by simp

lemma fst_snd_on_state [simp]: "fst (snd (on_state m sr)) = snd (m (fst sr))"
  by (simp add: on_state_def split: prod.split)

lemma handler_room_open: "handler_room (act_bind (on_state (open_session env s a token srcip)) (session_created env u token))"
proof -
  have "handler_ok (session_created env u token i)" for i
    unfolding session_created_def by (intro inv_intros)
  then show ?thesis
    unfolding handler_room_def
    by (intro allI impI handler_ok_at) (simp_all add: open_session_ok)
qed

lemma session_collection_post_room: "handler_room (session_collection_post env q)"
  unfolding session_collection_post_def Let_def
  by (intro handler_room_read handler_room_login handler_room_if handler_room_open
      handler_room_ok [OF handler_ok_basic(1)] handler_room_ok [OF handler_ok_basic(4)])

lemma session_collection_post_ok: "handler_ok (session_collection_post env q)"
  unfolding handler_ok_def keeps_def
proof (intro allI impI)
  fix sr :: "rest_state \<times> response"
  obtain st r where sr: "sr = (st, r)" by force
  assume "rest_ok (fst sr)"
  then have ok: "rest_ok st" using sr by simp
  show "rest_ok (fst (snd (session_collection_post env q sr)))"
  proof (cases "session_enabled (rs_sessions st) \<and> Session_size (rs_sessions st) < max_sessions (rs_sessions st)")
    case False
    with ok show ?thesis by (auto simp: sr session_collection_post_def act_bind_def)
  next
    case True
    then have "has_room st" using ok by (simp add: has_room_def)
    then show ?thesis using session_collection_post_room by (simp add: handler_room_def sr)
  qed
qed

section \<open>Every state the service reaches\<close>

text \<open>
  The service serves requests one after another, each with the clocks and random numbers of its
  time and through any connector; between them the two periodic tasks run: the lockout
  counters' (every five seconds) and the expiry of sessions.
\<close>

inductive server_step :: "rest_state \<Rightarrow> rest_state \<Rightarrow> bool" where
  serve: "rest_mux env = Inr mx
    \<Longrightarrow> connector_handle access_allowed (forward_to_handler mx) q st = (answer, st') \<Longrightarrow> server_step st st'"
| lockout_timer: "server_step st (st\<lparr>rs_accounts := timekick now (rs_accounts st)\<rparr>)"
| session_timer: "CheckSessionTimeout_round now_ms (rs_sessions st) = (res, mgr)
    \<Longrightarrow> server_step st (st\<lparr>rs_sessions := mgr\<rparr>)"

inductive_cases server_stepE: "server_step st st'"

definition endpoint_ok :: "rest_state endpoint \<Rightarrow> bool" where
  "endpoint_ok h \<longleftrightarrow> (\<forall>q n. keeps_ok (ep_authen h q n)) \<and> (\<forall>m q. handler_ok (ep_run h m q))"

lemma authen_check_ok: "keeps_ok (authen_check env q n)"
proof -
  have "keeps_ok (session_authen env token srcip meth)" for token srcip meth
    unfolding session_authen_def by (intro inv_intros manager_invs)
  moreover have "keeps_ok (basic_authen env u p meth)" for u p meth
    unfolding basic_authen_def by (intro inv_intros manager_invs)
  ultimately show ?thesis
    unfolding authen_check_def Let_def by (auto intro!: inv_intros split: prod.split)
qed

lemma make_endpoint_ok:
  "(\<And>m h q. ops m = Some h \<Longrightarrow> handler_ok (h q)) \<Longrightarrow> endpoint_ok (make_endpoint env path ops)"
  by (auto simp: endpoint_ok_def make_endpoint_def authen_check_ok handler_ok_basic split: option.split)

lemma rest_endpoints_ok: "(h, access) \<in> set (rest_endpoints env) \<Longrightarrow> endpoint_ok h"
  by (auto simp: rest_endpoints_def split: if_splits
      intro!: make_endpoint_ok handler_ok_get handler_ok_write account_patch_ok session_collection_post_ok)

lemma register_all_handlers:
  "register_all hs mx = Inr mx' \<Longrightarrow> c \<in> set (candidates mx')
    \<Longrightarrow> c \<in> set (candidates mx) \<or> (cand_handler c, cand_access c) \<in> set hs"
proof (induction hs mx rule: register_all.induct)
  case (2 h access rest mx)
  then obtain mx1 where mx1: "register_handler h access mx = Inr mx1" "register_all rest mx1 = Inr mx'"
    by (auto simp: result_simps)
  from 2(1) [OF mx1(2) 2(3)] show ?case by (cases rule: register_handler_cases [OF mx1(1)]) auto
qed simp

lemma register_all_plugins:
  "register_all hs mx = Inr mx' \<Longrightarrow> pre_handlers mx' = pre_handlers mx \<and> post_handlers mx' = post_handlers mx"
proof (induction hs mx rule: register_all.induct)
  case (2 h access rest mx)
  then obtain mx1 where mx1: "register_handler h access mx = Inr mx1" "register_all rest mx1 = Inr mx'"
    by (auto simp: result_simps)
  from 2(1) [OF mx1(2)] show ?case by (cases rule: register_handler_cases [OF mx1(1)]) auto
qed simp

lemma rest_mux_ok:
  assumes "rest_mux env = Inr mx"
  shows "pre_handlers mx = []" and "\<forall>c \<in> set (candidates mx). endpoint_ok (cand_handler c)"
  using register_all_plugins [of _ _ mx] register_all_handlers [of _ _ mx] assms
  by (fastforce simp: rest_mux_def intro: rest_endpoints_ok)+

text \<open>
  What the operations of every endpoint keep of the server state, the multiplexer and the connector keep:
  the two lemmas serve any state and any property.
\<close>

definition endpoint_keeps :: "('s \<Rightarrow> bool) \<Rightarrow> 's endpoint \<Rightarrow> bool" where
  "endpoint_keeps P h \<longleftrightarrow> (\<forall>q n. keeps P (ep_authen h q n)) \<and> (\<forall>m q. keeps (\<lambda>sr. P (fst sr)) (ep_run h m q))"

lemma keeps_on_state: "keeps P m \<Longrightarrow> keeps (\<lambda>sr. P (fst sr)) (on_state m)"
  by (auto simp: keeps_def on_state_def split: prod.split)

lemma keeps_on_response: "keeps (\<lambda>sr. P (fst sr)) (on_response f)"
  by (auto simp: keeps_def on_response_def)

lemma forward_keeps:
  assumes "pre_handlers mx = []" and "\<forall>c \<in> set (candidates mx). endpoint_keeps P (cand_handler c)"
  shows "keeps (\<lambda>sr. P (fst sr)) (forward_to_handler mx q)"
proof -
  have run: "keeps (\<lambda>sr. P (fst sr)) (execute_handler h q e)" if "endpoint_keeps P h" for h q e
    using that unfolding execute_handler_def
    by (auto split: option.split simp: endpoint_keeps_def intro!: inv_intros keeps_on_state keeps_on_response)
  have chosen: "endpoint_keeps P (cand_handler c)" if "select_handler mx segs uri = Inr c" for c segs uri
    using that assms(2) by (auto simp: select_handler_def find_Some_iff split: option.splits)
  show ?thesis
    unfolding keeps_def using run [unfolded keeps_def] chosen
    by (auto simp: forward_to_handler_def assms(1) act_bind_def Let_def split: sum.split)
qed

lemma connector_keeps:
  assumes "keeps (\<lambda>sr. P (fst sr)) (callback q)" and "P st"
  shows "P (snd (connector_handle access_allowed callback q st))"
proof -
  obtain x st' r where c: "callback q (st, new_response) = (x, (st', r))" by (metis prod_cases3)
  then have "P st'" using assms by (auto simp: keeps_def) (metis fst_conv snd_conv)
  then show ?thesis using assms(2) c
    by (auto simp: connector_handle_def split: sum.split exn.split)
qed

lemma endpoint_ok_keeps: "endpoint_ok h \<longleftrightarrow> endpoint_keeps rest_ok h"
  by (simp add: endpoint_ok_def endpoint_keeps_def keeps_ok_def handler_ok_def)

lemma forward_ok:
  assumes "pre_handlers mx = []" and "\<forall>c \<in> set (candidates mx). endpoint_ok (cand_handler c)"
  shows "handler_ok (forward_to_handler mx q)"
  unfolding handler_ok_def by (rule forward_keeps) (use assms in \<open>simp_all add: endpoint_ok_keeps\<close>)

lemma connector_ok:
  assumes "handler_ok (callback q)" and "rest_ok st"
  shows "rest_ok (snd (connector_handle access_allowed callback q st))"
  using assms unfolding handler_ok_def by (rule connector_keeps)

lemma server_step_ok: "server_step st st' \<Longrightarrow> rest_ok st \<Longrightarrow> rest_ok st'"
proof (induction rule: server_step.induct)
  case (serve env mx access_allowed q st answer st')
  then show ?case
    using connector_ok [of "forward_to_handler mx" q st access_allowed] forward_ok rest_mux_ok by (metis snd_conv)
next
  case (lockout_timer st now)
  then show ?case using accounts_inv_timekick by (simp add: rest_ok_def)
next
  case (session_timer now_ms st res mgr)
  then show ?case using sessions_inv_round [of "rs_sessions st" now_ms] by (simp add: rest_ok_def)
qed

subsection \<open>The state after the start\<close>

definition loading_inv :: "account_manager \<Rightarrow> bool" where
  "loading_inv am \<longleftrightarrow> loading_ok am \<and> roles_ok am \<and> has_admin am"

lemma roles_ok_accounts [simp]: "roles_ok (am\<lparr>am_id := n, am_accounts := m\<rparr>) = roles_ok am"
  "roles_ok (am\<lparr>am_accounts := m\<rparr>) = roles_ok am" "roles_ok (am\<lparr>am_id := n\<rparr>) = roles_ok am"
  by (simp_all add: roles_ok_def)

lemma load_account_inv:
  assumes "loading_inv am" shows "loading_inv (snd (load_account j am))"
proof (cases "account_from_json j")
  case (Inl e)
  with assms show ?thesis by (simp add: load_account_def act_bind_def)
next
  case (Inr a)
  then have id: "acc_id a = 0" by (auto simp: account_from_json_def res_bind_Inr_iff new_account_def)
  show ?thesis
  proof (cases "acc_username a = ''admin''")
    case True
    have "accounts_ok (am\<lparr>am_id := am_id am, am_accounts := smap_put (acc_username a) a (am_accounts am)\<rparr>)"
      using assms True id by (intro accounts_ok_put) (auto simp: loading_inv_def loading_ok_def)
    with assms True Inr id show ?thesis
      by (auto simp: load_account_def act_bind_def modAccount_def loading_inv_def loading_ok_def has_admin_def)
  next
    case False
    then have load: "snd (load_account j am) = snd (addAccount a am)"
      using Inr by (simp add: load_account_def act_bind_def split: prod.split sum.split)
    show ?thesis
    proof (cases "map_of (am_accounts am) (acc_username a)")
      case None
      with addAccount_law [of am a] assms obtain am' where
        l: "addAccount a am = (Inr (am_id am), am')" "accounts_ok am'" "am_id am < am_id am'"
          "map_of (am_accounts am') = (map_of (am_accounts am))(acc_username a \<mapsto> a\<lparr>acc_id := am_id am\<rparr>)"
        by (auto simp: loading_inv_def loading_ok_def)
      moreover have "roles_ok am'"
        using l(1) assms by (auto simp: addAccount_def Let_def loading_inv_def split: if_splits)
      ultimately show ?thesis
        using assms False unfolding load by (auto simp: loading_inv_def loading_ok_def has_admin_def)
    qed (use assms load in \<open>simp add: addAccount_def\<close>)
  qed
qed

lemma load_account_list_inv: "loading_inv am \<Longrightarrow> loading_inv (snd (load_account_list js am))"
proof (induction js arbitrary: am)
  case (Cons j js)
  then have "loading_inv (snd (load_account j am))" by (simp add: load_account_inv)
  with Cons show ?case by (auto simp: act_bind_def split: prod.split sum.split)
qed simp

lemma load_admin_inv: "loading_inv (load_admin cenv new_account_manager)"
  by (auto simp: loading_inv_def loading_ok_def load_admin_def addAccount_def Let_def new_account_manager_def
      set_password_def new_account_def encry_def accounts_ok_def roles_ok_def registry_ok_def smap_ok_def
      has_admin_def)

lemma loadAccounts_inv: "loading_inv am \<Longrightarrow> loading_inv (loadAccounts fp content am)"
  by (auto simp: loadAccounts_def load_account_list_inv split: sum.split json.split)

lemma addRole_inv: "accounts_inv am \<Longrightarrow> accounts_inv (snd (addRole r am))"
  using addRole_ok [of am r]
  by (auto simp: accounts_inv_def addRole_def Let_def accounts_ok_def has_admin_def split: if_splits)

lemma loadPreRoles_inv: "accounts_inv am \<Longrightarrow> accounts_inv (loadPreRoles am)"
  unfolding loadPreRoles_def using addRole_inv
  by (auto simp: act_bind_def split: prod.split sum.split) (metis snd_conv)+

lemma loadSessionsConfig_inv: "sessions_inv (loadSessionsConfig fp content new_session_manager)"
proof -
  have "sessions (snd (addSessionConfig fp j mgr)) = []" if "sessions mgr = []" for j mgr
    using that
    by (auto simp: addSessionConfig_def act_bind_def SetSessionConfigEnable_def SetSessionConfigTimeOut_def
        SetBasicAuthenServiceConfigEnable_def SetSessionConfigMaxSessions_def delAllSession_def split: sum.split)
  then show ?thesis
    by (auto simp: loadSessionsConfig_def sessions_inv_def sessions_ok_def registry_ok_def Session_size_def
        new_session_manager_def split: sum.split)
qed

text \<open>
  C2: Whatever the files at the start hold and whatever requests are served, well-formed or not, by
  anyone: every session is filed under its user with an id of its own between 1 and the maximum,
  so there are never more than the maximum; accounts and roles are filed under their names with ids
  of their own; and there is an account \<open>admin\<close>.
\<close>

theorem service_invariant:
  assumes "server_step\<^sup>*\<^sup>* (boot env accounts_file sessions_file) st"
  shows "sessions_inv (rs_sessions st) \<and> accounts_ok (rs_accounts st) \<and> roles_ok (rs_accounts st)
    \<and> map_of (am_accounts (rs_accounts st)) ''admin'' \<noteq> None"
proof -
  have "rest_ok (boot env accounts_file sessions_file)"
    using loadAccounts_inv [OF load_admin_inv] loadPreRoles_inv loadSessionsConfig_inv
    by (simp add: boot_def rest_ok_def loading_inv_def loading_ok_def accounts_inv_def)
  with assms have "rest_ok st"
    by (induction rule: rtranclp_induct) (auto intro: server_step_ok)
  then show ?thesis by (simp add: rest_ok_def accounts_inv_def has_admin_def)
qed

end
