(* ===== verification/Rest_Requests.thy ===== *)
theory Rest_Requests
  imports Rest_Service
begin

text \<open>
  Requests from the URL to the answer: which endpoint of the account and session services a path
  reaches, and what a request to it does, with authentication, routing and the connector in place.
\<close>

section \<open>The routing table\<close>

definition word_class :: regex_atom where
  "word_class = Class [(CHR ''a'', CHR ''z''), (CHR ''A'', CHR ''Z''), (CHR ''0'', CHR ''9''), (CHR ''_'', CHR ''_'')]"

definition digit_class :: regex_atom where
  "digit_class = Class [(CHR ''0'', CHR ''9'')]"

abbreviation accounts_base :: "string list" where
  "accounts_base \<equiv> [''redfish'', ''v1'', ''AccountService'']"

abbreviation sessions_base :: "string list" where
  "sessions_base \<equiv> [''redfish'', ''v1'', ''SessionService'']"

definition route_table :: "matcher list list" where
  "route_table =
     [map StaticMatcher accounts_base,
      map StaticMatcher (accounts_base @ [''Accounts'']),
      map StaticMatcher (accounts_base @ [''Roles'']),
      map StaticMatcher (accounts_base @ [''Accounts'']) @ [RegexMatcher ''accountId'' [(word_class, Plus)]],
      map StaticMatcher (accounts_base @ [''Roles'']) @ [RegexMatcher ''roleId'' [(digit_class, Plus)]],
      map StaticMatcher sessions_base,
      map StaticMatcher (sessions_base @ [''Sessions'']),
      map StaticMatcher (sessions_base @ [''Sessions'']) @ [RegexMatcher ''SessionId'' [(digit_class, Plus)]]]"

definition endpoint_paths :: "string list" where
  "endpoint_paths =
     [account_service_path, path_append ''Accounts'' account_service_path, path_append ''Roles'' account_service_path,
      path_append_regex ''accountId'' USERNAME_REGEX (path_append ''Accounts'' account_service_path),
      path_append_regex ''roleId'' ID_REGEX (path_append ''Roles'' account_service_path), session_service_path,
      path_append ''Sessions'' session_service_path,
      path_append_regex ''SessionId'' ID_REGEX (path_append ''Sessions'' session_service_path)]"

lemma endpoint_segments: "map path_to_segments endpoint_paths = map Inr route_table" "distinct endpoint_paths"
  by code_simp+

lemma register_all_distinct:
  assumes "map (\<lambda>e. path_to_segments (ep_path (fst e))) hs = map Inr table"
    and "distinct (map cand_path (candidates mx) @ map (\<lambda>e. ep_path (fst e)) hs)"
  shows "register_all hs mx = Inr (mx\<lparr>candidates := candidates mx @
    map2 (\<lambda>e segs. \<lparr>cand_segments = segs, cand_handler = fst e, cand_path = ep_path (fst e), cand_access = snd e\<rparr>) hs table\<rparr>)"
  using assms
proof (induction hs arbitrary: table mx)
  case Nil
  then show ?case by simp
next
  case (Cons e hs)
  then obtain segs table' where t: "table = segs # table'" "path_to_segments (ep_path (fst e)) = Inr segs"
      "map (\<lambda>e. path_to_segments (ep_path (fst e))) hs = map Inr table'"
    by (cases table) auto
  obtain h access where e: "e = (h, access)" by force
  have "List.find (\<lambda>c. cand_path c = ep_path h) (candidates mx) = None"
    using Cons.prems(2) e by (auto simp: find_None_iff) (metis image_eqI)
  with t e Cons.prems(2) show ?case
    by (simp add: register_handler_def Cons.IH)
qed

definition rest_candidates :: "rest_env \<Rightarrow> rest_state candidate list" where
  "rest_candidates env = map2 (\<lambda>e segs. \<lparr>cand_segments = segs, cand_handler = fst e, cand_path = ep_path (fst e),
     cand_access = snd e\<rparr>) (rest_endpoints env) route_table"

lemma rest_mux_eq: "rest_mux env = Inr \<lparr>candidates = rest_candidates env, pre_handlers = [], post_handlers = []\<rparr>"
proof -
  have p: "map (\<lambda>e. ep_path (fst e)) (rest_endpoints env) = endpoint_paths"
    by (simp add: rest_endpoints_def make_endpoint_def endpoint_paths_def)
  then have "map (\<lambda>e. path_to_segments (ep_path (fst e))) (rest_endpoints env) = map path_to_segments endpoint_paths"
    by (metis (no_types, lifting) list.map_comp o_def map_eq_conv)
  with endpoint_segments(1) have r: "map (\<lambda>e. path_to_segments (ep_path (fst e))) (rest_endpoints env) = map Inr route_table"
    by simp
  show ?thesis
    unfolding rest_mux_def by (subst register_all_distinct [OF r]) (simp_all add: p endpoint_segments(2) rest_candidates_def)
qed

text \<open>Whether a path is one of the table's routes, by its segments.\<close>

lemma matches_static: "segments_match (map StaticMatcher base) segs \<longleftrightarrow> segs = base"
proof -
  have "list_all2 check_match (map StaticMatcher base) segs \<longleftrightarrow> segs = base"
  proof (induction base arbitrary: segs)
    case (Cons b base)
    then show ?case by (cases segs) auto
  qed simp
  then show ?thesis by (auto simp: segments_match_def)
qed

definition is_word :: "string \<Rightarrow> bool" where
  "is_word s \<longleftrightarrow> s \<noteq> [] \<and> (\<forall>c \<in> set s. atom_matches word_class c)"

definition is_digits :: "string \<Rightarrow> bool" where
  "is_digits s \<longleftrightarrow> s \<noteq> [] \<and> (\<forall>c \<in> set s. is_digit c)"

lemma matches_param:
  "segments_match (map StaticMatcher base @ [RegexMatcher name [(word_class, Plus)]]) segs
     \<longleftrightarrow> (\<exists>u. segs = base @ [u] \<and> is_word u)"
  "segments_match (map StaticMatcher base @ [RegexMatcher name [(digit_class, Plus)]]) segs
     \<longleftrightarrow> (\<exists>u. segs = base @ [u] \<and> is_digits u)"
  by (auto simp: segments_match_static regex_match_Plus is_word_def is_digits_def digit_class_def in_digit_range
      simp del: regex_match.simps)

definition endpoint_at :: "rest_env \<Rightarrow> nat \<Rightarrow> rest_state candidate" where
  "endpoint_at env i = rest_candidates env ! i"

lemma rest_candidates_eq: "rest_candidates env = map (endpoint_at env) [0, 1, 2, 3, 4, 5, 6, 7]"
  by (simp add: endpoint_at_def rest_candidates_def rest_endpoints_def route_table_def)

lemma split_service:
  "segs = [a, b, c] @ rest \<longleftrightarrow> take 3 segs = [a, b, c] \<and> drop 3 segs = rest"
  by (metis append_take_drop_id append_eq_conv_conj length_Cons list.size(3) numeral_3_eq_3)

lemma in_service:
  "segs = [a, b, c] \<longleftrightarrow> take 3 segs = [a, b, c] \<and> drop 3 segs = []"
  "segs = [a, b, c, d] \<longleftrightarrow> take 3 segs = [a, b, c] \<and> drop 3 segs = [d]"
  "(\<exists>u. segs = [a, b, c, d] @ [u] \<and> P u) \<longleftrightarrow> take 3 segs = [a, b, c] \<and> (\<exists>u. drop 3 segs = [d, u] \<and> P u)"
  using split_service [of segs a b c "[]"] split_service [of segs a b c "[d]"] split_service [of segs a b c "[d, u]" for u]
  by auto

lemma endpoint_matches:
  "segments_match (cand_segments (endpoint_at env 0)) segs \<longleftrightarrow> take 3 segs = accounts_base \<and> drop 3 segs = []"
  "segments_match (cand_segments (endpoint_at env 1)) segs \<longleftrightarrow> take 3 segs = accounts_base \<and> drop 3 segs = [''Accounts'']"
  "segments_match (cand_segments (endpoint_at env 2)) segs \<longleftrightarrow> take 3 segs = accounts_base \<and> drop 3 segs = [''Roles'']"
  "segments_match (cand_segments (endpoint_at env 3)) segs \<longleftrightarrow>
     take 3 segs = accounts_base \<and> (\<exists>u. drop 3 segs = [''Accounts'', u] \<and> is_word u)"
  "segments_match (cand_segments (endpoint_at env 4)) segs \<longleftrightarrow>
     take 3 segs = accounts_base \<and> (\<exists>u. drop 3 segs = [''Roles'', u] \<and> is_digits u)"
  "segments_match (cand_segments (endpoint_at env 5)) segs \<longleftrightarrow> take 3 segs = sessions_base \<and> drop 3 segs = []"
  "segments_match (cand_segments (endpoint_at env 6)) segs \<longleftrightarrow> take 3 segs = sessions_base \<and> drop 3 segs = [''Sessions'']"
  "segments_match (cand_segments (endpoint_at env 7)) segs \<longleftrightarrow>
     take 3 segs = sessions_base \<and> (\<exists>u. drop 3 segs = [''Sessions'', u] \<and> is_digits u)"
proof -
  have l: "length (rest_endpoints env) = 8" "length route_table = 8"
    by (simp_all add: rest_endpoints_def route_table_def)
  then have c: "cand_segments (endpoint_at env i) = route_table ! i" if "i < 8" for i
    using that by (simp add: endpoint_at_def rest_candidates_def)
  have t: "route_table ! 0 = map StaticMatcher accounts_base"
    "route_table ! 1 = map StaticMatcher [''redfish'', ''v1'', ''AccountService'', ''Accounts'']"
    "route_table ! 2 = map StaticMatcher [''redfish'', ''v1'', ''AccountService'', ''Roles'']"
    "route_table ! 3 = map StaticMatcher [''redfish'', ''v1'', ''AccountService'', ''Accounts'']
       @ [RegexMatcher ''accountId'' [(word_class, Plus)]]"
    "route_table ! 4 = map StaticMatcher [''redfish'', ''v1'', ''AccountService'', ''Roles'']
       @ [RegexMatcher ''roleId'' [(digit_class, Plus)]]"
    "route_table ! 5 = map StaticMatcher sessions_base"
    "route_table ! 6 = map StaticMatcher [''redfish'', ''v1'', ''SessionService'', ''Sessions'']"
    "route_table ! 7 = map StaticMatcher [''redfish'', ''v1'', ''SessionService'', ''Sessions'']
       @ [RegexMatcher ''SessionId'' [(digit_class, Plus)]]"
    by (simp_all only: route_table_def) simp_all
  show "segments_match (cand_segments (endpoint_at env 0)) segs \<longleftrightarrow>
    take 3 segs = accounts_base \<and> drop 3 segs = []"
    by (subst c, simp, subst t(1), rule trans [OF matches_static in_service(1)])
  show "segments_match (cand_segments (endpoint_at env 1)) segs \<longleftrightarrow>
    take 3 segs = accounts_base \<and> drop 3 segs = [''Accounts'']"
    by (subst c, simp, subst t(2), rule trans [OF matches_static in_service(2)])
  show "segments_match (cand_segments (endpoint_at env 2)) segs \<longleftrightarrow>
    take 3 segs = accounts_base \<and> drop 3 segs = [''Roles'']"
    by (subst c, simp, subst t(3), rule trans [OF matches_static in_service(2)])
  show "segments_match (cand_segments (endpoint_at env 3)) segs \<longleftrightarrow>
    take 3 segs = accounts_base \<and> (\<exists>u. drop 3 segs = [''Accounts'', u] \<and> is_word u)"
    by (subst c, simp, subst t(4), rule trans [OF matches_param(1) in_service(3)])
  show "segments_match (cand_segments (endpoint_at env 4)) segs \<longleftrightarrow>
    take 3 segs = accounts_base \<and> (\<exists>u. drop 3 segs = [''Roles'', u] \<and> is_digits u)"
    by (subst c, simp, subst t(5), rule trans [OF matches_param(2) in_service(3)])
  show "segments_match (cand_segments (endpoint_at env 5)) segs \<longleftrightarrow>
    take 3 segs = sessions_base \<and> drop 3 segs = []"
    by (subst c, simp, subst t(6), rule trans [OF matches_static in_service(1)])
  show "segments_match (cand_segments (endpoint_at env 6)) segs \<longleftrightarrow>
    take 3 segs = sessions_base \<and> drop 3 segs = [''Sessions'']"
    by (subst c, simp, subst t(7), rule trans [OF matches_static in_service(2)])
  show "segments_match (cand_segments (endpoint_at env 7)) segs \<longleftrightarrow>
    take 3 segs = sessions_base \<and> (\<exists>u. drop 3 segs = [''Sessions'', u] \<and> is_digits u)"
    by (subst c, simp, subst t(8), rule trans [OF matches_param(2) in_service(3)])
qed

text \<open>
  The resource a path names: the position of its endpoint, as the Redfish layout of the two
  services prescribes.
\<close>

definition named_resource :: "string list \<Rightarrow> nat option" where
  "named_resource segs =
     (let service = take 3 segs; rest = drop 3 segs
      in if service = accounts_base
         then (case rest of
             [] \<Rightarrow> Some 0
           | [c] \<Rightarrow> if c = ''Accounts'' then Some 1 else if c = ''Roles'' then Some 2 else None
           | [c, i] \<Rightarrow> if c = ''Accounts'' \<and> is_word i then Some 3
                       else if c = ''Roles'' \<and> is_digits i then Some 4 else None
           | _ \<Rightarrow> None)
         else if service = sessions_base
         then (case rest of
             [] \<Rightarrow> Some 5
           | [c] \<Rightarrow> if c = ''Sessions'' then Some 6 else None
           | [c, i] \<Rightarrow> if c = ''Sessions'' \<and> is_digits i then Some 7 else None
           | _ \<Rightarrow> None)
         else None)"

lemma select_named:
  "select_handler \<lparr>candidates = rest_candidates env, pre_handlers = [], post_handlers = []\<rparr> segs uri =
     (case named_resource segs of
        Some i \<Rightarrow> Inr (rest_candidates env ! i)
      | None \<Rightarrow> Inl (ServerExc (create_resource_missing_error uri ''Invalid endpoint in /redfish/v1 namespace.'')))"
proof -
  have at: "rest_candidates env ! i = endpoint_at env i" for i by (simp add: endpoint_at_def)
  define sv where "sv = take 3 segs"
  define ct where "ct = drop 3 segs"
  show ?thesis
    unfolding select_handler_def mux.select_convs rest_candidates_eq list.map find.simps endpoint_matches at
      named_resource_def Let_def sv_def [symmetric] ct_def [symmetric]
    by (auto split: list.split)
qed


end
