(* ===== verification/Rest_Access.thy ===== *)
theory Rest_Access
  imports Rest_Requests
begin

text \<open>
  Who may change what: a request that changes the configuration of the service, its accounts,
  roles, settings or files, comes from an account that may write. And requests from end to end.
\<close>

section \<open>The configuration of the service\<close>

text \<open>Everything that is not a session or the bookkeeping of failed logins.\<close>

definition account_policy :: "account \<Rightarrow> string \<times> string \<times> string \<times> string \<times> bool" where
  "account_policy a = (acc_name a, acc_username a, acc_roleid a, acc_password a, acc_enabled a)"

definition service_settings :: "session_manager \<Rightarrow> bool \<times> bool \<times> 64 word \<times> nat" where
  "service_settings mgr = (session_enabled mgr, basic_enabled mgr, session_timeout mgr, max_sessions mgr)"

definition configuration ::
  "rest_state \<Rightarrow> (string \<Rightarrow> (string \<times> string \<times> string \<times> string \<times> bool) option)
     \<times> (string, role) smap \<times> accountservice \<times> string \<times> string \<times> bool \<times> bool \<times> 64 word \<times> nat" where
  "configuration st =
     (map_option account_policy \<circ> map_of (am_accounts (rs_accounts st)), am_roles (rs_accounts st),
      am_service (rs_accounts st), rs_accounts_file st, rs_sessions_file st, service_settings (rs_sessions st))"

text \<open>Calls and handlers that leave it as it is.\<close>

definition same_config :: "'a rest_action \<Rightarrow> bool" where
  "same_config m \<longleftrightarrow> (\<forall>st. configuration (snd (m st)) = configuration st)"

definition reads_only :: "(rest_state, 'a) handler_action \<Rightarrow> bool" where
  "reads_only h \<longleftrightarrow> (\<forall>sr. configuration (fst (snd (h sr))) = configuration (fst sr))"

named_theorems config_intros \<open>calls that leave the configuration alone\<close>

lemma same_config_basic [config_intros]:
  "same_config (act_return a)" "same_config (act_throw e)" "same_config (act_read f)"
  by (simp_all add: same_config_def)

lemma same_config_bind [config_intros]:
  "same_config m \<Longrightarrow> (\<And>a. same_config (f a)) \<Longrightarrow> same_config (act_bind m f)"
  by (auto simp: same_config_def act_bind_def split: prod.split sum.split) (metis snd_conv)+

lemma same_config_if [config_intros]: "same_config x \<Longrightarrow> same_config y \<Longrightarrow> same_config (if b then x else y)"
  by simp

lemma reads_only_basic [config_intros]:
  "reads_only (act_return a)" "reads_only (act_throw e)" "reads_only (act_read f)" "reads_only (on_response g)"
  "reads_only (set_response env j)"
  by (simp_all add: reads_only_def on_response_def set_response_def split: prod.split)

lemma reads_only_bind [config_intros]:
  "reads_only m \<Longrightarrow> (\<And>a. reads_only (f a)) \<Longrightarrow> reads_only (act_bind m f)"
  by (auto simp: reads_only_def act_bind_def split: prod.split sum.split) (metis fst_conv snd_conv)+

lemma reads_only_if [config_intros]: "reads_only x \<Longrightarrow> reads_only y \<Longrightarrow> reads_only (if b then x else y)"
  by simp

lemma reads_only_state [config_intros]: "same_config m \<Longrightarrow> reads_only (on_state m)"
  by (simp add: reads_only_def same_config_def)

lemma same_config_sessions [config_intros]:
  "(\<And>mgr. service_settings (snd (m mgr)) = service_settings mgr) \<Longrightarrow> same_config (on_sessions m)"
  by (auto simp: same_config_def configuration_def on_sessions_def split: prod.split) (metis snd_conv)

lemma same_config_login [config_intros]: "same_config (on_accounts (account_login cenv now u p))"
proof -
  have "account_policy a1 = account_policy a" if "checkpw cenv svc now p a = (res, a1, log)" for svc a res a1 log
    using that encry_account [of cenv p a]
    by (auto simp: checkpw_def Let_def account_policy_def split: prod.splits if_splits)
  then show ?thesis
    by (auto simp: same_config_def configuration_def on_accounts_def account_login_def fun_eq_iff
        split: option.split prod.split)
qed

lemma settings_kept [simp]:
  "service_settings (mgr\<lparr>sessions := m\<rparr>) = service_settings mgr"
  "service_settings (snd (delSession_by_name u mgr)) = service_settings mgr"
  "service_settings (snd (delSession_by_id i mgr)) = service_settings mgr"
  "service_settings (snd (addSession s b now mgr)) = service_settings mgr"
  by (auto simp: service_settings_def delSession_by_name_def delSession_by_id_def addSession_def Let_def
      split: option.split)

lemma settings_kept_update [simp]:
  "service_settings (snd (updateSessionTimestamp token ip now mgr)) = service_settings mgr"
proof -
  have "service_settings mgr1 = service_settings mgr" if "delSession_by_name u mgr = (x, mgr1)" for u x mgr1
    using that settings_kept(2) [of u mgr] by simp
  moreover have "service_settings mgr1 = service_settings mgr" if "addSession s b now mgr = (x, mgr1)" for s b x mgr1 mgr
    using that settings_kept(4) [of s b now mgr] by simp
  ultimately show ?thesis
    by (auto simp: updateSessionTimestamp_def act_bind_def split: prod.split sum.split)
qed

lemma authen_check_reads: "same_config (authen_check env q n)"
proof -
  have "same_config (session_authen env token srcip meth)" for token srcip meth
    unfolding session_authen_def by (intro config_intros) simp
  moreover have "same_config (basic_authen env u p meth)" for u p meth
    unfolding basic_authen_def by (intro config_intros)
  ultimately show ?thesis
    unfolding authen_check_def Let_def by (auto intro!: config_intros split: prod.split)
qed

lemma get_reads_only:
  "reads_only (session_service_get env q)" "reads_only (account_service_get env q)"
  "reads_only (role_collection_get env q)" "reads_only (role_get env q)"
  "reads_only (account_get env q)" "reads_only (account_collection_get env q)"
  "reads_only (session_get env q)" "reads_only (session_collection_get env q)"
  unfolding session_service_get_def account_service_get_def role_collection_get_def role_get_def Let_def
    account_get_def account_collection_get_def session_get_def session_collection_get_def
  by (intro config_intros)+

lemma login_reads_only: "reads_only (session_collection_post env q)" "reads_only (session_collection_del q)"
  unfolding session_collection_post_def session_collection_del_def Let_def open_session_def session_created_def
  by (intro config_intros; simp)+

section \<open>Authorised writers\<close>

lemma reads_only_endpoint:
  "(\<And>h q. ops m = Some h \<Longrightarrow> reads_only (h q)) \<Longrightarrow> reads_only (ep_run (make_endpoint env path ops) m q)"
  by (cases "ops m") (auto simp: make_endpoint_def config_intros)

lemma candidate_cases:
  assumes "c \<in> set (rest_candidates env)"
  shows "ep_authen (cand_handler c) = authen_check env"
    and "m \<notin> {POST, PATCH, DELETE} \<or> cand_access c = ACCESS_ALL \<Longrightarrow> reads_only (ep_run (cand_handler c) m q)"
proof -
  have mem: "(cand_handler c, cand_access c) \<in> set (rest_endpoints env)"
    using assms by (auto simp: rest_candidates_def set_zip)
  then show "ep_authen (cand_handler c) = authen_check env"
    by (auto simp: rest_endpoints_def make_endpoint_def)
  assume "m \<notin> {POST, PATCH, DELETE} \<or> cand_access c = ACCESS_ALL"
  with mem show "reads_only (ep_run (cand_handler c) m q)"
    by (auto simp: rest_endpoints_def intro!: reads_only_endpoint get_reads_only login_reads_only split: if_splits)
qed

lemma authen_check_params: "authen_check env (collect_request_params ms segs q) = authen_check env q"
  by (simp add: fun_eq_iff authen_check_def collect_request_params_def get_header_def)

lemma connector_config:
  "configuration (snd (connector_handle access_allowed callback q st)) = configuration st
    \<or> access_allowed st q \<and> configuration (snd (connector_handle access_allowed callback q st))
         = configuration (fst (snd (callback q (st, new_response))))"
  by (auto simp: connector_handle_def split: prod.split sum.split exn.split)

lemma forward_writes:
  assumes "rest_mux env = Inr mx"
    and "configuration (fst (snd (forward_to_handler mx q (st, r)))) \<noteq> configuration st"
  shows "\<exists>n st1. n \<in> {''POST'', ''PATCH'', ''DELETE''} \<and> authen_check env q n st = (Inr True, st1)"
proof -
  have mx: "pre_handlers mx = []" "candidates mx = rest_candidates env"
    using assms(1) by (auto simp: rest_mux_eq)
  let ?segs = "split_path (req_url q)"
  obtain c where sel: "select_handler mx ?segs (req_url q) = Inr c"
    using assms(2) mx by (cases "select_handler mx ?segs (req_url q)") (auto simp: forward_to_handler_def act_bind_def Let_def)
  then have c: "c \<in> set (rest_candidates env)"
    using mx by (auto simp: select_handler_def find_Some_iff split: option.splits)
  let ?q = "collect_request_params (cand_segments c) ?segs q"
  have auth: "ep_authen (cand_handler c) ?q = authen_check env q"
    using candidate_cases(1) [OF c] authen_check_params by simp
  have meth: "req_method ?q = req_method q" by (simp add: collect_request_params_def)
  have run: "configuration (fst (snd (execute_handler (cand_handler c) ?q (cand_access c = ACCESS_ALL) (st, r)))) \<noteq> configuration st"
    using assms(2) sel mx by (auto simp: forward_to_handler_def act_bind_def Let_def split: if_splits)
  have "req_method q \<in> {POST, PATCH, DELETE} \<and> cand_access c \<noteq> ACCESS_ALL"
  proof (rule ccontr)
    assume "\<not> (req_method q \<in> {POST, PATCH, DELETE} \<and> cand_access c \<noteq> ACCESS_ALL)"
    then have "reads_only (ep_run (cand_handler c) (req_method q) ?q)"
      by (intro candidate_cases(2) [OF c]) auto
    then have "reads_only (execute_handler (cand_handler c) ?q (cand_access c = ACCESS_ALL))"
      unfolding execute_handler_def meth auth
      by (auto intro!: config_intros authen_check_reads split: option.split)
    with run show False by (simp add: reads_only_def)
  qed
  then obtain n where n: "method_name (req_method q) = Some n" "cand_access c \<noteq> ACCESS_ALL"
      "n \<in> {''POST'', ''PATCH'', ''DELETE''}"
    by auto
  obtain x st1 where chk: "authen_check env q n st = (x, st1)" by force
  have same: "configuration st1 = configuration st"
    using authen_check_reads [of env q n] chk by (auto simp: same_config_def) (metis snd_conv)
  then have "x = Inr True"
    using run n(1,2) chk
    by (cases x) (auto simp: execute_handler_def meth auth act_bind_def on_response_def split: if_splits)
  with n chk show ?thesis by auto
qed

text \<open>
  C1: No change without authority: while authentication is on, a request that changes an account
  (anything but the count of its failed logins, its lock and its salt), a role, a setting or a file
  was let through for an account that is not read-only: with a token of a session of that
  account, from the address it was opened from, or with the account's password while it was
  enabled and not locked.
\<close>

theorem only_writers_change_configuration:
  assumes "rest_mux env = Inr mx"
    and "connector_handle access_allowed (forward_to_handler mx) q st = (answer, st')"
    and "configuration st' \<noteq> configuration st"
    and "session_enabled (rs_sessions st) \<or> basic_enabled (rs_sessions st)" and "sessions_ok (rs_sessions st)"
  shows "\<exists>a. acc_roleid a \<noteq> ''ReadOnlyUser'' \<and>
    ((\<exists>s. getSession_by_Token (rs_sessions st) (get_header q ''xAuthGen'') = Inr s
        \<and> sess_srcip s = get_header q ''SrcIp''
        \<and> map_of (am_accounts (rs_accounts st)) (sess_username s) = Some a)
     \<or> (map_of (am_accounts (rs_accounts st)) (get_header q ''UserName'') = Some a
        \<and> acc_enabled a \<and> \<not> acc_locked a
        \<and> fst (checkpw (env_crypt_env env) (am_service (rs_accounts st)) (env_now env)
                 (get_header q ''Password'') a) = Inr 0))"
proof -
  have "configuration (fst (snd (forward_to_handler mx q (st, new_response)))) \<noteq> configuration st"
    using connector_config [of access_allowed "forward_to_handler mx" q st] assms(2,3) by auto
  from forward_writes [OF assms(1) this] obtain n st1 where
    n: "n \<in> {''POST'', ''PATCH'', ''DELETE''}" and "authen_check env q n st = (Inr True, st1)"
    by blast
  from authen_sound_law [OF this(2)] assms(4,5) obtain a where "\<not> read_only_blocked a n" and
    "(\<exists>s. getSession_by_Token (rs_sessions st) (get_header q ''xAuthGen'') = Inr s
        \<and> sess_srcip s = get_header q ''SrcIp''
        \<and> map_of (am_accounts (rs_accounts st)) (sess_username s) = Some a)
     \<or> (map_of (am_accounts (rs_accounts st)) (get_header q ''UserName'') = Some a
        \<and> acc_enabled a \<and> \<not> acc_locked a
        \<and> fst (checkpw (env_crypt_env env) (am_service (rs_accounts st)) (env_now env)
                 (get_header q ''Password'') a) = Inr 0)"
    by (auto simp: authen_on_def)
  with n show ?thesis by (auto simp: read_only_blocked_def)
qed

end
