(* ===== verification/Rest_Scenarios.thy ===== *)
theory Rest_Scenarios
  imports Rest_Access
begin

text \<open>
  Requests from the URL to the answer: the removal of an account, which also survives a restart, and
  the setting that lets a wrong password end the process.
\<close>

section \<open>A request on a protected route\<close>

lemma protected_route:
  assumes "rest_mux env = Inr mx" and "named_resource (split_path (req_url q)) = Some i" and "i \<noteq> 6"
  shows "select_handler mx (split_path (req_url q)) (req_url q) = Inr (rest_candidates env ! i)"
    and "cand_access (rest_candidates env ! i) = SSL_REQUIRED" and "pre_handlers mx = []"
    and "ep_authen (cand_handler (rest_candidates env ! i)) = authen_check env"
proof -
  have i: "i < 8" using assms(2)
    by (auto simp: named_resource_def Let_def split: if_splits list.splits)
  have len: "length (rest_endpoints env) = 8" "length route_table = 8"
    by (simp_all add: rest_endpoints_def route_table_def)
  then have "rest_candidates env ! i \<in> set (rest_candidates env)"
    using i by (intro nth_mem) (simp add: rest_candidates_def)
  then show "ep_authen (cand_handler (rest_candidates env ! i)) = authen_check env"
    by (rule candidate_cases(1))
  have "i \<in> {0, 1, 2, 3, 4, 5, 7}" using i assms(3) by auto
  then show "cand_access (rest_candidates env ! i) = SSL_REQUIRED"
    using i len by (auto simp: rest_candidates_def) (auto simp: rest_endpoints_def)
  show "select_handler mx (split_path (req_url q)) (req_url q) = Inr (rest_candidates env ! i)"
    using assms(1,2) by (auto simp: rest_mux_eq select_named)
  show "pre_handlers mx = []" using assms(1) by (auto simp: rest_mux_eq)
qed

lemma protected_request:
  assumes "rest_mux env = Inr mx" and "named_resource (split_path (req_url q)) = Some i" and "i \<noteq> 6"
    and "req_secure q" and "method_name (req_method q) = Some n"
  shows "authen_check env q n st = (Inr True, st1) \<Longrightarrow>
      forward_to_handler mx q (st, r) = ep_run (cand_handler (rest_candidates env ! i)) (req_method q)
        (collect_request_params (cand_segments (rest_candidates env ! i)) (split_path (req_url q)) q) (st1, r)"
    and "authen_check env q n st = (Inl e, st1) \<Longrightarrow> forward_to_handler mx q (st, r) = (Inl e, (st1, r))"
  using forward_protected(3,5) [OF protected_route(1) [OF assms(1-3)] protected_route(2) [OF assms(1-3)]
      protected_route(3) [OF assms(1-3)] refl assms(4,5)] protected_route(4) [OF assms(1-3)]
  by (simp_all add: authen_check_params)

lemma connector_answer:
  assumes "access_allowed st q" and "callback q (st, new_response) = (x, (st', r))"
  shows "connector_handle access_allowed callback q st =
    ((case x of Inl (Undefined what) \<Rightarrow> Inl what | Inl e \<Rightarrow> Inr (connector_error q e r) | Inr _ \<Rightarrow> Inr r), st')"
  using assms by (auto simp: connector_handle_def split: sum.split exn.split)

section \<open>Removing an account\<close>

lemma route_account:
  assumes "split_path (req_url q) = accounts_base @ [''Accounts'', u]" and "is_word u"
  shows "named_resource (split_path (req_url q)) = Some 3"
    and "account_param (collect_request_params (cand_segments (rest_candidates env ! 3)) (split_path (req_url q)) q) = u"
proof -
  show "named_resource (split_path (req_url q)) = Some 3" using assms by (simp add: named_resource_def)
  have "cand_segments (rest_candidates env ! 3) = map StaticMatcher (accounts_base @ [''Accounts'']) @ [RegexMatcher ''accountId'' [(word_class, Plus)]]"
    by (simp add: rest_candidates_def rest_endpoints_def route_table_def)
  moreover have "split_path (req_url q) = (accounts_base @ [''Accounts'']) @ [u]" using assms(1) by simp
  ultimately show "account_param (collect_request_params (cand_segments (rest_candidates env ! 3)) (split_path (req_url q)) q) = u"
    by (simp add: account_param_def collect_request_params_def collect_params_static param_get_def param_set_def
        del: append.simps map_append append_assoc)
qed

lemma loadPreRoles_accounts: "am_accounts (loadPreRoles am) = am_accounts am"
proof -
  have step: "am_accounts (snd (addRole r am)) = am_accounts am" for r am
    by (auto simp: addRole_def Let_def)
  then have "am_accounts am1 = am_accounts am" if "addRole r am = (x, am1)" for r x am am1
    using that step [of r am] by simp
  then show ?thesis
    unfolding loadPreRoles_def by (auto simp: act_bind_def step split: prod.split sum.split)
qed

lemma delete_account_error:
  "http_status_code (create_error_for_not_allowable_value m p v w) = 400"
  by (simp add: create_error_for_not_allowable_value_def create_value_not_in_list_error_def create_error_def
      extend_if_def add_extended_message_def)

text \<open>
  C4: \<^verbatim>\<open>DELETE\<close> on an account's URL, once the credentials are accepted: an unknown account is answered
  with 404 and \<open>admin\<close> with 400, and nothing changes; any other account is removed, and only it, with
  status 200. The file written then brings back the same accounts at the next start, without the removed one.
\<close>

theorem delete_account_request:
  assumes "rest_mux env = Inr mx" and "access_allowed st q" and "req_secure q" and "req_method q = DELETE"
    and "split_path (req_url q) = accounts_base @ [''Accounts'', u]" and "is_word u"
    and "authen_check env q ''DELETE'' st = (Inr True, st1)" and "rest_ok st"
  shows "\<exists>r st'. connector_handle access_allowed (forward_to_handler mx) q st = (Inr r, st') \<and>
    (case map_of (am_accounts (rs_accounts st1)) u of
       None \<Rightarrow> resp_status r = 404 \<and> st' = st1
     | Some a \<Rightarrow>
         if u = ''admin'' then resp_status r = 400 \<and> st' = st1
         else resp_status r = 200
           \<and> map_of (am_accounts (rs_accounts st')) = (map_of (am_accounts (rs_accounts st1)))(u := None)
           \<and> (\<forall>v. map_option saved_part (map_of (am_accounts (rs_accounts (boot env (rs_accounts_file st') sf))) v)
                = map_option saved_part (if v = u then None else map_of (am_accounts (rs_accounts st1)) v)))"
proof -
  let ?q = "collect_request_params (cand_segments (rest_candidates env ! 3)) (split_path (req_url q)) q"
  note route = route_account [OF assms(5,6)]
  have fwd: "forward_to_handler mx q (st, new_response) = account_del env ?q (st1, new_response)"
    using protected_request(1) [OF assms(1) route(1) _ assms(3) _ assms(7), where r = new_response] assms(4)
    by (simp add: rest_candidates_def rest_endpoints_def route_table_def make_endpoint_def)
  have ok1: "rest_ok st1"
    using authen_check_ok [of env q "''DELETE''"] assms(7,8) by (auto simp: keeps_ok_def keeps_def)
  let ?am = "rs_accounts st1"
  show ?thesis
  proof (cases "map_of (am_accounts ?am) u")
    case None
    then have "account_del env ?q (st1, new_response) = (Inl (account_missing u), (st1, new_response))"
      using route(2) by (simp add: account_del_def act_bind_def on_accounts_def delAccount_by_name_def)
    with None fwd connector_answer [of access_allowed _ q "forward_to_handler mx", OF assms(2)] show ?thesis
      by (auto simp: account_missing_def not_found_exc_def respond_not_found_def)
  next
    case (Some a)
    show ?thesis
    proof (cases "u = ''admin''")
      case True
      with Some have "account_del env ?q (st1, new_response) = (Inl (ServerExc (create_error_for_not_allowable_value
              (quoted ''admin'' @ '' Can not be removed'') ''username'' ''admin'' [])), (st1, new_response))"
        using route(2) by (simp add: account_del_def act_bind_def on_accounts_def delAccount_by_name_def)
      with Some True fwd connector_answer [of access_allowed _ q "forward_to_handler mx", OF assms(2)] show ?thesis
        by (auto simp: delete_account_error)
    next
      case False
      let ?am' = "?am\<lparr>am_accounts := smap_erase u (am_accounts ?am)\<rparr>"
      let ?st' = "st1\<lparr>rs_accounts := ?am', rs_accounts_file := saveAccounts (env_fpu env) ?am'\<rparr>"
      have del: "account_del env ?q (st1, new_response) = (Inr (), (?st', set_status 200 new_response))"
        using route(2) Some False
        by (simp add: account_del_def act_bind_def on_accounts_def delAccount_by_name_def save_accounts_file_def)
      have "accounts_ok ?am'" "map_of (am_accounts ?am') ''admin'' \<noteq> None"
        using ok1 False by (auto simp: rest_ok_def accounts_inv_def accounts_ok_erase has_admin_def)
      from accounts_survive_law [OF this, of "env_fpu env" "env_crypt_env env"]
      have "\<forall>v. map_option saved_part (map_of (am_accounts (rs_accounts (boot env (rs_accounts_file ?st') sf))) v)
          = map_option saved_part (map_of (am_accounts ?am') v)"
        by (simp add: boot_def loadPreRoles_accounts)
      with Some False del fwd connector_answer [of access_allowed _ q "forward_to_handler mx", OF assms(2)] show ?thesis
        by (auto simp: set_status_def)
    qed
  qed
qed

section \<open>A setting that lets a wrong password end the process\<close>

lemma service_body_readable:
  assumes "validate_request_body jc fp AccountServicePostSchema body = Inr j"
  shows "\<exists>svc n. accountservice_from_json fp j = Inr svc \<and> get_member j ''AuthFailureLoggingThreshold'' = JNumber n
    \<and> svc_aflt svc = sint (number_Int fp n)"
proof -
  obtain b n1 n2 n3 n4 where
    "get_member j ''ServiceEnabled'' = JBool b" "get_member j ''AuthFailureLoggingThreshold'' = JNumber n1"
    "get_member j ''AccountLockoutThreshold'' = JNumber n2" "get_member j ''AccountLockoutDuration'' = JNumber n3"
    "get_member j ''AccountLockoutCounterResetAfter'' = JNumber n4"
    using validated_body [OF assms] by (auto simp: schema_eqs accepts_body_field simp del: accepts.simps)
  then show ?thesis by (simp add: accountservice_from_json_def as_int_def)
qed

text \<open>
  C39: The service accepts a logging threshold of zero, answering 200; from then on the first wrong
  password for any enabled account that is not locked ends the process with a division by zero
  instead of an answer, over any route and before the request is authenticated.
\<close>

theorem zero_threshold_ends_process:
  assumes "rest_mux env = Inr mx" and "access_allowed st1 q"
    and "validate_request_body (env_jsoncpp env0) (env_fpu env0) AccountServicePostSchema (req_body q0) = Inr j"
    and "get_member j ''AuthFailureLoggingThreshold'' = JNumber (NUint 0)"
    and "account_service_patch env0 q0 (st, r0) = (x, (st1, r1))"
    and "map_of (am_accounts (rs_accounts st)) u = Some a" and "acc_enabled a" and "\<not> acc_locked a"
    and "wrong_password (env_crypt_env env) a p" and "basic_enabled (rs_sessions st)"
    and "req_secure q" and "req_method q = GET"
    and "get_header q ''UserName'' = u" "u \<noteq> []" "get_header q ''Password'' = p" "p \<noteq> []" "get_header q ''xAuthGen'' = []"
    and "named_resource (split_path (req_url q)) = Some i" and "i \<noteq> 6"
  shows "x = Inr () \<and> resp_status r1 = 200
    \<and> (\<exists>what st2. connector_handle access_allowed (forward_to_handler mx) q st1 = (Inl what, st2))"
proof -
  obtain svc where svc: "accountservice_from_json (env_fpu env0) j = Inr svc" "svc_aflt svc = 0"
    using service_body_readable [OF assms(3)] assms(4) by (auto simp: number_Int_def)
  then have patched: "x = Inr ()" "st1 = st\<lparr>rs_accounts := (rs_accounts st)\<lparr>am_service := svc\<rparr>\<rparr>" "r1 = set_status 200 r0"
    using assms(3,5) by (auto simp: account_service_patch_def act_bind_def on_accounts_def)
  obtain what where "fst (checkpw (env_crypt_env env) svc (env_now env) p a) = Inl (Undefined what)"
    using zero_threshold_law [OF assms(7,8,9) svc(2)] by auto
  then obtain a1 log where "checkpw (env_crypt_env env) svc (env_now env) p a = (Inl (Undefined what), a1, log)"
    by (metis prod.collapse)
  then obtain st2 where "authen_check env q ''GET'' st1 = (Inl (Undefined what), st2)"
    using assms(6,7,8,10,13-17) patched(2)
    by (auto simp: authen_check_eq authen_on_def basic_authen_def act_bind_def getAccount_by_name_def
        read_only_blocked_def on_accounts_def account_login_def)
  then have "forward_to_handler mx q (st1, new_response) = (Inl (Undefined what), (st2, new_response))"
    using assms(12) protected_request(2) [OF assms(1,18,19,11)] by simp
  with patched connector_answer [of access_allowed _ q "forward_to_handler mx", OF assms(2)] show ?thesis
    by (auto simp: set_status_def)
qed

section \<open>Logging in, and using the session\<close>

lemma find_least:
  assumes "smap_ok m" and "map_of m k = Some v" and "P (k, v)"
    and "\<And>k' v'. map_of m k' = Some v' \<Longrightarrow> k' < k \<Longrightarrow> \<not> P (k', v')"
  shows "List.find P m = Some (k, v)"
  using assms
proof (induction m)
  case (Cons e m)
  obtain k1 v1 where e: "e = (k1, v1)" by force
  have ok: "smap_ok m" and less: "\<And>k2 v2. (k2, v2) \<in> set m \<Longrightarrow> k1 < k2"
    using Cons.prems(1) e by (auto simp: smap_ok_Cons)
  show ?case
  proof (cases "k1 = k")
    case True
    with Cons.prems(2,3) e show ?thesis by simp
  next
    case False
    with Cons.prems(2) e have m: "map_of m k = Some v" by simp
    then have "k1 < k" using less by (auto dest: map_of_SomeD)
    then have "\<not> P e" using Cons.prems(4) [of k1 v1] e by simp
    moreover have "List.find P m = Some (k, v)"
    proof (rule Cons.IH [OF ok m Cons.prems(3)])
      fix k' v' assume "map_of m k' = Some v'" "k' < k"
      moreover from this have "k' \<noteq> k1" using less by (auto dest: map_of_SomeD)
      ultimately show "\<not> P (k', v')" using Cons.prems(4) [of k' v'] e by simp
    qed
    ultimately show ?thesis using e by simp
  qed
qed simp

lemma token_of_least:
  assumes "sessions_ok mgr" and "map_of (sessions mgr) u = Some s" and "sess_token s = token"
    and "\<And>v t. map_of (sessions mgr) v = Some t \<Longrightarrow> v < u \<Longrightarrow> sess_token t \<noteq> token"
  shows "getSession_by_Token mgr token = Inr s"
proof -
  have "smap_ok (sessions mgr)" using assms(1) by (simp add: sessions_ok_def registry_ok_def)
  from find_least [OF this assms(2), of "\<lambda>e. sess_token (snd e) = token"] assms(3,4)
  show ?thesis by (simp add: getSession_by_Token_def)
qed

lemma login_token_nonempty [simp]: "login_token env \<noteq> []"
  by (simp add: login_token_def gen_token_def)

lemma same_role:
  assumes "configuration st' = configuration st" and "map_of (am_accounts (rs_accounts st)) u = Some a"
  shows "\<exists>a'. map_of (am_accounts (rs_accounts st')) u = Some a' \<and> acc_roleid a' = acc_roleid a"
proof -
  have "map_option account_policy (map_of (am_accounts (rs_accounts st')) u)
      = map_option account_policy (map_of (am_accounts (rs_accounts st)) u)"
    using assms(1) by (simp add: configuration_def fun_eq_iff)
  with assms(2) show ?thesis by (auto simp: account_policy_def)
qed

lemma login_config:
  assumes "session_collection_post env q (st, r) = (Inr (), (st', r'))"
  shows "configuration st' = configuration st"
  using login_reads_only(1) [of env q] assms by (auto simp: reads_only_def) (metis fst_conv snd_conv)

text \<open>
  C3: Logging in: a request that is answered with status 201 named an enabled account that was not
  locked and gave its password; afterwards the user has exactly one session, with the token of
  the answer, the address of the client and an id up to the maximum. If no other session has that
  token, a later request that carries it from that address is let through, unless the account
  is read-only and the method writes.
\<close>

theorem session_login_correct:
  assumes "session_collection_post env q (st, r) = (Inr (), (st', r'))"
    and "resp_status r \<noteq> 201" and "resp_status r' = 201" and "sessions_ok (rs_sessions st)"
  shows "\<exists>u p a s. map_of (am_accounts (rs_accounts st)) u = Some a \<and> acc_enabled a \<and> \<not> acc_locked a
    \<and> fst (checkpw (env_crypt_env env) (am_service (rs_accounts st)) (env_now env) p a) = Inr 0
    \<and> map_of (sessions (rs_sessions st')) = (map_of (sessions (rs_sessions st)))(u \<mapsto> s)
    \<and> map_of (resp_headers r') ''X-Auth-Token'' = Some (sess_token s)
    \<and> sess_srcip s = get_header q ''SrcIp'' \<and> 1 \<le> sess_id s \<and> sess_id s \<le> max_sessions (rs_sessions st)
    \<and> ((\<forall>v t. map_of (sessions (rs_sessions st)) v = Some t \<longrightarrow> sess_token t \<noteq> sess_token s) \<longrightarrow>
        (\<forall>env' q' n. get_header q' ''xAuthGen'' = sess_token s \<longrightarrow> get_header q' ''SrcIp'' = sess_srcip s \<longrightarrow>
           fst (authen_check env' q' n st') = Inr (\<not> read_only_blocked a n)))"
proof -
  obtain u p a s where l: "map_of (am_accounts (rs_accounts st)) u = Some a" "acc_enabled a" "\<not> acc_locked a"
      "fst (checkpw (env_crypt_env env) (am_service (rs_accounts st)) (env_now env) p a) = Inr 0"
      "map_of (sessions (rs_sessions st')) = (map_of (sessions (rs_sessions st)))(u \<mapsto> s)"
      "sess_token s = login_token env" "map_of (resp_headers r') ''X-Auth-Token'' = Some (sess_token s)"
      "sess_srcip s = get_header q ''SrcIp''" "1 \<le> sess_id s" "sess_id s \<le> max_sessions (rs_sessions st)"
      "sessions_ok (rs_sessions st')"
    using session_login_law [OF assms] by blast
  note cfg = login_config [OF assms(1)]
  have en: "session_enabled (rs_sessions st')"
    using cfg assms(1-3)
    by (auto simp: configuration_def service_settings_def session_collection_post_def act_bind_Inr set_status_def
        split: if_splits)
  have us: "map_of (sessions (rs_sessions st')) u = Some s" using l(5) by simp
  then have name: "sess_username s = u" using l(11) by (simp add: sessions_ok_name)
  obtain a' where a': "map_of (am_accounts (rs_accounts st')) u = Some a'" "acc_roleid a' = acc_roleid a"
    using same_role [OF cfg l(1)] by blast
  have "fst (authen_check env' q' n st') = Inr (\<not> read_only_blocked a n)"
    if fresh: "\<forall>v t. map_of (sessions (rs_sessions st)) v = Some t \<longrightarrow> sess_token t \<noteq> sess_token s"
      and q': "get_header q' ''xAuthGen'' = sess_token s" "get_header q' ''SrcIp'' = sess_srcip s" for env' q' n
  proof -
    have "getSession_by_Token (rs_sessions st') (sess_token s) = Inr s"
      using fresh l(5) by (intro token_of_least [OF l(11) us]) (auto split: if_splits)
    then show ?thesis
      using session_ignores_lock_law [OF l(11) en, of q' s a' env' n] a' q' l(6) name by (auto simp: read_only_blocked_def)
  qed
  with l show ?thesis by blast
qed

text \<open>
  Tokens are random numbers seeded with the time in seconds: two users who log in within the same
  second get the same token, and a request that carries it is served as the one of them whose name
  comes first, as long as it comes from that user's address.
\<close>

lemma same_second_logins_confused:
  assumes "session_collection_post env1 q1 (st, r1) = (Inr (), (st1, r1'))" and "resp_status r1 \<noteq> 201" "resp_status r1' = 201"
    and "session_collection_post env2 q2 (st1, r2) = (Inr (), (st2, r2'))" and "resp_status r2 \<noteq> 201" "resp_status r2' = 201"
    and "env_rand env2 = env_rand env1" and "env_time (env_crypt_env env2) = env_time (env_crypt_env env1)"
    and "sessions_ok (rs_sessions st)" and "sessions (rs_sessions st) = []"
    and "validate_request_body (env_jsoncpp env1) (env_fpu env1) SessionCollectionPostSchema (req_body q1) = Inr j1"
    and "validate_request_body (env_jsoncpp env2) (env_fpu env2) SessionCollectionPostSchema (req_body q2) = Inr j2"
    and "get_member j1 ''UserName'' = JString u1" and "get_member j2 ''UserName'' = JString u2" and "u1 < u2"
  shows "\<exists>token s. map_of (resp_headers r1') ''X-Auth-Token'' = Some token
    \<and> map_of (resp_headers r2') ''X-Auth-Token'' = Some token
    \<and> map_of (sessions (rs_sessions st2)) u2 \<noteq> None
    \<and> getSession_by_Token (rs_sessions st2) token = Inr s \<and> sess_username s = u1"
proof -
  have tok: "login_token env2 = login_token env1" using assms(7,8) by (simp add: login_token_def)
  obtain s1 where l1: "map_of (sessions (rs_sessions st1)) = [u1 \<mapsto> s1]" "sess_token s1 = login_token env1"
      "map_of (resp_headers r1') ''X-Auth-Token'' = Some (sess_token s1)" "sessions_ok (rs_sessions st1)"
    using session_login_law [OF assms(1-3,9)] assms(10,11,13) by auto
  obtain s2 where l2: "map_of (sessions (rs_sessions st2)) = [u1 \<mapsto> s1, u2 \<mapsto> s2]" "sess_token s2 = login_token env2"
      "map_of (resp_headers r2') ''X-Auth-Token'' = Some (sess_token s2)" "sessions_ok (rs_sessions st2)"
    using session_login_law [OF assms(4-6) l1(4)] l1(1) assms(12,14) by auto
  have u1: "map_of (sessions (rs_sessions st2)) u1 = Some s1" using l2(1) assms(15) by simp
  have "getSession_by_Token (rs_sessions st2) (sess_token s1) = Inr s1"
    using l2(1) assms(15) by (intro token_of_least [OF l2(4) u1]) (auto split: if_splits)
  with l1 l2 tok u1 show ?thesis by (auto simp: sessions_ok_name)
qed

text \<open>The address a session is bound to is the connection's: no header of the client can replace it.\<close>

lemma client_address_from_connection:
  "get_header (prepare_request headers basic (Some ip) q) ''SrcIp'' = ip"
  by (auto simp: prepare_request_def Let_def set_header_def get_header_def split: option.split)

end
