(* ===== verification/Examples.thy ===== *)
theory Examples
  imports Rest_Scenarios "HOL-Library.Code_Target_Nat"
begin

text \<open>
  The theorems of the components at work on concrete inputs, in a small environment in which every
  parameter is a function that computes, and on the state the service has after its own start.
\<close>

section \<open>An environment\<close>

definition demo_fpu :: fpu where
  "demo_fpu = \<lparr>fpu_to_int64 = (\<lambda>_. 0), fpu_to_uint64 = (\<lambda>_. 0), fpu_print = (\<lambda>_. ''0.0''),
     fpu_less = (\<lambda>_ _. False), fpu_near = (\<lambda>_ _. False)\<rparr>"

definition number_value :: "number \<Rightarrow> int" where
  "number_value n = (case n of NInt i \<Rightarrow> sint i | NUint u \<Rightarrow> uint u | NDouble _ \<Rightarrow> 0)"

definition in_int_range :: "int \<Rightarrow> int \<Rightarrow> number \<Rightarrow> bool" where
  "in_int_range lo hi n \<longleftrightarrow> is_integer n \<and> lo \<le> number_value n \<and> number_value n \<le> hi"

definition demo_jsoncpp :: jsoncpp where
  "demo_jsoncpp = \<lparr>jc_isInt = in_int_range (-(2^31)) (2^31 - 1), jc_isInt64 = in_int_range (-(2^63)) (2^63 - 1),
     jc_isUInt64 = in_int_range 0 (2^64 - 1), jc_isDouble = (\<lambda>_. True), jc_isReal = (\<lambda>n. \<not> is_integer n),
     jc_to_intValue = in_int_range (-(2^31)) (2^31 - 1), jc_to_uintValue = in_int_range 0 (2^32 - 1),
     jc_asInt = (\<lambda>n. if in_int_range (-(2^31)) (2^31 - 1) n then Some (number_value n) else None),
     jc_asUInt = (\<lambda>n. if in_int_range 0 (2^32 - 1) n then Some (number_value n) else None),
     jc_asInt64 = (\<lambda>n. if in_int_range (-(2^63)) (2^63 - 1) n then Some (number_value n) else None),
     jc_asDouble = number_Double, jc_styled = (\<lambda>_. [])\<rparr>"

definition demo_crypt :: crypt_env where
  "demo_crypt = \<lparr>env_crypt = (\<lambda>p salt. salt @ ''$'' @ p), env_time = 0, env_pid = 0\<rparr>"

definition demo_env :: rest_env where
  "demo_env = \<lparr>env_crypt_env = demo_crypt, env_fpu = demo_fpu, env_jsoncpp = demo_jsoncpp, env_now_ms = 0,
     env_now = 0, env_rand = (\<lambda>seed i. unat seed + i)\<rparr>"

definition demo_admin :: account where
  "demo_admin = new_account\<lparr>acc_id := 1, acc_username := ''admin'', acc_roleid := ''Administrator'',
     acc_salt := ''........'', acc_password := ''redfish''\<rparr>"

definition demo_sessions :: session_manager where
  "demo_sessions = new_session_manager\<lparr>session_enabled := True, basic_enabled := True\<rparr>"

definition demo_accounts :: account_manager where
  "demo_accounts = new_account_manager\<lparr>am_id := 2, am_rid := 4,
     am_roles := [(''Administrator'', (predefined_role ''Administrator''
         [Login, ConfigureManager, ConfigureUsers, ConfigureSelf, ConfigureComponents])\<lparr>role_id := 1\<rparr>),
       (''Operator'', (predefined_role ''Operator'' [Login, ConfigureSelf, ConfigureComponents])\<lparr>role_id := 2\<rparr>),
       (''ReadOnlyUser'', (predefined_role ''ReadOnlyUser'' [Login, ConfigureSelf])\<lparr>role_id := 3\<rparr>)],
     am_accounts := [(''admin'', demo_admin)]\<rparr>"

definition demo_settings :: string where
  "demo_settings = write_value demo_fpu (session_config_to_json demo_sessions)"

definition demo_state :: rest_state where
  "demo_state = \<lparr>rs_sessions = demo_sessions, rs_accounts = demo_accounts, rs_accounts_file = [],
     rs_sessions_file = demo_settings\<rparr>"

lemma demo_boot: "boot demo_env [] demo_settings = demo_state"
  by code_simp

definition demo_request :: "http_method \<Rightarrow> string \<Rightarrow> json \<Rightarrow> request" where
  "demo_request m url body = \<lparr>req_method = m, req_url = url, req_headers = [], req_body = write_value demo_fpu body,
     req_secure = True, req_params = []\<rparr>"

section \<open>Accounts and sessions\<close>

lemma set_password_check_witness:
  "\<exists>b. checkpw demo_crypt new_accountservice 0 ''secret'' (set_password demo_crypt ''secret'' True demo_admin) = (Inr 0, b, [])
     \<and> acc_loginf b = 0"
  by (rule set_password_check) (simp_all add: demo_admin_def new_account_def)

definition two_tries :: accountservice where
  "two_tries = new_accountservice\<lparr>svc_alt := 2\<rparr>"



lemma demo_accounts_ok [simp]: "accounts_ok demo_accounts" by code_simp

lemma demo_accounts_simps [simp]: "am_accounts demo_accounts = [(''admin'', demo_admin)]" "am_id demo_accounts = 2"
  by (simp_all add: demo_accounts_def)

definition demo_bob :: account where
  "demo_bob = new_account\<lparr>acc_username := ''bob'', acc_roleid := ''Operator'', acc_salt := ''........'',
     acc_password := ''bobpass''\<rparr>"

lemma delAccount_correct_witness:
  "\<exists>e. delAccount_by_name ''admin'' demo_accounts = (Inl (ServerExc e), demo_accounts) \<and> http_status_code e = 400"
  using delAccount_correct [of demo_accounts "''admin''"] by simp

lemma admin_never_removed_witness:
  "map_of (am_accounts (snd (delAccount_by_name ''admin'' demo_accounts))) ''admin'' \<noteq> None"
proof -
  let ?am = "load_admin demo_crypt new_account_manager"
  have "(account_step demo_crypt)\<^sup>*\<^sup>* ?am (snd (delAccount_by_name ''admin'' ?am))"
    by (rule r_into_rtranclp) (rule step_delAccount_by_name [of "''admin''" ?am], rule prod.collapse [symmetric])
  from admin_never_removed [OF this] show ?thesis by code_simp
qed

lemma addAccount_correct_witness:
  "map_of (am_accounts (snd (addAccount demo_bob demo_accounts))) ''bob'' = Some (demo_bob\<lparr>acc_id := 2\<rparr>)"
  using addAccount_correct [of demo_accounts demo_bob] by (auto simp: demo_bob_def)

lemma modAccount_correct_witness:
  "\<exists>e. modAccount ''admin'' (demo_admin\<lparr>acc_username := ''root''\<rparr>) demo_accounts = (Inl (ServerExc e), demo_accounts)
     \<and> http_status_code e = 400"
proof -
  have "map_of (am_accounts demo_accounts) ''admin'' = Some demo_admin" by simp
  from modAccount_correct [OF demo_accounts_ok this, of "demo_admin\<lparr>acc_username := ''root''\<rparr>"] show ?thesis by simp
qed

lemma saveRoles_ends_iff_witness: "drop_predefined [] (am_roles demo_accounts) = Some []"
  using saveRoles_ends_iff [of demo_accounts] by (simp add: demo_accounts_def predefined_role_def)

lemma login_correct_witness:
  "account_login demo_crypt 0 ''bob'' ''x'' demo_accounts = (Inl (account_missing ''bob''), demo_accounts)"
  using login_correct [of demo_accounts demo_crypt 0 "''bob''" "''x''"] by simp

definition bob_session :: session where
  "bob_session = \<lparr>sess_id = 1, sess_token = ''tok'', sess_srcip = ''10.0.0.1'', sess_username = ''bob'',
     sess_password = [], sess_role = ''Operator'', sess_time = 1000\<rparr>"

definition bob_sessions :: session_manager where
  "bob_sessions = demo_sessions\<lparr>sessions := [(''bob'', bob_session)]\<rparr>"

lemma bob_sessions_ok [simp]: "sessions_ok bob_sessions" by code_simp

lemma bob_sessions_simps [simp]: "sessions bob_sessions = [(''bob'', bob_session)]" "session_timeout bob_sessions = 600"
  "sess_id bob_session = 1" "sess_time bob_session = 1000" "sess_token bob_session = ''tok''"
  "sess_srcip bob_session = ''10.0.0.1''" "sess_username bob_session = ''bob''"
  by (simp_all add: bob_sessions_def bob_session_def demo_sessions_def new_session_manager_def)

lemma delSession_by_id_correct_witness:
  "\<exists>mgr. delSession_by_id 1 bob_sessions = (Inr (), mgr) \<and> map_of (sessions mgr) ''bob'' = None"
proof -
  have "map_of (sessions bob_sessions) ''bob'' = Some bob_session" "sess_id bob_session = 1"
    by simp_all
  with delSession_by_id_correct [OF bob_sessions_ok, of 1] show ?thesis by fastforce
qed

lemma addSession_correct_witness:
  "\<exists>mgr. addSession (bob_session\<lparr>sess_username := ''eve''\<rparr>) False 7 bob_sessions = (Inr 2, mgr)"
proof -
  have "Session_size bob_sessions < max_sessions bob_sessions" by code_simp
  moreover have "map_of (sessions bob_sessions) (sess_username (bob_session\<lparr>sess_username := ''eve''\<rparr>)) = None"
    by simp
  ultimately obtain i mgr where "addSession (bob_session\<lparr>sess_username := ''eve''\<rparr>) False 7 bob_sessions = (Inr i, mgr)"
    using addSession_correct [OF bob_sessions_ok, of "bob_session\<lparr>sess_username := ''eve''\<rparr>" 7] by auto
  moreover have "fst (addSession (bob_session\<lparr>sess_username := ''eve''\<rparr>) False 7 bob_sessions) = Inr 2" by code_simp
  ultimately show ?thesis by auto
qed

lemma updateSessionTimestamp_correct_witness:
  "updateSessionTimestamp ''tok'' ''10.9.9.9'' 5 bob_sessions =
     (Inr False, bob_sessions\<lparr>sessions := [(''bob'', bob_session\<lparr>sess_time := 5\<rparr>)]\<rparr>)"
  using updateSessionTimestamp_correct [OF bob_sessions_ok, of "''tok''" "''10.9.9.9''" 5]
  by (simp add: getSession_by_Token_def)

lemma timeout_round_correct_witness:
  "map_of (sessions (snd (CheckSessionTimeout_round 601000 bob_sessions))) ''bob'' = None"
  using timeout_round_correct [OF bob_sessions_ok, of 601000]
  by auto

section \<open>Text, routes and messages\<close>

definition demo_object :: json where
  "demo_object = JObject [(''A'', JNumber (NInt 5)), (''B'', JArray [JBool True, JString ''x''])]"

lemma serialize_round_trip_witness:
  "deserialize demo_fpu (write_value demo_fpu demo_object)
     = Inr (JObject [(''A'', JNumber (NUint 5)), (''B'', JArray [JBool True, JString ''x''])])"
proof -
  have "json_integral demo_object" "json_wf demo_object" by code_simp+
  from serialize_round_trip [OF this, of demo_fpu] show ?thesis by (simp add: demo_object_def)
qed

lemma top_level_fraction_rejected_witness:
  "\<exists>e. deserialize demo_fpu ''1.5'' = Inl e \<and> err_code e = END_OF_FILE"
proof -
  have "dec_of_nat 1 @ CHR ''.'' # ''5'' = ''1.5''" by code_simp
  with top_level_fraction_rejected [where n = 1 and ds = "''5''" and fp = demo_fpu] show ?thesis by (simp add: is_digit_def)
qed

lemma surrogate_pair_code_witness: "decode_utf16_surrogate_pair 0xD840 0xDC00 = 0x10000"
  using surrogate_pair_code [of 55360 56320] by simp

lemma join_split_path_witness: "''/a/b/'' = join_path (split_path ''/a/b/'') @ ''/''"
  using join_split_path [of "''/a/b/''"] by simp

definition demo_endpoint :: "string \<Rightarrow> rest_state endpoint" where
  "demo_endpoint p = make_endpoint demo_env p (\<lambda>_. None)"

definition root_mux :: "rest_state mux" where
  "root_mux = \<lparr>candidates = [\<lparr>cand_segments = [StaticMatcher ''a''], cand_handler = demo_endpoint ''/a'',
       cand_path = ''/a'', cand_access = SSL_REQUIRED\<rparr>], pre_handlers = [], post_handlers = []\<rparr>"

lemma register_handler_keeps_routes_witness:
  "\<exists>mx c. register_handler (demo_endpoint ''/b'') SSL_REQUIRED root_mux = Inr mx \<and> select_handler mx [''a''] ''/a'' = Inr c
     \<and> cand_path c = ''/a''"
proof -
  have path: "path_to_segments ''/a'' = Inr [StaticMatcher ''a'']" "path_to_segments ''/b'' = Inr [StaticMatcher ''b'']"
    by code_simp+
  have "mux_ok root_mux" by (simp add: mux_ok_def root_mux_def demo_endpoint_def make_endpoint_def path)
  moreover obtain mx where mx: "register_handler (demo_endpoint ''/b'') SSL_REQUIRED root_mux = Inr mx"
    by (simp add: register_handler_def root_mux_def demo_endpoint_def make_endpoint_def path)
  moreover obtain c where "select_handler root_mux [''a''] ''/a'' = Inr c" "cand_path c = ''/a''"
    by (simp add: select_handler_def root_mux_def segments_match_def)
  ultimately show ?thesis using register_handler_keeps_routes [OF mx] by blast
qed

lemma id_route_witness:
  "\<exists>r. path_to_segments ''/Chassis/{id:[0-9]+}'' = Inr r \<and> segments_match r [''Chassis'', ''12'']"
proof -
  have "path_append_regex ''id'' ID_REGEX (join_path [''Chassis'']) = ''/Chassis/{id:[0-9]+}''" by code_simp
  with id_route [of "[''Chassis'']" "''id''", OF _ _ _ _ refl] show ?thesis by (auto simp: is_digit_def)
qed

lemma uint64_bound_throws_witness:
  "\<exists>what. check (demo_jsoncpp\<lparr>jc_isDouble := (\<lambda>_. False)\<rparr>) demo_fpu (Checker_numeric TYPE_UINT64 (Some 1) None)
     (Some (JNumber (NUint 0xFFFFFFFFFFFFFFFF))) = Inl (Json_exception what)"
  by (rule uint64_bound_throws) (code_simp, simp, code_simp, simp)

lemma request_validation_witness:
  "\<not> conforms demo_jsoncpp demo_fpu SessionCollectionPostSchema (to_json_rpc (JObject [(''UserName'', JString ''admin'')]))"
proof -
  have "checker_wf (Checker_attribute SessionCollectionPostSchema)" by code_simp
  from request_validation [OF this, of demo_jsoncpp demo_fpu "write_value demo_fpu (JObject [(''UserName'', JString ''admin'')])"
      "JObject [(''UserName'', JString ''admin'')]"]
  show ?thesis by (auto; code_simp)
qed

lemma account_body_readable_witness:
  "\<exists>a. account_to_model demo_crypt (JObject [(''Enabled'', JBool True), (''Locked'', JBool False), (''Name'', JString ''n''),
     (''Password'', JString ''p''), (''RoleId'', JString ''Operator''), (''UserName'', JString ''bob'')]) = Inr a"
proof -
  let ?j = "JObject [(''Enabled'', JBool True), (''Locked'', JBool False), (''Name'', JString ''n''),
     (''Password'', JString ''p''), (''RoleId'', JString ''Operator''), (''UserName'', JString ''bob'')]"
  have "validate_request_body demo_jsoncpp demo_fpu AccountCollectionPostSchema (write_value demo_fpu ?j) = Inr ?j" by code_simp
  from account_body_readable [OF this] show ?thesis by auto
qed

lemma connector_answers_witness:
  "\<exists>r. connector_handle (\<lambda>_ _. True) (\<lambda>_ s. (Inl (StdExc ''what''), s)) (demo_request GET ''/'' JNil) demo_state
     = (Inr r, demo_state) \<and> resp_status r = 500"
  using connector_answers [of "\<lambda>_ s. (Inl (StdExc ''what''), s)" "demo_request GET ''/'' JNil" demo_state
    "StdExc ''what''" demo_state new_response "\<lambda>_ _. True"] by simp

end
