(* ===== verification/Example_Requests.thy ===== *)
theory Example_Requests
  imports Examples
begin

text \<open>
  The theorems on whole requests at work: an account deleted, an operator's session opened and used,
  a role deleted, and the setting that ends the process, each on the state of \<open>Examples\<close>.
\<close>

definition demo_mux :: "rest_state mux" where
  "demo_mux = \<lparr>candidates = rest_candidates demo_env, pre_handlers = [], post_handlers = []\<rparr>"

lemma demo_mux: "rest_mux demo_env = Inr demo_mux"
  by (simp add: rest_mux_eq demo_mux_def)

definition as_user :: "string \<Rightarrow> string \<Rightarrow> request \<Rightarrow> request" where
  "as_user u p q = prepare_request [] (Some (u, p)) (Some ''10.0.0.1'') q"

text \<open>What is left of a request on a protected route, once its credentials are accepted.\<close>

lemma demo_serve:
  assumes "named_resource (split_path (req_url q)) = Some i" and "i \<noteq> 6" and "req_secure q"
    and "method_name (req_method q) = Some n" and "authen_check demo_env q n st = (Inr True, st1)"
    and "ep_run (cand_handler (rest_candidates demo_env ! i)) (req_method q)
      (collect_request_params (cand_segments (rest_candidates demo_env ! i)) (split_path (req_url q)) q)
      (st1, new_response) = (Inr (), (st', r))"
  shows "connector_handle (\<lambda>_ _. True) (forward_to_handler demo_mux) q st = (Inr r, st')"
  using protected_request(1) [OF demo_mux assms(1-5), where r = new_response] assms(6)
  by (simp add: connector_answer)

section \<open>A role deleted\<close>

definition delete_role :: request where
  "delete_role = as_user ''admin'' ''redfish'' (demo_request DELETE ''/redfish/v1/AccountService/Roles/1'' JNil)"

definition role_deleted :: rest_state where
  "role_deleted = demo_state\<lparr>rs_accounts := snd (delRole_by_id 1 (rs_accounts demo_state))\<rparr>"

lemma delete_role_served:
  "connector_handle (\<lambda>_ _. True) (forward_to_handler demo_mux) delete_role demo_state =
     (Inr (set_status 204 new_response), role_deleted)"
proof (rule demo_serve [where i = 4 and n = "''DELETE''" and ?st1.0 = demo_state])
  show "named_resource (split_path (req_url delete_role)) = Some 4" by code_simp
  show "(4::nat) \<noteq> 6" by simp
  show "req_secure delete_role" by code_simp
  show "method_name (req_method delete_role) = Some ''DELETE''" by code_simp
  show "authen_check demo_env delete_role ''DELETE'' demo_state = (Inr True, demo_state)" by code_simp
  have "ep_run (cand_handler (rest_candidates demo_env ! 4)) DELETE q = role_del q" for q
    by (simp add: rest_candidates_def rest_endpoints_def route_table_def make_endpoint_def)
  moreover have "req_method delete_role = DELETE" by code_simp
  moreover have "role_del (collect_request_params (route_table ! 4) (split_path (req_url delete_role)) delete_role)
      (demo_state, new_response) = (Inr (), (role_deleted, set_status 204 new_response))"
    by code_simp
  moreover have "cand_segments (rest_candidates demo_env ! 4) = route_table ! 4"
    by (simp add: rest_candidates_def rest_endpoints_def route_table_def)
  ultimately show "ep_run (cand_handler (rest_candidates demo_env ! 4)) (req_method delete_role)
      (collect_request_params (cand_segments (rest_candidates demo_env ! 4)) (split_path (req_url delete_role)) delete_role)
      (demo_state, new_response) = (Inr (), (role_deleted, set_status 204 new_response))"
    by simp
qed

lemma service_invariant_witness: "accounts_ok (rs_accounts role_deleted) \<and> roles_ok (rs_accounts role_deleted)"
proof -
  have "server_step\<^sup>*\<^sup>* (boot demo_env [] demo_settings) role_deleted"
    unfolding demo_boot by (rule r_into_rtranclp) (rule serve [OF demo_mux delete_role_served])
  from service_invariant [OF this] show ?thesis by simp
qed

lemma only_writers_change_configuration_witness:
  "\<exists>a. acc_roleid a \<noteq> ''ReadOnlyUser'' \<and> map_of (am_accounts (rs_accounts demo_state)) ''admin'' = Some a"
proof -
  have "configuration role_deleted \<noteq> configuration demo_state"
  proof
    assume "configuration role_deleted = configuration demo_state"
    moreover have "am_roles (rs_accounts role_deleted) \<noteq> am_roles (rs_accounts demo_state)" by code_simp
    ultimately show False by (simp add: configuration_def)
  qed
  moreover have "session_enabled (rs_sessions demo_state)" "sessions_ok (rs_sessions demo_state)"
    "sessions (rs_sessions demo_state) = []" "get_header delete_role ''UserName'' = ''admin''" by code_simp+
  ultimately show ?thesis
    using only_writers_change_configuration [OF demo_mux delete_role_served]
    by (auto simp: getSession_by_Token_def)
qed

section \<open>An account deleted\<close>

definition bob_accounts :: account_manager where
  "bob_accounts = demo_accounts\<lparr>am_id := 3,
     am_accounts := [(''admin'', demo_admin), (''bob'', demo_bob\<lparr>acc_id := 2\<rparr>)]\<rparr>"

definition bob_state :: rest_state where
  "bob_state = demo_state\<lparr>rs_accounts := bob_accounts\<rparr>"

definition delete_bob :: request where
  "delete_bob = as_user ''admin'' ''redfish'' (demo_request DELETE ''/redfish/v1/AccountService/Accounts/bob'' JNil)"

lemma bob_state_ok: "rest_ok bob_state"
proof -
  have "sessions (rs_sessions bob_state) = []" "sessions_ok (rs_sessions bob_state)"
    "accounts_inv (rs_accounts bob_state)" by code_simp+
  then show ?thesis by (simp add: rest_ok_def sessions_inv_def Session_size_def)
qed

lemma delete_account_request_witness:
  "\<exists>r st. connector_handle (\<lambda>_ _. True) (forward_to_handler demo_mux) delete_bob bob_state = (Inr r, st)
     \<and> resp_status r = 200 \<and> map_of (am_accounts (rs_accounts st)) ''bob'' = None"
proof -
  have "req_secure delete_bob" "req_method delete_bob = DELETE"
    "split_path (req_url delete_bob) = accounts_base @ [''Accounts'', ''bob'']" "is_word ''bob''"
    "authen_check demo_env delete_bob ''DELETE'' bob_state = (Inr True, bob_state)" by code_simp+
  moreover have "map_of (am_accounts (rs_accounts bob_state)) ''bob'' = Some (demo_bob\<lparr>acc_id := 2\<rparr>)" by code_simp
  ultimately show ?thesis
    using delete_account_request [OF demo_mux, where q = delete_bob and st = bob_state and u = "''bob''", OF _ _ _ _ _ _ bob_state_ok]
    by fastforce
qed

section \<open>Logins\<close>

definition login_request :: "string \<Rightarrow> string \<Rightarrow> request" where
  "login_request u p = prepare_request [] None (Some ''10.0.0.1'')
     (demo_request POST ''/redfish/v1/SessionService/Sessions'' (JObject [(''Password'', JString p), (''UserName'', JString u)]))"

definition login :: "string \<Rightarrow> string \<Rightarrow> rest_state \<Rightarrow> rest_state \<times> response" where
  "login u p st = snd (session_collection_post demo_env (login_request u p) (st, new_response))"

lemma bob_login: "fst (session_collection_post demo_env (login_request ''bob'' ''bobpass'') (bob_state, new_response)) = Inr ()
   \<and> resp_status (snd (login ''bob'' ''bobpass'' bob_state)) = 201"
  by code_simp

lemma session_login_correct_witness:
  "\<exists>s. map_of (sessions (rs_sessions (fst (login ''bob'' ''bobpass'' bob_state)))) ''bob'' = Some s
     \<and> sess_srcip s = ''10.0.0.1'' \<and> 1 \<le> sess_id s"
proof -
  obtain st r where l: "login ''bob'' ''bobpass'' bob_state = (st, r)" by force
  then have "session_collection_post demo_env (login_request ''bob'' ''bobpass'') (bob_state, new_response) = (Inr (), (st, r))"
    using bob_login by (auto simp: login_def intro: prod_eqI)
  moreover have "resp_status new_response \<noteq> 201" "sessions_ok (rs_sessions bob_state)"
    "get_header (login_request ''bob'' ''bobpass'') ''SrcIp'' = ''10.0.0.1''" by code_simp+
  moreover have "resp_status r = 201" using bob_login l by simp
  ultimately obtain u s where s: "map_of (sessions (rs_sessions st)) = (map_of (sessions (rs_sessions bob_state)))(u \<mapsto> s)"
      "sess_srcip s = ''10.0.0.1''" "1 \<le> sess_id s"
    by (metis session_login_correct)
  have "map (fst) (sessions (rs_sessions (fst (login ''bob'' ''bobpass'' bob_state)))) = [''bob'']"
    "sessions (rs_sessions bob_state) = []" by code_simp+
  with s l have "u = ''bob''" by (cases "sessions (rs_sessions st)") (auto simp: fun_eq_iff split: if_splits)
  with s l show ?thesis by auto
qed

definition demo_token :: string where
  "demo_token = ''0123456789ABCDEFGHIJKLMNOPQRSTUV''"

definition demo_session :: "nat \<Rightarrow> string \<Rightarrow> string \<Rightarrow> string \<Rightarrow> session" where
  "demo_session i u p role = \<lparr>sess_id = i, sess_token = demo_token, sess_srcip = ''10.0.0.1'',
     sess_username = u, sess_password = p, sess_role = role, sess_time = 0\<rparr>"

definition admin_logged_in :: rest_state where
  "admin_logged_in = bob_state\<lparr>rs_sessions := demo_sessions\<lparr>sessions :=
     [(''admin'', demo_session 1 ''admin'' ''redfish'' ''Administrator'')]\<rparr>\<rparr>"

definition both_logged_in :: rest_state where
  "both_logged_in = bob_state\<lparr>rs_sessions := demo_sessions\<lparr>sessions :=
     [(''admin'', demo_session 1 ''admin'' ''redfish'' ''Administrator''),
      (''bob'', demo_session 2 ''bob'' ''bobpass'' ''Operator'')]\<rparr>\<rparr>"

lemma login_states:
  "fst (session_collection_post demo_env (login_request ''admin'' ''redfish'') (bob_state, new_response)) = Inr ()"
  "fst (login ''admin'' ''redfish'' bob_state) = admin_logged_in"
  "fst (session_collection_post demo_env (login_request ''bob'' ''bobpass'') (admin_logged_in, new_response)) = Inr ()"
  "fst (login ''bob'' ''bobpass'' admin_logged_in) = both_logged_in"
  by code_simp+

lemma login_answers:
  "session_collection_post demo_env (login_request ''admin'' ''redfish'') (bob_state, new_response)
     = (Inr (), (admin_logged_in, snd (login ''admin'' ''redfish'' bob_state)))"
  "session_collection_post demo_env (login_request ''bob'' ''bobpass'') (admin_logged_in, new_response)
     = (Inr (), (both_logged_in, snd (login ''bob'' ''bobpass'' admin_logged_in)))"
  using login_states by (auto simp: login_def intro!: prod_eqI)

lemma same_second_logins_confused_witness:
  "\<exists>s. getSession_by_Token (rs_sessions both_logged_in) (login_token demo_env) = Inr s \<and> sess_username s = ''admin''
     \<and> map_of (resp_headers (snd (login ''bob'' ''bobpass'' admin_logged_in))) ''X-Auth-Token'' = Some (login_token demo_env)"
proof -
  let ?v = "\<lambda>u p. validate_request_body demo_jsoncpp demo_fpu SessionCollectionPostSchema (req_body (login_request u p))"
  let ?j = "\<lambda>u p. JObject [(''Password'', JString p), (''UserName'', JString u)]"
  have v: "?v ''admin'' ''redfish'' = Inr (?j ''admin'' ''redfish'')" "?v ''bob'' ''bobpass'' = Inr (?j ''bob'' ''bobpass'')"
    by code_simp+
  have st: "resp_status new_response \<noteq> 201" "resp_status (snd (login ''admin'' ''redfish'' bob_state)) = 201"
    "resp_status (snd (login ''bob'' ''bobpass'' admin_logged_in)) = 201"
    "sessions_ok (rs_sessions bob_state)" "sessions (rs_sessions bob_state) = []" "''admin'' < ''bob''"
    "get_member (?j ''admin'' ''redfish'') ''UserName'' = JString ''admin''"
    "get_member (?j ''bob'' ''bobpass'') ''UserName'' = JString ''bob''" by code_simp+
  have tok: "map_of (resp_headers (snd (login ''bob'' ''bobpass'' admin_logged_in))) ''X-Auth-Token'' = Some (login_token demo_env)"
    by code_simp
  from same_second_logins_confused [OF login_answers(1) st(1,2) login_answers(2) st(1,3) refl refl st(4,5) _ _ st(7,8,6)] v tok
  show ?thesis by (auto simp: demo_env_def)
qed

section \<open>The setting that ends the process\<close>

definition zero_settings :: json where
  "zero_settings = JObject [(''AccountLockoutCounterResetAfter'', JNumber (NInt 30)), (''AccountLockoutDuration'', JNumber (NInt 30)),
     (''AccountLockoutThreshold'', JNumber (NInt 5)), (''AuthFailureLoggingThreshold'', JNumber (NInt 0)),
     (''ServiceEnabled'', JBool True)]"

definition zero_request :: request where
  "zero_request = demo_request PATCH ''/redfish/v1/AccountService'' zero_settings"

definition zero_state :: rest_state where
  "zero_state = bob_state\<lparr>rs_accounts := bob_accounts\<lparr>am_service :=
     \<lparr>svc_enabled = True, svc_aflt = 0, svc_alt = 5, svc_ald = 30, svc_alcra = 30\<rparr>\<rparr>\<rparr>"

definition wrong_login :: request where
  "wrong_login = as_user ''bob'' ''guess'' (demo_request GET ''/redfish/v1/AccountService'' JNil)"

lemma zero_threshold_ends_process_witness:
  "\<exists>what st. connector_handle (\<lambda>_ _. True) (forward_to_handler demo_mux) wrong_login zero_state = (Inl what, st)"
proof -
  let ?j = "read_back zero_settings"
  have body: "validate_request_body (env_jsoncpp demo_env) (env_fpu demo_env) AccountServicePostSchema (req_body zero_request) = Inr ?j"
    "get_member ?j ''AuthFailureLoggingThreshold'' = JNumber (NUint 0)" by code_simp+
  have patched: "account_service_patch demo_env zero_request (bob_state, new_response) = (Inr (), (zero_state, set_status 200 new_response))"
    by code_simp
  have bob: "map_of (am_accounts (rs_accounts bob_state)) ''bob'' = Some (demo_bob\<lparr>acc_id := 2\<rparr>)"
    "acc_enabled (demo_bob\<lparr>acc_id := 2\<rparr>)" "\<not> acc_locked (demo_bob\<lparr>acc_id := 2\<rparr>)"
    "wrong_password (env_crypt_env demo_env) (demo_bob\<lparr>acc_id := 2\<rparr>) ''guess''" "basic_enabled (rs_sessions bob_state)" by code_simp+
  have q: "req_secure wrong_login" "req_method wrong_login = GET"
    "get_header wrong_login ''UserName'' = ''bob''" "''bob'' \<noteq> []" "get_header wrong_login ''Password'' = ''guess''"
    "''guess'' \<noteq> []" "get_header wrong_login ''xAuthGen'' = []"
    "named_resource (split_path (req_url wrong_login)) = Some 0" "(0::nat) \<noteq> 6" by code_simp+
  from zero_threshold_ends_process [OF demo_mux _ body patched bob q, where access_allowed = "\<lambda>_ _. True"] show ?thesis by simp
qed

end
