(* ===== verification/Subscription_Manager.thy ===== *)
theory Subscription_Manager
  imports Account
begin

text \<open>
  Event subscriptions (\<^verbatim>\<open>rest/eventing/model/subscription.cpp\<close>, \<^verbatim>\<open>manager/subscription_manager.cpp\<close>,
  \<^verbatim>\<open>config/subscription_config.cpp\<close>): who wants which events, and the file that keeps it.
\<close>

section \<open>Event types\<close>

datatype event_type = StatusChange | ResourceUpdated | ResourceAdded | ResourceRemoved | Alert

fun event_type_string :: "event_type \<Rightarrow> string" where
  "event_type_string StatusChange = ''StatusChange''"
| "event_type_string ResourceUpdated = ''ResourceUpdated''"
| "event_type_string ResourceAdded = ''ResourceAdded''"
| "event_type_string ResourceRemoved = ''ResourceRemoved''"
| "event_type_string Alert = ''Alert''"

definition event_type_values :: "event_type list" where
  "event_type_values = [StatusChange, ResourceUpdated, ResourceAdded, ResourceRemoved, Alert]"

definition event_type_from_string :: "string \<Rightarrow> event_type result" where
  "event_type_from_string s =
     (case List.find (\<lambda>t. event_type_string t = c_str s) event_type_values of
        Some t \<Rightarrow> Inr t
      | None \<Rightarrow> Inl (Gami (invalid_value_exc
          (''EventType enum value not found: '' @ [CHR 0x27] @ s @ [CHR 0x27] @ ''.''))))"

lemma event_type_round_trip [simp]: "event_type_from_string (event_type_string t) = Inr t"
  by (cases t) (simp_all add: event_type_from_string_def event_type_values_def c_str_def)

section \<open>Subscriptions\<close>

record subscription =
  sub_id :: nat
  sub_name :: string
  sub_destination :: string
  sub_event_types :: "event_type list"
  sub_context :: string
  sub_protocol :: string

definition new_subscription :: subscription where
  "new_subscription = \<lparr>sub_id = 0, sub_name = [], sub_destination = [], sub_event_types = [],
     sub_context = [], sub_protocol = []\<rparr>"

definition subscription_to_json :: "subscription \<Rightarrow> json" where
  "subscription_to_json s = json_object
     [(''Id'', JString (dec_of_nat (sub_id s))), (''Name'', JString (sub_name s)),
      (''Destination'', JString (sub_destination s)), (''Context'', JString (sub_context s)),
      (''Protocol'', JString (sub_protocol s)),
      (''EventTypes'', foldl (\<lambda>j t. json_push_back (JString (event_type_string t)) j) (JArray []) (sub_event_types s))]"

text \<open>
  \<^verbatim>\<open>std::stoi\<close>: leading white space, a sign, at least one digit; what follows the digits is ignored. The
  exceptions it throws are \<open>None\<close>.
\<close>

definition stoi :: "string \<Rightarrow> int option" where
  "stoi s =
     (let t = dropWhile is_blank s;
          neg = (t \<noteq> [] \<and> hd t = CHR ''-'');
          u = (if t \<noteq> [] \<and> (hd t = CHR ''-'' \<or> hd t = CHR ''+'') then tl t else t);
          ds = takeWhile is_digit u;
          i = (if neg then - int (nat_of_dec ds) else int (nat_of_dec ds))
      in if ds = [] \<or> i < - (2 ^ 31) \<or> 2 ^ 31 \<le> i then None else Some i)"

fun res_map :: "('a \<Rightarrow> 'e + 'b) \<Rightarrow> 'a list \<Rightarrow> 'e + 'b list" where
  "res_map f [] = Inr []"
| "res_map f (x # xs) = res_bind (f x) (\<lambda>y. res_bind (res_map f xs) (\<lambda>ys. Inr (y # ys)))"

definition event_types_from_json :: "json \<Rightarrow> event_type list result" where
  "event_types_from_json j =
     res_map (\<lambda>t. res_bind (as_string t) event_type_from_string) (json_elements j)"

text \<open>An id that is negative in the file becomes an unsigned 64-bit number.\<close>

definition subscription_from_json :: "json \<Rightarrow> subscription result" where
  "subscription_from_json j =
     res_bind (as_string (get_member j ''Id'')) (\<lambda>i.
     res_bind (as_string (get_member j ''Name'')) (\<lambda>name.
     res_bind (as_string (get_member j ''Destination'')) (\<lambda>destination.
     res_bind (as_string (get_member j ''Context'')) (\<lambda>ctx.
     res_bind (as_string (get_member j ''Protocol'')) (\<lambda>protocol.
     res_bind (event_types_from_json (get_member j ''EventTypes'')) (\<lambda>types.
       case stoi i of
         None \<Rightarrow> Inl (StdExc ''stoi'')
       | Some k \<Rightarrow> Inr \<lparr>sub_id = nat (k mod 2 ^ 64), sub_name = name, sub_destination = destination,
                     sub_event_types = types, sub_context = ctx, sub_protocol = protocol\<rparr>))))))"

section \<open>The manager\<close>

record subscription_manager =
  max_events :: nat
  subscriptions :: "(string, subscription) smap"

definition new_subscription_manager :: subscription_manager where
  "new_subscription_manager = \<lparr>max_events = 30, subscriptions = []\<rparr>"

type_synonym 'a sub_action = "(subscription_manager, exn, 'a) action"

definition sub_ids :: "(string, subscription) smap \<Rightarrow> nat list" where
  "sub_ids m = map (sub_id \<circ> snd) m"

text \<open>The first id from 1 up to the maximum that no subscription has; 0 is none.\<close>

definition get_sub_id :: "subscription_manager \<Rightarrow> nat" where
  "get_sub_id mgr =
     (case List.find (\<lambda>i. i \<notin> set (sub_ids (subscriptions mgr))) [1..<Suc (max_events mgr)] of
        Some i \<Rightarrow> i
      | None \<Rightarrow> 0)"

text \<open>A subscription with an id comes from the file and keeps it.\<close>

definition add_subscription :: "subscription \<Rightarrow> nat sub_action" where
  "add_subscription s mgr =
     (if map_of (subscriptions mgr) (sub_name s) \<noteq> None
      then (Inl (ServerExc (create_resource_already_exists_error
              (''Subscription '' @ [CHR 0x27] @ sub_name s @ [CHR 0x27] @ '' already exists.''))), mgr)
      else if sub_id s \<noteq> 0
      then (Inr (sub_id s), mgr\<lparr>subscriptions := smap_put (sub_name s) s (subscriptions mgr)\<rparr>)
      else (let i = get_sub_id mgr
            in if i \<noteq> 0
               then (Inr i, mgr\<lparr>subscriptions := smap_put (sub_name s) (s\<lparr>sub_id := i\<rparr>) (subscriptions mgr)\<rparr>)
               else (Inr 0, mgr)))"

definition subscription_missing :: "string \<Rightarrow> exn" where
  "subscription_missing n = Gami (not_found_exc (''Subscription '' @ [CHR 0x27] @ n @ [CHR 0x27] @ '' not found.''))"

definition subscription_id_missing :: "nat \<Rightarrow> exn" where
  "subscription_id_missing i = Gami (not_found_exc (''Subscription (ID: '' @ dec_of_nat i @ '') not found.''))"

definition get_subscription_by_name :: "subscription_manager \<Rightarrow> string \<Rightarrow> subscription result" where
  "get_subscription_by_name mgr n =
     (case map_of (subscriptions mgr) n of Some s \<Rightarrow> Inr s | None \<Rightarrow> Inl (subscription_missing n))"

definition get_subscription_by_id :: "subscription_manager \<Rightarrow> nat \<Rightarrow> subscription result" where
  "get_subscription_by_id mgr i =
     (case entry_by_id sub_id i (subscriptions mgr) of
        Some e \<Rightarrow> get_subscription_by_name mgr (sub_name (snd e))
      | None \<Rightarrow> Inl (subscription_id_missing i))"

definition del_subscription_by_name :: "string \<Rightarrow> unit sub_action" where
  "del_subscription_by_name n mgr =
     (if map_of (subscriptions mgr) n = None then (Inl (subscription_missing n), mgr)
      else (Inr (), mgr\<lparr>subscriptions := smap_erase n (subscriptions mgr)\<rparr>))"

definition del_subscription_by_id :: "nat \<Rightarrow> unit sub_action" where
  "del_subscription_by_id i mgr =
     (case entry_by_id sub_id i (subscriptions mgr) of
        Some e \<Rightarrow> del_subscription_by_name (sub_name (snd e)) mgr
      | None \<Rightarrow> (Inl (subscription_id_missing i), mgr))"

definition subscription_size :: "subscription_manager \<Rightarrow> 32 word" where
  "subscription_size mgr = of_nat (length (subscriptions mgr))"

section \<open>The file\<close>

definition get_subscriptions_json :: "(string, subscription) smap \<Rightarrow> json" where
  "get_subscriptions_json m = foldl (\<lambda>j e. json_push_back (subscription_to_json (snd e)) j) (JArray []) m"

definition save_subscriptions :: "fpu \<Rightarrow> subscription_manager \<Rightarrow> string" where
  "save_subscriptions fp mgr = write_value fp (get_subscriptions_json (subscriptions mgr))"

fun load_subscription_list :: "json list \<Rightarrow> unit sub_action" where
  "load_subscription_list [] = act_return ()"
| "load_subscription_list (j # js) =
     act_bind (act_read (\<lambda>_. subscription_from_json j)) (\<lambda>s.
     act_bind (add_subscription s) (\<lambda>_. load_subscription_list js))"

text \<open>The exception that stops the load is caught and logged; subscriptions loaded before it stay.\<close>

definition load_subscriptions :: "fpu \<Rightarrow> string \<Rightarrow> subscription_manager \<Rightarrow> subscription_manager" where
  "load_subscriptions fp content mgr =
     (if content = [] then mgr
      else (case deserialize fp content of
              Inl _ \<Rightarrow> mgr
            | Inr (JArray js) \<Rightarrow> snd (load_subscription_list js mgr)
            | Inr _ \<Rightarrow> mgr))"

section \<open>The invariant\<close>

definition subscriptions_ok :: "subscription_manager \<Rightarrow> bool" where
  "subscriptions_ok mgr \<longleftrightarrow> registry_ok sub_name sub_id (subscriptions mgr)
     \<and> (\<forall>e \<in> set (subscriptions mgr). sub_id (snd e) \<noteq> 0)"

interpretation subscription_registry: named_registry map_of smap_put smap_erase "\<lambda>m. m" smap_ok
  sub_name sub_id "registry_ok sub_name sub_id"
  by unfold_locales (rule registry_ok_iff)

lemma subscriptions_ok_iff:
  "subscriptions_ok mgr \<longleftrightarrow> registry_ok sub_name sub_id (subscriptions mgr)
     \<and> (\<forall>n s. map_of (subscriptions mgr) n = Some s \<longrightarrow> sub_id s \<noteq> 0)"
  by (fastforce simp: subscriptions_ok_def registry_ok_def simp flip: smap_ok_in_set)

lemma subscriptions_ok_new [simp]: "subscriptions_ok new_subscription_manager"
  by (simp add: subscriptions_ok_def new_subscription_manager_def registry_ok_def smap_ok_def)

lemma subscriptions_ok_name:
  "subscriptions_ok mgr \<Longrightarrow> map_of (subscriptions mgr) n = Some s \<Longrightarrow> sub_name s = n"
  by (simp add: subscriptions_ok_def registry_ok_iff)

lemma subscriptions_ok_put:
  assumes "subscriptions_ok mgr" and "sub_id s \<noteq> 0"
    and "\<And>n t. map_of (subscriptions mgr) n = Some t \<Longrightarrow> n \<noteq> sub_name s \<Longrightarrow> sub_id t \<noteq> sub_id s"
  shows "subscriptions_ok (mgr\<lparr>subscriptions := smap_put (sub_name s) s (subscriptions mgr)\<rparr>)"
proof -
  have "registry_ok sub_name sub_id (smap_put (sub_name s) s (subscriptions mgr))"
    using assms by (intro subscription_registry.coherent_put) (auto simp: subscriptions_ok_def)
  with assms show ?thesis by (auto simp: subscriptions_ok_iff split: if_splits)
qed

lemma subscriptions_ok_erase:
  "subscriptions_ok mgr \<Longrightarrow> subscriptions_ok (mgr\<lparr>subscriptions := smap_erase n (subscriptions mgr)\<rparr>)"
  by (auto simp: subscriptions_ok_iff subscription_registry.coherent_erase split: if_splits)

lemma sub_ids_iff:
  "smap_ok m \<Longrightarrow> i \<in> set (sub_ids m) \<longleftrightarrow> (\<exists>n s. map_of m n = Some s \<and> sub_id s = i)"
  by (auto simp: sub_ids_def simp flip: smap_ok_in_set) (metis image_eqI snd_conv)+

lemma find_upt_least:
  "List.find P [a..<b] = (if \<exists>i. a \<le> i \<and> i < b \<and> P i then Some (LEAST i. a \<le> i \<and> P i) else None)"
proof (induction b)
  case (Suc b)
  have "List.find P (xs @ [b]) = (case List.find P xs of None \<Rightarrow> if P b then Some b else None | Some i \<Rightarrow> Some i)" for xs
    by (induction xs) auto
  moreover have "(LEAST i. a \<le> i \<and> P i) = b" if "a \<le> b" "P b" "\<nexists>i. a \<le> i \<and> i < b \<and> P i"
    using that by (intro Least_equality) (auto simp: not_less [symmetric])
  ultimately show ?case using Suc by (auto simp: less_Suc_eq)
qed simp

section \<open>What the operations do\<close>

lemma duplicate_subscription_status:
  "http_status_code (create_resource_already_exists_error m) = 400"
  by (simp add: create_resource_already_exists_error_def extend_if_def create_error_def add_extended_message_def)

text \<open>
  A subscription from a request: a name that is taken is refused with status 400; otherwise it gets
  the least id from 1 on that none has, found under its name, unless every id up to the maximum
  is taken: then nothing changes and the answer is 0. The invariant is kept.
\<close>

lemma add_subscription_law:
  assumes "subscriptions_ok mgr" and "sub_id s = 0"
  shows "case map_of (subscriptions mgr) (sub_name s) of
      Some old \<Rightarrow> \<exists>e. add_subscription s mgr = (Inl (ServerExc e), mgr) \<and> http_status_code e = 400
    | None \<Rightarrow>
        if \<forall>i. 1 \<le> i \<and> i \<le> max_events mgr \<longrightarrow> (\<exists>n t. map_of (subscriptions mgr) n = Some t \<and> sub_id t = i)
        then add_subscription s mgr = (Inr 0, mgr)
        else \<exists>i mgr'. add_subscription s mgr = (Inr i, mgr') \<and> subscriptions_ok mgr' \<and> max_events mgr' = max_events mgr
          \<and> i = (LEAST j. 1 \<le> j \<and> (\<forall>n t. map_of (subscriptions mgr) n = Some t \<longrightarrow> sub_id t \<noteq> j))
          \<and> 1 \<le> i \<and> i \<le> max_events mgr
          \<and> map_of (subscriptions mgr') = (map_of (subscriptions mgr))(sub_name s \<mapsto> s\<lparr>sub_id := i\<rparr>)"
proof (cases "map_of (subscriptions mgr) (sub_name s)")
  case None
  have sm: "smap_ok (subscriptions mgr)" using assms(1) by (simp add: subscriptions_ok_def registry_ok_def)
  define free where "free i \<longleftrightarrow> (\<forall>n t. map_of (subscriptions mgr) n = Some t \<longrightarrow> sub_id t \<noteq> i)" for i
  have free: "i \<notin> set (sub_ids (subscriptions mgr)) \<longleftrightarrow> free i" for i
    by (auto simp: free_def sub_ids_iff [OF sm])
  have id: "get_sub_id mgr = (if \<exists>i. 1 \<le> i \<and> i \<le> max_events mgr \<and> free i then LEAST i. 1 \<le> i \<and> free i else 0)"
    by (auto simp: get_sub_id_def free find_upt_least less_Suc_eq_le simp del: upt_Suc)
  show ?thesis
  proof (cases "\<exists>i. 1 \<le> i \<and> i \<le> max_events mgr \<and> free i")
    case False
    with None assms(2) id show ?thesis by (auto simp: add_subscription_def free_def)
  next
    case True
    then obtain i where i: "1 \<le> i" "i \<le> max_events mgr" "free i" by blast
    let ?i = "LEAST i. 1 \<le> i \<and> free i"
    have l: "1 \<le> ?i" "free ?i" "?i \<le> i" using i LeastI [of "\<lambda>i. 1 \<le> i \<and> free i" i] by (auto intro: Least_le)
    have "subscriptions_ok (mgr\<lparr>subscriptions := smap_put (sub_name (s\<lparr>sub_id := ?i\<rparr>)) (s\<lparr>sub_id := ?i\<rparr>) (subscriptions mgr)\<rparr>)"
      using l by (intro subscriptions_ok_put [OF assms(1)]) (auto simp: free_def)
    with True None assms(2) id l i show ?thesis
      by (auto simp: add_subscription_def Let_def simp flip: free_def)
  qed
qed (simp add: add_subscription_def duplicate_subscription_status)

lemma subscription_by_id_iff:
  "subscriptions_ok mgr \<Longrightarrow> entry_by_id sub_id i (subscriptions mgr) = Some (n, s)
     \<longleftrightarrow> map_of (subscriptions mgr) n = Some s \<and> sub_id s = i"
  by (simp add: subscriptions_ok_def entry_by_id_def subscription_registry.by_id_iff)

text \<open>
  Removing by id removes exactly the subscription that has the id; if none has it, the answer is
  \<open>NotFound\<close> and nothing changes.
\<close>

lemma del_subscription_law:
  assumes "subscriptions_ok mgr"
  shows "if \<exists>n s. map_of (subscriptions mgr) n = Some s \<and> sub_id s = i
    then \<exists>n s mgr'. map_of (subscriptions mgr) n = Some s \<and> sub_id s = i
      \<and> del_subscription_by_id i mgr = (Inr (), mgr') \<and> subscriptions_ok mgr' \<and> max_events mgr' = max_events mgr
      \<and> map_of (subscriptions mgr') = (map_of (subscriptions mgr))(n := None)
    else del_subscription_by_id i mgr = (Inl (subscription_id_missing i), mgr)"
proof (cases "entry_by_id sub_id i (subscriptions mgr)")
  case None
  then have "\<nexists>n s. map_of (subscriptions mgr) n = Some s \<and> sub_id s = i"
    using subscription_by_id_iff [OF assms, of i] by auto
  with None show ?thesis by (simp add: del_subscription_by_id_def)
next
  case (Some e)
  obtain n s where "e = (n, s)" by force
  with Some have s: "map_of (subscriptions mgr) n = Some s" "sub_id s = i" "entry_by_id sub_id i (subscriptions mgr) = Some (n, s)"
    using subscription_by_id_iff [OF assms, of i] by auto
  then have "del_subscription_by_id i mgr = (Inr (), mgr\<lparr>subscriptions := smap_erase n (subscriptions mgr)\<rparr>)"
    using subscriptions_ok_name [OF assms s(1)] by (simp add: del_subscription_by_id_def del_subscription_by_name_def)
  with s subscriptions_ok_erase [OF assms, of n] show ?thesis by fastforce
qed

section \<open>The file keeps the subscriptions\<close>

lemma stoi_dec_of_nat: "n < 2 ^ 31 \<Longrightarrow> stoi (dec_of_nat n) = Some (int n)"
proof -
  assume n: "n < 2 ^ 31"
  have hd: "dec_of_nat n \<noteq> []" "is_digit (hd (dec_of_nat n))" "\<forall>c \<in> set (dec_of_nat n). is_digit c"
    by (simp_all add: hd_dec_of_nat_digit dec_of_nat_digits)
  moreover from this have "dropWhile is_blank (dec_of_nat n) = dec_of_nat n"
    by (cases "dec_of_nat n") (auto dest: digit_not_blank)
  ultimately show ?thesis
    using n digit_not_blank [OF hd(2)] by (simp add: stoi_def Let_def takeWhile_digits)
qed

lemma foldl_push_back: "foldl (\<lambda>j x. json_push_back (f x) j) (JArray xs) ys = JArray (xs @ map f ys)"
  by (induction ys arbitrary: xs) simp_all

lemma subscription_to_json_eq:
  "subscription_to_json s = JObject
     [(''Id'', JString (dec_of_nat (sub_id s))), (''Name'', JString (sub_name s)),
      (''Destination'', JString (sub_destination s)), (''Context'', JString (sub_context s)),
      (''Protocol'', JString (sub_protocol s)),
      (''EventTypes'', JArray (map (JString \<circ> event_type_string) (sub_event_types s)))]"
  by (simp add: subscription_to_json_def json_object_def foldl_push_back comp_def)

lemma event_types_read [simp]:
  "event_types_from_json (JArray (map (JString \<circ> event_type_string) ts)) = Inr ts"
proof -
  have "res_map (\<lambda>t. res_bind (as_string t) event_type_from_string) (map (JString \<circ> event_type_string) ts) = Inr ts"
    by (induction ts) simp_all
  then show ?thesis by (simp add: event_types_from_json_def)
qed

lemma subscription_round_trip:
  "sub_id s < 2 ^ 31 \<Longrightarrow> subscription_from_json (subscription_to_json s) = Inr s"
  by (cases s) (simp add: subscription_to_json_eq subscription_from_json_def stoi_dec_of_nat)

lemma get_subscriptions_json_eq: "get_subscriptions_json m = JArray (map (subscription_to_json \<circ> snd) m)"
  by (simp add: get_subscriptions_json_def foldl_push_back comp_def)

lemma save_subscriptions_read:
  "deserialize fp (save_subscriptions fp mgr) = Inr (JArray (map (subscription_to_json \<circ> snd) (subscriptions mgr)))"
  unfolding save_subscriptions_def get_subscriptions_json_eq
  by (subst serialize_law) (auto simp: subscription_to_json_eq)

lemma load_subscription_list_saved:
  assumes "distinct (map fst es)" and "\<forall>e \<in> set es. sub_name (snd e) = fst e \<and> sub_id (snd e) \<noteq> 0 \<and> sub_id (snd e) < 2 ^ 31"
    and "\<forall>n \<in> fst ` set es. map_of (subscriptions mgr) n = None" and "smap_ok (subscriptions mgr)"
  shows "\<exists>mgr'. load_subscription_list (map (subscription_to_json \<circ> snd) es) mgr = (Inr (), mgr')
    \<and> max_events mgr' = max_events mgr \<and> smap_ok (subscriptions mgr')
    \<and> map_of (subscriptions mgr') = map_of (subscriptions mgr) ++ map_of es"
  using assms
proof (induction es arbitrary: mgr)
  case Nil
  then show ?case by (simp add: act_return_def)
next
  case (Cons e es)
  obtain n s where e: "e = (n, s)" by force
  with Cons.prems have s: "sub_name s = n" "sub_id s \<noteq> 0" "sub_id s < 2 ^ 31" "map_of (subscriptions mgr) n = None" by auto
  let ?mgr = "mgr\<lparr>subscriptions := smap_put n s (subscriptions mgr)\<rparr>"
  have add: "add_subscription s mgr = (Inr (sub_id s), ?mgr)" using s by (simp add: add_subscription_def)
  have "\<exists>mgr'. load_subscription_list (map (subscription_to_json \<circ> snd) es) ?mgr = (Inr (), mgr')
    \<and> max_events mgr' = max_events ?mgr \<and> smap_ok (subscriptions mgr')
    \<and> map_of (subscriptions mgr') = map_of (subscriptions ?mgr) ++ map_of es"
  proof (rule Cons.IH)
    show "\<forall>u \<in> fst ` set es. map_of (subscriptions ?mgr) u = None"
      using Cons.prems(1,3) e by force
  qed (use Cons.prems e in \<open>auto simp: smap_ok_put\<close>)
  then obtain mgr' where l: "load_subscription_list (map (subscription_to_json \<circ> snd) es) ?mgr = (Inr (), mgr')"
      "max_events mgr' = max_events mgr" "smap_ok (subscriptions mgr')"
      "map_of (subscriptions mgr') = map_of (subscriptions ?mgr) ++ map_of es" by auto
  have "map_of es n = None" using Cons.prems(1) e by (auto simp: map_of_eq_None_iff)
  then have "map_of (subscriptions ?mgr) ++ map_of es = map_of (subscriptions mgr) ++ map_of (e # es)"
    using e by (auto simp: map_add_def fun_eq_iff split: option.split)
  with e s add l show ?case
    by (intro exI [of _ mgr']) (simp add: act_bind_def act_read_def subscription_round_trip comp_def map_add_def fun_eq_iff)
qed

text \<open>
  Saving and loading into a fresh manager brings back exactly the subscriptions that were there, with
  their ids, as long as the ids fit what \<^verbatim>\<open>stoi\<close> reads.
\<close>

lemma load_saved_law:
  assumes "subscriptions_ok mgr" and "\<forall>n s. map_of (subscriptions mgr) n = Some s \<longrightarrow> sub_id s < 2 ^ 31"
  shows "load_subscriptions fp (save_subscriptions fp mgr) new_subscription_manager
    = new_subscription_manager\<lparr>subscriptions := subscriptions mgr\<rparr>"
proof -
  have ok: "smap_ok (subscriptions mgr)" using assms(1) by (simp add: subscriptions_ok_def registry_ok_def)
  have ids: "\<forall>e \<in> set (subscriptions mgr). sub_name (snd e) = fst e \<and> sub_id (snd e) \<noteq> 0 \<and> sub_id (snd e) < 2 ^ 31"
    using assms smap_ok_in_set [OF ok] by (fastforce simp: subscriptions_ok_def registry_ok_def)
  obtain mgr' where l: "load_subscription_list (map (subscription_to_json \<circ> snd) (subscriptions mgr)) new_subscription_manager = (Inr (), mgr')"
      "max_events mgr' = max_events new_subscription_manager" "smap_ok (subscriptions mgr')"
      "map_of (subscriptions mgr') = map_of (subscriptions new_subscription_manager) ++ map_of (subscriptions mgr)"
    using load_subscription_list_saved [OF smap_ok_distinct [OF ok] ids, of new_subscription_manager]
    by (auto simp: new_subscription_manager_def)
  have "subscriptions mgr' = subscriptions mgr"
    using l by (intro smap_ext [OF l(3) ok]) (simp add: new_subscription_manager_def)
  moreover have "save_subscriptions fp mgr \<noteq> []"
    by (simp add: save_subscriptions_def get_subscriptions_json_eq write_array_eq)
  ultimately show ?thesis
    using l by (cases mgr') (simp add: load_subscriptions_def save_subscriptions_read new_subscription_manager_def)
qed

end
