(* ===== verification/Event_Queue.thy ===== *)
theory Event_Queue
  imports Prelude "HOL-Library.Multiset"
begin

text \<open>
  The queue of events and the one thread that takes them out (\<^verbatim>\<open>rest/eventing/event_queue.hpp\<close>). Times
  are those of \<^verbatim>\<open>steady_clock\<close> in nanoseconds, as integers. The mutexes make every critical section one
  step; between them other threads may push and time may pass.
\<close>

section \<open>The queue\<close>

text \<open>\<^verbatim>\<open>std::multimap\<close>: in the order of the keys, a new entry behind those with its key.\<close>

fun mm_emplace :: "int \<Rightarrow> 'e \<Rightarrow> (int \<times> 'e) list \<Rightarrow> (int \<times> 'e) list" where
  "mm_emplace t e [] = [(t, e)]"
| "mm_emplace t e (x # xs) = (if fst x \<le> t then x # mm_emplace t e xs else (t, e) # x # xs)"

record 'e event_queue =
  q_data :: "(int \<times> 'e) list"
  q_new_item :: bool

definition new_event_queue :: "'e event_queue" where
  "new_event_queue = \<lparr>q_data = [], q_new_item = False\<rparr>"

definition push_back_at :: "'e \<Rightarrow> int \<Rightarrow> 'e event_queue \<Rightarrow> 'e event_queue" where
  "push_back_at e t q = \<lparr>q_data = mm_emplace t e (q_data q), q_new_item = True\<rparr>"

definition push_back :: "'e \<Rightarrow> int \<Rightarrow> 'e event_queue \<Rightarrow> 'e event_queue" where
  "push_back e now q = push_back_at e now q"

definition push_back_delayed :: "'e \<Rightarrow> int \<Rightarrow> int \<Rightarrow> 'e event_queue \<Rightarrow> 'e event_queue" where
  "push_back_delayed e delay now q = push_back_at e (now + delay) q"

text \<open>\<^verbatim>\<open>pop\<close>, with the sign of the difference as the code has it.\<close>

definition pop_ready :: "int \<Rightarrow> 'e event_queue \<Rightarrow> 'e option \<times> 'e event_queue" where
  "pop_ready now q =
     (case q_data q of
        [] \<Rightarrow> (None, q)
      | x # xs \<Rightarrow> if now - fst x \<le> 0 then (Some (snd x), q\<lparr>q_data := xs\<rparr>) else (None, q))"

definition pop_item :: "int \<times> 'e \<Rightarrow> 'e event_queue \<Rightarrow> 'e event_queue" where
  "pop_item it q = q\<lparr>q_data := remove1 it (q_data q)\<rparr>"

definition queue_empty :: "'e event_queue \<Rightarrow> bool" where
  "queue_empty q \<longleftrightarrow> q_data q = []"

definition queue_size :: "'e event_queue \<Rightarrow> nat" where
  "queue_size q = length (q_data q)"

definition queue_clear :: "'e event_queue \<Rightarrow> 'e event_queue" where
  "queue_clear q = q\<lparr>q_data := []\<rparr>"

section \<open>The contract of a timed queue\<close>

text \<open>
  What the consumer relies on: pushing adds an entry, the first entry is one with the least time, and
  removing takes out one entry.
\<close>

locale timed_queue =
  fixes push :: "int \<Rightarrow> 'e \<Rightarrow> 'q \<Rightarrow> 'q" and first :: "'q \<Rightarrow> (int \<times> 'e) option"
    and remove :: "int \<times> 'e \<Rightarrow> 'q \<Rightarrow> 'q" and contents :: "'q \<Rightarrow> (int \<times> 'e) multiset" and invar :: "'q \<Rightarrow> bool"
  assumes contents_push: "contents (push t e q) = add_mset (t, e) (contents q)"
    and contents_remove: "x \<in># contents q \<Longrightarrow> contents (remove x q) = contents q - {#x#}"
    and first_None: "first q = None \<longleftrightarrow> contents q = {#}"
    and first_in: "first q = Some x \<Longrightarrow> x \<in># contents q"
    and first_least: "invar q \<Longrightarrow> first q = Some x \<Longrightarrow> y \<in># contents q \<Longrightarrow> fst x \<le> fst y"
    and invar_push: "invar q \<Longrightarrow> invar (push t e q)"
    and invar_remove: "invar q \<Longrightarrow> invar (remove x q)"
begin

lemma contents_remove_first: "first q = Some x \<Longrightarrow> contents q = add_mset x (contents (remove x q))"
  by (simp add: contents_remove first_in)

text \<open>A new entry becomes the first only if it is earlier than the one that was.\<close>

lemma first_after_push:
  assumes "invar q" and "first q = Some x" and "first (push t e q) = Some y" and "y \<notin># contents q"
  shows "y = (t, e) \<and> t \<le> fst x"
proof -
  have "y = (t, e)" using first_in [OF assms(3)] assms(4) by (simp add: contents_push)
  moreover have "fst y \<le> fst x"
    using first_least [OF invar_push [OF assms(1)] assms(3)] first_in [OF assms(2)] by (simp add: contents_push)
  ultimately show ?thesis by simp
qed

end

lemma mset_emplace [simp]: "mset (mm_emplace t e xs) = add_mset (t, e) (mset xs)"
  by (induction xs) auto

lemma set_emplace [simp]: "set (mm_emplace t e xs) = insert (t, e) (set xs)"
  by (metis mset_emplace set_mset_add_mset_insert set_mset_mset)

lemma sorted_emplace: "sorted (map fst xs) \<Longrightarrow> sorted (map fst (mm_emplace t e xs))"
  by (induction xs) auto

lemma sorted_remove1: "sorted (map fst xs) \<Longrightarrow> sorted (map fst (remove1 x xs))"
  by (induction xs) (auto dest: notin_set_remove1 [rotated] set_remove1_subset [THEN subsetD])

definition queue_ok :: "'e event_queue \<Rightarrow> bool" where
  "queue_ok q \<longleftrightarrow> sorted (map fst (q_data q))"

definition queue_first :: "'e event_queue \<Rightarrow> (int \<times> 'e) option" where
  "queue_first q = (case q_data q of [] \<Rightarrow> None | x # _ \<Rightarrow> Some x)"

interpretation event_queue: timed_queue "\<lambda>t e. push_back_at e t" queue_first pop_item "mset \<circ> q_data" queue_ok
proof
  fix q :: "'e event_queue" and x y
  show "queue_ok q \<Longrightarrow> queue_first q = Some x \<Longrightarrow> y \<in># (mset \<circ> q_data) q \<Longrightarrow> fst x \<le> fst y"
    by (cases "q_data q") (auto simp: queue_first_def queue_ok_def)
qed (auto simp: push_back_at_def pop_item_def queue_first_def queue_ok_def sorted_emplace sorted_remove1 split: list.splits)

section \<open>The consumer\<close>

text \<open>
  A call of \<^verbatim>\<open>wait_for_and_pop\<close>, or of \<^verbatim>\<open>wait_and_pop\<close>, which is the same with no limit to its interval (\<open>None\<close>).
  \<open>Loop\<close> is the head of its loop; \<open>Enter_wait\<close> and \<open>Waiting\<close> are the loop of \<^verbatim>\<open>wait\<close>, with the entry in
  hand, the clock and the interval when it was taken, the time left, and the clock when the current
  \<^verbatim>\<open>wait_for\<close> began; \<open>Waiting_new\<close> is the wait for something new; \<open>Popping\<close> is the call of \<^verbatim>\<open>pop_item\<close>.
\<close>

datatype 'e consumer =
    Loop "int option"
  | Enter_wait "int \<times> 'e" int "int option" int
  | Waiting "int \<times> 'e" int "int option" int int
  | Waiting_new int "int option"
  | Popping "int \<times> 'e"
  | Finished "'e option"

definition MAX_SLEEP :: int where
  "MAX_SLEEP = 12 * 3600 * 1000000000"

definition interval_left :: "int option \<Rightarrow> int \<Rightarrow> int \<Rightarrow> int option" where
  "interval_left i start now = map_option (\<lambda>x. x - (now - start)) i"

definition within :: "int \<Rightarrow> int option \<Rightarrow> bool" where
  "within sleep i = (case i of None \<Rightarrow> True | Some x \<Rightarrow> sleep \<le> x)"

text \<open>What the head of the loop does at the time \<open>now\<close>.\<close>

definition loop_head :: "int \<Rightarrow> 'e event_queue \<Rightarrow> int option \<Rightarrow> 'e consumer" where
  "loop_head now q i =
     (if within 0 i then
        (case queue_first q of
           Some it \<Rightarrow>
             if fst it - now \<le> 0 then Popping it
             else if within (fst it - now) i then Enter_wait it now i (fst it - now)
             else if i = Some 0 then Finished None else Waiting_new now i
         | None \<Rightarrow> if i = Some 0 then Finished None else Waiting_new now i)
      else Finished None)"

record 'e queue_system =
  sys_queue :: "'e event_queue"
  sys_now :: int
  sys_consumer :: "'e consumer"
  sys_pushed :: "(int \<times> 'e) list"
  sys_popped :: "((int \<times> 'e) \<times> int) list"

text \<open>
  The steps: time passes; another thread pushes; the consumer goes on. A wait ends early when there
  is a new item, and at its time only if there is none.
\<close>

inductive queue_step :: "'e queue_system \<Rightarrow> 'e queue_system \<Rightarrow> bool" where
  tick: "sys_now s \<le> t \<Longrightarrow> queue_step s (s\<lparr>sys_now := t\<rparr>)"
| push: "queue_step s (s\<lparr>sys_queue := push_back_delayed e delay (sys_now s) (sys_queue s),
    sys_pushed := (sys_now s + delay, e) # sys_pushed s\<rparr>)"
| head: "sys_consumer s = Loop i \<Longrightarrow> queue_step s (s\<lparr>sys_consumer := loop_head (sys_now s) (sys_queue s) i\<rparr>)"
| enter_wait: "sys_consumer s = Enter_wait it start i left \<Longrightarrow> 0 < left
    \<Longrightarrow> queue_step s (s\<lparr>sys_consumer := Waiting it start i (sys_now s) left\<rparr>)"
| waited: "sys_consumer s = Enter_wait it start i left \<Longrightarrow> left \<le> 0
    \<Longrightarrow> queue_step s (s\<lparr>sys_consumer := Popping it\<rparr>)"
| woken: "sys_consumer s = Waiting it start i wstart left \<Longrightarrow> q_new_item (sys_queue s)
    \<Longrightarrow> queue_step s (s\<lparr>sys_queue := (sys_queue s)\<lparr>q_new_item := False\<rparr>,
          sys_consumer := Loop (interval_left i start (sys_now s))\<rparr>)"
| timeout: "sys_consumer s = Waiting it start i wstart left \<Longrightarrow> \<not> q_new_item (sys_queue s)
    \<Longrightarrow> wstart + min left MAX_SLEEP \<le> sys_now s
    \<Longrightarrow> queue_step s (s\<lparr>sys_consumer := Enter_wait it start i (left - (sys_now s - wstart))\<rparr>)"
| new_item: "sys_consumer s = Waiting_new start i \<Longrightarrow> q_new_item (sys_queue s)
    \<Longrightarrow> queue_step s (s\<lparr>sys_queue := (sys_queue s)\<lparr>q_new_item := False\<rparr>,
          sys_consumer := Loop (interval_left i start (sys_now s))\<rparr>)"
| no_item: "sys_consumer s = Waiting_new start (Some x) \<Longrightarrow> \<not> q_new_item (sys_queue s)
    \<Longrightarrow> start + x \<le> sys_now s
    \<Longrightarrow> queue_step s (s\<lparr>sys_consumer := Loop (interval_left (Some x) start (sys_now s))\<rparr>)"
| pop: "sys_consumer s = Popping it
    \<Longrightarrow> queue_step s (s\<lparr>sys_queue := pop_item it (sys_queue s), sys_consumer := Finished (Some (snd it)),
          sys_popped := (it, sys_now s) # sys_popped s\<rparr>)"
| call: "sys_consumer s = Finished r \<Longrightarrow> queue_step s (s\<lparr>sys_consumer := Loop i\<rparr>)"

inductive_cases queue_stepE: "queue_step s s'"

definition initial_queue_system :: "int \<Rightarrow> 'e queue_system" where
  "initial_queue_system t = \<lparr>sys_queue = new_event_queue, sys_now = t, sys_consumer = Finished None,
     sys_pushed = [], sys_popped = []\<rparr>"

text \<open>
  An entry in hand is in the queue, it has waited for its time when the waiting is over, and it is
  the first unless something new was announced. Who waits without limit waits for an empty queue.
\<close>

definition in_hand :: "'e event_queue \<Rightarrow> int \<times> 'e \<Rightarrow> bool" where
  "in_hand q it \<longleftrightarrow> it \<in># mset (q_data q) \<and> (queue_first q = Some it \<or> q_new_item q)"

fun consumer_ok :: "'e event_queue \<Rightarrow> int \<Rightarrow> 'e consumer \<Rightarrow> bool" where
  "consumer_ok q now (Enter_wait it start i left) \<longleftrightarrow> in_hand q it \<and> fst it \<le> now + left"
| "consumer_ok q now (Waiting it start i wstart left) \<longleftrightarrow> in_hand q it \<and> fst it \<le> wstart + left \<and> wstart \<le> now"
| "consumer_ok q now (Popping it) \<longleftrightarrow> in_hand q it \<and> fst it \<le> now"
| "consumer_ok q now (Waiting_new start i) \<longleftrightarrow> (i = None \<longrightarrow> queue_first q = None \<or> q_new_item q)"
| "consumer_ok q now c \<longleftrightarrow> True"

definition queue_system_ok :: "'e queue_system \<Rightarrow> bool" where
  "queue_system_ok s \<longleftrightarrow> queue_ok (sys_queue s) \<and> consumer_ok (sys_queue s) (sys_now s) (sys_consumer s)
     \<and> mset (sys_pushed s) = mset (map fst (sys_popped s)) + mset (q_data (sys_queue s))
     \<and> (\<forall>p \<in> set (sys_popped s). fst (fst p) \<le> snd p)"

lemma loop_head_ok: "consumer_ok q now (loop_head now q i)"
  using event_queue.first_in [of q]
  by (auto simp: loop_head_def in_hand_def within_def split: option.split)

lemma consumer_ok_later: "consumer_ok q now c \<Longrightarrow> now \<le> now' \<Longrightarrow> consumer_ok q now' c"
  by (cases c) auto

lemma consumer_ok_push: "consumer_ok q now c \<Longrightarrow> consumer_ok (push_back_at e t q) now c"
  by (cases c) (auto simp: in_hand_def push_back_at_def)

lemma queue_step_ok: "queue_step s s' \<Longrightarrow> queue_system_ok s \<Longrightarrow> queue_system_ok s'"
proof (induction rule: queue_step.induct)
  case (pop s it)
  then have "mset (q_data (sys_queue s)) = add_mset it (mset (q_data (pop_item it (sys_queue s))))"
    using event_queue.contents_remove [of it "sys_queue s"] by (simp add: queue_system_ok_def in_hand_def)
  with pop show ?case
    by (auto simp: queue_system_ok_def event_queue.invar_remove)
next
  case (push s delay e)
  then show ?case
    using event_queue.contents_push [of e "sys_now s + delay" "sys_queue s"]
    by (auto simp: queue_system_ok_def push_back_delayed_def event_queue.invar_push consumer_ok_push)
qed (auto simp: queue_system_ok_def consumer_ok_later loop_head_ok in_hand_def queue_ok_def)

lemma queue_reachable_ok:
  assumes "queue_step\<^sup>*\<^sup>* (initial_queue_system t) s"
  shows "queue_system_ok s"
  using assms
proof (induction rule: rtranclp_induct)
  case base
  then show ?case by (simp add: queue_system_ok_def initial_queue_system_def new_event_queue_def queue_ok_def)
qed (rule queue_step_ok)

text \<open>
  C12: Delivery: whatever the pushing threads and the clock do, every entry that was pushed is either still in
  the queue or was taken out, once; none was taken out before its time; and the one about to be taken is
  one with the least time, unless something new was announced since it was looked at.
\<close>

theorem event_queue_delivery:
  assumes "queue_step\<^sup>*\<^sup>* (initial_queue_system t0) s"
  shows "mset (sys_pushed s) = mset (map fst (sys_popped s)) + mset (q_data (sys_queue s))
    \<and> (\<forall>it t. (it, t) \<in> set (sys_popped s) \<longrightarrow> fst it \<le> t)
    \<and> (\<forall>it. sys_consumer s = Popping it \<longrightarrow>
        q_new_item (sys_queue s) \<or> (\<forall>x \<in> set (q_data (sys_queue s)). fst it \<le> fst x))"
proof -
  have ok: "queue_system_ok s" using assms by (rule queue_reachable_ok)
  have "fst it \<le> fst x" if "sys_consumer s = Popping it" "\<not> q_new_item (sys_queue s)" "x \<in> set (q_data (sys_queue s))" for it x
    using ok that event_queue.first_least [of "sys_queue s" it x] by (auto simp: queue_system_ok_def in_hand_def)
  with ok show ?thesis by (fastforce simp: queue_system_ok_def)
qed

section \<open>No entry is forgotten\<close>

text \<open>Steps of the clock and the consumer only.\<close>

definition quiet_step :: "'e queue_system \<Rightarrow> 'e queue_system \<Rightarrow> bool" where
  "quiet_step s s' \<longleftrightarrow> queue_step s s' \<and> sys_pushed s' = sys_pushed s"

definition can_pop :: "'e queue_system \<Rightarrow> bool" where
  "can_pop s \<longleftrightarrow> (\<exists>s' it. quiet_step\<^sup>*\<^sup>* s s' \<and> sys_popped s' = it # sys_popped s)"

lemma can_pop_step:
  assumes "quiet_step s s'" and "sys_popped s' = sys_popped s" and "can_pop s'"
  shows "can_pop s"
  using assms unfolding can_pop_def by (metis converse_rtranclp_into_rtranclp)

lemma can_pop_popping: "sys_consumer s = Popping it \<Longrightarrow> can_pop s"
  unfolding can_pop_def by (intro exI conjI, rule r_into_rtranclp) (auto simp: quiet_step_def intro: queue_step.pop)

lemma can_pop_tick: "sys_now s \<le> t \<Longrightarrow> can_pop (s\<lparr>sys_now := t\<rparr>) \<Longrightarrow> can_pop s"
  by (rule can_pop_step [of s "s\<lparr>sys_now := t\<rparr>"]) (simp_all add: quiet_step_def queue_step.tick)

lemma loop_head_due:
  "queue_first q = Some it \<Longrightarrow> fst it \<le> now \<Longrightarrow> loop_head now q i = (if within 0 i then Popping it else Finished None)"
  by (simp add: loop_head_def)

lemma can_pop_loop_none:
  assumes "queue_first (sys_queue s) = Some it" and "sys_consumer s = Loop None"
  shows "can_pop s"
proof (rule can_pop_tick [of s "max (sys_now s) (fst it)"])
  let ?s = "s\<lparr>sys_now := max (sys_now s) (fst it)\<rparr>"
  have "quiet_step ?s (?s\<lparr>sys_consumer := Popping it\<rparr>)"
    using queue_step.head [of ?s None] assms by (simp add: quiet_step_def loop_head_def within_def)
  then show "can_pop ?s" by (rule can_pop_step) (auto intro: can_pop_popping)
qed simp

lemma can_pop_finished:
  assumes "queue_first (sys_queue s) = Some it" and "sys_consumer s = Finished r"
  shows "can_pop s"
proof (rule can_pop_step)
  show "quiet_step s (s\<lparr>sys_consumer := Loop None\<rparr>)"
    using assms(2) by (simp add: quiet_step_def queue_step.call)
qed (use assms(1) in \<open>auto intro: can_pop_loop_none\<close>)

lemma can_pop_loop:
  assumes "queue_first (sys_queue s) = Some it" and "sys_consumer s = Loop i"
  shows "can_pop s"
proof (rule can_pop_tick [of s "max (sys_now s) (fst it)"])
  let ?s = "s\<lparr>sys_now := max (sys_now s) (fst it)\<rparr>"
  have "quiet_step ?s (?s\<lparr>sys_consumer := if within 0 i then Popping it else Finished None\<rparr>)"
    using queue_step.head [of ?s i] assms by (simp add: quiet_step_def loop_head_due [OF assms(1)])
  then show "can_pop ?s"
    by (rule can_pop_step) (use assms(1) in \<open>auto intro: can_pop_popping can_pop_finished\<close>)
qed simp

lemma can_pop_woken:
  assumes "queue_first (sys_queue s) = Some it" and "q_new_item (sys_queue s)"
    and "sys_consumer s = Waiting x start i wstart left \<or> sys_consumer s = Waiting_new start i"
  shows "can_pop s"
proof (rule can_pop_step)
  show "quiet_step s (s\<lparr>sys_queue := (sys_queue s)\<lparr>q_new_item := False\<rparr>,
      sys_consumer := Loop (interval_left i start (sys_now s))\<rparr>)"
    using assms(2,3) by (auto simp: quiet_step_def intro: queue_step.woken queue_step.new_item)
  show "can_pop (s\<lparr>sys_queue := (sys_queue s)\<lparr>q_new_item := False\<rparr>,
      sys_consumer := Loop (interval_left i start (sys_now s))\<rparr>)"
    using assms(1) by (intro can_pop_loop) (auto simp: queue_first_def)
qed simp

lemma can_pop_waiting:
  assumes "queue_first (sys_queue s) = Some it" and c: "sys_consumer s = Waiting x start i wstart left"
  shows "can_pop s"
proof (cases "q_new_item (sys_queue s)")
  case True
  then show ?thesis using assms by (intro can_pop_woken) auto
next
  case False
  let ?s = "s\<lparr>sys_now := max (sys_now s) (wstart + left)\<rparr>"
  let ?s1 = "?s\<lparr>sys_consumer := Enter_wait x start i (left - (sys_now ?s - wstart))\<rparr>"
  have "quiet_step ?s ?s1"
    using queue_step.timeout [of ?s x start i wstart left] c False by (simp add: quiet_step_def)
  note step = this
  have "quiet_step ?s1 (?s1\<lparr>sys_consumer := Popping x\<rparr>)"
    using queue_step.waited [of ?s1 x] by (simp add: quiet_step_def)
  then have "can_pop ?s1" by (rule can_pop_step) (auto intro: can_pop_popping)
  with step have "can_pop ?s" by (intro can_pop_step [of ?s ?s1]) simp_all
  then show ?thesis by (rule can_pop_tick [rotated]) simp
qed

text \<open>
  C13: No entry is forgotten: in whatever state the system is, if the queue is not empty, the consumer takes an
  entry out after finitely many of its own steps once enough time has passed, without any further
  push. No wake-up is lost.
\<close>

theorem event_queue_no_lost_wakeup:
  assumes "queue_step\<^sup>*\<^sup>* (initial_queue_system t0) s" and "q_data (sys_queue s) \<noteq> []"
  shows "\<exists>s' it. quiet_step\<^sup>*\<^sup>* s s' \<and> sys_popped s' = it # sys_popped s"
proof -
  obtain it where it: "queue_first (sys_queue s) = Some it"
    using assms(2) by (cases "q_data (sys_queue s)") (auto simp: queue_first_def)
  have "can_pop s"
  proof (cases "sys_consumer s")
    case (Enter_wait x start i left)
    show ?thesis
    proof (cases "0 < left")
      case True
      with Enter_wait have "quiet_step s (s\<lparr>sys_consumer := Waiting x start i (sys_now s) left\<rparr>)"
        by (simp add: quiet_step_def queue_step.enter_wait)
      then show ?thesis by (rule can_pop_step) (use it in \<open>auto intro: can_pop_waiting\<close>)
    next
      case False
      with Enter_wait have "quiet_step s (s\<lparr>sys_consumer := Popping x\<rparr>)"
        by (auto simp: quiet_step_def intro: queue_step.waited)
      then show ?thesis by (rule can_pop_step) (auto intro: can_pop_popping)
    qed
  next
    case (Waiting_new start i)
    show ?thesis
    proof (cases "q_new_item (sys_queue s)")
      case True
      then show ?thesis using it Waiting_new by (intro can_pop_woken) auto
    next
      case False
      then obtain x where i: "i = Some x"
        using queue_reachable_ok [OF assms(1)] Waiting_new it by (auto simp: queue_system_ok_def)
      let ?s = "s\<lparr>sys_now := max (sys_now s) (start + x)\<rparr>"
      have "quiet_step ?s (?s\<lparr>sys_consumer := Loop (interval_left (Some x) start (sys_now ?s))\<rparr>)"
        using queue_step.no_item [of ?s start x] Waiting_new i False by (simp add: quiet_step_def)
      then have "can_pop ?s" by (rule can_pop_step) (use it in \<open>auto intro: can_pop_loop\<close>)
      then show ?thesis by (rule can_pop_tick [rotated]) simp
    qed
  qed (use it in \<open>auto intro: can_pop_loop can_pop_waiting can_pop_popping can_pop_finished\<close>)
  then show ?thesis by (simp add: can_pop_def)
qed

text \<open>
  \<^verbatim>\<open>pop\<close> does the opposite of what its comment says: it hands out the first entry only while its time has not
  passed, and never an entry that is overdue.
\<close>

lemma pop_ready_inverted:
  "fst (pop_ready now q) = Some e \<longleftrightarrow> (\<exists>t rest. q_data q = (t, e) # rest \<and> now \<le> t)"
  by (cases "q_data q") (auto simp: pop_ready_def)

end
