(* ===== verification/Event_Service.thy ===== *)
theory Event_Service
  imports Subscription_Manager Event_Queue
begin

text \<open>
  Events and their delivery (\<^verbatim>\<open>rest/eventing/event.cpp\<close>, \<^verbatim>\<open>event_service.cpp\<close>): an event is sent to every
  subscription of its type; one that cannot be reached has the event queued again. The network is a
  parameter: whether posting a text to a destination, as the n-th of a round, succeeds.
\<close>

section \<open>Events\<close>

record event =
  ev_type :: event_type
  ev_id :: string
  ev_timestamp :: int
  ev_severity :: string
  ev_message :: string
  ev_message_id :: string
  ev_message_args :: "string list"
  ev_context :: string
  ev_origin :: string
  ev_subscriber_id :: string
  ev_retries :: "32 word"

text \<open>A new event, with the unique id and the time it is given.\<close>

definition new_event :: "string \<Rightarrow> int \<Rightarrow> event_type \<Rightarrow> string \<Rightarrow> event" where
  "new_event uuid now ty origin = \<lparr>ev_type = ty, ev_id = uuid, ev_timestamp = now, ev_severity = ''OK'',
     ev_message = ''Successfully Completed Request'', ev_message_id = ''Base.1.0.0.Success'', ev_message_args = [],
     ev_context = [], ev_origin = origin, ev_subscriber_id = [], ev_retries = 0\<rparr>"

definition event_to_json :: "(int \<Rightarrow> string) \<Rightarrow> event \<Rightarrow> json" where
  "event_to_json time_with_zone e = json_object
     [(''EventType'', JString (event_type_string (ev_type e))), (''EventId'', JString (ev_id e)),
      (''EventTimestamp'', JString (time_with_zone (ev_timestamp e))), (''Severity'', JString (ev_severity e)),
      (''Message'', JString (ev_message e)), (''MessageId'', JString (ev_message_id e)),
      (''MessageArgs'', foldl (\<lambda>j a. json_push_back (JString a) j) (JArray []) (ev_message_args e)),
      (''OriginOfCondition'', JString (ev_origin e)), (''Context'', JString (ev_context e))]"

definition create_notification :: "json \<Rightarrow> json" where
  "create_notification e =
     (let n = foldl (\<lambda>v m. set_member (fst m) (snd m) v) JNil
        [(''@odata.context'', JString ''/rest/v1/$metadata#EventService/Members/Events/1''),
         (''@odata.id'', JString ''/rest/v1/EventService/Events/1''), (''@odata.type'', JString ''#EventService.1.0.0.Event''),
         (''Id'', JString ''1''), (''Name'', JString ''Event Array''), (''Description'', JString ''Events'')]
      in set_member ''Events'' (json_push_back e JNil) n)"

section \<open>The service\<close>

record event_service =
  es_attempts :: "32 word"
  es_interval :: int

text \<open>A subscription that lists the type twice is selected twice.\<close>

definition select_subscribers :: "subscription_manager \<Rightarrow> event \<Rightarrow> subscription list" where
  "select_subscribers mgr e =
     concat (map (\<lambda>item. map (\<lambda>_. snd item) (filter (\<lambda>t. t = ev_type e) (sub_event_types (snd item)))) (subscriptions mgr))"

definition post_event :: "event \<Rightarrow> int \<Rightarrow> int \<Rightarrow> event event_queue \<Rightarrow> event event_queue" where
  "post_event e delay now q = push_back_delayed e delay now q"

definition event_for :: "subscription \<Rightarrow> event \<Rightarrow> event" where
  "event_for s e = e\<lparr>ev_subscriber_id := dec_of_nat (sub_id s), ev_context := sub_context s\<rparr>"

record network =
  net_fpu :: fpu
  net_time_with_zone :: "int \<Rightarrow> string"
  net_deliver :: "nat \<Rightarrow> string \<Rightarrow> string \<Rightarrow> bool"

definition send_event :: "network \<Rightarrow> event_service \<Rightarrow> nat \<Rightarrow> int \<Rightarrow> event \<Rightarrow> subscription
    \<Rightarrow> event event_queue \<Rightarrow> event event_queue" where
  "send_event net svc i now e s q =
     (let e1 = event_for s e;
          notification = write_value (net_fpu net) (create_notification (event_to_json (net_time_with_zone net) e1))
      in if net_deliver net i (sub_destination s) notification then q
         else (let retry = e1\<lparr>ev_retries := ev_retries e1 + 1\<rparr>
               in if ev_retries retry < es_attempts svc then post_event retry (es_interval svc) now q else q))"

fun send_to_all :: "network \<Rightarrow> event_service \<Rightarrow> nat \<Rightarrow> int \<Rightarrow> event \<Rightarrow> subscription list
    \<Rightarrow> event event_queue \<Rightarrow> event event_queue" where
  "send_to_all net svc i now e [] q = q"
| "send_to_all net svc i now e (s # ss) q = send_to_all net svc (Suc i) now e ss (send_event net svc i now e s q)"

text \<open>One event taken out of the queue and sent: the queue that is left, and who was sent it.\<close>

definition handle_event :: "network \<Rightarrow> event_service \<Rightarrow> subscription_manager \<Rightarrow> int \<Rightarrow> event
    \<Rightarrow> event event_queue \<Rightarrow> event event_queue \<times> subscription list" where
  "handle_event net svc mgr now e q =
     (let subscribers = select_subscribers mgr e in (send_to_all net svc 0 now e subscribers q, subscribers))"

record delivery =
  dl_queue :: "event event_queue"
  dl_sent :: "subscription list"

text \<open>
  One turn of \<^verbatim>\<open>m_handle_events\<close>: the first event, once its time has come, is taken out and sent. The log
  \<open>dl_sent\<close> holds a subscription once for every notification posted to it.
\<close>

inductive delivery_step :: "network \<Rightarrow> event_service \<Rightarrow> subscription_manager \<Rightarrow> delivery \<Rightarrow> delivery \<Rightarrow> bool"
  for net svc mgr where
  deliver: "queue_first (dl_queue d) = Some it \<Longrightarrow> fst it \<le> now
    \<Longrightarrow> handle_event net svc mgr now (snd it) (pop_item it (dl_queue d)) = (q, sent)
    \<Longrightarrow> delivery_step net svc mgr d \<lparr>dl_queue = q, dl_sent = sent @ dl_sent d\<rparr>"

inductive_cases delivery_stepE: "delivery_step net svc mgr d d'"

section \<open>What failing subscribers cost\<close>

text \<open>
  With \<open>f\<close> unreachable subscribers of its type every event that is sent queues \<open>f\<close> copies of itself, each for
  all the subscribers again: the rounds that follow from one event with \<open>n\<close> attempts left.
\<close>

definition rounds :: "nat \<Rightarrow> nat \<Rightarrow> nat" where
  "rounds f n = (\<Sum>i<n. f ^ i)"

lemma rounds_0 [simp]: "rounds f 0 = 0"
  by (simp add: rounds_def)

lemma rounds_Suc [simp]: "rounds f (Suc n) = 1 + f * rounds f n"
  by (simp only: rounds_def sum.lessThan_Suc_shift sum_distrib_left power_Suc) simp

definition subscribers_of :: "subscription_manager \<Rightarrow> event_type \<Rightarrow> subscription list" where
  "subscribers_of mgr ty = select_subscribers mgr (new_event [] 0 ty [])"

lemma select_subscribers_of: "select_subscribers mgr e = subscribers_of mgr (ev_type e)"
  by (simp add: subscribers_of_def select_subscribers_def new_event_def)

definition failing :: "string set \<Rightarrow> subscription_manager \<Rightarrow> event_type \<Rightarrow> nat" where
  "failing down mgr ty = length (filter (\<lambda>s. sub_destination s \<in> down) (subscribers_of mgr ty))"

definition attempts_of :: "event_service \<Rightarrow> nat" where
  "attempts_of svc = max 1 (unat (es_attempts svc))"

definition retry_ok :: "event_service \<Rightarrow> event \<Rightarrow> bool" where
  "retry_ok svc e \<longleftrightarrow> unat (ev_retries e) < attempts_of svc"

definition retry_of :: "event \<Rightarrow> subscription \<Rightarrow> event" where
  "retry_of e s = (event_for s e)\<lparr>ev_retries := ev_retries e + 1\<rparr>"

lemma retry_of_simps [simp]: "ev_type (retry_of e s) = ev_type e" "ev_retries (retry_of e s) = ev_retries e + 1"
  by (simp_all add: retry_of_def event_for_def)

lemma retry_word:
  assumes "retry_ok svc e"
  shows "ev_retries e + 1 < es_attempts svc \<longleftrightarrow> Suc (unat (ev_retries e)) < attempts_of svc"
    and "Suc (unat (ev_retries e)) < attempts_of svc \<Longrightarrow> unat (ev_retries e + 1) = Suc (unat (ev_retries e))"
proof -
  have "unat (ev_retries e + 1) = Suc (unat (ev_retries e))" if "Suc (unat (ev_retries e)) < 2 ^ 32"
    using that by (simp add: unat_word_ariths)
  moreover have "unat (es_attempts svc) < 2 ^ 32" using unsigned_less [of "es_attempts svc"] by simp
  moreover have "ev_retries e + 1 = 0" if "\<not> Suc (unat (ev_retries e)) < 2 ^ 32"
  proof -
    have "unat (ev_retries e) < 2 ^ 32" using unsigned_less [of "ev_retries e"] by simp
    with that have "Suc (unat (ev_retries e)) = 2 ^ 32" by simp
    then show ?thesis by (simp add: unat_word_ariths word_unat_eq_iff)
  qed
  ultimately show "ev_retries e + 1 < es_attempts svc \<longleftrightarrow> Suc (unat (ev_retries e)) < attempts_of svc"
    and "Suc (unat (ev_retries e)) < attempts_of svc \<Longrightarrow> unat (ev_retries e + 1) = Suc (unat (ev_retries e))"
    using assms by (auto simp: retry_ok_def attempts_of_def word_less_nat_alt)
qed

text \<open>Who is unreachable is so for every text, as often as it is tried.\<close>

definition network_down :: "network \<Rightarrow> string set \<Rightarrow> bool" where
  "network_down net down \<longleftrightarrow> (\<forall>i d txt. net_deliver net i d txt \<longleftrightarrow> d \<notin> down)"

lemma send_to_all_contents:
  assumes "network_down net down" and "retry_ok svc e"
  shows "mset (q_data (send_to_all net svc i now e ss q)) = mset (q_data q) +
    (if Suc (unat (ev_retries e)) < attempts_of svc
     then mset (map (\<lambda>s. (now + es_interval svc, retry_of e s)) (filter (\<lambda>s. sub_destination s \<in> down) ss)) else {#})"
proof (induction ss arbitrary: i q)
  case (Cons s ss)
  have "mset (q_data (send_event net svc i now e s q)) = mset (q_data q) +
    (if sub_destination s \<in> down \<and> Suc (unat (ev_retries e)) < attempts_of svc
     then {#(now + es_interval svc, retry_of e s)#} else {#})"
    using assms(1) retry_word(1) [OF assms(2)]
    by (simp add: send_event_def Let_def network_down_def post_event_def push_back_delayed_def push_back_at_def
        retry_of_def event_for_def)
  with Cons.IH show ?case by simp
qed simp

text \<open>
  A quantity that every turn keeps: \<open>c\<close> for every event sent so far, and for every event in the queue
  \<open>c\<close> times the rounds it still causes.
\<close>

definition outstanding :: "string set \<Rightarrow> event_service \<Rightarrow> subscription_manager \<Rightarrow> (event_type \<Rightarrow> nat)
    \<Rightarrow> (int \<times> event) multiset \<Rightarrow> nat" where
  "outstanding down svc mgr c M = (\<Sum>it\<in>#M. c (ev_type (snd it))
     * rounds (failing down mgr (ev_type (snd it))) (attempts_of svc - unat (ev_retries (snd it))))"

lemma outstanding_simps [simp]:
  "outstanding down svc mgr c {#} = 0"
  "outstanding down svc mgr c (M + N) = outstanding down svc mgr c M + outstanding down svc mgr c N"
  "outstanding down svc mgr c (add_mset it M) = c (ev_type (snd it))
     * rounds (failing down mgr (ev_type (snd it))) (attempts_of svc - unat (ev_retries (snd it)))
     + outstanding down svc mgr c M"
  by (simp_all add: outstanding_def)

lemma outstanding_retries:
  assumes "retry_ok svc e" and "Suc (unat (ev_retries e)) < attempts_of svc"
  shows "outstanding down svc mgr c (mset (map (\<lambda>s. (t, retry_of e s)) ss)) = length ss * (c (ev_type e)
     * rounds (failing down mgr (ev_type e)) (attempts_of svc - Suc (unat (ev_retries e))))"
  using retry_word(2) [OF assms] by (induction ss) simp_all

definition queue_retries_ok :: "event_service \<Rightarrow> event event_queue \<Rightarrow> bool" where
  "queue_retries_ok svc q \<longleftrightarrow> (\<forall>it \<in> set (q_data q). retry_ok svc (snd it))"

lemma delivery_step_outstanding:
  assumes "network_down net down" and "delivery_step net svc mgr d d'" and "queue_retries_ok svc (dl_queue d)"
  shows "\<exists>ty. outstanding down svc mgr c (mset (q_data (dl_queue d))) = c ty + outstanding down svc mgr c (mset (q_data (dl_queue d')))
    \<and> dl_sent d' = subscribers_of mgr ty @ dl_sent d \<and> queue_retries_ok svc (dl_queue d')
    \<and> (\<exists>it. queue_first (dl_queue d) = Some it \<and> ev_type (snd it) = ty)"
proof -
  obtain it now q sent where 1: "d' = \<lparr>dl_queue = q, dl_sent = sent @ dl_sent d\<rparr>"
      "queue_first (dl_queue d) = Some it" "fst it \<le> now"
      "handle_event net svc mgr now (snd it) (pop_item it (dl_queue d)) = (q, sent)"
    using assms(2) by (rule delivery_stepE) blast
  let ?e = "snd it" and ?M = "mset (q_data (pop_item it (dl_queue d)))"
  let ?ss = "subscribers_of mgr (ev_type ?e)"
  have M: "mset (q_data (dl_queue d)) = add_mset it ?M"
    using event_queue.contents_remove_first [OF 1(2)] by simp
  then have "it \<in> set (q_data (dl_queue d))" by (metis set_mset_mset union_single_eq_member)
  then have ok: "retry_ok svc ?e" using assms(3) by (simp add: queue_retries_ok_def)
  have q: "q = send_to_all net svc 0 now ?e ?ss (pop_item it (dl_queue d))" "sent = ?ss"
    using 1(4) by (auto simp: handle_event_def select_subscribers_of Let_def)
  have Mq: "mset (q_data q) = ?M + (if Suc (unat (ev_retries ?e)) < attempts_of svc
     then mset (map (\<lambda>s. (now + es_interval svc, retry_of ?e s)) (filter (\<lambda>s. sub_destination s \<in> down) ?ss)) else {#})"
    unfolding q(1) by (rule send_to_all_contents [OF assms(1) ok])
  have "outstanding down svc mgr c (mset (q_data (dl_queue d))) = c (ev_type ?e) + outstanding down svc mgr c (mset (q_data q))"
  proof (cases "Suc (unat (ev_retries ?e)) < attempts_of svc")
    case True
    then have "attempts_of svc - unat (ev_retries ?e) = Suc (attempts_of svc - Suc (unat (ev_retries ?e)))" by simp
    with True show ?thesis
      by (simp only: M Mq outstanding_simps outstanding_retries [OF ok True] if_True rounds_Suc failing_def [symmetric])
        (simp add: algebra_simps)
  next
    case False
    with ok have "attempts_of svc - unat (ev_retries ?e) = Suc 0" by (simp add: retry_ok_def)
    with False show ?thesis by (simp add: M Mq)
  qed
  moreover have "queue_retries_ok svc q"
  proof -
    have "set (q_data q) = set_mset (mset (q_data q))" by simp
    also have "\<dots> \<subseteq> set_mset (mset (q_data (dl_queue d))) \<union>
        (if Suc (unat (ev_retries ?e)) < attempts_of svc then {(now + es_interval svc, retry_of ?e s) | s. True} else {})"
      unfolding M Mq by auto
    finally show ?thesis
      using assms(3) retry_word(2) [OF ok] by (fastforce simp: queue_retries_ok_def retry_ok_def split: if_splits)
  qed
  ultimately show ?thesis using 1 q by (intro exI [of _ "ev_type ?e"]) auto
qed

lemma delivery_run:
  assumes "network_down net down" and "(delivery_step net svc mgr ^^ n) d0 d" and "queue_retries_ok svc (dl_queue d0)"
  shows "\<exists>tys. length tys = n \<and> dl_sent d = concat (map (subscribers_of mgr) tys) @ dl_sent d0 \<and> queue_retries_ok svc (dl_queue d)
    \<and> (\<forall>c. outstanding down svc mgr c (mset (q_data (dl_queue d0)))
        = sum_list (map c tys) + outstanding down svc mgr c (mset (q_data (dl_queue d))))"
  using assms(2)
proof (induction n arbitrary: d)
  case 0
  with assms(3) show ?case by auto
next
  case (Suc n)
  then obtain d1 where d1: "(delivery_step net svc mgr ^^ n) d0 d1" "delivery_step net svc mgr d1 d" by auto
  from Suc.IH [OF d1(1)] obtain tys where tys: "length tys = n" "dl_sent d1 = concat (map (subscribers_of mgr) tys) @ dl_sent d0"
      "queue_retries_ok svc (dl_queue d1)" "\<forall>c. outstanding down svc mgr c (mset (q_data (dl_queue d0)))
        = sum_list (map c tys) + outstanding down svc mgr c (mset (q_data (dl_queue d1)))"
    by blast
  note step = delivery_step_outstanding [OF assms(1) d1(2) tys(3)]
  obtain ty it where ty: "dl_sent d = subscribers_of mgr ty @ dl_sent d1" "queue_retries_ok svc (dl_queue d)"
      "queue_first (dl_queue d1) = Some it" "ev_type (snd it) = ty"
    using step by blast
  have "outstanding down svc mgr c (mset (q_data (dl_queue d1))) = c ty + outstanding down svc mgr c (mset (q_data (dl_queue d)))" for c
    using step [of c] ty(3,4) by auto
  with tys ty show ?case by (intro exI [of _ "ty # tys"]) auto
qed

lemma outstanding_empty_iff:
  assumes "queue_retries_ok svc q"
  shows "outstanding down svc mgr (\<lambda>_. 1) (mset (q_data q)) = 0 \<longleftrightarrow> q_data q = []"
proof (cases "q_data q")
  case (Cons it xs)
  then have "0 < attempts_of svc - unat (ev_retries (snd it))" using assms by (simp add: queue_retries_ok_def retry_ok_def)
  then obtain k where "attempts_of svc - unat (ev_retries (snd it)) = Suc k" by (metis gr0_conv_Suc)
  with Cons show ?thesis by simp
qed simp

text \<open>
  C14: Delivery ends: however many subscribers cannot be reached, the turns that follow from the events in
  the queue are finitely many, and their number is known in advance. The queue is empty exactly
  after that many.
\<close>

theorem delivery_terminates:
  assumes "network_down net down" and "queue_retries_ok svc (dl_queue d0)" and "(delivery_step net svc mgr ^^ n) d0 d"
  shows "n \<le> outstanding down svc mgr (\<lambda>_. 1) (mset (q_data (dl_queue d0)))
    \<and> (q_data (dl_queue d) = [] \<longleftrightarrow> n = outstanding down svc mgr (\<lambda>_. 1) (mset (q_data (dl_queue d0))))"
proof -
  obtain tys where tys: "length tys = n" "queue_retries_ok svc (dl_queue d)"
      "\<forall>c. outstanding down svc mgr c (mset (q_data (dl_queue d0)))
        = sum_list (map c tys) + outstanding down svc mgr c (mset (q_data (dl_queue d)))"
    using delivery_run [OF assms(1,3,2)] by blast
  note all = spec [OF tys(3), of "\<lambda>_. 1"]
  have "sum_list (map (\<lambda>_. 1) tys) = n" using tys(1) by (simp add: sum_list_triv)
  with all outstanding_empty_iff [OF tys(2), of down mgr] show ?thesis by linarith
qed

text \<open>
  C15: What one unreachable subscriber costs the others: an event queued again is sent to every subscription
  of its type, so when everything has been delivered each of them was sent the event once for
  every round, \<open>1 + f + \<dots> + f ^ (attempts - 1)\<close> times with \<open>f\<close> unreachable ones.
\<close>

theorem retry_storm:
  assumes "network_down net down" and "ev_retries e = 0"
    and "(delivery_step net svc mgr)\<^sup>*\<^sup>* \<lparr>dl_queue = post_event e 0 t new_event_queue, dl_sent = []\<rparr> d"
    and "q_data (dl_queue d) = []"
  shows "count_list (dl_sent d) s =
    count_list (select_subscribers mgr e) s * (\<Sum>i<max 1 (unat (es_attempts svc)). failing down mgr (ev_type e) ^ i)"
proof -
  let ?d0 = "\<lparr>dl_queue = post_event e 0 t new_event_queue, dl_sent = []\<rparr>" and ?n = "count_list (subscribers_of mgr (ev_type e)) s"
  have q0: "q_data (dl_queue ?d0) = [(t, e)]"
    by (simp add: post_event_def push_back_delayed_def push_back_at_def new_event_queue_def)
  then have "queue_retries_ok svc (dl_queue ?d0)" using assms(2) by (simp add: queue_retries_ok_def retry_ok_def attempts_of_def)
  with assms(1,3) obtain n tys where tys: "dl_sent d = concat (map (subscribers_of mgr) tys)"
      "\<forall>c. outstanding down svc mgr c (mset (q_data (dl_queue ?d0))) = sum_list (map c tys) + outstanding down svc mgr c (mset (q_data (dl_queue d)))"
    unfolding rtranclp_power using delivery_run [of net down _ svc mgr ?d0 d] by fastforce
  have "count_list (concat (map (subscribers_of mgr) tys)) s = sum_list (map (\<lambda>ty. count_list (subscribers_of mgr ty) s) tys)"
    by (induction tys) simp_all
  also have "\<dots> = outstanding down svc mgr (\<lambda>ty. count_list (subscribers_of mgr ty) s) (mset (q_data (dl_queue ?d0)))"
    using tys(2) assms(4) by simp
  also have "\<dots> = ?n * rounds (failing down mgr (ev_type e)) (attempts_of svc)"
    unfolding q0 using assms(2) by simp
  finally show ?thesis by (simp add: tys(1) select_subscribers_of rounds_def attempts_of_def)
qed

end
