(* ===== verification/Event_Endpoints.thy ===== *)
theory Event_Endpoints
  imports Rest_Endpoints Event_Service
begin

text \<open>
  The endpoints of the event service (\<^verbatim>\<open>rest/endpoints/event_service.cpp\<close>,
  \<^verbatim>\<open>event_subscriptions_collection.cpp\<close>, \<^verbatim>\<open>event_subscription.cpp\<close>, \<^verbatim>\<open>test_event_subscription.cpp\<close>). The
  subscriptions, their file and the queue of events join the state of the account and session
  services, whose authentication guards these endpoints too.
\<close>

record event_env =
  ee_rest :: rest_env
  ee_uuid :: "nat \<Rightarrow> string"
  ee_steady :: int

record event_state =
  es_rest :: rest_state
  es_subscriptions :: subscription_manager
  es_subscriptions_file :: string
  es_queue :: "event event_queue"

type_synonym 'a event_action = "(event_state, exn, 'a) action"
type_synonym event_handler = "(event_state, unit) handler_action"

definition on_rest :: "'a rest_action \<Rightarrow> 'a event_action" where
  "on_rest m st = (case m (es_rest st) of (r, s) \<Rightarrow> (r, st\<lparr>es_rest := s\<rparr>))"

definition on_subscriptions :: "'a sub_action \<Rightarrow> 'a event_action" where
  "on_subscriptions m st = (case m (es_subscriptions st) of (r, s) \<Rightarrow> (r, st\<lparr>es_subscriptions := s\<rparr>))"

definition save_subscriptions_file :: "event_env \<Rightarrow> unit event_action" where
  "save_subscriptions_file env = act_modify (\<lambda>st. st\<lparr>es_subscriptions_file :=
     save_subscriptions (env_fpu (ee_rest env)) (es_subscriptions st)\<rparr>)"

text \<open>What \<^verbatim>\<open>app.cpp\<close> builds: the subscriptions come from the file, the queue is empty.\<close>

definition event_boot :: "event_env \<Rightarrow> rest_state \<Rightarrow> string \<Rightarrow> event_state" where
  "event_boot env rs content = \<lparr>es_rest = rs,
     es_subscriptions = load_subscriptions (env_fpu (ee_rest env)) content new_subscription_manager,
     es_subscriptions_file = content, es_queue = new_event_queue\<rparr>"

section \<open>Notifying\<close>

definition do_notify :: "event_env \<Rightarrow> event \<Rightarrow> unit event_action" where
  "do_notify env e = act_modify (\<lambda>st. st\<lparr>es_queue := post_event e 0 (ee_steady env) (es_queue st)\<rparr>)"

fun notify_events :: "event_env \<Rightarrow> event list \<Rightarrow> unit event_action" where
  "notify_events env [] = act_return ()"
| "notify_events env (e # es) = act_bind (do_notify env e) (\<lambda>_. notify_events env es)"

section \<open>The event service\<close>

definition event_service_get :: "event_env \<Rightarrow> request \<Rightarrow> event_handler" where
  "event_service_get env q = set_response (ee_rest env) (json_object
     [(''@odata.context'', JString ''/redfish/v1/$metadata#EventService.EventService''),
      (''@odata.id'', JString (path_of_request q)),
      (''@odata.type'', JString ''#EventService.v1_0_0.EventService''),
      (''Id'', JString ''EventService''), (''Name'', JString ''Event Service''),
      (''Description'', JString ''Event Service description''), (''Status'', service_status), (''Oem'', JObject []),
      (''ServiceEnabled'', JBool True), (''DeliveryRetryAttempts'', JNumber (NInt 3)),
      (''DeliveryRetryIntervalSeconds'', JNumber (NInt 60)),
      (''EventTypesForSubscription'', JArray [JString ''ResourceAdded'', JString ''ResourceRemoved'', JString ''Alert'']),
      (''Subscriptions'', JObject [(''@odata.id'', JString ''/redfish/v1/EventService/Subscriptions'')]),
      (''Actions'', JObject [(''Oem'', JObject [])])])"

section \<open>Subscriptions\<close>

definition SubscriptionCollectionPostSchema :: procedure where
  "SubscriptionCollectionPostSchema = create_validators
     [(''Name'', Checker_string), (''Destination'', Checker_string),
      (''EventTypes'', Checker_array_of (Checker_enum (map event_type_string event_type_values)) 0 (2 ^ 32 - 1)),
      (''Context'', Checker_string), (''Protocol'', Checker_string)]"

definition subscription_to_model :: "json \<Rightarrow> subscription result" where
  "subscription_to_model j =
     res_bind (as_string (get_member j ''Name'')) (\<lambda>name.
     res_bind (as_string (get_member j ''Destination'')) (\<lambda>destination.
     res_bind (as_string (get_member j ''Context'')) (\<lambda>ctx.
     res_bind (as_string (get_member j ''Protocol'')) (\<lambda>protocol.
     res_bind (event_types_from_json (get_member j ''EventTypes'')) (\<lambda>types.
       Inr \<lparr>sub_id = 0, sub_name = name, sub_destination = destination, sub_event_types = types,
            sub_context = ctx, sub_protocol = protocol\<rparr>)))))"

definition subscription_collection_get :: "event_env \<Rightarrow> request \<Rightarrow> event_handler" where
  "subscription_collection_get env q =
     act_bind (on_state (act_read (\<lambda>st. Inr (es_subscriptions st)))) (\<lambda>mgr.
       set_response (ee_rest env) (json_object
         [(''@odata.context'', JString ''/redfish/v1/$metadata#EventService.EventService''),
          (''@odata.id'', JString (path_of_request q)),
          (''@odata.type'', JString ''#EventDestinationCollection.EventDestinationCollection''),
          (''Name'', JString ''Event Subscriptions Collection''),
          (''Description'', JString ''Collection of Event Subscriptions''),
          (''Members@odata.count'', JNumber (NUint (ucast (subscription_size mgr)))),
          (''Members'', JArray (map (\<lambda>e. JObject [(''@odata.id'',
              JString (path_append (dec_of_nat (sub_id (snd e))) (path_of_request q)))]) (subscriptions mgr)))]))"

definition subscription_collection_post :: "event_env \<Rightarrow> request \<Rightarrow> event_handler" where
  "subscription_collection_post env q =
     act_bind (act_read (\<lambda>_. validate_request_body (env_jsoncpp (ee_rest env)) (env_fpu (ee_rest env))
                          SubscriptionCollectionPostSchema (req_body q))) (\<lambda>j.
     act_bind (act_read (\<lambda>_. subscription_to_model j)) (\<lambda>s.
     act_bind (on_state (on_subscriptions (add_subscription s))) (\<lambda>i.
       if i \<noteq> 0
       then act_bind (on_state (save_subscriptions_file env)) (\<lambda>_.
            act_bind (on_response (set_resp_header ''Location''
                        (path_append (dec_of_nat i) (path_of_request q)))) (\<lambda>_.
              on_response (set_status 201)))
       else on_response (set_status 405))))"

definition subscription_param :: "request \<Rightarrow> string" where
  "subscription_param q = param_get (req_params q) ''subscriptionId''"

definition subscription_prototype :: "(string \<times> json) list" where
  "subscription_prototype =
     [(''@odata.context'', JString ''/redfish/v1/$metadata#EventDestination.EventDestination''),
      (''@odata.id'', JNil), (''@odata.type'', JString ''#EventDestination.v1_0_0.EventDestination''),
      (''Id'', JNil), (''Name'', JNil), (''Description'', JNil), (''Destination'', JNil), (''Context'', JNil),
      (''Protocol'', JNil), (''EventTypes'', JArray [])]"

definition subscription_members :: "subscription \<Rightarrow> (string \<times> json) list" where
  "subscription_members s =
     [(''Name'', JString (sub_name s)), (''Destination'', JString (sub_destination s)),
      (''Context'', JString (sub_context s)), (''Protocol'', JString (sub_protocol s)),
      (''EventTypes'', JArray (map (JString \<circ> event_type_string) (sub_event_types s)))]"

definition subscription_get :: "event_env \<Rightarrow> request \<Rightarrow> event_handler" where
  "subscription_get env q =
     act_bind (act_read (\<lambda>_. id_to_uint64 (subscription_param q))) (\<lambda>i.
     act_bind (on_state (act_read (\<lambda>st. get_subscription_by_id (es_subscriptions st) i))) (\<lambda>s.
       set_response (ee_rest env) (set_members (subscription_members s)
         (set_member ''Id'' (JString (subscription_param q))
           (set_member ''@odata.id'' (JString (req_url q)) (json_object subscription_prototype))))))"

definition subscription_del :: "event_env \<Rightarrow> request \<Rightarrow> event_handler" where
  "subscription_del env q =
     act_bind (act_read (\<lambda>_. id_to_uint64 (subscription_param q))) (\<lambda>i.
     act_bind (on_state (on_subscriptions (del_subscription_by_id i))) (\<lambda>_.
     act_bind (on_state (save_subscriptions_file env)) (\<lambda>_.
       on_response (set_status 204))))"

text \<open>
  The three test events: each \<open>set_message\<close> is called on the first of them, so only that one, in the
  order of the calls, is posted with a text of its own.
\<close>

definition test_events :: "event_env \<Rightarrow> event list" where
  "test_events env =
     (let now = ee_steady env; origin = ''////TEST EVENT SUB ////''
      in [(new_event (ee_uuid env 0) now ResourceAdded origin)\<lparr>ev_message := ''RESOURCE ADD TEST!!!!!''\<rparr>,
          new_event (ee_uuid env 1) now ResourceRemoved origin,
          new_event (ee_uuid env 2) now Alert origin])"

definition test_event_get :: "event_env \<Rightarrow> request \<Rightarrow> event_handler" where
  "test_event_get env q =
     act_bind (on_state (notify_events env (test_events env))) (\<lambda>_.
       set_response (ee_rest env) (json_object
         [(''@odata.context'',
             JString ''/redfish/v1/$metadata#TestEventDestinationCollection.TestEventDestinationCollection''),
          (''@odata.id'', JString (path_of_request q)),
          (''@odata.type'', JString ''#TestEventDestinationCollection.TestEventDestinationCollection''),
          (''Name'', JString ''Test Event Subscription''),
          (''Description'', JString ''Test Event Subscription description''),
          (''Members@odata.count'', JNumber (NInt 0)), (''Members'', JArray [])]))"

section \<open>The endpoints and their routes\<close>

definition event_endpoint :: "event_env \<Rightarrow> string \<Rightarrow> (http_method \<Rightarrow> (request \<Rightarrow> event_handler) option)
    \<Rightarrow> event_state endpoint" where
  "event_endpoint env path ops = \<lparr>ep_path = path, ep_authen = (\<lambda>q m. on_rest (authen_check (ee_rest env) q m)),
     ep_run = (\<lambda>m q. case ops m of Some h \<Rightarrow> h q | None \<Rightarrow> on_response (http_method_not_allowed q))\<rparr>"

definition event_service_path :: string where
  "event_service_path = path_append ''EventService'' ''/redfish/v1''"

definition event_endpoints :: "event_env \<Rightarrow> (event_state endpoint \<times> access_type) list" where
  "event_endpoints env =
     [(event_endpoint env event_service_path [GET \<mapsto> event_service_get env], SSL_REQUIRED),
      (event_endpoint env (path_append ''Subscriptions'' event_service_path)
         [GET \<mapsto> subscription_collection_get env, POST \<mapsto> subscription_collection_post env], SSL_REQUIRED),
      (event_endpoint env (path_append_regex ''subscriptionId'' ID_REGEX (path_append ''Subscriptions'' event_service_path))
         [GET \<mapsto> subscription_get env, DELETE \<mapsto> subscription_del env], SSL_REQUIRED),
      (event_endpoint env (path_append ''TestEventSubscription'' event_service_path)
         [GET \<mapsto> test_event_get env], SSL_REQUIRED)]"

definition event_mux :: "event_env \<Rightarrow> event_state mux result" where
  "event_mux env = register_all (event_endpoints env) \<lparr>candidates = [], pre_handlers = [], post_handlers = []\<rparr>"

end
