(* ===== verification/Event_Requests.thy ===== *)
theory Event_Requests
  imports Event_Endpoints Rest_Scenarios
begin

text \<open>
  Requests to the event service, from the URL to the answer: subscribing, and the file, which at every
  moment between two requests holds exactly the subscriptions the manager has.
\<close>

section \<open>The routes\<close>

abbreviation events_base :: "string list" where
  "events_base \<equiv> [''redfish'', ''v1'', ''EventService'']"

definition event_routes :: "matcher list list" where
  "event_routes =
     [map StaticMatcher events_base,
      map StaticMatcher (events_base @ [''Subscriptions'']),
      map StaticMatcher (events_base @ [''Subscriptions'']) @ [RegexMatcher ''subscriptionId'' [(digit_class, Plus)]],
      map StaticMatcher (events_base @ [''TestEventSubscription''])]"

definition event_paths :: "string list" where
  "event_paths =
     [event_service_path, path_append ''Subscriptions'' event_service_path,
      path_append_regex ''subscriptionId'' ID_REGEX (path_append ''Subscriptions'' event_service_path),
      path_append ''TestEventSubscription'' event_service_path]"

lemma event_segments: "map path_to_segments event_paths = map Inr event_routes" "distinct event_paths"
  by code_simp+

definition event_candidates :: "event_env \<Rightarrow> event_state candidate list" where
  "event_candidates env = map2 (\<lambda>e segs. \<lparr>cand_segments = segs, cand_handler = fst e, cand_path = ep_path (fst e),
     cand_access = snd e\<rparr>) (event_endpoints env) event_routes"

lemma event_mux_eq: "event_mux env = Inr \<lparr>candidates = event_candidates env, pre_handlers = [], post_handlers = []\<rparr>"
proof -
  have p: "map (\<lambda>e. ep_path (fst e)) (event_endpoints env) = event_paths"
    by (simp add: event_endpoints_def event_endpoint_def event_paths_def)
  then have "map (\<lambda>e. path_to_segments (ep_path (fst e))) (event_endpoints env) = map path_to_segments event_paths"
    by (metis (no_types, lifting) list.map_comp o_def map_eq_conv)
  with event_segments(1) have r: "map (\<lambda>e. path_to_segments (ep_path (fst e))) (event_endpoints env) = map Inr event_routes"
    by simp
  show ?thesis
    unfolding event_mux_def by (subst register_all_distinct [OF r]) (simp_all add: p event_segments(2) event_candidates_def)
qed

lemma event_candidates_at:
  "cand_segments (event_candidates env ! 1) = map StaticMatcher (events_base @ [''Subscriptions''])"
  "cand_segments (event_candidates env ! 2)
     = map StaticMatcher (events_base @ [''Subscriptions'']) @ [RegexMatcher ''subscriptionId'' [(digit_class, Plus)]]"
  by (simp_all add: event_candidates_def event_endpoints_def event_routes_def)

lemma select_collection:
  assumes "event_mux env = Inr mx"
  shows "select_handler mx (events_base @ [''Subscriptions'']) uri = Inr (event_candidates env ! 1)"
    and "pre_handlers mx = []"
    and "is_digits i \<Longrightarrow> select_handler mx (events_base @ [''Subscriptions'', i]) uri = Inr (event_candidates env ! 2)"
proof -
  let ?c = "\<lambda>k. event_candidates env ! k"
  have all: "event_candidates env = [?c 0, ?c 1, ?c 2, ?c 3]"
    by (simp add: event_candidates_def event_endpoints_def event_routes_def)
  have segs: "cand_segments (?c 0) = map StaticMatcher events_base"
    by (simp add: event_candidates_def event_endpoints_def event_routes_def)
  have mx: "candidates mx = [?c 0, ?c 1, ?c 2, ?c 3]" using assms event_mux_eq all by auto
  show "pre_handlers mx = []" using assms by (auto simp: event_mux_eq)
  show "select_handler mx (events_base @ [''Subscriptions'']) uri = Inr (?c 1)"
    unfolding select_handler_def mx find.simps segs event_candidates_at matches_static by simp
  show "select_handler mx (events_base @ [''Subscriptions'', i]) uri = Inr (?c 2)" if "is_digits i"
    unfolding select_handler_def mx find.simps segs event_candidates_at matches_static
    using that matches_param(2) [of "events_base @ [''Subscriptions'']" "''subscriptionId''"]
    by simp
qed

section \<open>A subscription in a request\<close>

lemma subscription_schema:
  "SubscriptionCollectionPostSchema =
     [(''Name'', Checker_string), (''Destination'', Checker_string),
      (''EventTypes'', Checker_array_of (Checker_enum (map event_type_string event_type_values)) 0 (2 ^ 32 - 1)),
      (''Context'', Checker_string), (''Protocol'', Checker_string)]"
  by (simp add: SubscriptionCollectionPostSchema_def create_validators_def)

lemma event_type_accepted:
  "accepts jc fp (Checker_enum (map event_type_string event_type_values)) (Some (JString s))
     \<longleftrightarrow> (\<exists>t. event_type_from_string s = Inr t)"
proof -
  have "(\<exists>t \<in> set event_type_values. event_type_string t = c_str s)
      \<longleftrightarrow> List.find (\<lambda>t. event_type_string t = c_str s) event_type_values \<noteq> None"
    by (auto simp: find_None_iff)
  moreover have "accepts jc fp (Checker_enum (map event_type_string event_type_values)) (Some (JString s))
      \<longleftrightarrow> (\<exists>t \<in> set event_type_values. event_type_string t = c_str s)" by force
  ultimately show ?thesis by (auto simp: event_type_from_string_def simp del: accepts.simps split: option.split)
qed

lemma event_types_readable:
  "\<forall>x \<in> set xs. accepts jc fp (Checker_enum (map event_type_string event_type_values)) (Some (to_json_rpc x))
     \<Longrightarrow> \<exists>ts. event_types_from_json (JArray xs) = Inr ts"
proof (induction xs)
  case (Cons x xs)
  then obtain ts where ts: "event_types_from_json (JArray xs) = Inr ts" by auto
  have x: "accepts jc fp (Checker_enum (map event_type_string event_type_values)) (Some (to_json_rpc x))"
    using Cons.prems by simp
  then obtain s where s: "x = JString s" by (cases x) simp_all
  with x obtain t where "event_type_from_string s = Inr t"
    using event_type_accepted [of jc fp s] by auto
  with s ts show ?case by (simp add: event_types_from_json_def)
qed (simp add: event_types_from_json_def)

lemma subscription_body_readable:
  assumes "validate_request_body jc fp SubscriptionCollectionPostSchema body = Inr j"
  shows "\<exists>s. subscription_to_model j = Inr s \<and> sub_id s = 0"
proof -
  have fields: "accepts jc fp c (body_field j k)" if "(k, c) \<in> set SubscriptionCollectionPostSchema" for k c
    using validated_body [OF assms] that by (force simp: subscription_schema simp del: accepts.simps)
  have "\<exists>s. get_member j k = JString s" if "(k, Checker_string) \<in> set SubscriptionCollectionPostSchema" for k
    using fields [OF that] by (simp add: accepts_body_field del: accepts.simps)
  then obtain n d c p where "get_member j ''Name'' = JString n" "get_member j ''Destination'' = JString d"
      "get_member j ''Context'' = JString c" "get_member j ''Protocol'' = JString p"
    by (force simp: subscription_schema)
  moreover obtain ts where "event_types_from_json (get_member j ''EventTypes'') = Inr ts"
  proof -
    have "accepts jc fp (Checker_array_of (Checker_enum (map event_type_string event_type_values)) 0 (2 ^ 32 - 1))
        (body_field j ''EventTypes'')"
      by (rule fields) (simp add: subscription_schema)
    then obtain xs where "get_member j ''EventTypes'' = JArray xs"
        "\<forall>x \<in> set xs. accepts jc fp (Checker_enum (map event_type_string event_type_values)) (Some (to_json_rpc x))"
      by (cases "get_member j ''EventTypes''") (auto simp: body_field_def split: if_splits)
    with event_types_readable that show ?thesis by metis
  qed
  ultimately show ?thesis by (simp add: subscription_to_model_def)
qed

section \<open>The file is always the subscriptions\<close>

text \<open>
  Ids from 1 to 30, no name and no id twice, and a file that brings back just what the manager has: the
  state of the event service between two requests.
\<close>

definition ids_in_range :: "subscription_manager \<Rightarrow> bool" where
  "ids_in_range mgr \<longleftrightarrow> max_events mgr = 30 \<and> (\<forall>n s. map_of (subscriptions mgr) n = Some s \<longrightarrow> sub_id s \<le> 30)"

definition events_ok :: "fpu \<Rightarrow> event_state \<Rightarrow> bool" where
  "events_ok fp st \<longleftrightarrow> subscriptions_ok (es_subscriptions st) \<and> ids_in_range (es_subscriptions st)
     \<and> load_subscriptions fp (es_subscriptions_file st) new_subscription_manager = es_subscriptions st"

abbreviation keeps_events :: "fpu \<Rightarrow> (event_state, 'a) handler_action \<Rightarrow> bool" where
  "keeps_events fp \<equiv> keeps (\<lambda>sr. events_ok fp (fst sr))"

lemma saved_is_loaded:
  assumes "subscriptions_ok mgr" and "ids_in_range mgr"
  shows "load_subscriptions fp (save_subscriptions fp mgr) new_subscription_manager = mgr"
proof -
  have "\<forall>n s. map_of (subscriptions mgr) n = Some s \<longrightarrow> sub_id s < 2 ^ 31"
    using assms(2) by (fastforce simp: ids_in_range_def)
  from load_saved_law [OF assms(1) this] assms(2) show ?thesis
    by (simp add: ids_in_range_def new_subscription_manager_def)
qed

lemma events_ok_saved:
  "subscriptions_ok mgr \<Longrightarrow> ids_in_range mgr \<Longrightarrow>
    events_ok fp (st\<lparr>es_subscriptions := mgr, es_subscriptions_file := save_subscriptions fp mgr\<rparr>)"
  by (simp add: events_ok_def saved_is_loaded)

lemma events_ok_other [simp]:
  "events_ok fp (st\<lparr>es_rest := rs\<rparr>) = events_ok fp st" "events_ok fp (st\<lparr>es_queue := q\<rparr>) = events_ok fp st"
  by (simp_all add: events_ok_def)

lemma keeps_rest: "keeps (events_ok fp) (on_rest m)"
  by (auto simp: keeps_def on_rest_def split: prod.split)

lemma keeps_notify: "keeps (events_ok fp) (notify_events env es)"
  by (induction es) (auto intro!: inv_intros simp: do_notify_def keeps_def act_modify_def act_bind_def act_return_def)

lemma keeps_response: "keeps_events fp (set_response env j)"
  unfolding set_response_def by (rule keeps_on_response)

lemma keeps_events_read: "keeps_events fp (on_state (act_read f))"
  by (intro keeps_on_state inv_intros)

lemma keeps_events_get:
  "keeps_events fp (event_service_get env q)" "keeps_events fp (subscription_collection_get env q)"
  "keeps_events fp (subscription_get env q)" "keeps_events fp (test_event_get env q)"
  unfolding event_service_get_def subscription_collection_get_def subscription_get_def test_event_get_def
  by (intro inv_intros keeps_response keeps_events_read keeps_on_state keeps_notify)+

subsection \<open>Subscribing and unsubscribing\<close>

lemma add_law:
  assumes "subscriptions_ok mgr" and "ids_in_range mgr" and "sub_id s = 0"
  shows "case map_of (subscriptions mgr) (sub_name s) of
      Some old \<Rightarrow> \<exists>e. add_subscription s mgr = (Inl (ServerExc e), mgr) \<and> http_status_code e = 400
    | None \<Rightarrow>
        if \<forall>i. 1 \<le> i \<and> i \<le> 30 \<longrightarrow> (\<exists>n t. map_of (subscriptions mgr) n = Some t \<and> sub_id t = i)
        then add_subscription s mgr = (Inr 0, mgr)
        else \<exists>i mgr'. add_subscription s mgr = (Inr i, mgr') \<and> subscriptions_ok mgr' \<and> ids_in_range mgr'
          \<and> i = (LEAST j. 1 \<le> j \<and> (\<forall>n t. map_of (subscriptions mgr) n = Some t \<longrightarrow> sub_id t \<noteq> j))
          \<and> 1 \<le> i \<and> map_of (subscriptions mgr') = (map_of (subscriptions mgr))(sub_name s \<mapsto> s\<lparr>sub_id := i\<rparr>)"
proof -
  have max: "max_events mgr = 30" using assms(2) by (simp add: ids_in_range_def)
  have range: "ids_in_range mgr'"
    if "max_events mgr' = max_events mgr" "i \<le> 30"
      "map_of (subscriptions mgr') = (map_of (subscriptions mgr))(sub_name s \<mapsto> s\<lparr>sub_id := i\<rparr>)" for mgr' i
    using assms(2) that by (auto simp: ids_in_range_def split: if_splits)
  note law = add_subscription_law [OF assms(1,3), unfolded max]
  show ?thesis
  proof (cases "map_of (subscriptions mgr) (sub_name s)")
    case None
    note law = law [unfolded None option.case]
    show ?thesis
    proof (cases "\<forall>i. 1 \<le> i \<and> i \<le> 30 \<longrightarrow> (\<exists>n t. map_of (subscriptions mgr) n = Some t \<and> sub_id t = i)")
      case True
      with law None show ?thesis by (simp only: if_P option.case)
    next
      case False
      from law [unfolded if_not_P [OF False]] obtain i mgr' where new: "add_subscription s mgr = (Inr i, mgr')" "subscriptions_ok mgr'"
          "max_events mgr' = 30" "1 \<le> i" "i \<le> 30"
          "i = (LEAST j. 1 \<le> j \<and> (\<forall>n t. map_of (subscriptions mgr) n = Some t \<longrightarrow> sub_id t \<noteq> j))"
          "map_of (subscriptions mgr') = (map_of (subscriptions mgr))(sub_name s \<mapsto> s\<lparr>sub_id := i\<rparr>)"
        by blast
      have "ids_in_range mgr'" using range [of mgr' i] new max by simp
      with new show ?thesis unfolding None option.case if_not_P [OF False] by blast
    qed
  qed (use law in simp)
qed

lemma del_law:
  assumes "subscriptions_ok mgr" and "ids_in_range mgr"
  shows "if \<exists>n s. map_of (subscriptions mgr) n = Some s \<and> sub_id s = i
    then \<exists>n s mgr'. map_of (subscriptions mgr) n = Some s \<and> sub_id s = i
      \<and> del_subscription_by_id i mgr = (Inr (), mgr') \<and> subscriptions_ok mgr' \<and> ids_in_range mgr'
      \<and> map_of (subscriptions mgr') = (map_of (subscriptions mgr))(n := None)
    else del_subscription_by_id i mgr = (Inl (subscription_id_missing i), mgr)"
proof -
  have "ids_in_range mgr'"
    if "max_events mgr' = max_events mgr" "map_of (subscriptions mgr') = (map_of (subscriptions mgr))(n := None)" for mgr' n
    using assms(2) that by (auto simp: ids_in_range_def split: if_splits)
  with del_subscription_law [OF assms(1), of i] show ?thesis by (simp split: if_splits) metis
qed

lemma post_law:
  assumes "validate_request_body (env_jsoncpp (ee_rest env)) (env_fpu (ee_rest env))
      SubscriptionCollectionPostSchema (req_body q) = Inr j"
    and "subscription_to_model j = Inr s" and "add_subscription s (es_subscriptions st) = (x, mgr)"
  shows "subscription_collection_post env q (st, r) =
    (case x of
       Inl e \<Rightarrow> (Inl e, (st\<lparr>es_subscriptions := mgr\<rparr>, r))
     | Inr i \<Rightarrow>
         if i = 0 then (Inr (), (st\<lparr>es_subscriptions := mgr\<rparr>, set_status 405 r))
         else (Inr (), (st\<lparr>es_subscriptions := mgr,
                es_subscriptions_file := save_subscriptions (env_fpu (ee_rest env)) mgr\<rparr>,
              set_status 201 (set_resp_header ''Location'' (path_append (dec_of_nat i) (path_of_request q)) r))))"
  using assms by (cases x) (simp_all add: subscription_collection_post_def act_bind_def on_subscriptions_def
      save_subscriptions_file_def)

lemma post_ok:
  assumes "env_fpu (ee_rest env) = fp"
  shows "keeps_events fp (subscription_collection_post env q)"
  unfolding keeps_def
proof (intro allI impI)
  fix sr :: "event_state \<times> response" assume ok: "events_ok fp (fst sr)"
  obtain st r where sr: "sr = (st, r)" by force
  let ?mgr = "es_subscriptions st"
  show "events_ok fp (fst (snd (subscription_collection_post env q sr)))"
  proof (cases "validate_request_body (env_jsoncpp (ee_rest env)) (env_fpu (ee_rest env))
      SubscriptionCollectionPostSchema (req_body q)")
    case (Inl e)
    with ok sr show ?thesis by (simp add: subscription_collection_post_def act_bind_def)
  next
    case (Inr j)
    from subscription_body_readable [OF this] obtain s where s: "subscription_to_model j = Inr s" "sub_id s = 0" by blast
    obtain x mgr where x: "add_subscription s ?mgr = (x, mgr)" by force
    have "subscriptions_ok ?mgr" "ids_in_range ?mgr" using ok sr by (simp_all add: events_ok_def)
    from add_law [OF this s(2)] x have
      "(\<exists>e. x = Inl e) \<and> mgr = ?mgr \<or> x = Inr 0 \<and> mgr = ?mgr \<or> (\<exists>i. x = Inr i \<and> 1 \<le> i) \<and> subscriptions_ok mgr \<and> ids_in_range mgr"
      by (auto split: option.splits if_splits)
    with ok sr assms post_law [OF Inr s(1) x, of r] show ?thesis
      by (auto simp: events_ok_saved)
  qed
qed

lemma del_ok:
  assumes "env_fpu (ee_rest env) = fp"
  shows "keeps_events fp (subscription_del env q)"
  unfolding keeps_def
proof (intro allI impI)
  fix sr :: "event_state \<times> response" assume ok: "events_ok fp (fst sr)"
  obtain st r where sr: "sr = (st, r)" by force
  let ?mgr = "es_subscriptions st"
  have mgr: "subscriptions_ok ?mgr" "ids_in_range ?mgr" using ok sr by (simp_all add: events_ok_def)
  show "events_ok fp (fst (snd (subscription_del env q sr)))"
  proof (cases "id_to_uint64 (subscription_param q)")
    case (Inl e)
    with ok sr show ?thesis by (simp add: subscription_del_def act_bind_def)
  next
    case (Inr i)
    obtain x mgr' where x: "del_subscription_by_id i ?mgr = (x, mgr')" by force
    from del_law [OF mgr, of i] x have
      "(\<exists>e. x = Inl e) \<and> mgr' = ?mgr \<or> x = Inr () \<and> subscriptions_ok mgr' \<and> ids_in_range mgr'"
      by (auto split: if_splits)
    with ok sr assms Inr x show ?thesis
      by (auto simp: subscription_del_def act_bind_def on_subscriptions_def save_subscriptions_file_def events_ok_saved)
  qed
qed

section \<open>The running event service\<close>

text \<open>
  What the event service goes through: a request to it, or to the account and session services beside
  it (or their timers), the delivery of an event, and a restart with the file there is.
\<close>

inductive event_system_step :: "fpu \<Rightarrow> event_state \<Rightarrow> event_state \<Rightarrow> bool" for fp where
  serve_events: "event_mux env = Inr mx \<Longrightarrow> env_fpu (ee_rest env) = fp
    \<Longrightarrow> connector_handle access_allowed (forward_to_handler mx) q st = (answer, st') \<Longrightarrow> event_system_step fp st st'"
| serve_rest: "server_step (es_rest st) rs \<Longrightarrow> event_system_step fp st (st\<lparr>es_rest := rs\<rparr>)"
| deliver_event: "delivery_step net svc (es_subscriptions st) \<lparr>dl_queue = es_queue st, dl_sent = sent\<rparr> d
    \<Longrightarrow> event_system_step fp st (st\<lparr>es_queue := dl_queue d\<rparr>)"
| restart_service: "env_fpu (ee_rest env) = fp
    \<Longrightarrow> event_system_step fp st (event_boot env rs (es_subscriptions_file st))"

inductive_cases event_system_stepE: "event_system_step fp st st'"

lemma event_endpoint_keeps:
  assumes "\<And>m h q. ops m = Some h \<Longrightarrow> keeps_events fp (h q)"
  shows "endpoint_keeps (events_ok fp) (event_endpoint env path ops)"
  using assms by (auto simp: endpoint_keeps_def event_endpoint_def keeps_rest keeps_on_response split: option.split)

lemma event_endpoints_keep:
  assumes "env_fpu (ee_rest env) = fp" and "(h, access) \<in> set (event_endpoints env)"
  shows "endpoint_keeps (events_ok fp) h"
  using assms by (auto simp: event_endpoints_def split: if_splits intro!: event_endpoint_keeps keeps_events_get post_ok del_ok)

lemma event_system_step_ok:
  assumes "event_system_step fp st st'" and "events_ok fp st"
  shows "events_ok fp st'"
  using assms
proof (induction rule: event_system_step.induct)
  case (serve_events env mx access_allowed q st answer st')
  have "(cand_handler c, cand_access c) \<in> set (event_endpoints env)" if "c \<in> set (candidates mx)" for c
    using register_all_handlers [OF serve_events(1) [unfolded event_mux_def] that] by simp
  with serve_events(2) event_endpoints_keep
  have "\<forall>c \<in> set (candidates mx). endpoint_keeps (events_ok fp) (cand_handler c)" by blast
  then have "keeps_events fp (forward_to_handler mx q)"
    by (rule forward_keeps [OF select_collection(2) [OF serve_events(1)]])
  with connector_keeps [of "events_ok fp" "forward_to_handler mx" q st access_allowed] serve_events(3,4)
  show ?case by simp
next
  case (restart_service env st rs)
  then show ?case by (simp add: events_ok_def event_boot_def)
qed simp_all

lemma events_ok_empty: "env_fpu (ee_rest env) = fp \<Longrightarrow> events_ok fp (event_boot env rs [])"
  by (simp add: events_ok_def event_boot_def load_subscriptions_def ids_in_range_def new_subscription_manager_def
      subscriptions_ok_new [unfolded new_subscription_manager_def])

lemma events_reachable_ok:
  "(event_system_step fp)\<^sup>*\<^sup>* (event_boot env rs []) st \<Longrightarrow> env_fpu (ee_rest env) = fp \<Longrightarrow> events_ok fp st"
  by (induction rule: rtranclp_induct) (auto intro: events_ok_empty event_system_step_ok)

lemma at_most_thirty:
  assumes "subscriptions_ok mgr" and "ids_in_range mgr"
  shows "length (subscriptions mgr) \<le> 30"
proof -
  have ok: "smap_ok (subscriptions mgr)" "distinct (sub_ids (subscriptions mgr))"
    using assms(1) by (simp_all add: subscriptions_ok_def registry_ok_def sub_ids_def)
  have "set (sub_ids (subscriptions mgr)) \<subseteq> {1..30}"
    using assms by (fastforce simp: sub_ids_iff [OF ok(1)] subscriptions_ok_iff ids_in_range_def)
  then have "card (set (sub_ids (subscriptions mgr))) \<le> card {1..30::nat}" by (intro card_mono) simp_all
  moreover have "length (sub_ids (subscriptions mgr)) = length (subscriptions mgr)" by (simp add: sub_ids_def)
  ultimately show ?thesis using distinct_card [OF ok(2)] by simp
qed


section \<open>Subscribing, from the URL to the answer\<close>

lemma subscribe_request_law:
  assumes "event_mux env = Inr mx" and "split_path (req_url q) = events_base @ [''Subscriptions'']"
    and "access_allowed st q" and "req_secure q" and "req_method q = POST"
    and "authen_check (ee_rest env) q ''POST'' (es_rest st) = (Inr True, rs)"
    and "validate_request_body (env_jsoncpp (ee_rest env)) (env_fpu (ee_rest env))
      SubscriptionCollectionPostSchema (req_body q) = Inr j"
    and "events_ok (env_fpu (ee_rest env)) st"
  shows "\<exists>s r st'. subscription_to_model j = Inr s
    \<and> connector_handle access_allowed (forward_to_handler mx) q st = (Inr r, st') \<and>
    (let mgr = es_subscriptions st in case map_of (subscriptions mgr) (sub_name s) of
       Some old \<Rightarrow> resp_status r = 400 \<and> st' = st\<lparr>es_rest := rs\<rparr>
     | None \<Rightarrow>
         if \<forall>i. 1 \<le> i \<and> i \<le> 30 \<longrightarrow> (\<exists>n t. map_of (subscriptions mgr) n = Some t \<and> sub_id t = i)
         then resp_status r = 405 \<and> st' = st\<lparr>es_rest := rs\<rparr>
         else \<exists>i. i = (LEAST j. 1 \<le> j \<and> (\<forall>n t. map_of (subscriptions mgr) n = Some t \<longrightarrow> sub_id t \<noteq> j))
           \<and> resp_status r = 201 \<and> map_of (resp_headers r) ''Location'' = Some (path_append (dec_of_nat i) (path_of_request q))
           \<and> map_of (subscriptions (es_subscriptions st')) = (map_of (subscriptions mgr))(sub_name s \<mapsto> s\<lparr>sub_id := i\<rparr>)
           \<and> get_subscription_by_id (es_subscriptions st') i = Inr (s\<lparr>sub_id := i\<rparr>)
           \<and> events_ok (env_fpu (ee_rest env)) st')"
proof -
  let ?c = "event_candidates env ! 1" and ?fp = "env_fpu (ee_rest env)" and ?st = "st\<lparr>es_rest := rs\<rparr>"
  let ?q = "collect_request_params (cand_segments ?c) (split_path (req_url q)) q" and ?mgr = "es_subscriptions st"
  have c: "cand_access ?c = SSL_REQUIRED" "cand_handler ?c = event_endpoint env (path_append ''Subscriptions'' event_service_path)
      [GET \<mapsto> subscription_collection_get env, POST \<mapsto> subscription_collection_post env]"
    by (simp_all add: event_candidates_def event_endpoints_def event_routes_def)
  have sel: "select_handler mx (split_path (req_url q)) (req_url q) = Inr ?c"
    using select_collection(1) [OF assms(1)] assms(2) by simp
  have auth: "ep_authen (cand_handler ?c) ?q ''POST'' st = (Inr True, ?st)"
    unfolding c(2) using assms(6) by (simp add: event_endpoint_def on_rest_def authen_check_params)
  have fwd: "forward_to_handler mx q (st, new_response) = subscription_collection_post env ?q (?st, new_response)"
    using forward_protected(5) [OF sel c(1) select_collection(2) [OF assms(1)] refl assms(4) _ auth] assms(5)
    by (simp add: c(2) event_endpoint_def del: One_nat_def)
  define q' where "q' = ?q"
  have q: "req_body q' = req_body q" "path_of_request q' = path_of_request q"
    by (simp_all add: q'_def collect_request_params_def path_of_request_def)
  note fwd = fwd [folded q'_def]
  obtain s where s: "subscription_to_model j = Inr s" "sub_id s = 0" using subscription_body_readable [OF assms(7)] by blast
  obtain x mgr where x: "add_subscription s ?mgr = (x, mgr)" by force
  have mgr: "subscriptions_ok ?mgr" "ids_in_range ?mgr" using assms(8) by (simp_all add: events_ok_def)
  note law = add_law [OF mgr s(2)]
  have post: "subscription_collection_post env q' (?st, new_response) =
    (case x of
       Inl e \<Rightarrow> (Inl e, (?st\<lparr>es_subscriptions := mgr\<rparr>, new_response))
     | Inr i \<Rightarrow>
         if i = 0 then (Inr (), (?st\<lparr>es_subscriptions := mgr\<rparr>, set_status 405 new_response))
         else (Inr (), (?st\<lparr>es_subscriptions := mgr, es_subscriptions_file := save_subscriptions ?fp mgr\<rparr>,
              set_status 201 (set_resp_header ''Location'' (path_append (dec_of_nat i) (path_of_request q)) new_response))))"
    using post_law [of env q' j s ?st x mgr new_response, unfolded q] assms(7) s(1) x by simp
  note answer = connector_answer [of access_allowed _ q "forward_to_handler mx", OF assms(3)]
  show ?thesis
  proof (cases "map_of (subscriptions ?mgr) (sub_name s)")
    case (Some old)
    with law x obtain e where "x = Inl (ServerExc e)" "http_status_code e = 400" "mgr = ?mgr" by auto
    then have "forward_to_handler mx q (st, new_response) = (Inl (ServerExc e), (?st, new_response))"
      using fwd post by simp
    from answer [OF this] Some s \<open>http_status_code e = 400\<close> show ?thesis by simp
  next
    case None
    show ?thesis
    proof (cases "\<forall>i. 1 \<le> i \<and> i \<le> 30 \<longrightarrow> (\<exists>n t. map_of (subscriptions ?mgr) n = Some t \<and> sub_id t = i)")
      case True
      with law x None have "x = Inr 0" "mgr = ?mgr" by simp_all
      then have "forward_to_handler mx q (st, new_response) = (Inr (), (?st, set_status 405 new_response))"
        using fwd post by simp
      from answer [OF this] None True s show ?thesis by (simp add: set_status_def)
    next
      case False
      from law [unfolded None option.case if_not_P [OF False]] obtain i mgr' where
          new: "add_subscription s ?mgr = (Inr i, mgr')" and i: "1 \<le> i" "subscriptions_ok mgr'" "ids_in_range mgr'"
          "i = (LEAST j. 1 \<le> j \<and> (\<forall>n t. map_of (subscriptions ?mgr) n = Some t \<longrightarrow> sub_id t \<noteq> j))"
          "map_of (subscriptions mgr') = (map_of (subscriptions ?mgr))(sub_name s \<mapsto> s\<lparr>sub_id := i\<rparr>)"
        by blast
      have x': "x = Inr i" "mgr = mgr'" using new x by simp_all
      let ?st' = "?st\<lparr>es_subscriptions := mgr', es_subscriptions_file := save_subscriptions ?fp mgr'\<rparr>"
      have get: "get_subscription_by_id mgr' i = Inr (s\<lparr>sub_id := i\<rparr>)"
        using subscription_by_id_iff [OF i(2), of i "sub_name s" "s\<lparr>sub_id := i\<rparr>"] i(5)
        by (simp add: get_subscription_by_id_def get_subscription_by_name_def)
      let ?r = "set_status 201 (set_resp_header ''Location'' (path_append (dec_of_nat i) (path_of_request q)) new_response)"
      have r: "resp_status ?r = 201"
          "map_of (resp_headers ?r) ''Location'' = Some (path_append (dec_of_nat i) (path_of_request q))"
        by (simp_all add: set_status_def set_resp_header_def new_response_def)
      have "forward_to_handler mx q (st, new_response) = (Inr (), (?st', ?r))" using fwd post x' i(1) by simp
      then have conn: "connector_handle access_allowed (forward_to_handler mx) q st = (Inr ?r, ?st')"
        by (simp add: answer)
      show ?thesis
        unfolding None option.case Let_def
        by (rule exI [of _ s], rule exI [of _ ?r], rule exI [of _ ?st'])
          (simp only: s(1) conn None option.case if_not_P [OF False], intro conjI exI [of _ i],
            use i r get events_ok_saved [OF i(2,3), of ?fp ?st] in simp_all)
    qed
  qed
qed

text \<open>
  C10: \<^verbatim>\<open>POST\<close> to the collection, once the credentials and the body are accepted: a name that is taken is answered
  with 400 and thirty subscriptions with 405, and nothing changes; otherwise the subscription is
  stored with the least free id, the status is 201, and \<^verbatim>\<open>Location\<close> is the path whose \<^verbatim>\<open>GET\<close> finds it.
\<close>

theorem subscribe_request:
  assumes "event_mux env = Inr mx" and "split_path (req_url q) = events_base @ [''Subscriptions'']"
    and "access_allowed st q" and "req_secure q" and "req_method q = POST"
    and "authen_check (ee_rest env) q ''POST'' (es_rest st) = (Inr True, rs)"
    and "validate_request_body (env_jsoncpp (ee_rest env)) (env_fpu (ee_rest env))
      SubscriptionCollectionPostSchema (req_body q) = Inr j"
    and "events_ok (env_fpu (ee_rest env)) st"
  shows "\<exists>s r st'. subscription_to_model j = Inr s
    \<and> connector_handle access_allowed (forward_to_handler mx) q st = (Inr r, st') \<and>
    (let mgr = es_subscriptions st in case map_of (subscriptions mgr) (sub_name s) of
       Some old \<Rightarrow> resp_status r = 400 \<and> st' = st\<lparr>es_rest := rs\<rparr>
     | None \<Rightarrow>
         if \<forall>i. 1 \<le> i \<and> i \<le> 30 \<longrightarrow> (\<exists>n t. map_of (subscriptions mgr) n = Some t \<and> sub_id t = i)
         then resp_status r = 405 \<and> st' = st\<lparr>es_rest := rs\<rparr>
         else \<exists>i. i = (LEAST j. 1 \<le> j \<and> (\<forall>n t. map_of (subscriptions mgr) n = Some t \<longrightarrow> sub_id t \<noteq> j))
           \<and> resp_status r = 201 \<and> map_of (resp_headers r) ''Location'' = Some (path_append (dec_of_nat i) (path_of_request q))
           \<and> map_of (subscriptions (es_subscriptions st')) = (map_of (subscriptions mgr))(sub_name s \<mapsto> s\<lparr>sub_id := i\<rparr>)
           \<and> get_subscription_by_id (es_subscriptions st') i = Inr (s\<lparr>sub_id := i\<rparr>)
           \<and> events_ok (env_fpu (ee_rest env)) st')"
  using assms by (rule subscribe_request_law)

end
