(* ===== verification/Example_Events.thy ===== *)
theory Example_Events
  imports Example_Requests Event_Requests
begin

text \<open>The theorems of the event service at work: subscribing, the queue, and deliveries that fail.\<close>

section \<open>Subscribing\<close>

definition demo_event_env :: event_env where
  "demo_event_env = \<lparr>ee_rest = demo_env, ee_uuid = (\<lambda>i. ''uuid-'' @ dec_of_nat i), ee_steady = 0\<rparr>"

definition demo_events :: event_state where
  "demo_events = event_boot demo_event_env demo_state []"

definition demo_event_mux :: "event_state mux" where
  "demo_event_mux = \<lparr>candidates = event_candidates demo_event_env, pre_handlers = [], post_handlers = []\<rparr>"

definition subscription_body :: json where
  "subscription_body = json_object
     [(''Name'', JString ''watcher''), (''Destination'', JString ''http://10.0.0.9/events''),
      (''EventTypes'', JArray [JString ''Alert'']), (''Context'', JString ''rack 4''), (''Protocol'', JString ''Redfish'')]"

definition subscribe :: request where
  "subscribe = as_user ''admin'' ''redfish''
     (demo_request POST ''/redfish/v1/EventService/Subscriptions'' subscription_body)"

definition watcher :: subscription where
  "watcher = \<lparr>sub_id = 0, sub_name = ''watcher'', sub_destination = ''http://10.0.0.9/events'',
     sub_event_types = [Alert], sub_context = ''rack 4'', sub_protocol = ''Redfish''\<rparr>"

lemma demo_events_eq: "demo_events = \<lparr>es_rest = demo_state, es_subscriptions = new_subscription_manager,
    es_subscriptions_file = [], es_queue = new_event_queue\<rparr>"
  by (simp add: demo_events_def event_boot_def load_subscriptions_def)

lemma demo_events_ok: "events_ok demo_fpu demo_events"
  unfolding demo_events_def by (rule events_ok_empty) (simp add: demo_event_env_def demo_env_def)

lemma subscribe_body_accepted:
  "validate_request_body demo_jsoncpp demo_fpu SubscriptionCollectionPostSchema (req_body subscribe) = Inr subscription_body"
  by code_simp

lemma subscribe_body_model: "subscription_to_model subscription_body = Inr watcher"
  by code_simp

lemma subscribe_admitted:
  "authen_check demo_env subscribe ''POST'' demo_state = (Inr True, demo_state)"
  by code_simp

lemma demo_event_env_simps: "ee_rest demo_event_env = demo_env" "env_fpu demo_env = demo_fpu" "env_jsoncpp demo_env = demo_jsoncpp"
  by (simp_all add: demo_event_env_def demo_env_def)

lemma demo_event_mux: "event_mux demo_event_env = Inr demo_event_mux"
  by (simp add: event_mux_eq demo_event_mux_def)

lemma subscribe_simps: "split_path (req_url subscribe) = events_base @ [''Subscriptions'']"
  "path_append (dec_of_nat 1) (path_of_request subscribe) = ''/redfish/v1/EventService/Subscriptions/1''"
  "req_secure subscribe" "req_method subscribe = POST"
  by code_simp+

lemma demo_events_simps: "subscriptions (es_subscriptions demo_events) = []" "es_rest demo_events = demo_state"
  by (simp_all add: demo_events_eq new_subscription_manager_def)

lemma least_one: "(LEAST j::nat. 1 \<le> j) = 1"
  by (rule Least_equality) simp_all

lemma subscribe_request_witness:
  "\<exists>r st'. connector_handle (\<lambda>_ _. True) (forward_to_handler demo_event_mux) subscribe demo_events = (Inr r, st')
    \<and> resp_status r = 201
    \<and> map_of (resp_headers r) ''Location'' = Some ''/redfish/v1/EventService/Subscriptions/1''
    \<and> get_subscription_by_id (es_subscriptions st') 1 = Inr (watcher\<lparr>sub_id := 1\<rparr>)"
  using subscribe_request [OF demo_event_mux subscribe_simps(1) _ subscribe_simps(3,4), of "\<lambda>_ _. True" demo_events demo_state
      subscription_body, unfolded demo_event_env_simps demo_events_simps(2), OF _ subscribe_admitted subscribe_body_accepted demo_events_ok]
    subscribe_simps(2) least_one
  by (auto simp: subscribe_body_model demo_events_simps split: if_splits)

lemma subscribed:
  "\<exists>r st'. connector_handle (\<lambda>_ _. True) (forward_to_handler demo_event_mux) subscribe demo_events = (Inr r, st')
    \<and> map_of (subscriptions (es_subscriptions st')) ''watcher'' = Some (watcher\<lparr>sub_id := 1\<rparr>)"
  using subscribe_request_law [OF demo_event_mux subscribe_simps(1) _ subscribe_simps(3,4), of "\<lambda>_ _. True" demo_events demo_state
      subscription_body, unfolded demo_event_env_simps demo_events_simps(2), OF _ subscribe_admitted subscribe_body_accepted demo_events_ok]
    least_one
  by (auto simp: subscribe_body_model demo_events_simps watcher_def split: if_splits)


section \<open>The queue\<close>

definition demo_queue :: "nat queue_system" where
  "demo_queue = (initial_queue_system 0)\<lparr>sys_queue := push_back_delayed 7 5 0 new_event_queue, sys_pushed := [(5, 7)]\<rparr>"

lemma demo_queue_reached: "queue_step\<^sup>*\<^sup>* (initial_queue_system 0) demo_queue"
  using queue_step.push [of "initial_queue_system 0 :: nat queue_system" 5 7]
  by (simp add: demo_queue_def initial_queue_system_def r_into_rtranclp)

lemma event_queue_delivery_witness: "q_data (sys_queue demo_queue) = [(5, 7)] \<and> mset (sys_pushed demo_queue) = mset [(5, 7)]"
proof -
  have "q_data (sys_queue demo_queue) = [(5, 7)]"
    by (simp add: demo_queue_def push_back_delayed_def push_back_at_def new_event_queue_def)
  moreover have "sys_popped demo_queue = []" by (simp add: demo_queue_def initial_queue_system_def)
  ultimately show ?thesis using event_queue_delivery [OF demo_queue_reached] by simp
qed

lemma event_queue_no_lost_wakeup_witness: "\<exists>s it. quiet_step\<^sup>*\<^sup>* demo_queue s \<and> sys_popped s = [it]"
proof -
  have "q_data (sys_queue demo_queue) \<noteq> []"
    by (simp add: demo_queue_def push_back_delayed_def push_back_at_def new_event_queue_def)
  from event_queue_no_lost_wakeup [OF demo_queue_reached this] show ?thesis
    by (auto simp: demo_queue_def initial_queue_system_def)
qed

section \<open>Deliveries that fail\<close>

definition unreachable :: "string set" where
  "unreachable = {''http://10.0.0.9/events''}"

definition demo_network :: network where
  "demo_network = \<lparr>net_fpu = demo_fpu, net_time_with_zone = (\<lambda>_. ''2017-01-01T00:00:00Z''),
     net_deliver = (\<lambda>_ d _. d \<notin> unreachable)\<rparr>"

definition two_attempts :: event_service where
  "two_attempts = \<lparr>es_attempts = 2, es_interval = 60\<rparr>"

definition one_watcher :: subscription_manager where
  "one_watcher = new_subscription_manager\<lparr>subscriptions := [(''watcher'', watcher\<lparr>sub_id := 1\<rparr>)]\<rparr>"

definition demo_alert :: event where
  "demo_alert = new_event ''uuid'' 0 Alert ''/redfish/v1/Chassis/1''"

definition first_delivery :: delivery where
  "first_delivery = \<lparr>dl_queue = post_event demo_alert 0 0 new_event_queue, dl_sent = []\<rparr>"

definition second_delivery :: delivery where
  "second_delivery = \<lparr>dl_queue = \<lparr>q_data = [(60, retry_of demo_alert (watcher\<lparr>sub_id := 1\<rparr>))], q_new_item = True\<rparr>,
     dl_sent = [watcher\<lparr>sub_id := 1\<rparr>]\<rparr>"

definition last_delivery :: delivery where
  "last_delivery = \<lparr>dl_queue = \<lparr>q_data = [], q_new_item = True\<rparr>,
     dl_sent = [watcher\<lparr>sub_id := 1\<rparr>, watcher\<lparr>sub_id := 1\<rparr>]\<rparr>"

lemma demo_network_down: "network_down demo_network unreachable"
  by (simp add: network_down_def demo_network_def)

lemma demo_deliveries:
  "delivery_step demo_network two_attempts one_watcher first_delivery second_delivery"
  "delivery_step demo_network two_attempts one_watcher second_delivery last_delivery"
proof -
  have 1: "handle_event demo_network two_attempts one_watcher 0 demo_alert (pop_item (0, demo_alert) (dl_queue first_delivery))
      = (dl_queue second_delivery, [watcher\<lparr>sub_id := 1\<rparr>])"
    by code_simp
  have q: "queue_first (dl_queue first_delivery) = Some (0, demo_alert)" by code_simp
  show "delivery_step demo_network two_attempts one_watcher first_delivery second_delivery"
    using delivery_step.deliver [OF q, of 0 demo_network two_attempts one_watcher, unfolded snd_conv, OF _ 1]
    by (simp add: first_delivery_def second_delivery_def)
  let ?e = "retry_of demo_alert (watcher\<lparr>sub_id := 1\<rparr>)"
  have 2: "handle_event demo_network two_attempts one_watcher 60 ?e (pop_item (60, ?e) (dl_queue second_delivery))
      = (dl_queue last_delivery, [watcher\<lparr>sub_id := 1\<rparr>])"
    by code_simp
  have q2: "queue_first (dl_queue second_delivery) = Some (60, ?e)" by code_simp
  show "delivery_step demo_network two_attempts one_watcher second_delivery last_delivery"
    using delivery_step.deliver [OF q2, of 60 demo_network two_attempts one_watcher, unfolded snd_conv, OF _ 2]
    by (simp add: last_delivery_def second_delivery_def)
qed

lemma delivery_terminates_witness:
  "2 = outstanding unreachable two_attempts one_watcher (\<lambda>_. 1) (mset (q_data (dl_queue first_delivery)))"
proof -
  have "(delivery_step demo_network two_attempts one_watcher ^^ 2) first_delivery last_delivery"
    using demo_deliveries by (auto simp: numeral_2_eq_2)
  moreover have "queue_retries_ok two_attempts (dl_queue first_delivery)" by code_simp
  moreover have "q_data (dl_queue last_delivery) = []" by (simp add: last_delivery_def)
  ultimately show ?thesis using delivery_terminates [OF demo_network_down] by blast
qed

lemma retry_storm_witness: "count_list (dl_sent last_delivery) (watcher\<lparr>sub_id := 1\<rparr>) = 2"
proof -
  have "(delivery_step demo_network two_attempts one_watcher)\<^sup>*\<^sup>* first_delivery last_delivery"
    using demo_deliveries by (meson rtranclp.simps)
  moreover have "ev_retries demo_alert = 0" "q_data (dl_queue last_delivery) = []"
    by (simp_all add: demo_alert_def new_event_def last_delivery_def)
  moreover have "count_list (select_subscribers one_watcher demo_alert) (watcher\<lparr>sub_id := 1\<rparr>) = 1"
    "failing unreachable one_watcher (ev_type demo_alert) = 1" "max 1 (unat (es_attempts two_attempts)) = 2"
    by code_simp+
  ultimately show ?thesis
    using retry_storm [OF demo_network_down, of demo_alert two_attempts one_watcher 0 last_delivery "watcher\<lparr>sub_id := 1\<rparr>"]
    by (simp add: first_delivery_def numeral_2_eq_2)
qed

end
