(* ===== verification/Id_Database.thy ===== *)
theory Id_Database
  imports Std_Map Error_Factory "HOL-Library.Word"
begin

text \<open>
  The database of identifiers (\<^verbatim>\<open>rest/model/handlers/database.cpp\<close>, \<^verbatim>\<open>file_database.cpp\<close>): one small file per
  entry, its validity in the sticky bit of the file, its age in the time of the last status change. The
  directory is a map from file names; reading and writing in it succeeds. A directory is read in the
  order of the names, where the code takes any order. Assertions are compiled out. Times are in
  seconds.
\<close>

section \<open>Texts\<close>

text \<open>\<^verbatim>\<open>std::string::rfind\<close> from a position on.\<close>

definition rfind :: "string \<Rightarrow> string \<Rightarrow> nat \<Rightarrow> nat option" where
  "rfind s pat pos =
     (if length s < length pat then None
      else List.find (\<lambda>i. take (length pat) (drop i s) = pat) (rev [0..<Suc (min pos (length s - length pat))]))"

definition until_dot :: "string \<Rightarrow> string" where
  "until_dot s = takeWhile (\<lambda>c. c \<noteq> CHR ''.'') s"

section \<open>Keys and values\<close>

abbreviation LAST :: string where
  "LAST \<equiv> ''last''"

text \<open>A key of a resource has its uuid and its parent's; a key of last ids, a parent and a resource.\<close>

datatype db_key = UuidKey string string | AlwaysMatchKey | ResourceLastKey string string

fun key_serialize :: "db_key \<Rightarrow> string result" where
  "key_serialize (UuidKey uuid parent) = Inr (if parent \<noteq> [] then parent @ ''.'' @ uuid else uuid)"
| "key_serialize AlwaysMatchKey = Inl (Undefined ''an int is thrown'')"
| "key_serialize (ResourceLastKey parent resource) = Inr (resource @ ''.'' @ parent @ ''.'' @ LAST)"

text \<open>The key a name is read as; \<open>None\<close> for a name that is not one of the key's kind.\<close>

fun key_unserialize :: "db_key \<Rightarrow> string \<Rightarrow> db_key option" where
  "key_unserialize (UuidKey _ _) str =
     (if CHR ''.'' \<in> set str
      then Some (UuidKey (drop (Suc (length (until_dot str))) str) (until_dot str))
      else Some (UuidKey str []))"
| "key_unserialize AlwaysMatchKey str = Some AlwaysMatchKey"
| "key_unserialize (ResourceLastKey parent resource) str =
     (case rfind str (''.'' @ LAST) (length str) of
        None \<Rightarrow> None
      | Some l \<Rightarrow>
          (case rfind str ''.'' (if l = 0 then length str else l - 1) of
             None \<Rightarrow> None
           | Some u \<Rightarrow>
               if parent \<noteq> take (if Suc u \<le> l then l - Suc u else length str) (drop (Suc u) str) then None
               else Some (ResourceLastKey parent (take u str))))"

definition value_serialize :: "64 word \<Rightarrow> string" where
  "value_serialize i = (if i = 0 then [] else dec_of_nat (unat i))"

definition value_unserialize :: "string \<Rightarrow> 64 word option result" where
  "value_unserialize str =
     (if str = [] then Inr None
      else case stoul str of None \<Rightarrow> Inl (StdExc ''stoul'') | Some i \<Rightarrow> Inr (Some i))"

section \<open>Files\<close>

record db_file =
  f_data :: string
  f_sticky :: bool
  f_ctim :: int

type_synonym db_store = "(string, db_file) smap"

datatype entity_validity = DB_ERROR | VALID | INVALID | OUTDATED

definition VALUE_LEN :: nat where
  "VALUE_LEN = 512"

definition NEVER :: int where
  "NEVER = 2 ^ 63 - 1"

text \<open>Names are relative to the directory of the database.\<close>

definition full_name :: "string \<Rightarrow> string \<Rightarrow> string" where
  "full_name db stripped_name =
     (if stripped_name = [] then [] else (if db \<noteq> [] then db @ ''.'' else []) @ stripped_name @ ''.db'')"

definition strip_name :: "string \<Rightarrow> string \<Rightarrow> string" where
  "strip_name db d_name =
     (if db \<noteq> [] \<and> (take (length db) d_name \<noteq> db \<or> take 1 (drop (length db) d_name) \<noteq> ''.'') then []
      else (let stripped = (if db \<noteq> [] then drop (Suc (length db)) d_name else d_name)
            in if length stripped < 3 \<or> drop (length stripped - 3) stripped \<noteq> ''.db'' then []
               else take (length stripped - 3) stripped))"

text \<open>A file that fills the buffer is taken for a longer one.\<close>

definition read_file :: "string \<Rightarrow> db_store \<Rightarrow> string option" where
  "read_file name store =
     (if name = [] then None
      else case map_of store name of
             None \<Rightarrow> None
           | Some f \<Rightarrow> if length (f_data f) < VALUE_LEN then Some (f_data f) else None)"

definition save_file :: "int \<Rightarrow> string \<Rightarrow> string \<Rightarrow> db_store \<Rightarrow> bool \<times> db_store" where
  "save_file now name data store =
     (if name = [] \<or> data = [] then (False, store)
      else (True, smap_put name \<lparr>f_data = data, f_sticky = True, f_ctim = now\<rparr> store))"

definition remove_file :: "string \<Rightarrow> db_store \<Rightarrow> bool \<times> db_store" where
  "remove_file name store =
     (if name = [] \<or> map_of store name = None then (False, store) else (True, smap_erase name store))"

text \<open>The sum is one of signed 64-bit numbers; it wraps around, as the compiled program has it.\<close>

definition plus_seconds :: "int \<Rightarrow> int \<Rightarrow> int" where
  "plus_seconds t i = sint (word_of_int (t + i) :: 64 word)"

definition file_validity :: "int \<Rightarrow> string \<Rightarrow> int \<Rightarrow> db_store \<Rightarrow> entity_validity" where
  "file_validity now name interval store =
     (case map_of store name of
        None \<Rightarrow> DB_ERROR
      | Some f \<Rightarrow>
          if f_sticky f then VALID
          else if plus_seconds (f_ctim f) interval \<le> now then OUTDATED
          else INVALID)"

definition invalidate_file :: "int \<Rightarrow> string \<Rightarrow> db_store \<Rightarrow> bool \<times> db_store" where
  "invalidate_file now name store =
     (case map_of store name of
        None \<Rightarrow> (False, store)
      | Some f \<Rightarrow>
          if name = [] \<or> \<not> f_sticky f then (False, store)
          else (True, smap_put name (f\<lparr>f_sticky := False, f_ctim := now\<rparr>) store))"

section \<open>The operations of a database\<close>

definition db_get :: "string \<Rightarrow> db_key \<Rightarrow> db_store \<Rightarrow> 64 word option result" where
  "db_get db key store =
     res_bind (key_serialize key) (\<lambda>k.
       case read_file (full_name db k) store of None \<Rightarrow> Inr None | Some data \<Rightarrow> value_unserialize data)"

definition db_put :: "int \<Rightarrow> string \<Rightarrow> db_key \<Rightarrow> 64 word \<Rightarrow> (db_store, exn, bool) action" where
  "db_put now db key i store =
     (case key_serialize key of
        Inl e \<Rightarrow> (Inl e, store)
      | Inr k \<Rightarrow> (case save_file now (full_name db k) (value_serialize i) store of (b, s) \<Rightarrow> (Inr b, s)))"

definition db_remove :: "string \<Rightarrow> db_key \<Rightarrow> (db_store, exn, bool) action" where
  "db_remove db key store =
     (case key_serialize key of
        Inl e \<Rightarrow> (Inl e, store)
      | Inr k \<Rightarrow> (case remove_file (full_name db k) store of (b, s) \<Rightarrow> (Inr b, s)))"

definition db_invalidate :: "int \<Rightarrow> string \<Rightarrow> db_key \<Rightarrow> (db_store, exn, bool) action" where
  "db_invalidate now db key store =
     (case key_serialize key of
        Inl e \<Rightarrow> (Inl e, store)
      | Inr k \<Rightarrow> (case invalidate_file now (full_name db k) store of (b, s) \<Rightarrow> (Inr b, s)))"

definition get_validity :: "int \<Rightarrow> string \<Rightarrow> db_key \<Rightarrow> int \<Rightarrow> db_store \<Rightarrow> entity_validity result" where
  "get_validity now db key interval store =
     res_bind (key_serialize key) (\<lambda>k. Inr (file_validity now (full_name db k) interval store))"

text \<open>The names the directory holds of a database, stripped, of the key's kind.\<close>

definition key_names :: "string \<Rightarrow> db_key \<Rightarrow> db_store \<Rightarrow> string list" where
  "key_names db key store =
     filter (\<lambda>n. n \<noteq> [] \<and> key_unserialize key n \<noteq> None) (map (strip_name db \<circ> fst) store)"

fun process_names :: "(string \<Rightarrow> db_store \<Rightarrow> bool \<times> db_store) \<Rightarrow> string list \<Rightarrow> db_store \<Rightarrow> nat \<times> db_store" where
  "process_names f [] store = (0, store)"
| "process_names f (n # ns) store =
     (case f n store of (b, s) \<Rightarrow> (case process_names f ns s of (k, s') \<Rightarrow> (if b then Suc k else k, s')))"

definition foreach_name :: "string \<Rightarrow> db_key \<Rightarrow> (string \<Rightarrow> db_store \<Rightarrow> bool \<times> db_store) \<Rightarrow> db_store \<Rightarrow> nat \<times> db_store" where
  "foreach_name db key f store = process_names f (key_names db key store) store"

definition cleanup_name :: "int \<Rightarrow> string \<Rightarrow> int \<Rightarrow> string \<Rightarrow> db_store \<Rightarrow> bool \<times> db_store" where
  "cleanup_name now db interval n store =
     (case file_validity now (full_name db n) interval store of
        DB_ERROR \<Rightarrow> (False, store)
      | VALID \<Rightarrow> invalidate_file now (full_name db n) store
      | INVALID \<Rightarrow> (False, store)
      | OUTDATED \<Rightarrow> remove_file (full_name db n) store)"

definition cleanup :: "int \<Rightarrow> string \<Rightarrow> db_key \<Rightarrow> int \<Rightarrow> db_store \<Rightarrow> nat \<times> db_store" where
  "cleanup now db key interval = foreach_name db key (cleanup_name now db interval)"

definition wipe_name :: "int \<Rightarrow> string \<Rightarrow> int \<Rightarrow> string \<Rightarrow> db_store \<Rightarrow> bool \<times> db_store" where
  "wipe_name now db interval n store =
     (case file_validity now (full_name db n) interval store of
        OUTDATED \<Rightarrow> remove_file (full_name db n) store
      | _ \<Rightarrow> (False, store))"

definition wipe_outdated :: "int \<Rightarrow> string \<Rightarrow> db_key \<Rightarrow> int \<Rightarrow> db_store \<Rightarrow> nat \<times> db_store" where
  "wipe_outdated now db key interval = foreach_name db key (wipe_name now db interval)"

definition drop_entries :: "string \<Rightarrow> db_key \<Rightarrow> db_store \<Rightarrow> nat \<times> db_store" where
  "drop_entries db key = foreach_name db key (\<lambda>n. remove_file (full_name db n))"

section \<open>Iterating\<close>

datatype iterating_state = NOT_STARTED | STARTED | ITERATE | NO_MORE_DATA

record db_iterator =
  it_state :: iterating_state
  it_files :: "string list"

definition iterate_start :: "db_iterator \<Rightarrow> bool \<times> db_iterator" where
  "iterate_start it = (if it_state it \<noteq> NOT_STARTED then (False, it) else (True, it\<lparr>it_state := STARTED\<rparr>))"

text \<open>The first of the names left that has a value.\<close>

fun next_entry :: "string \<Rightarrow> db_key \<Rightarrow> string list \<Rightarrow> db_store \<Rightarrow> ((db_key \<times> 64 word) option \<times> string list) result" where
  "next_entry db key [] store = Inr (None, [])"
| "next_entry db key (n # ns) store =
     (case read_file (full_name db n) store of
        None \<Rightarrow> next_entry db key ns store
      | Some data \<Rightarrow>
          res_bind (value_unserialize data) (\<lambda>v. case v of
              None \<Rightarrow> next_entry db key ns store
            | Some i \<Rightarrow> Inr (Some (the (key_unserialize key n), i), ns)))"

definition iterate_next :: "string \<Rightarrow> db_key \<Rightarrow> db_store \<Rightarrow> db_iterator \<Rightarrow> ((db_key \<times> 64 word) option \<times> db_iterator) result" where
  "iterate_next db key store it =
     (if it_state it = NOT_STARTED \<or> it_state it = NO_MORE_DATA then Inr (None, it)
      else (let files = (if it_state it = STARTED then key_names db key store else it_files it)
            in res_bind (next_entry db key files store) (\<lambda>(r, ns). Inr (r, \<lparr>it_state = ITERATE, it_files = ns\<rparr>))))"

definition iterate_end :: "db_iterator \<Rightarrow> db_iterator" where
  "iterate_end it = it\<lparr>it_state := NOT_STARTED\<rparr>"

section \<open>The pool of databases\<close>

text \<open>A name that begins with a star stands for all the data: the database's own name is empty.\<close>

definition create_database :: "string \<Rightarrow> string list \<Rightarrow> string \<times> string list" where
  "create_database name dbs =
     (if name \<in> set dbs then (name, dbs)
      else (let n = (if take 1 name = ''*'' then [] else name) in (n, dbs @ [n])))"

definition remove_database :: "string \<Rightarrow> string list \<Rightarrow> string list" where
  "remove_database name dbs = remove1 name dbs"

definition invalidate_all :: "int \<Rightarrow> int \<Rightarrow> db_store \<Rightarrow> nat \<times> db_store" where
  "invalidate_all now interval = cleanup now (fst (create_database ''*retention'' [])) AlwaysMatchKey interval"

definition remove_outdated :: "int \<Rightarrow> int \<Rightarrow> db_store \<Rightarrow> nat \<times> db_store" where
  "remove_outdated now interval = wipe_outdated now (fst (create_database ''*retention'' [])) AlwaysMatchKey interval"

end
