(* ===== verification/Id_Policy.thy ===== *)
theory Id_Policy
  imports Id_Database
begin

text \<open>
  The identifiers of REST resources (\<^verbatim>\<open>rest/model/handlers/id_policy.hpp\<close>, \<^verbatim>\<open>id_memoizer.cpp\<close>): each resource an
  agent reports gets a number, unique among the resources of its kind with the same parent, and the
  database remembers it beyond a restart.
\<close>

section \<open>Identifiers in use\<close>

type_synonym id_map = "(64 word, string) smap"
type_synonym memoizer = "(string, id_map) smap"

definition is_allocated_for :: "memoizer \<Rightarrow> string \<Rightarrow> 64 word \<Rightarrow> string" where
  "is_allocated_for m parent i =
     (case map_of m parent of
        None \<Rightarrow> []
      | Some ids \<Rightarrow> (case map_of ids i of None \<Rightarrow> [] | Some u \<Rightarrow> u))"

definition allocate :: "string \<Rightarrow> string \<Rightarrow> 64 word \<Rightarrow> memoizer \<Rightarrow> bool \<times> memoizer" where
  "allocate parent uuid i m =
     (if is_allocated_for m parent i \<noteq> [] then (False, m)
      else (True, smap_put parent
             (smap_put i uuid (case map_of m parent of None \<Rightarrow> [] | Some ids \<Rightarrow> ids)) m))"

definition remove_allocated :: "string \<Rightarrow> 64 word \<Rightarrow> memoizer \<Rightarrow> bool \<times> memoizer" where
  "remove_allocated parent i m =
     (case map_of m parent of
        None \<Rightarrow> (False, m)
      | Some ids \<Rightarrow>
          if map_of ids i = None then (False, m)
          else (True, if smap_erase i ids = [] then smap_erase parent m else smap_put parent (smap_erase i ids) m))"

definition clear_memoizer :: "memoizer \<Rightarrow> memoizer" where
  "clear_memoizer m = []"

text \<open>The memoizers of all kinds of resources, by name.\<close>

definition create_memoizer :: "string \<Rightarrow> (string, memoizer) smap \<Rightarrow> (string, memoizer) smap" where
  "create_memoizer name = smap_emplace name []"

definition remove_memoizer :: "string \<Rightarrow> (string, memoizer) smap \<Rightarrow> (string, memoizer) smap" where
  "remove_memoizer = smap_erase"

section \<open>The policy\<close>

datatype numbering_zone = PARENT_SPACE | SHARED

record id_policy =
  pol_component :: string
  pol_zone :: numbering_zone

record id_state =
  id_store :: db_store
  id_memo :: memoizer

definition zone_parent :: "id_policy \<Rightarrow> string \<Rightarrow> string" where
  "zone_parent pol parent = (if pol_zone pol = SHARED then [] else parent)"

text \<open>
  The loop of \<^verbatim>\<open>get_id\<close> from a candidate on, \<open>next_free\<close> counting beside it. It may have no end: that is
  \<open>None\<close>.
\<close>

partial_function (option) free_id :: "memoizer \<Rightarrow> string \<Rightarrow> string \<Rightarrow> 64 word \<Rightarrow> 64 word \<Rightarrow> 64 word option" where
  "free_id m parent uuid i next_free =
     (let a = is_allocated_for m parent i
      in if a = [] \<or> a = uuid then Some i
         else free_id m parent uuid (next_free + 1) (next_free + 1))"

definition update_last :: "int \<Rightarrow> id_policy \<Rightarrow> string \<Rightarrow> 64 word \<Rightarrow> 64 word \<Rightarrow> (db_store, exn, unit) action" where
  "update_last now pol parent final i =
     act_bind (act_read (get_validity now (pol_component pol) (UuidKey LAST parent) NEVER)) (\<lambda>v.
       if final < i \<or> v \<noteq> VALID
       then act_bind (db_put now (pol_component pol) (UuidKey LAST parent) i) (\<lambda>_. act_return ())
       else act_return ())"

definition get_id :: "int \<Rightarrow> id_policy \<Rightarrow> string \<Rightarrow> string \<Rightarrow> id_state \<Rightarrow> ((exn + 64 word) \<times> id_state) option" where
  "get_id now pol uuid parent_uuid st =
     (let db = pol_component pol; parent = zone_parent pol parent_uuid
      in case db_get db (UuidKey LAST parent) (id_store st) of
           Inl e \<Rightarrow> Some (Inl e, st)
         | Inr l \<Rightarrow>
             (let final = (case l of None \<Rightarrow> 0 | Some v \<Rightarrow> v)
              in case db_get db (UuidKey uuid parent) (id_store st) of
                   Inl e \<Rightarrow> Some (Inl e, st)
                 | Inr k \<Rightarrow>
                     (case free_id (id_memo st) parent uuid (case k of None \<Rightarrow> final + 1 | Some v \<Rightarrow> v) (final + 1) of
                        None \<Rightarrow> None
                      | Some i \<Rightarrow>
                          (let memo = snd (allocate parent uuid i (id_memo st))
                           in case act_bind (update_last now pol parent final i)
                                     (\<lambda>_. db_put now db (UuidKey uuid parent) i) (id_store st) of
                                (Inl e, s) \<Rightarrow> Some (Inl e, \<lparr>id_store = s, id_memo = memo\<rparr>)
                              | (Inr _, s) \<Rightarrow> Some (Inr i, \<lparr>id_store = s, id_memo = memo\<rparr>)))))"

definition invalidate_last :: "int \<Rightarrow> id_policy \<Rightarrow> string \<Rightarrow> db_store \<Rightarrow> nat \<times> db_store" where
  "invalidate_last now pol parent_uuid =
     cleanup now (fst (create_database ''*parent'' [])) (ResourceLastKey (zone_parent pol parent_uuid) []) NEVER"

definition purge :: "int \<Rightarrow> id_policy \<Rightarrow> string \<Rightarrow> string \<Rightarrow> (id_state, exn, unit) action" where
  "purge now pol uuid parent_uuid st =
     (let db = pol_component pol; parent = zone_parent pol parent_uuid
      in case db_get db (UuidKey uuid parent) (id_store st) of
           Inl e \<Rightarrow> (Inl e, st)
         | Inr None \<Rightarrow> (Inr (), st)
         | Inr (Some i) \<Rightarrow>
             (case db_invalidate now db (UuidKey uuid parent) (snd (invalidate_last now pol uuid (id_store st))) of
                (Inl e, s) \<Rightarrow> (Inl e, st\<lparr>id_store := s\<rparr>)
              | (Inr _, s) \<Rightarrow> (Inr (), \<lparr>id_store = s, id_memo = snd (remove_allocated parent i (id_memo st))\<rparr>)))"

definition reset :: "id_policy \<Rightarrow> id_state \<Rightarrow> id_state" where
  "reset pol st = \<lparr>id_store = snd (drop_entries (pol_component pol) (UuidKey [] []) (id_store st)), id_memo = []\<rparr>"

section \<open>The search for a free identifier ends\<close>

text \<open>A number the resource may have: nobody has it, or it has.\<close>

definition usable :: "memoizer \<Rightarrow> string \<Rightarrow> string \<Rightarrow> 64 word \<Rightarrow> bool" where
  "usable m parent uuid i \<longleftrightarrow> is_allocated_for m parent i = [] \<or> is_allocated_for m parent i = uuid"

lemma free_id_step:
  "free_id m parent uuid i n = (if usable m parent uuid i then Some i else free_id m parent uuid (n + 1) (n + 1))"
  by (subst free_id.simps) (simp add: Let_def usable_def)

lemma free_id_now: "usable m parent uuid i \<Longrightarrow> free_id m parent uuid i n = Some i"
  by (simp add: free_id_step [of m parent uuid i])

lemma free_id_next:
  "\<not> usable m parent uuid i \<Longrightarrow> usable m parent uuid (n + 1) \<Longrightarrow> free_id m parent uuid i n = Some (n + 1)"
  by (simp add: free_id_step [of m parent uuid i] free_id_now)

lemma free_id_usable:
  assumes "free_id m parent uuid i n = Some j"
  shows "usable m parent uuid j"
  using assms unfolding usable_def
proof (rule free_id.raw_induct [rotated])
  fix rec m parent uuid i n j
  assume "\<And>m parent uuid i n j. rec m parent uuid i n = Some j
      \<Longrightarrow> is_allocated_for m parent j = [] \<or> is_allocated_for m parent j = uuid"
    and "(let a = is_allocated_for m parent i in if a = [] \<or> a = uuid then Some i else rec m parent uuid (n + 1) (n + 1)) = Some j"
  then show "is_allocated_for m parent j = [] \<or> is_allocated_for m parent j = uuid"
    by (auto simp: Let_def split: if_splits)
qed

lemma free_id_at:
  "\<not> usable m parent uuid i \<Longrightarrow> usable m parent uuid (n + of_nat (Suc k))
     \<Longrightarrow> (\<forall>j<k. \<not> usable m parent uuid (n + of_nat (Suc j))) \<Longrightarrow> free_id m parent uuid i n = Some (n + of_nat (Suc k))"
proof (induction k arbitrary: i n)
  case 0
  then show ?case by (simp add: free_id_step [of m parent uuid i] free_id_step [of m parent uuid "n + 1"])
next
  case (Suc k)
  have "\<not> usable m parent uuid (n + 1)" using Suc.prems(3) by (metis of_nat_1 One_nat_def zero_less_Suc)
  moreover have "usable m parent uuid (n + 1 + of_nat (Suc k))" using Suc.prems(2) by (simp add: algebra_simps)
  moreover have "\<not> usable m parent uuid (n + 1 + of_nat (Suc j))" if "j < k" for j
    using Suc.prems(3) [rule_format, of "Suc j"] that by (simp add: algebra_simps)
  ultimately have "free_id m parent uuid (n + 1) (n + 1) = Some (n + 1 + of_nat (Suc k))" by (intro Suc.IH) auto
  with Suc.prems(1) show ?case by (simp add: free_id_step [of m parent uuid i] algebra_simps)
qed

definition ids_of :: "memoizer \<Rightarrow> string \<Rightarrow> 64 word set" where
  "ids_of m parent = {i. is_allocated_for m parent i \<noteq> []}"

lemma free_id_ends:
  assumes "ids_of m parent \<noteq> UNIV"
  shows "\<exists>j. free_id m parent uuid i n = Some j"
proof (cases "usable m parent uuid i")
  case False
  obtain w where w: "is_allocated_for m parent w = []" using assms by (auto simp: ids_of_def)
  have "n + of_nat (Suc (unat (w - n - 1))) = w" by simp
  with w have "usable m parent uuid (n + of_nat (Suc (unat (w - n - 1))))" by (simp add: usable_def)
  then have "\<exists>k. usable m parent uuid (n + of_nat (Suc k))" by blast
  then obtain k where "usable m parent uuid (n + of_nat (Suc k))" "\<forall>j<k. \<not> usable m parent uuid (n + of_nat (Suc j))"
    using exists_least_iff [of "\<lambda>k. usable m parent uuid (n + of_nat (Suc k))"] by blast
  with False free_id_at show ?thesis by blast
qed (simp add: free_id_step)

section \<open>The memoizer\<close>

lemma is_allocated_for_Nil [simp]: "is_allocated_for [] p i = []"
  by (simp add: is_allocated_for_def)

lemma is_allocated_after_allocate:
  "is_allocated_for (snd (allocate parent uuid i m)) q j =
     (if q = parent \<and> j = i \<and> is_allocated_for m parent i = [] then uuid else is_allocated_for m q j)"
  by (auto simp: allocate_def is_allocated_for_def split: option.splits)

lemma is_allocated_after_remove:
  "is_allocated_for (snd (remove_allocated parent i m)) q j =
     (if q = parent \<and> j = i then [] else is_allocated_for m q j)"
proof -
  have "map_of ids j = None" if "smap_erase i ids = []" "j \<noteq> i" for ids :: id_map
    using that map_of_smap_erase [of i ids] by (metis fun_upd_apply map_of.simps(1))
  then show ?thesis
    by (auto simp: remove_allocated_def is_allocated_for_def split: option.splits)
qed

section \<open>File names\<close>

definition dotless :: "string \<Rightarrow> bool" where
  "dotless s \<longleftrightarrow> CHR ''.'' \<notin> set s"

text \<open>Uuids of resources, and the names of components; no uuid begins like the name of the last ids.\<close>

definition proper_uuid :: "string \<Rightarrow> bool" where
  "proper_uuid u \<longleftrightarrow> u \<noteq> [] \<and> dotless u \<and> take 4 u \<noteq> LAST"

definition policy_ok :: "id_policy \<Rightarrow> bool" where
  "policy_ok pol \<longleftrightarrow> pol_component pol \<noteq> [] \<and> dotless (pol_component pol)"

definition entity_name :: "id_policy \<Rightarrow> string \<Rightarrow> string \<Rightarrow> string" where
  "entity_name pol parent uuid = pol_component pol @ ''.'' @ (if parent \<noteq> [] then parent @ ''.'' @ uuid else uuid)"

definition entity_file :: "id_policy \<Rightarrow> string \<Rightarrow> string \<Rightarrow> string" where
  "entity_file pol parent uuid = entity_name pol parent uuid @ ''.db''"

lemma dotted_inj:
  "dotless a \<Longrightarrow> dotless a' \<Longrightarrow> a @ CHR ''.'' # b = a' @ CHR ''.'' # b' \<longleftrightarrow> a = a' \<and> b = b'"
proof (induction a arbitrary: a')
  case Nil
  then show ?case by (cases a') (auto simp: dotless_def)
next
  case (Cons x a)
  then show ?case by (cases a') (auto simp: dotless_def)
qed

lemma entity_name_inj:
  assumes "dotless p" "dotless p'" "dotless u" "dotless u'"
  shows "entity_name pol p u = entity_name pol p' u' \<longleftrightarrow> p = p' \<and> u = u'"
proof -
  have "dotless x \<Longrightarrow> x \<noteq> y @ CHR ''.'' # z" for x y z by (auto simp: dotless_def)
  with assms show ?thesis by (auto simp: entity_name_def dotted_inj)
qed

lemma entity_file_inj:
  "dotless p \<Longrightarrow> dotless p' \<Longrightarrow> dotless u \<Longrightarrow> dotless u' \<Longrightarrow>
    entity_file pol p u = entity_file pol p' u' \<longleftrightarrow> p = p' \<and> u = u'"
  by (simp add: entity_file_def entity_name_inj)

lemma full_name_entity:
  assumes "policy_ok pol" and "uuid \<noteq> []"
  shows "full_name (pol_component pol) (if parent \<noteq> [] then parent @ ''.'' @ uuid else uuid) = entity_file pol parent uuid"
  using assms by (auto simp: full_name_def entity_file_def entity_name_def policy_ok_def)

section \<open>What is stored is read again\<close>

lemma length_dec_of_nat: "n < 10 ^ Suc k \<Longrightarrow> length (dec_of_nat n) \<le> Suc k"
proof (induction k arbitrary: n)
  case 0
  then show ?case by (subst dec_of_nat.simps) simp
next
  case (Suc k)
  show ?case
  proof (cases "n < 10")
    case False
    have "n div 10 < 10 ^ Suc k" using Suc.prems by (simp add: less_mult_imp_div_less)
    from Suc.IH [OF this] False show ?thesis by (subst dec_of_nat.simps) simp
  qed (subst dec_of_nat.simps, simp)
qed

lemma value_round_trip [simp]: "i \<noteq> 0 \<Longrightarrow> value_unserialize (value_serialize i) = Inr (Some i)"
  by (simp add: value_unserialize_def value_serialize_def stoul_dec_of_nat)

lemma value_serialize_short: "length (value_serialize i) < VALUE_LEN"
proof -
  have "unat i < 2 ^ 64" using unsigned_less [of i] by simp
  then have "unat i < 10 ^ Suc 19" by simp
  from length_dec_of_nat [OF this] show ?thesis by (simp add: value_serialize_def VALUE_LEN_def)
qed

lemma value_serialize_Nil [simp]: "value_serialize i = [] \<longleftrightarrow> i = 0"
  by (simp add: value_serialize_def)

definition stored_file :: "int \<Rightarrow> 64 word \<Rightarrow> db_file" where
  "stored_file now i = \<lparr>f_data = value_serialize i, f_sticky = True, f_ctim = now\<rparr>"

text \<open>The files of a policy that hold a number.\<close>

definition holds :: "db_store \<Rightarrow> string \<Rightarrow> 64 word \<Rightarrow> bool" where
  "holds store name i \<longleftrightarrow> i \<noteq> 0 \<and> (\<exists>f. map_of store name = Some f \<and> f_data f = value_serialize i)"

definition holds_number :: "db_store \<Rightarrow> string \<Rightarrow> bool" where
  "holds_number store name \<longleftrightarrow> map_of store name = None \<or> (\<exists>i. holds store name i)"

lemma holds_inj: "holds store name i \<Longrightarrow> holds store name j \<Longrightarrow> i = j"
  by (metis holds_def option.inject sum.inject(2) value_round_trip)

lemma db_get_missing:
  "policy_ok pol \<Longrightarrow> uuid \<noteq> [] \<Longrightarrow> map_of store (entity_file pol parent uuid) = None
    \<Longrightarrow> db_get (pol_component pol) (UuidKey uuid parent) store = Inr None"
  using full_name_entity [of pol uuid parent] by (simp add: db_get_def read_file_def)

lemma db_get_holds:
  "policy_ok pol \<Longrightarrow> uuid \<noteq> [] \<Longrightarrow> holds store (entity_file pol parent uuid) i
    \<Longrightarrow> db_get (pol_component pol) (UuidKey uuid parent) store = Inr (Some i)"
  using full_name_entity [of pol uuid parent] value_serialize_short [of i]
  by (auto simp: db_get_def read_file_def holds_def entity_file_def)

lemma db_put_entity:
  "policy_ok pol \<Longrightarrow> uuid \<noteq> [] \<Longrightarrow> i \<noteq> 0 \<Longrightarrow> db_put now (pol_component pol) (UuidKey uuid parent) i store
    = (Inr True, smap_put (entity_file pol parent uuid) (stored_file now i) store)"
  using full_name_entity [of pol uuid parent]
  by (auto simp: db_put_def save_file_def stored_file_def entity_file_def)

lemma update_last_law:
  assumes "policy_ok pol" and "i \<noteq> 0"
  shows "update_last now pol parent final i store = (Inr (),
    if final < i \<or> file_validity now (entity_file pol parent LAST) NEVER store \<noteq> VALID
    then smap_put (entity_file pol parent LAST) (stored_file now i) store else store)"
  using full_name_entity [OF assms(1), of LAST parent] db_put_entity [OF assms(1) _ assms(2), of LAST now parent store]
  by (auto simp: update_last_def act_bind_def act_read_def act_return_def get_validity_def)

text \<open>
  A resource gets the usable number the search finds, first its own if the database has one; the number is
  marked as its own, and the database holds it. The last number of the parent is overwritten when it
  is less, and also when it is not valid.
\<close>

lemma get_id_law:
  assumes "policy_ok pol" and "uuid \<noteq> []" and "parent = zone_parent pol parent_uuid"
    and "db_get (pol_component pol) (UuidKey LAST parent) (id_store st) = Inr l"
    and "db_get (pol_component pol) (UuidKey uuid parent) (id_store st) = Inr k"
    and "free_id (id_memo st) parent uuid (case k of None \<Rightarrow> (case l of None \<Rightarrow> 0 | Some v \<Rightarrow> v) + 1 | Some v \<Rightarrow> v)
      ((case l of None \<Rightarrow> 0 | Some v \<Rightarrow> v) + 1) = Some i" and "i \<noteq> 0"
  shows "get_id now pol uuid parent_uuid st = Some (Inr i,
    \<lparr>id_store = smap_put (entity_file pol parent uuid) (stored_file now i)
       (if (case l of None \<Rightarrow> 0 | Some v \<Rightarrow> v) < i \<or> file_validity now (entity_file pol parent LAST) NEVER (id_store st) \<noteq> VALID
        then smap_put (entity_file pol parent LAST) (stored_file now i) (id_store st) else id_store st),
     id_memo = snd (allocate parent uuid i (id_memo st))\<rparr>)"
  using assms
  by (simp add: get_id_def Let_def act_bind_def update_last_law db_put_entity)

section \<open>What cleaning up leaves alone\<close>

definition valid_with :: "db_store \<Rightarrow> string \<Rightarrow> 64 word \<Rightarrow> bool" where
  "valid_with store name i \<longleftrightarrow> i \<noteq> 0 \<and> (\<exists>f. map_of store name = Some f \<and> f_data f = value_serialize i \<and> f_sticky f)"

lemma valid_with_holds: "valid_with store name i \<Longrightarrow> holds store name i"
  by (auto simp: valid_with_def holds_def)

lemma process_names_keeps:
  assumes "\<And>n s. n \<in> set ns \<Longrightarrow> P s \<Longrightarrow> P (snd (f n s))" and "P store"
  shows "P (snd (process_names f ns store))"
  using assms
proof (induction ns arbitrary: store)
  case (Cons n ns)
  obtain b s where f: "f n store = (b, s)" by force
  have "P s" using Cons.prems(1) [of n store] Cons.prems(2) f by simp
  with Cons.IH [of s] Cons.prems(1) f show ?case by (simp split: prod.split) (metis snd_conv)
qed simp

lemma invalidate_file_number: "holds_number s x \<Longrightarrow> holds_number (snd (invalidate_file now n s)) x"
  by (auto simp: invalidate_file_def holds_number_def holds_def split: option.split)

lemma remove_file_number: "holds_number s x \<Longrightarrow> holds_number (snd (remove_file n s)) x"
  by (auto simp: remove_file_def holds_number_def holds_def)

lemma cleanup_number: "holds_number s x \<Longrightarrow> holds_number (snd (cleanup now db key interval s)) x"
  unfolding cleanup_def foreach_name_def
  by (rule process_names_keeps [of _ "\<lambda>s. holds_number s x"])
    (auto simp: cleanup_name_def invalidate_file_number remove_file_number split: entity_validity.split)

lemma wipe_number: "holds_number s x \<Longrightarrow> holds_number (snd (wipe_outdated now db key interval s)) x"
  unfolding wipe_outdated_def foreach_name_def
  by (rule process_names_keeps [of _ "\<lambda>s. holds_number s x"])
    (auto simp: wipe_name_def remove_file_number split: entity_validity.split)

lemma file_ops_ordered:
  "smap_ok s \<Longrightarrow> smap_ok (snd (invalidate_file now n s))" "smap_ok s \<Longrightarrow> smap_ok (snd (remove_file n s))"
  by (auto simp: invalidate_file_def remove_file_def smap_ok_put smap_ok_erase split: option.split)

lemma cleanup_ordered: "smap_ok s \<Longrightarrow> smap_ok (snd (cleanup now db key interval s))"
  unfolding cleanup_def foreach_name_def
  by (rule process_names_keeps [of _ smap_ok]) (auto simp: cleanup_name_def file_ops_ordered split: entity_validity.split)

lemma wipe_ordered: "smap_ok s \<Longrightarrow> smap_ok (snd (wipe_outdated now db key interval s))"
  unfolding wipe_outdated_def foreach_name_def
  by (rule process_names_keeps [of _ smap_ok]) (auto simp: wipe_name_def file_ops_ordered split: entity_validity.split)

text \<open>A valid file is never wiped.\<close>

lemma wipe_valid: "valid_with s x i \<Longrightarrow> valid_with (snd (wipe_outdated now db key interval s)) x i"
  unfolding wipe_outdated_def foreach_name_def
  by (rule process_names_keeps [of _ "\<lambda>s. valid_with s x i"])
    (auto simp: wipe_name_def valid_with_def remove_file_def file_validity_def split: entity_validity.split option.splits if_splits)

lemma rfind_Some:
  assumes "rfind s pat pos = Some i"
  shows "i \<le> pos \<and> take (length pat) (drop i s) = pat"
proof -
  let ?P = "\<lambda>i. take (length pat) (drop i s) = pat"
  have "List.find ?P (rev [0..<Suc (min pos (length s - length pat))]) = Some i"
    using assms by (auto simp: rfind_def split: if_splits)
  moreover have "List.find Q xs = Some x \<Longrightarrow> Q x \<and> x \<in> set xs" for Q :: "nat \<Rightarrow> bool" and xs x
    by (auto simp: find_Some_iff)
  ultimately have "?P i \<and> i \<in> set (rev [0..<Suc (min pos (length s - length pat))])" by blast
  then show ?thesis by auto
qed

lemma dot_positions:
  assumes "dotless c" and "(c @ ''.'' @ r) ! k = CHR ''.''" and "k < length (c @ ''.'' @ r)"
  shows "k = length c \<or> length c < k \<and> r ! (k - length c - 1) = CHR ''.'' \<and> k - length c - 1 < length r"
proof -
  have "k < length c \<Longrightarrow> c ! k \<noteq> CHR ''.''" using assms(1) by (metis dotless_def nth_mem)
  with assms(2,3) show ?thesis by (auto simp: nth_append nth_Cons' split: if_splits)
qed

text \<open>The file of a resource is not one of last numbers.\<close>

lemma entity_not_last:
  assumes "policy_ok pol" and "dotless p" and "proper_uuid u"
  shows "key_unserialize (ResourceLastKey parent r) (entity_name pol p u) = None"
proof -
  let ?c = "pol_component pol" and ?n = "entity_name pol p u"
  have c: "dotless ?c" using assms(1) by (simp add: policy_ok_def)
  have u: "dotless u" "take 4 u \<noteq> LAST" using assms(3) by (simp_all add: proper_uuid_def)
  have at_dot: "?n ! k = CHR ''.'' \<and> k < length ?n" if "take (Suc j) (drop k ?n) = CHR ''.'' # t" for k j t
    using that by (cases "drop k ?n") (auto simp: nth_via_drop simp flip: nth_drop intro: ccontr)
  show ?thesis
  proof (rule ccontr)
    assume "\<not> ?thesis"
    then obtain l w where l: "rfind ?n (''.'' @ LAST) (length ?n) = Some l"
        and w: "rfind ?n ''.'' (if l = 0 then length ?n else l - 1) = Some w"
      by (auto split: option.splits if_splits)
    have ltake: "take 5 (drop l ?n) = ''.last''" using rfind_Some [OF l] by (simp add: numeral_eq_Suc)
    have wtake: "take 1 (drop w ?n) = ''.''" and wle: "w \<le> (if l = 0 then length ?n else l - 1)"
      using rfind_Some [OF w] by simp_all
    have ldot: "?n ! l = CHR ''.''" "l < length ?n" using at_dot [of 4 l "''last''"] ltake by simp_all
    have wdot: "?n ! w = CHR ''.''" "w < length ?n" using at_dot [of 0 w "[]"] wtake by simp_all
    show False
    proof (cases "p = []")
      case True
      then have n: "?n = ?c @ ''.'' @ u" by (simp add: entity_name_def)
      have "l = length ?c"
        using dot_positions [OF c, of u l] ldot n u(1) by (metis dotless_def nth_mem)
      with ltake n have "take 4 u = LAST" by simp
      with u(2) show False by simp
    next
      case False
      then have n: "?n = ?c @ ''.'' @ p @ ''.'' @ u" by (simp add: entity_name_def)
      have pos: "k = length ?c \<or> k = Suc (length ?c + length p)" if k: "?n ! k = CHR ''.''" "k < length ?n" for k
      proof -
        consider "k = length ?c" | "length ?c < k" "(p @ ''.'' @ u) ! (k - length ?c - 1) = CHR ''.''"
            "k - length ?c - 1 < length (p @ ''.'' @ u)"
          using dot_positions [OF c, of "p @ ''.'' @ u" k] k unfolding n by blast
        then show ?thesis
        proof cases
          case 2
          have "\<not> u ! j = CHR ''.''" if "j < length u" for j using u(1) that by (metis dotless_def nth_mem)
          with dot_positions [OF assms(2) 2(2,3)] have "k - length ?c - 1 = length p" by blast
          with 2(1) show ?thesis by simp
        qed simp
      qed
      have "l \<noteq> Suc (length ?c + length p)"
      proof
        assume "l = Suc (length ?c + length p)"
        with ltake n have "take 4 u = LAST" by simp
        with u(2) show False by simp
      qed
      with pos [OF ldot] have "l = length ?c" by simp
      moreover have "0 < length ?c" using assms(1) by (simp add: policy_ok_def)
      ultimately have "w \<le> length ?c - 1" "0 < length ?c" using wle by auto
      then have "w < length ?c" by linarith
      with pos [OF wdot] show False by simp
    qed
  qed
qed

lemma cleanup_last_valid:
  assumes "policy_ok pol" and "dotless p" and "proper_uuid u" and "valid_with s (entity_file pol p u) i"
  shows "valid_with (snd (cleanup now [] (ResourceLastKey parent r) interval s)) (entity_file pol p u) i"
proof -
  let ?x = "entity_file pol p u"
  have "valid_with (snd (cleanup_name now [] interval n s')) ?x i"
    if "n \<in> set (key_names [] (ResourceLastKey parent r) s)" "valid_with s' ?x i" for n s'
  proof -
    have "key_unserialize (ResourceLastKey parent r) n \<noteq> None" using that(1) by (simp add: key_names_def)
    with entity_not_last [OF assms(1-3)] have "n \<noteq> entity_name pol p u" by metis
    then have "full_name [] n \<noteq> ?x" by (auto simp: full_name_def entity_file_def)
    with that(2) show ?thesis
      by (auto simp: cleanup_name_def invalidate_file_def remove_file_def valid_with_def split: entity_validity.split option.split)
  qed
  with assms(4) show ?thesis
    unfolding cleanup_def foreach_name_def by (intro process_names_keeps [of _ "\<lambda>s. valid_with s ?x i"]) auto
qed

section \<open>What a policy goes through\<close>

text \<open>
  Resources are fetched and purged, outdated files are wiped, the service restarts; and other policies work on
  the same directory, which at most clears or removes what this one has of last numbers. Only
  a resource that has a number is purged, and no number is 0, as the assertions of the code have it.
\<close>

definition has_id :: "id_state \<Rightarrow> string \<Rightarrow> string \<Rightarrow> bool" where
  "has_id st parent uuid \<longleftrightarrow> (\<exists>i. is_allocated_for (id_memo st) parent i = uuid)"

definition own_file :: "id_policy \<Rightarrow> string \<Rightarrow> bool" where
  "own_file pol name \<longleftrightarrow> (\<exists>p u. dotless p \<and> proper_uuid u \<and> name = entity_file pol p u)"

inductive id_step :: "id_policy \<Rightarrow> id_state \<Rightarrow> id_state \<Rightarrow> bool" for pol where
  fetched: "get_id now pol uuid parent st = Some (r, st') \<Longrightarrow> r \<noteq> Inr 0 \<Longrightarrow> proper_uuid uuid \<Longrightarrow> dotless parent
    \<Longrightarrow> id_step pol st st'"
| purged: "purge now pol uuid parent st = (r, st') \<Longrightarrow> has_id st (zone_parent pol parent) uuid \<Longrightarrow> proper_uuid uuid
    \<Longrightarrow> dotless parent \<Longrightarrow> id_step pol st st'"
| wiped: "id_step pol st (st\<lparr>id_store := snd (remove_outdated now interval (id_store st))\<rparr>)"
| restarted: "id_step pol st \<lparr>id_store = snd (invalidate_all now interval (id_store st)), id_memo = []\<rparr>"
| others: "(\<And>name. own_file pol name \<Longrightarrow> map_of store name = map_of (id_store st) name)
    \<Longrightarrow> (\<And>p. holds_number (id_store st) (entity_file pol p LAST) \<Longrightarrow> holds_number store (entity_file pol p LAST))
    \<Longrightarrow> smap_ok store \<Longrightarrow> id_step pol st (st\<lparr>id_store := store\<rparr>)"

inductive_cases id_stepE: "id_step pol st st'"

definition ids_ok :: "id_policy \<Rightarrow> id_state \<Rightarrow> bool" where
  "ids_ok pol st \<longleftrightarrow> smap_ok (id_store st)
   \<and> (\<forall>p u. dotless p \<and> (proper_uuid u \<or> u = LAST) \<longrightarrow> holds_number (id_store st) (entity_file pol p u))
   \<and> (\<forall>p i. is_allocated_for (id_memo st) p i \<noteq> [] \<longrightarrow>
        (\<exists>u. is_allocated_for (id_memo st) p i = u \<and> dotless p \<and> proper_uuid u \<and> valid_with (id_store st) (entity_file pol p u) i))"

lemma ids_ok_number:
  "ids_ok pol st \<Longrightarrow> dotless p \<Longrightarrow> proper_uuid u \<or> u = LAST \<Longrightarrow> holds_number (id_store st) (entity_file pol p u)"
  by (simp add: ids_ok_def)

lemma ids_ok_allocated:
  "ids_ok pol st \<Longrightarrow> is_allocated_for (id_memo st) p i = u \<Longrightarrow> u \<noteq> []
    \<Longrightarrow> dotless p \<and> proper_uuid u \<and> valid_with (id_store st) (entity_file pol p u) i"
  by (auto simp: ids_ok_def)

lemma ids_ok_intro:
  assumes "smap_ok (id_store st)" and "\<And>p u. dotless p \<Longrightarrow> proper_uuid u \<or> u = LAST \<Longrightarrow> holds_number (id_store st) (entity_file pol p u)"
    and "\<And>p i u. is_allocated_for (id_memo st) p i = u \<Longrightarrow> u \<noteq> []
      \<Longrightarrow> dotless p \<and> proper_uuid u \<and> valid_with (id_store st) (entity_file pol p u) i"
  shows "ids_ok pol st"
  using assms by (auto simp: ids_ok_def)

lemma proper_LAST: "proper_uuid u \<Longrightarrow> dotless u \<and> u \<noteq> [] \<and> u \<noteq> LAST"
  by (auto simp: proper_uuid_def)

lemma dotless_LAST [simp]: "dotless LAST" "dotless []"
  by (simp_all add: dotless_def)

lemma dotless_zone [simp]: "dotless p \<Longrightarrow> dotless (zone_parent pol p)"
  by (simp add: zone_parent_def)

text \<open>The number fetching gives, from what the two files hold.\<close>

lemma db_get_number:
  assumes "policy_ok pol" and "holds_number store (entity_file pol p u)" and "u \<noteq> []"
  shows "\<exists>k. db_get (pol_component pol) (UuidKey u p) store = Inr k
    \<and> (k = None \<longleftrightarrow> map_of store (entity_file pol p u) = None) \<and> (\<forall>i. k = Some i \<longrightarrow> holds store (entity_file pol p u) i)"
proof (cases "map_of store (entity_file pol p u)")
  case None
  with db_get_missing [OF assms(1,3)] show ?thesis by simp
next
  case (Some f)
  with assms(2) obtain i where "holds store (entity_file pol p u) i" by (auto simp: holds_number_def)
  with Some db_get_holds [OF assms(1,3) this] show ?thesis by simp
qed

text \<open>What the store is after a number was given: the last number written only in some cases.\<close>

definition store_after :: "int \<Rightarrow> id_policy \<Rightarrow> string \<Rightarrow> string \<Rightarrow> 64 word \<Rightarrow> bool \<Rightarrow> db_store \<Rightarrow> db_store" where
  "store_after now pol p u i renew store = smap_put (entity_file pol p u) (stored_file now i)
     (if renew then smap_put (entity_file pol p LAST) (stored_file now i) store else store)"

lemma get_id_cases:
  assumes "policy_ok pol" and "ids_ok pol st" and "proper_uuid u" and "dotless parent" and "p = zone_parent pol parent"
  obtains (endless) "ids_of (id_memo st) p = UNIV" "get_id now pol u parent st = None"
  | (wrapped) s where "get_id now pol u parent st = Some (Inr 0, s)"
  | (given) i renew where "i \<noteq> 0" "usable (id_memo st) p u i" "\<forall>j. is_allocated_for (id_memo st) p j = u \<longrightarrow> i = j"
      "get_id now pol u parent st = Some (Inr i, \<lparr>id_store = store_after now pol p u i renew (id_store st),
         id_memo = snd (allocate p u i (id_memo st))\<rparr>)"
proof -
  let ?db = "pol_component pol"
  note u = proper_LAST [OF assms(3)]
  have p: "dotless p" using assms(4,5) by simp
  obtain l where l: "db_get ?db (UuidKey LAST p) (id_store st) = Inr l"
    using db_get_number [OF assms(1) ids_ok_number [OF assms(2) p], of LAST] by auto
  obtain k where k: "db_get ?db (UuidKey u p) (id_store st) = Inr k"
      "\<forall>i. k = Some i \<longrightarrow> holds (id_store st) (entity_file pol p u) i"
      "k = None \<longleftrightarrow> map_of (id_store st) (entity_file pol p u) = None"
    using db_get_number [OF assms(1) ids_ok_number [OF assms(2) p], of u] assms(3) u by auto
  define final where "final = (case l of None \<Rightarrow> 0 | Some v \<Rightarrow> v)"
  define start where "start = (case k of None \<Rightarrow> final + 1 | Some v \<Rightarrow> v)"
  have own: "start = j \<and> usable (id_memo st) p u start" if "is_allocated_for (id_memo st) p j = u" for j
  proof -
    have h: "holds (id_store st) (entity_file pol p u) j"
      using ids_ok_allocated [OF assms(2) that] u valid_with_holds by blast
    then have "k \<noteq> None" using k(3) by (auto simp: holds_def)
    then obtain a where a: "k = Some a" by blast
    with k(2) h have "a = j" using holds_inj by blast
    with a that show ?thesis by (simp add: start_def usable_def)
  qed
  show ?thesis
  proof (cases "free_id (id_memo st) p u start (final + 1)")
    case None
    have "get_id now pol u parent st = None"
      using None [unfolded start_def final_def] l k(1) assms(5) by (simp add: get_id_def Let_def)
    moreover have "ids_of (id_memo st) p = UNIV" using None free_id_ends [of "id_memo st" p u start "final + 1"] by auto
    ultimately show ?thesis using endless by blast
  next
    case (Some i)
    show ?thesis
    proof (cases "i = 0")
      case True
      have "\<exists>s. get_id now pol u parent st = Some (Inr 0, s)"
        using Some [unfolded start_def final_def] True l k(1) assms(5)
        by (auto simp: get_id_def Let_def update_last_def act_bind_def act_read_def act_return_def
            get_validity_def db_put_def split: prod.split)
      then show ?thesis using wrapped by blast
    next
      case False
      have "i = j" if "is_allocated_for (id_memo st) p j = u" for j
      proof -
        have "free_id (id_memo st) p u start (final + 1) = Some start"
          using conjunct2 [OF own [OF that]] by (subst free_id_step) simp
        with own [OF that] Some show ?thesis by simp
      qed
      then show ?thesis
        using given [OF False free_id_usable [OF Some]] u
          get_id_law [OF assms(1) _ assms(5) l k(1) Some [unfolded start_def final_def] False, of now]
        by (simp add: store_after_def final_def)
    qed
  qed
qed

lemma holds_stored [simp]: "i \<noteq> 0 \<Longrightarrow> f = stored_file now i \<Longrightarrow> map_of s x = Some f \<Longrightarrow> holds s x i"
  by (simp add: holds_def stored_file_def)

lemma ids_ok_given:
  assumes "ids_ok pol st" and "proper_uuid u" and "dotless p" and "i \<noteq> 0" and "usable (id_memo st) p u i"
    and "\<forall>j. is_allocated_for (id_memo st) p j = u \<longrightarrow> i = j"
  shows "ids_ok pol \<lparr>id_store = store_after now pol p u i renew (id_store st), id_memo = snd (allocate p u i (id_memo st))\<rparr>"
proof (rule ids_ok_intro, unfold id_state.select_convs)
  show "smap_ok (store_after now pol p u i renew (id_store st))"
    using assms(1) by (simp add: ids_ok_def store_after_def smap_ok_put)
next
  fix q v assume "dotless q" "proper_uuid v \<or> v = LAST"
  with ids_ok_number [OF assms(1) this] show "holds_number (store_after now pol p u i renew (id_store st)) (entity_file pol q v)"
    using assms(4) by (auto simp: store_after_def holds_number_def holds_def stored_file_def)
next
  fix q j v assume v: "is_allocated_for (snd (allocate p u i (id_memo st))) q j = v" "v \<noteq> []"
  show "dotless q \<and> proper_uuid v \<and> valid_with (store_after now pol p u i renew (id_store st)) (entity_file pol q v) j"
  proof (cases "q = p \<and> v = u")
    case True
    with v assms(6) have "j = i" by (auto simp: is_allocated_after_allocate split: if_splits)
    with True assms(2-4) show ?thesis by (auto simp: store_after_def valid_with_def stored_file_def)
  next
    case False
    with v have old: "is_allocated_for (id_memo st) q j = v" by (auto simp: is_allocated_after_allocate split: if_splits)
    note ok = ids_ok_allocated [OF assms(1) old v(2)]
    with False assms(2,3) proper_LAST [of u] proper_LAST [of v]
    have "entity_file pol q v \<noteq> entity_file pol p u" "entity_file pol q v \<noteq> entity_file pol p LAST"
      by (auto simp: entity_file_inj)
    with ok show ?thesis by (simp add: store_after_def valid_with_def)
  qed
qed

lemma purge_law:
  assumes "policy_ok pol" and "ids_ok pol st" and "proper_uuid u" and "p = zone_parent pol parent"
    and "is_allocated_for (id_memo st) p i = u"
  shows "purge now pol u parent st = (Inr (),
    \<lparr>id_store = snd (invalidate_file now (entity_file pol p u) (snd (invalidate_last now pol u (id_store st)))),
     id_memo = snd (remove_allocated p i (id_memo st))\<rparr>)"
proof -
  note u = proper_LAST [OF assms(3)]
  have "full_name (pol_component pol) (if p \<noteq> [] then p @ ''.'' @ u else u) = entity_file pol p u"
    using full_name_entity [OF assms(1)] u by blast
  then show ?thesis
    using db_get_holds [OF assms(1) _ valid_with_holds] ids_ok_allocated [OF assms(2,5)] u assms(4)
    by (auto simp: purge_def Let_def db_invalidate_def split: prod.splits)
qed

lemma id_step_ok:
  assumes "id_step pol st st'" and "policy_ok pol" and "ids_ok pol st"
  shows "ids_ok pol st'"
  using assms(1,3)
proof (induction rule: id_step.induct)
  case (fetched now uuid parent st r st')
  show ?case
  proof (cases rule: get_id_cases [OF assms(2) fetched(5,3,4) refl, where now = now, case_names endless wrapped given])
    case (given i renew)
    with fetched ids_ok_given [OF fetched(5,3) dotless_zone [OF fetched(4)] given(1-3), of now renew] show ?thesis by auto
  qed (use fetched in auto)
next
  case (purged now uuid parent st r st')
  let ?p = "zone_parent pol parent"
  note u = proper_LAST [OF purged(3)]
  obtain i where i: "is_allocated_for (id_memo st) ?p i = uuid" using purged(2) by (auto simp: has_id_def)
  note own = ids_ok_allocated [OF purged(5) i]
  let ?s = "snd (invalidate_last now pol uuid (id_store st))"
  let ?s' = "snd (invalidate_file now (entity_file pol ?p uuid) ?s)"
  have st': "st' = \<lparr>id_store = ?s', id_memo = snd (remove_allocated ?p i (id_memo st))\<rparr>"
    using purged(1) purge_law [OF assms(2) purged(5,3) refl i, of now] by simp
  show ?case
    unfolding st'
  proof (rule ids_ok_intro, unfold id_state.select_convs)
    show "smap_ok ?s'"
      using purged(5) by (simp add: ids_ok_def file_ops_ordered invalidate_last_def cleanup_ordered)
  next
    fix q v assume "dotless q" "proper_uuid v \<or> v = LAST"
    from ids_ok_number [OF purged(5) this] show "holds_number ?s' (entity_file pol q v)"
      by (simp add: invalidate_file_number invalidate_last_def cleanup_number)
  next
    fix q j v assume v: "is_allocated_for (snd (remove_allocated ?p i (id_memo st))) q j = v" "v \<noteq> []"
    then have old: "is_allocated_for (id_memo st) q j = v" "\<not> (q = ?p \<and> j = i)"
      by (auto simp: is_allocated_after_remove split: if_splits)
    note ok = ids_ok_allocated [OF purged(5) old(1) v(2)]
    have "\<not> (q = ?p \<and> v = uuid)"
    proof
      assume "q = ?p \<and> v = uuid"
      with ok own u have "holds (id_store st) (entity_file pol ?p uuid) j" "holds (id_store st) (entity_file pol ?p uuid) i"
        by (auto intro: valid_with_holds)
      then have "j = i" by (rule holds_inj)
      with old(2) \<open>q = ?p \<and> v = uuid\<close> show False by blast
    qed
    with ok own u proper_LAST [of v] have "entity_file pol q v \<noteq> entity_file pol ?p uuid" by (auto simp: entity_file_inj)
    moreover have "valid_with ?s (entity_file pol q v) j"
      using ok cleanup_last_valid [OF assms(2)] by (simp add: invalidate_last_def create_database_def)
    ultimately show "dotless q \<and> proper_uuid v \<and> valid_with ?s' (entity_file pol q v) j"
      using ok by (auto simp: invalidate_file_def valid_with_def split: option.split)
  qed
next
  case (wiped st now interval)
  let ?st = "st\<lparr>id_store := snd (remove_outdated now interval (id_store st))\<rparr>"
  show ?case
  proof (rule ids_ok_intro)
    show "smap_ok (id_store ?st)" using wiped by (simp add: ids_ok_def remove_outdated_def wipe_ordered)
  next
    fix p u assume "dotless p" "proper_uuid u \<or> u = LAST"
    from wipe_number [OF ids_ok_number [OF wiped this]]
    show "holds_number (id_store ?st) (entity_file pol p u)" by (simp add: remove_outdated_def)
  next
    fix p i u assume "is_allocated_for (id_memo ?st) p i = u" "u \<noteq> []"
    then have "is_allocated_for (id_memo st) p i = u" by simp
    from ids_ok_allocated [OF wiped this \<open>u \<noteq> []\<close>] wipe_valid
    show "dotless p \<and> proper_uuid u \<and> valid_with (id_store ?st) (entity_file pol p u) i"
      by (simp add: remove_outdated_def)
  qed
next
  case (restarted st now interval)
  let ?st = "\<lparr>id_store = snd (invalidate_all now interval (id_store st)), id_memo = []\<rparr> :: id_state"
  show ?case
  proof (rule ids_ok_intro)
    show "smap_ok (id_store ?st)" using restarted by (simp add: ids_ok_def invalidate_all_def cleanup_ordered)
  next
    fix p u assume "dotless p" "proper_uuid u \<or> u = LAST"
    from cleanup_number [OF ids_ok_number [OF restarted this]]
    show "holds_number (id_store ?st) (entity_file pol p u)" by (simp add: invalidate_all_def)
  qed (simp add: is_allocated_for_def)
next
  case (others store st)
  have own: "map_of store (entity_file pol p u) = map_of (id_store st) (entity_file pol p u)"
    if "dotless p" "proper_uuid u" for p u
    using others(1) that by (auto simp: own_file_def)
  let ?st = "st\<lparr>id_store := store\<rparr>"
  show ?case
  proof (rule ids_ok_intro)
    show "smap_ok (id_store ?st)" using others(3) by simp
  next
    fix p u assume p: "dotless p" and u: "proper_uuid u \<or> u = LAST"
    note number = ids_ok_number [OF others(4) p u]
    from u show "holds_number (id_store ?st) (entity_file pol p u)"
    proof
      assume "proper_uuid u"
      with number own [OF p this] show ?thesis by (simp add: holds_number_def holds_def)
    next
      assume "u = LAST"
      with number others(2) [of p] show ?thesis by simp
    qed
  next
    fix p i u assume "is_allocated_for (id_memo ?st) p i = u" "u \<noteq> []"
    then have "is_allocated_for (id_memo st) p i = u" by simp
    from ids_ok_allocated [OF others(4) this \<open>u \<noteq> []\<close>] own
    show "dotless p \<and> proper_uuid u \<and> valid_with (id_store ?st) (entity_file pol p u) i"
      by (simp add: valid_with_def)
  qed
qed

lemma ids_reachable_ok:
  assumes "(id_step pol)\<^sup>*\<^sup>* \<lparr>id_store = [], id_memo = []\<rparr> st" and "policy_ok pol"
  shows "ids_ok pol st"
  using assms(1)
proof (induction rule: rtranclp_induct)
  case base
  then show ?case by (auto simp: ids_ok_def holds_number_def is_allocated_for_def)
qed (use id_step_ok assms(2) in blast)

text \<open>
  C25: Whatever was fetched, purged, wiped and restarted before, and whatever the other policies did: fetching a
  resource gives it a number that no other resource of the parent has, the one it has if it has one,
  and afterwards it has it. Fetching ends as long as not all numbers are in use; 0 is what the
  counter wraps around to.
\<close>

theorem id_assignment:
  assumes "(id_step pol)\<^sup>*\<^sup>* \<lparr>id_store = [], id_memo = []\<rparr> st" and "policy_ok pol"
    and "proper_uuid uuid" and "dotless parent" and "p = zone_parent pol parent" and "ids_of (id_memo st) p \<noteq> UNIV"
  shows "\<exists>i st'. get_id now pol uuid parent st = Some (Inr i, st') \<and> (i \<noteq> 0 \<longrightarrow>
      (is_allocated_for (id_memo st) p i = [] \<or> is_allocated_for (id_memo st) p i = uuid)
    \<and> (\<forall>j. is_allocated_for (id_memo st) p j = uuid \<longrightarrow> i = j)
    \<and> is_allocated_for (id_memo st') p i = uuid
    \<and> (\<forall>q j. \<not> (q = p \<and> j = i) \<longrightarrow> is_allocated_for (id_memo st') q j = is_allocated_for (id_memo st) q j))"
proof (cases rule: get_id_cases [OF assms(2) ids_reachable_ok [OF assms(1,2)] assms(3-5), where now = now,
      case_names endless wrapped given])
  case (given i renew)
  then show ?thesis by (auto simp: is_allocated_after_allocate usable_def)
qed (use assms(6) in auto)

section \<open>Restarts\<close>

text \<open>Fetching one resource after another.\<close>

fun fetch_all :: "id_policy \<Rightarrow> string \<Rightarrow> (int \<times> string) list \<Rightarrow> id_state \<Rightarrow> ((exn + 64 word) list \<times> id_state) option" where
  "fetch_all pol parent [] st = Some ([], st)"
| "fetch_all pol parent ((now, u) # us) st =
     (case get_id now pol u parent st of
        None \<Rightarrow> None
      | Some (r, st') \<Rightarrow> map_option (\<lambda>(rs, st''). (r # rs, st'')) (fetch_all pol parent us st'))"

lemma fetch_recorded:
  assumes "policy_ok pol" and "p = zone_parent pol parent" and "dotless p"
    and "\<forall>(t, u) \<in> set us. proper_uuid u \<and> holds (id_store st) (entity_file pol p u) (f u)"
    and "inj_on f (snd ` set us)" and "holds_number (id_store st) (entity_file pol p LAST)"
    and "\<And>j. is_allocated_for (id_memo st) p j \<noteq> []
      \<Longrightarrow> f (is_allocated_for (id_memo st) p j) = j \<and> is_allocated_for (id_memo st) p j \<in> seen" and "inj_on f (seen \<union> snd ` set us)"
  shows "\<exists>st'. fetch_all pol parent us st = Some (map (Inr \<circ> f \<circ> snd) us, st')"
  using assms(4-8)
proof (induction us arbitrary: st seen)
  case (Cons tu us)
  obtain t u where tu: "tu = (t, u)" by force
  let ?i = "f u"
  have u: "proper_uuid u" "holds (id_store st) (entity_file pol p u) ?i" using Cons.prems(1) tu by auto
  note pu = proper_LAST [OF u(1)]
  obtain l where l: "db_get (pol_component pol) (UuidKey LAST p) (id_store st) = Inr l"
    using db_get_number [OF assms(1) Cons.prems(3)] by auto
  have k: "db_get (pol_component pol) (UuidKey u p) (id_store st) = Inr (Some ?i)"
    using db_get_holds [OF assms(1) _ u(2)] pu by blast
  have nz: "?i \<noteq> 0" using u(2) by (simp add: holds_def)
  have own: "usable (id_memo st) p u ?i"
  proof (cases "is_allocated_for (id_memo st) p ?i = []")
    case False
    with Cons.prems(4) [OF False] Cons.prems(5) tu show ?thesis by (auto simp: usable_def inj_on_def)
  qed (simp add: usable_def)
  then have "free_id (id_memo st) p u (case Some ?i of None \<Rightarrow> (case l of None \<Rightarrow> 0 | Some v \<Rightarrow> v) + 1 | Some v \<Rightarrow> v)
      ((case l of None \<Rightarrow> 0 | Some v \<Rightarrow> v) + 1) = Some ?i" by (simp add: free_id_step)
  from get_id_law [OF assms(1) _ assms(2) l k this nz, of t] pu obtain renew where
      got: "get_id t pol u parent st = Some (Inr ?i, \<lparr>id_store = store_after t pol p u ?i renew (id_store st),
        id_memo = snd (allocate p u ?i (id_memo st))\<rparr>)"
    by (auto simp: store_after_def)
  let ?st = "\<lparr>id_store = store_after t pol p u ?i renew (id_store st), id_memo = snd (allocate p u ?i (id_memo st))\<rparr>"
  have "holds (id_store ?st) (entity_file pol p v) (f v)" if "(s, v) \<in> set us" for s v
  proof (cases "v = u")
    case True
    with nz show ?thesis by (simp add: store_after_def holds_def stored_file_def)
  next
    case False
    have v: "proper_uuid v" "holds (id_store st) (entity_file pol p v) (f v)" using Cons.prems(1) that by auto
    with False pu assms(3) proper_LAST [OF v(1)]
    have "entity_file pol p v \<noteq> entity_file pol p u" "entity_file pol p v \<noteq> entity_file pol p LAST"
      by (auto simp: entity_file_inj)
    with v(2) show ?thesis by (simp add: store_after_def holds_def)
  qed
  moreover have "holds_number (id_store ?st) (entity_file pol p LAST)"
    using Cons.prems(3) nz by (auto simp: store_after_def holds_number_def holds_def stored_file_def)
  moreover have "f (is_allocated_for (id_memo ?st) p j) = j \<and> is_allocated_for (id_memo ?st) p j \<in> insert u seen"
    if "is_allocated_for (id_memo ?st) p j \<noteq> []" for j
    using that Cons.prems(4) [of j] own by (auto simp: is_allocated_after_allocate split: if_splits)
  moreover have "inj_on f (insert u seen \<union> snd ` set us)" using Cons.prems(5) tu by simp
  moreover have "inj_on f (snd ` set us)" using Cons.prems(2) tu by simp
  ultimately have "\<exists>st'. fetch_all pol parent us ?st = Some (map (Inr \<circ> f \<circ> snd) us, st')"
    using Cons.prems(1) by (intro Cons.IH [of _ "insert u seen"]) auto
  with got tu show ?case by auto
qed simp

text \<open>A restart clears every mark of validity, each file once, and removes none that was valid.\<close>

lemma strip_name_db: "strip_name [] d \<noteq> [] \<Longrightarrow> strip_name [] d @ ''.db'' = d"
proof -
  assume "strip_name [] d \<noteq> []"
  then have "3 \<le> length d" "drop (length d - 3) d = ''.db''" "strip_name [] d = take (length d - 3) d"
    by (auto simp: strip_name_def Let_def split: if_splits)
  then show ?thesis by (metis append_take_drop_id)
qed

lemma distinct_filter_map:
  "distinct xs \<Longrightarrow> (\<And>x y. P (g x) \<Longrightarrow> P (g y) \<Longrightarrow> g x = g y \<Longrightarrow> x = y) \<Longrightarrow> distinct (filter P (map g xs))"
  by (induction xs) (auto, metis)

lemma key_names_distinct:
  assumes "smap_ok store"
  shows "distinct (key_names [] key store)"
proof -
  have "distinct (filter (\<lambda>n. n \<noteq> [] \<and> key_unserialize key n \<noteq> None) (map (strip_name []) (map fst store)))"
    using smap_ok_distinct [OF assms] by (rule distinct_filter_map) (metis strip_name_db)
  then show ?thesis by (simp add: key_names_def)
qed

lemma cleanup_name_other:
  "x \<noteq> full_name [] n \<Longrightarrow> map_of (snd (cleanup_name now [] interval n s)) x = map_of s x"
  by (auto simp: cleanup_name_def invalidate_file_def remove_file_def split: entity_validity.split option.split)

lemma cleanup_name_cong:
  "map_of s' (full_name [] n) = map_of s (full_name [] n) \<Longrightarrow>
    map_of (snd (cleanup_name now [] interval n s')) (full_name [] n)
      = map_of (snd (cleanup_name now [] interval n s)) (full_name [] n)"
  by (auto simp: cleanup_name_def file_validity_def invalidate_file_def remove_file_def split: option.splits if_splits)

lemma full_name_inj: "n \<noteq> [] \<Longrightarrow> m \<noteq> [] \<Longrightarrow> full_name [] n = full_name [] m \<longleftrightarrow> n = m"
  by (simp add: full_name_def)

lemma process_cleanup_other:
  "\<forall>n \<in> set ns. full_name [] n \<noteq> x \<Longrightarrow> map_of (snd (process_names (cleanup_name now [] interval) ns s)) x = map_of s x"
  using process_names_keeps [of ns "\<lambda>s'. map_of s' x = map_of s x" "cleanup_name now [] interval" s]
  by (metis cleanup_name_other)

lemma process_names_Cons: "snd (process_names f (n # ns) s) = snd (process_names f ns (snd (f n s)))"
  by (simp split: prod.split)

lemma process_cleanup_once:
  assumes "distinct ns" and "[] \<notin> set ns" and "n \<in> set ns"
  shows "map_of (snd (process_names (cleanup_name now [] interval) ns s)) (full_name [] n)
    = map_of (snd (cleanup_name now [] interval n s)) (full_name [] n)"
  using assms
proof (induction ns arbitrary: s)
  case (Cons m ns)
  let ?s = "snd (cleanup_name now [] interval m s)"
  show ?case
  proof (cases "n = m")
    case True
    have "\<forall>k \<in> set ns. full_name [] k \<noteq> full_name [] n" using Cons.prems True by (auto simp: full_name_def)
    from process_cleanup_other [OF this, of now interval ?s] True show ?thesis by (simp only: process_names_Cons)
  next
    case False
    then have "map_of ?s (full_name [] n) = map_of s (full_name [] n)"
      using Cons.prems by (intro cleanup_name_other) (auto simp: full_name_def)
    then have "map_of (snd (cleanup_name now [] interval n ?s)) (full_name [] n)
        = map_of (snd (cleanup_name now [] interval n s)) (full_name [] n)"
      by (rule cleanup_name_cong)
    with Cons.IH [of ?s] Cons.prems False show ?thesis by (simp add: process_names_Cons del: process_names.simps)
  qed
qed simp

lemma invalidate_all_at:
  assumes "smap_ok s" and "n \<noteq> []"
  shows "map_of (snd (invalidate_all now interval s)) (n @ ''.db'') = (case map_of s (n @ ''.db'') of
      None \<Rightarrow> None
    | Some f \<Rightarrow> if f_sticky f then Some (f\<lparr>f_sticky := False, f_ctim := now\<rparr>)
        else if plus_seconds (f_ctim f) interval \<le> now then None else Some f)"
proof -
  let ?ns = "key_names [] AlwaysMatchKey s"
  have fn: "full_name [] n = n @ ''.db''" using assms(2) by (simp add: full_name_def)
  have nonempty: "[] \<notin> set ?ns" by (simp add: key_names_def)
  have inv: "invalidate_all now interval s = process_names (cleanup_name now [] interval) ?ns s"
    by (simp add: invalidate_all_def create_database_def cleanup_def foreach_name_def)
  show ?thesis
  proof (cases "map_of s (n @ ''.db'')")
    case None
    have "full_name [] k \<noteq> n @ ''.db''" if "k \<in> set ?ns" for k
    proof -
      obtain d where "d \<in> fst ` set s" "strip_name [] d = k" "k \<noteq> []" using \<open>k \<in> set ?ns\<close> by (auto simp: key_names_def)
      then have "full_name [] k = d" using strip_name_db by (auto simp: full_name_def)
      moreover have "n @ ''.db'' \<notin> fst ` set s" using None by (simp add: map_of_eq_None_iff)
      ultimately show ?thesis using \<open>d \<in> fst ` set s\<close> by metis
    qed
    with None show ?thesis unfolding inv by (simp add: process_cleanup_other)
  next
    case (Some f)
    then have "(n @ ''.db'', f) \<in> set s" by (rule map_of_SomeD)
    moreover have "strip_name [] (n @ ''.db'') = n" by (simp add: strip_name_def)
    ultimately have "n \<in> set ?ns" using assms(2) by (force simp: key_names_def)
    from process_cleanup_once [OF key_names_distinct [OF assms(1)] nonempty this] Some show ?thesis
      unfolding inv fn
      by (auto simp: cleanup_name_def file_validity_def fn invalidate_file_def remove_file_def)
  qed
qed

lemma restart_holds:
  assumes "smap_ok s" and "valid_with s (entity_file pol p u) i"
  shows "holds (snd (invalidate_all now interval s)) (entity_file pol p u) i"
proof -
  have "entity_name pol p u \<noteq> []" by (simp add: entity_name_def)
  from invalidate_all_at [OF assms(1) this] assms(2) show ?thesis
    by (auto simp: entity_file_def valid_with_def holds_def)
qed

lemma restart_missing:
  "smap_ok s \<Longrightarrow> map_of s (entity_file pol p u) = None \<Longrightarrow>
    map_of (snd (invalidate_all now interval s)) (entity_file pol p u) = None"
  using invalidate_all_at [of s "entity_name pol p u"] by (simp add: entity_file_def entity_name_def)

lemma restart_not_valid:
  assumes "smap_ok s" and "map_of (snd (invalidate_all now interval s)) (entity_file pol p u) = Some f"
  shows "\<not> f_sticky f"
  using assms invalidate_all_at [of s "entity_name pol p u" now interval]
  by (auto simp: entity_file_def entity_name_def split: option.splits if_splits)

text \<open>
  C26: Resources that have numbers have the same ones after a restart, when the agents report just them, in
  whatever order: the database remembers, although the restart marks all of it as no longer valid.
\<close>

theorem ids_survive_restart:
  assumes "(id_step pol)\<^sup>*\<^sup>* \<lparr>id_store = [], id_memo = []\<rparr> st" and "policy_ok pol"
    and "\<forall>(t, u) \<in> set us. u \<noteq> [] \<and> is_allocated_for (id_memo st) (zone_parent pol parent) (f u) = u"
  shows "\<exists>st'. fetch_all pol parent us \<lparr>id_store = snd (invalidate_all now interval (id_store st)), id_memo = []\<rparr>
    = Some (map (Inr \<circ> f \<circ> snd) us, st')"
proof (cases us)
  case (Cons tu us')
  let ?p = "zone_parent pol parent" and ?s = "snd (invalidate_all now interval (id_store st))"
  have ok: "ids_ok pol st" by (rule ids_reachable_ok [OF assms(1,2)])
  have sm: "smap_ok (id_store st)" using ok by (simp add: ids_ok_def)
  have own: "dotless ?p \<and> proper_uuid u \<and> valid_with (id_store st) (entity_file pol ?p u) (f u)" if "(t, u) \<in> set us" for t u
    using assms(3) that ids_ok_allocated [OF ok] by blast
  have p: "dotless ?p" using own [of "fst tu" "snd tu"] Cons by simp
  have given: "is_allocated_for (id_memo st) ?p (f u) = u" if "u \<in> snd ` set us" for u
    using that assms(3) by auto
  have inj: "inj_on f (snd ` set us)"
    by (rule inj_on_inverseI [where g = "is_allocated_for (id_memo st) ?p"]) (rule given)
  have h: "holds ?s (entity_file pol ?p u) (f u)" if "(t, u) \<in> set us" for t u
    using own [OF that] restart_holds [OF sm] by blast
  have "holds_number ?s (entity_file pol ?p LAST)"
    using cleanup_number [OF ids_ok_number [OF ok p, of LAST]] by (simp add: invalidate_all_def)
  then show ?thesis
    using own h inj by (intro fetch_recorded [OF assms(2) refl p, where seen = "{}"]) (auto simp: is_allocated_for_def split: prod.split)
qed simp

text \<open>Fetching when the last number is written, and what the store holds then.\<close>

lemma get_id_renews:
  assumes "policy_ok pol" and "proper_uuid u" and "p = zone_parent pol parent"
    and "db_get (pol_component pol) (UuidKey LAST p) s = Inr l"
    and "db_get (pol_component pol) (UuidKey u p) s = Inr k"
    and "free_id m p u (case k of None \<Rightarrow> (case l of None \<Rightarrow> 0 | Some v \<Rightarrow> v) + 1 | Some v \<Rightarrow> v)
      ((case l of None \<Rightarrow> 0 | Some v \<Rightarrow> v) + 1) = Some i" and "i \<noteq> 0"
    and "(case l of None \<Rightarrow> 0 | Some v \<Rightarrow> v) < i \<or> file_validity now (entity_file pol p LAST) NEVER s \<noteq> VALID"
  shows "get_id now pol u parent \<lparr>id_store = s, id_memo = m\<rparr>
    = Some (Inr i, \<lparr>id_store = store_after now pol p u i True s, id_memo = snd (allocate p u i m)\<rparr>)"
  using get_id_law [OF assms(1) _ assms(3), of u "\<lparr>id_store = s, id_memo = m\<rparr>" l k i now] assms(4-8) proper_LAST [OF assms(2)]
  by (simp add: store_after_def)

lemma db_get_after:
  assumes "policy_ok pol" and "proper_uuid u" and "dotless p" and "i \<noteq> 0"
  shows "db_get (pol_component pol) (UuidKey LAST p) (store_after now pol p u i True s) = Inr (Some i)"
  using assms entity_file_inj [OF assms(3,3)] proper_LAST [OF assms(2)]
  by (intro db_get_holds [OF assms(1)]) (simp_all add: store_after_def holds_def stored_file_def)

lemma map_of_after:
  assumes "proper_uuid u" and "dotless p" and "proper_uuid v" and "v \<noteq> u"
  shows "map_of (store_after now pol p u i renew s) (entity_file pol p v) = map_of s (entity_file pol p v)"
  using assms entity_file_inj [OF assms(2,2)] proper_LAST [OF assms(1)] proper_LAST [OF assms(3)]
  by (simp add: store_after_def)

lemma word_near:
  fixes i :: "64 word"
  assumes "unat i + 3 < 2 ^ 64" and "i \<noteq> 0"
  shows "i + 1 \<noteq> 0" "i + 2 \<noteq> 0" "i + 3 \<noteq> 0" "i < i + 1" "i + 1 \<noteq> i" "i + 3 \<noteq> i" "i + 3 \<noteq> i + 1" "i + 1 < i + 3"
proof -
  have u: "unat (i + 1) = unat i + 1" "unat (i + 2) = unat i + 2" "unat (i + 3) = unat i + 3"
    using assms(1) by (simp_all add: unat_word_ariths)
  show "i < i + 1" "i + 1 < i + 3" using u by (simp_all add: word_less_nat_alt)
  show "i + 1 \<noteq> 0" using u(1) by (metis add_is_0 unat_0 zero_neq_one)
  show "i + 2 \<noteq> 0" using u(2) by (metis add_is_0 unat_0 zero_neq_numeral)
  show "i + 3 \<noteq> 0" using u(3) by (metis add_is_0 unat_0 zero_neq_numeral)
  show "i + 1 \<noteq> i" by simp
  show "i + 3 \<noteq> i" by simp
  show "i + 3 \<noteq> i + 1" by simp
qed
text \<open>
  When a resource that was not known before is reported among them, this no longer holds: once \<open>a\<close> is back
  with its number \<open>i\<close>, the last number is set to \<open>i\<close>, as it was not valid; the newcomer \<open>d\<close> is given
  \<open>i + 1\<close>, which the database still holds for \<open>b\<close>; and \<open>b\<close> gets another one, not \<open>i + 2\<close> but \<open>i + 3\<close>.
\<close>

lemma restart_gives_id_away:
  assumes "(id_step pol)\<^sup>*\<^sup>* \<lparr>id_store = [], id_memo = []\<rparr> st" and "policy_ok pol"
    and "p = zone_parent pol parent" and "a \<noteq> []" and "b \<noteq> []"
    and "is_allocated_for (id_memo st) p i = a" and "is_allocated_for (id_memo st) p (i + 1) = b"
    and "proper_uuid d" and "map_of (id_store st) (entity_file pol p d) = None" and "unat i + 3 < 2 ^ 64"
  shows "\<exists>st'. fetch_all pol parent [(t1, a), (t2, d), (t3, b)]
      \<lparr>id_store = snd (invalidate_all now interval (id_store st)), id_memo = []\<rparr> = Some ([Inr i, Inr (i + 1), Inr (i + 3)], st')"
proof -
  let ?s = "snd (invalidate_all now interval (id_store st))"
  have ok: "ids_ok pol st" by (rule ids_reachable_ok [OF assms(1,2)])
  have sm: "smap_ok (id_store st)" using ok by (simp add: ids_ok_def)
  note a = ids_ok_allocated [OF ok assms(6,4)] and b = ids_ok_allocated [OF ok assms(7,5)]
  have p: "dotless p" and ua: "proper_uuid a" and ub: "proper_uuid b" using a b by auto
  note nz = word_near [OF assms(10)]
  have i: "i \<noteq> 0" using a by (simp add: valid_with_def)
  have ab: "a \<noteq> b" using holds_inj valid_with_holds a b nz(5) [OF i] by metis
  have diff: "a \<noteq> d" "b \<noteq> d" using a b assms(9) by (auto simp: valid_with_def)
  note names = proper_LAST [OF ua] proper_LAST [OF ub] proper_LAST [OF assms(8)]
  have h: "holds ?s (entity_file pol p a) i" "holds ?s (entity_file pol p b) (i + 1)" using a b restart_holds [OF sm] by blast+
  have "holds_number ?s (entity_file pol p LAST)"
    using cleanup_number [OF ids_ok_number [OF ok p, of LAST]] by (simp add: invalidate_all_def)
  then obtain l where l: "db_get (pol_component pol) (UuidKey LAST p) ?s = Inr l"
    using db_get_number [OF assms(2), of ?s p LAST] by auto
  have old: "file_validity t1 (entity_file pol p LAST) NEVER ?s \<noteq> VALID"
    using restart_not_valid [OF sm, of now interval pol p LAST] by (auto simp: file_validity_def split: option.split)
  let ?s1 = "store_after t1 pol p a i True ?s" and ?m1 = "snd (allocate p a i [])"
  have "db_get (pol_component pol) (UuidKey a p) ?s = Inr (Some i)" using db_get_holds [OF assms(2) _ h(1)] names by blast
  from get_id_renews [OF assms(2) ua assms(3) l this, of "[]" i t1] old i
  have 1: "get_id t1 pol a parent \<lparr>id_store = ?s, id_memo = []\<rparr> = Some (Inr i, \<lparr>id_store = ?s1, id_memo = ?m1\<rparr>)"
    by (simp add: free_id_now usable_def)
  let ?s2 = "store_after t2 pol p d (i + 1) True ?s1" and ?m2 = "snd (allocate p d (i + 1) ?m1)"
  have "map_of ?s1 (entity_file pol p d) = None"
    using map_of_after [OF ua p assms(8)] restart_missing [OF sm assms(9)] diff by simp
  then have "db_get (pol_component pol) (UuidKey d p) ?s1 = Inr None" using db_get_missing [OF assms(2)] names by blast
  from get_id_renews [OF assms(2,8,3) db_get_after [OF assms(2) ua p i] this, of ?m1 "i + 1" t2] nz [OF i]
  have 2: "get_id t2 pol d parent \<lparr>id_store = ?s1, id_memo = ?m1\<rparr> = Some (Inr (i + 1), \<lparr>id_store = ?s2, id_memo = ?m2\<rparr>)"
    by (simp add: free_id_now usable_def is_allocated_after_allocate)
  have "holds ?s2 (entity_file pol p b) (i + 1)"
    using h(2) map_of_after [OF ua p ub] map_of_after [OF assms(8) p ub] diff ab by (simp add: holds_def)
  then have "db_get (pol_component pol) (UuidKey b p) ?s2 = Inr (Some (i + 1))" using db_get_holds [OF assms(2)] names by blast
  from get_id_renews [OF assms(2) ub assms(3) db_get_after [OF assms(2,8) p nz(1) [OF i]] this, of ?m2 "i + 3" t3] nz [OF i] names diff
  have "\<exists>st'. get_id t3 pol b parent \<lparr>id_store = ?s2, id_memo = ?m2\<rparr> = Some (Inr (i + 3), st')"
    by (simp add: free_id_next usable_def is_allocated_after_allocate)
  with 1 2 show ?thesis by auto
qed

text \<open>The sum of the time and \<open>NEVER\<close> is less than nothing.\<close>

lemma never_wraps:
  assumes "1 \<le> c" and "c < 2 ^ 63"
  shows "plus_seconds c NEVER < 0"
proof -
  have "(word_of_int (c + NEVER) :: 64 word) = word_of_int (c - 2 ^ 63 - 1)"
    by (simp add: NEVER_def word_of_int_eq_iff take_bit_eq_mod)
  then have "plus_seconds c NEVER = sint (word_of_int (c - 2 ^ 63 - 1) :: 64 word)"
    by (simp only: plus_seconds_def)
  also have "\<dots> = signed_take_bit 63 (c - 2 ^ 63 - 1)" by (subst sint_sbintrunc') simp
  also have "\<dots> = c - 2 ^ 63 - 1" using assms by (intro signed_take_bit_int_eq_self) simp_all
  finally show ?thesis using assms by simp
qed
text \<open>A file that is not valid is outdated at once for the interval \<open>NEVER\<close>.\<close>

lemma never_means_at_once:
  assumes "map_of store name = Some f" and "\<not> f_sticky f" and "1 \<le> f_ctim f" and "f_ctim f < 2 ^ 63" and "0 \<le> now"
  shows "file_validity now name NEVER store = OUTDATED"
  using assms never_wraps [OF assms(3,4)] by (simp add: file_validity_def)

end
