(* ===== verification/Example_Ids.thy ===== *)
theory Example_Ids
  imports Id_Policy
begin

text \<open>The theorems about identifiers at two resources of one parent.\<close>

definition ex_policy :: id_policy where
  "ex_policy = \<lparr>pol_component = ''psme_system'', pol_zone = PARENT_SPACE\<rparr>"

definition ex_first :: db_store where
  "ex_first = store_after 10 ex_policy ''p'' ''a'' 1 True []"

definition ex_second :: db_store where
  "ex_second = store_after 20 ex_policy ''p'' ''b'' 2 True ex_first"

definition ex_memo :: memoizer where
  "ex_memo = snd (allocate ''p'' ''b'' 2 (snd (allocate ''p'' ''a'' 1 [])))"

lemma ex_ok [simp]: "policy_ok ex_policy" "zone_parent ex_policy p = p" "proper_uuid ''a''" "proper_uuid ''b''"
    "proper_uuid ''d''" "dotless ''p''"
  by (simp_all add: policy_ok_def ex_policy_def zone_parent_def proper_uuid_def dotless_def)

lemma ex_first_fetched:
  "get_id 10 ex_policy ''a'' ''p'' \<lparr>id_store = [], id_memo = []\<rparr>
    = Some (Inr 1, \<lparr>id_store = ex_first, id_memo = snd (allocate ''p'' ''a'' 1 [])\<rparr>)"
  unfolding ex_first_def
  by (rule get_id_renews [where l = None and k = None]) (simp_all add: db_get_missing free_id_now usable_def)

lemma ex_second_fetched:
  "get_id 20 ex_policy ''b'' ''p'' \<lparr>id_store = ex_first, id_memo = snd (allocate ''p'' ''a'' 1 [])\<rparr>
    = Some (Inr 2, \<lparr>id_store = ex_second, id_memo = ex_memo\<rparr>)"
  unfolding ex_second_def ex_memo_def
proof (rule get_id_renews [where l = "Some 1" and k = None])
  show "db_get (pol_component ex_policy) (UuidKey LAST ''p'') ex_first = Inr (Some 1)"
    unfolding ex_first_def by (rule db_get_after) simp_all
  show "db_get (pol_component ex_policy) (UuidKey ''b'' ''p'') ex_first = Inr None"
    by (rule db_get_missing) (simp_all add: ex_first_def map_of_after)
qed (simp_all add: free_id_now usable_def is_allocated_after_allocate)

lemma ex_reachable: "(id_step ex_policy)\<^sup>*\<^sup>* \<lparr>id_store = [], id_memo = []\<rparr> \<lparr>id_store = ex_second, id_memo = ex_memo\<rparr>"
proof -
  have "id_step ex_policy \<lparr>id_store = [], id_memo = []\<rparr> \<lparr>id_store = ex_first, id_memo = snd (allocate ''p'' ''a'' 1 [])\<rparr>"
    by (rule id_step.fetched [OF ex_first_fetched]) simp_all
  moreover have "id_step ex_policy \<lparr>id_store = ex_first, id_memo = snd (allocate ''p'' ''a'' 1 [])\<rparr> \<lparr>id_store = ex_second, id_memo = ex_memo\<rparr>"
    by (rule id_step.fetched [OF ex_second_fetched]) simp_all
  ultimately show ?thesis by (meson converse_rtranclp_into_rtranclp rtranclp.rtrancl_refl)
qed

lemma ex_memo_at: "is_allocated_for ex_memo ''p'' i = (if i = 2 then ''b'' else if i = 1 then ''a'' else [])"
  by (simp add: ex_memo_def is_allocated_after_allocate)

lemma id_assignment_witness:
  "\<exists>i st'. get_id 30 ex_policy ''d'' ''p'' \<lparr>id_store = ex_second, id_memo = ex_memo\<rparr> = Some (Inr i, st')
    \<and> (i \<noteq> 0 \<longrightarrow> is_allocated_for (id_memo st') ''p'' i = ''d'' \<and> is_allocated_for (id_memo st') ''p'' 1 = ''a'')"
proof -
  have "0 \<notin> ids_of ex_memo ''p''" by (simp add: ids_of_def ex_memo_at)
  then have "ids_of ex_memo ''p'' \<noteq> UNIV" by blast
  with id_assignment [OF ex_reachable, of "''d''" "''p''" "''p''" 30] show ?thesis
    by (force simp: ex_memo_at split: if_splits)
qed

lemma ids_survive_restart_witness:
  "\<exists>st'. fetch_all ex_policy ''p'' [(50, ''b''), (60, ''a'')]
      \<lparr>id_store = snd (invalidate_all 40 3600 ex_second), id_memo = []\<rparr> = Some ([Inr 2, Inr 1], st')"
  using ids_survive_restart [OF ex_reachable, of "[(50, ''b''), (60, ''a'')]" "''p''" "\<lambda>u. if u = ''b'' then 2 else 1" 40 3600]
  by (simp add: ex_memo_at)

lemma restart_gives_id_away_witness:
  "\<exists>st'. fetch_all ex_policy ''p'' [(50, ''a''), (60, ''d''), (70, ''b'')]
      \<lparr>id_store = snd (invalidate_all 40 3600 ex_second), id_memo = []\<rparr> = Some ([Inr 1, Inr 2, Inr 4], st')"
proof -
  have "map_of ex_second (entity_file ex_policy ''p'' ''d'') = None"
    by (simp add: ex_second_def ex_first_def map_of_after)
  with restart_gives_id_away [OF ex_reachable, of "''p''" "''p''" "''a''" "''b''" 1 "''d''" 50 60 70 40 3600] show ?thesis
    by (simp add: ex_memo_at)
qed

end
