(* ===== verification/Resource_Manager.thy ===== *)
theory Resource_Manager
  imports Std_Map Error_Factory "HOL-Library.Product_Lexorder" "HOL-Library.Word"
begin

text \<open>
  The model the service keeps of the resources its agents report: the kinds of resources
  (\<^verbatim>\<open>agent-framework/module/enum/common.hpp\<close>), the members all of them have (\<^verbatim>\<open>model/resource.hpp\<close>), the table of
  each kind (\<^verbatim>\<open>managers/generic_manager.hpp\<close>) and the tables of the links between resources that are not
  parent and child (\<^verbatim>\<open>many_to_many_manager.hpp\<close>).
\<close>

section \<open>Kinds of resources\<close>

text \<open>\<^verbatim>\<open>Component::None\<close> is \<open>NoComponent\<close>.\<close>

datatype component =
    NoComponent | Root | AuthorizationCertificate | Chassis | Drive
  | Fan | PhysicalDrive | IscsiTarget | LogicalDrive | Manager | Memory
  | NetworkInterface | NetworkDevice | PowerZone | Processor | PSU | EthernetSwitch | RemoteEthernetSwitch
  | NetworkDeviceFunction | StorageController | StorageServices | EthernetSwitchPort | System
  | ThermalZone | Vlan | EthernetSwitchPortVlan | PortMember | NeighborSwitch
  | Switch | PcieDevice | Zone | PcieFunction | Port
  | Acl | AclRule | StaticMac | StorageSubsystem | Task | Fabric | Endpoint

definition all_components :: "component list" where
  "all_components =
     [NoComponent, Root, AuthorizationCertificate, Chassis, Drive,
      Fan, PhysicalDrive, IscsiTarget, LogicalDrive, Manager, Memory,
      NetworkInterface, NetworkDevice, PowerZone, Processor, PSU, EthernetSwitch, RemoteEthernetSwitch,
      NetworkDeviceFunction, StorageController, StorageServices, EthernetSwitchPort, System,
      ThermalZone, Vlan, EthernetSwitchPortVlan, PortMember, NeighborSwitch,
      Switch, PcieDevice, Zone, PcieFunction, Port,
      Acl, AclRule, StaticMac, StorageSubsystem, Task, Fabric, Endpoint]"

definition component_names :: "string list" where
  "component_names =
     [''None'', ''Root'', ''AuthorizationCertificate'', ''Chassis'', ''Drive'',
      ''Fan'', ''PhysicalDrive'', ''IscsiTarget'', ''LogicalDrive'', ''Manager'', ''Memory'',
      ''NetworkInterface'', ''NetworkDevice'', ''PowerZone'', ''Processor'', ''PSU'', ''EthernetSwitch'', ''RemoteEthernetSwitch'',
      ''NetworkDeviceFunction'', ''StorageController'', ''StorageServices'', ''EthernetSwitchPort'', ''System'',
      ''ThermalZone'', ''Vlan'', ''EthernetSwitchPortVlan'', ''PortMember'', ''NeighborSwitch'',
      ''Switch'', ''PcieDevice'', ''Zone'', ''PcieFunction'', ''Port'',
      ''Acl'', ''AclRule'', ''StaticMac'', ''StorageSubsystem'', ''Task'', ''Fabric'', ''Endpoint'']"

fun component_index :: "component \<Rightarrow> nat" where
  "component_index NoComponent = 0" | "component_index Root = 1" | "component_index AuthorizationCertificate = 2"
| "component_index Chassis = 3" | "component_index Drive = 4" | "component_index Fan = 5"
| "component_index PhysicalDrive = 6" | "component_index IscsiTarget = 7" | "component_index LogicalDrive = 8"
| "component_index Manager = 9" | "component_index Memory = 10" | "component_index NetworkInterface = 11"
| "component_index NetworkDevice = 12" | "component_index PowerZone = 13" | "component_index Processor = 14"
| "component_index PSU = 15" | "component_index EthernetSwitch = 16" | "component_index RemoteEthernetSwitch = 17"
| "component_index NetworkDeviceFunction = 18" | "component_index StorageController = 19"
| "component_index StorageServices = 20" | "component_index EthernetSwitchPort = 21" | "component_index System = 22"
| "component_index ThermalZone = 23" | "component_index Vlan = 24" | "component_index EthernetSwitchPortVlan = 25"
| "component_index PortMember = 26" | "component_index NeighborSwitch = 27" | "component_index Switch = 28"
| "component_index PcieDevice = 29" | "component_index Zone = 30" | "component_index PcieFunction = 31"
| "component_index Port = 32" | "component_index Acl = 33" | "component_index AclRule = 34"
| "component_index StaticMac = 35" | "component_index StorageSubsystem = 36" | "component_index Task = 37"
| "component_index Fabric = 38" | "component_index Endpoint = 39"

definition component_name :: "component \<Rightarrow> string" where
  "component_name c = component_names ! component_index c"

lemma nth_component_index: "component_index c < 40 \<and> all_components ! component_index c = c"
  by (cases c) (simp_all add: all_components_def)

lemma component_index_inj [simp]: "component_index c = component_index d \<longleftrightarrow> c = d"
  by (metis nth_component_index)

instantiation component :: linorder
begin

definition less_eq_component :: "component \<Rightarrow> component \<Rightarrow> bool" where
  "less_eq_component c d \<longleftrightarrow> component_index c \<le> component_index d"

definition less_component :: "component \<Rightarrow> component \<Rightarrow> bool" where
  "less_component c d \<longleftrightarrow> component_index c < component_index d"

instance
  by standard (auto simp: less_eq_component_def less_component_def)

end

lemma component_name_inj [simp]: "component_name c = component_name d \<longleftrightarrow> c = d"
proof -
  have "distinct component_names" by (simp add: component_names_def)
  moreover have "length component_names = 40" by (simp add: component_names_def)
  ultimately show ?thesis
    using nth_component_index [of c] nth_component_index [of d] by (simp add: component_name_def nth_eq_iff_index_eq)
qed

lemma component_name_mem: "component_name c \<in> set component_names"
proof -
  have "length component_names = 40" by (simp add: component_names_def)
  then show ?thesis using nth_component_index [of c] by (simp add: component_name_def)
qed

datatype collection_type =
    NoCollection | ChassisCollection | Systems | EthernetSwitches
  | StorageServicesCollection | Processors | MemoryCollection | StorageControllers
  | NetworkInterfaces | NetworkDevices | Drives | EthernetSwitchPorts | Vlans | NeighborSwitches | EthernetSwitchPortVlans
  | NetworkDeviceFunctions | PortMembers | PowerZones | ThermalZones | PSUs | Fans | PhysicalDrives
  | LogicalDrives | iSCSITargets | Managers | Ports | PCIeDevices
  | Zones | PCIeFunctions | Switches | Acls | Rules | StaticMacs
  | StorageSubsystems | Tasks | Fabrics | Endpoints

record collection =
  c_name :: string
  c_type :: collection_type

section \<open>Resources\<close>

datatype health = OK | Warning | Critical

fun health_index :: "health \<Rightarrow> nat" where
  "health_index OK = 0" | "health_index Warning = 1" | "health_index Critical = 2"

lemma health_index_inj [simp]: "health_index a = health_index b \<longleftrightarrow> a = b"
  by (cases a; cases b) simp_all

instantiation health :: linorder
begin

definition less_eq_health :: "health \<Rightarrow> health \<Rightarrow> bool" where
  "less_eq_health a b \<longleftrightarrow> health_index a \<le> health_index b"

definition less_health :: "health \<Rightarrow> health \<Rightarrow> bool" where
  "less_health a b \<longleftrightarrow> health_index a < health_index b"

instance
  by standard (auto simp: less_eq_health_def less_health_def)

end

text \<open>
  What only a task has: whether it ended in an exception, whether it has an end time, its messages, and who is
  to be told of its completion.
\<close>

record task_part =
  tp_exception :: bool
  tp_ended :: bool
  tp_messages :: "message_object list"
  tp_notifiers :: "nat list"

record resource =
  r_temporary :: string
  r_persistent :: string
  r_is_persistent :: bool
  r_parent :: string
  r_parent_type :: component
  r_id :: "64 word"
  r_agent :: string
  r_touched :: "64 word"
  r_status_hash :: string
  r_rest_hash :: string
  r_collections :: "collection list"
  r_task :: task_part
  r_health :: "health option"

definition get_uuid :: "resource \<Rightarrow> string" where
  "get_uuid r = (if r_is_persistent r then r_persistent r else r_temporary r)"

definition set_uuid :: "string \<Rightarrow> resource \<Rightarrow> resource" where
  "set_uuid u r = r\<lparr>r_is_persistent := False, r_temporary := u\<rparr>"

definition touch :: "64 word \<Rightarrow> resource \<Rightarrow> resource" where
  "touch epoch r = r\<lparr>r_touched := epoch\<rparr>"

definition was_touched_after :: "64 word \<Rightarrow> resource \<Rightarrow> bool" where
  "was_touched_after epoch r \<longleftrightarrow> epoch < r_touched r"

section \<open>The table of one kind\<close>

datatype update_status = NoUpdate | StatusChanged | Updated | Added

record generic_manager =
  gm_data :: "resource list"
  gm_epoch :: "64 word"

definition new_manager :: generic_manager where
  "new_manager = \<lparr>gm_data = [], gm_epoch = 1\<rparr>"

definition invalid_uuid :: "string \<Rightarrow> exn" where
  "invalid_uuid msg = Gami \<lparr>gami_code = INVALID_UUID, gami_message = msg, gami_data = no_data\<rparr>"

definition has_uuid :: "string \<Rightarrow> resource \<Rightarrow> bool" where
  "has_uuid u r \<longleftrightarrow> r_persistent r = u \<or> r_temporary r = u"

definition find_entry :: "string \<Rightarrow> resource list \<Rightarrow> resource option" where
  "find_entry u rs = List.find (has_uuid u) rs"

text \<open>The first entry that has the uuid is replaced, or erased.\<close>

fun replace_entry :: "string \<Rightarrow> resource \<Rightarrow> resource list \<Rightarrow> resource list" where
  "replace_entry u e [] = []"
| "replace_entry u e (r # rs) = (if has_uuid u r then e # rs else r # replace_entry u e rs)"

fun erase_entry :: "string \<Rightarrow> resource list \<Rightarrow> resource list" where
  "erase_entry u [] = []"
| "erase_entry u (r # rs) = (if has_uuid u r then rs else r # erase_entry u rs)"

definition add_entry :: "resource \<Rightarrow> (generic_manager, exn, unit) action" where
  "add_entry entry m =
     (if find_entry (get_uuid entry) (gm_data m) \<noteq> None
      then (Inl (invalid_uuid (''Object with this UUID already exists. UUID = '' @ quoted (get_uuid entry) @ ''.'')), m)
      else (Inr (), m\<lparr>gm_epoch := gm_epoch m + 1, gm_data := gm_data m @ [touch (gm_epoch m + 1) entry]\<rparr>))"

definition update_status_of :: "resource \<Rightarrow> resource \<Rightarrow> update_status" where
  "update_status_of old entry =
     (if r_status_hash old \<noteq> r_status_hash entry then StatusChanged
      else if r_rest_hash old \<noteq> r_rest_hash entry then Updated
      else NoUpdate)"

definition add_or_update_entry :: "resource \<Rightarrow> (generic_manager, exn, update_status) action" where
  "add_or_update_entry entry_r m =
     (let epoch = gm_epoch m + 1; m1 = m\<lparr>gm_epoch := epoch\<rparr>; entry = touch epoch entry_r; u = get_uuid entry
      in case find_entry u (gm_data m1) of
           Some old \<Rightarrow>
             if r_parent old \<noteq> r_parent entry_r
             then (Inl (invalid_uuid (''Parent UUID cannot be updated. Entry = '' @ quoted (get_uuid entry_r) @
                '', parent changed from '' @ r_parent old @ '' to '' @ r_parent entry_r)), m1)
             else (Inr (update_status_of old entry), m1\<lparr>gm_data := replace_entry u entry (gm_data m1)\<rparr>)
         | None \<Rightarrow> (Inr Added, m1\<lparr>gm_data := gm_data m1 @ [entry]\<rparr>))"

definition get_entry :: "string \<Rightarrow> string \<Rightarrow> generic_manager \<Rightarrow> resource result" where
  "get_entry collection_name u m =
     (case find_entry u (gm_data m) of
        Some r \<Rightarrow> Inr r
      | None \<Rightarrow> Inl (invalid_uuid (collection_name @ '' [UUID = '' @ quoted u @ ''] not found.'')))"

definition remove_entry :: "string \<Rightarrow> generic_manager \<Rightarrow> generic_manager" where
  "remove_entry u m = m\<lparr>gm_data := erase_entry u (gm_data m)\<rparr>"

definition remove_if :: "(resource \<Rightarrow> bool) \<Rightarrow> generic_manager \<Rightarrow> nat \<times> generic_manager" where
  "remove_if P m = (length (filter P (gm_data m)), m\<lparr>gm_data := filter (\<lambda>r. \<not> P r) (gm_data m)\<rparr>)"

definition remove_by_parent :: "string \<Rightarrow> generic_manager \<Rightarrow> generic_manager" where
  "remove_by_parent u m = snd (remove_if (\<lambda>r. r_parent r = u) m)"

definition clean_resources_for_agent :: "string \<Rightarrow> generic_manager \<Rightarrow> generic_manager" where
  "clean_resources_for_agent gami_id m = snd (remove_if (\<lambda>r. r_agent r = gami_id) m)"

definition clear_entries :: "generic_manager \<Rightarrow> generic_manager" where
  "clear_entries m = m\<lparr>gm_data := []\<rparr>"

definition get_keys :: "(resource \<Rightarrow> bool) \<Rightarrow> generic_manager \<Rightarrow> string list" where
  "get_keys P m = map get_uuid (filter P (gm_data m))"

definition get_keys_of_parent :: "string \<Rightarrow> (resource \<Rightarrow> bool) \<Rightarrow> generic_manager \<Rightarrow> string list" where
  "get_keys_of_parent parent P = get_keys (\<lambda>r. parent = r_parent r \<and> P r)"

definition get_ids :: "generic_manager \<Rightarrow> 64 word list" where
  "get_ids m = map r_id (gm_data m)"

definition get_ids_of_parent :: "string \<Rightarrow> generic_manager \<Rightarrow> 64 word list" where
  "get_ids_of_parent parent m = map r_id (filter (\<lambda>r. r_parent r = parent) (gm_data m))"

definition entry_exists :: "string \<Rightarrow> generic_manager \<Rightarrow> bool" where
  "entry_exists u m \<longleftrightarrow> find_entry u (gm_data m) \<noteq> None"

definition get_entry_count :: "generic_manager \<Rightarrow> nat" where
  "get_entry_count m = length (gm_data m)"

definition get_entry_count_of_parent :: "string \<Rightarrow> generic_manager \<Rightarrow> nat" where
  "get_entry_count_of_parent parent m = length (filter (\<lambda>r. r_parent r = parent) (gm_data m))"

definition id_not_found :: "string \<Rightarrow> 64 word \<Rightarrow> exn" where
  "id_not_found collection_name i =
     Gami (not_found_exc (''Could not find '' @ collection_name @ '' with id: '' @ dec_of_nat (unat i) @ ''.''))"

definition find_uuid_by_id :: "string \<Rightarrow> 64 word \<Rightarrow> generic_manager \<Rightarrow> string result" where
  "find_uuid_by_id collection_name i m =
     (case List.find (\<lambda>r. r_id r = i) (gm_data m) of
        Some r \<Rightarrow> Inr (get_uuid r) | None \<Rightarrow> Inl (id_not_found collection_name i))"

definition find_uuid_by_id_and_parent :: "string \<Rightarrow> 64 word \<Rightarrow> string \<Rightarrow> generic_manager \<Rightarrow> string result" where
  "find_uuid_by_id_and_parent collection_name i parent m =
     (case List.find (\<lambda>r. r_parent r = parent \<and> r_id r = i) (gm_data m) of
        Some r \<Rightarrow> Inr (get_uuid r) | None \<Rightarrow> Inl (id_not_found collection_name i))"

definition rest_id_to_uuid :: "string \<Rightarrow> 64 word \<Rightarrow> string \<Rightarrow> generic_manager \<Rightarrow> string result" where
  "rest_id_to_uuid collection_name i parent m =
     (if parent = [] then find_uuid_by_id collection_name i m
      else find_uuid_by_id_and_parent collection_name i parent m)"

definition uuid_to_rest_id :: "string \<Rightarrow> generic_manager \<Rightarrow> 64 word result" where
  "uuid_to_rest_id u m =
     (case find_entry u (gm_data m) of
        Some r \<Rightarrow> Inr (r_id r)
      | None \<Rightarrow> Inl (invalid_uuid (''Entry not found in the manager for UUID = '' @ u @ ''.'')))"

section \<open>Links\<close>

text \<open>A link is a parent, a child and the agent it comes from; the set is kept in the order of these triples.\<close>

type_synonym link_key = "string \<times> string \<times> string"
type_synonym links = "(link_key, unit) smap"

definition link_add :: "string \<Rightarrow> string \<Rightarrow> string \<Rightarrow> links \<Rightarrow> links" where
  "link_add parent child agent m = smap_put (parent, child, agent) () m"

definition link_remove :: "string \<Rightarrow> string \<Rightarrow> links \<Rightarrow> links" where
  "link_remove parent child m =
     (case List.find (\<lambda>((p, c, _), _). parent = p \<and> child = c) m of None \<Rightarrow> m | Some (k, _) \<Rightarrow> smap_erase k m)"

definition link_remove_if :: "(string \<Rightarrow> string \<Rightarrow> string \<Rightarrow> bool) \<Rightarrow> links \<Rightarrow> links" where
  "link_remove_if P m = filter (\<lambda>((p, c, a), _). \<not> P p c a) m"

definition remove_parent :: "string \<Rightarrow> links \<Rightarrow> links" where
  "remove_parent u = link_remove_if (\<lambda>p c a. u = p)"

definition remove_child :: "string \<Rightarrow> links \<Rightarrow> links" where
  "remove_child u = link_remove_if (\<lambda>p c a. u = c)"

definition link_exists :: "string \<Rightarrow> string \<Rightarrow> links \<Rightarrow> bool" where
  "link_exists parent child m \<longleftrightarrow> List.find (\<lambda>((p, c, _), _). parent = p \<and> child = c) m \<noteq> None"

definition parent_exists :: "string \<Rightarrow> links \<Rightarrow> bool" where
  "parent_exists parent m \<longleftrightarrow> parent \<in> set (map (\<lambda>((p, _, _), _). p) m)"

definition child_exists :: "string \<Rightarrow> links \<Rightarrow> bool" where
  "child_exists child m \<longleftrightarrow> child \<in> set (map (\<lambda>((_, c, _), _). c) m)"

definition clear_links :: "links \<Rightarrow> links" where
  "clear_links m = []"

definition get_children :: "string \<Rightarrow> links \<Rightarrow> string list" where
  "get_children parent m = map (\<lambda>((_, c, _), _). c) (filter (\<lambda>((p, _, _), _). parent = p) m)"

definition get_parents :: "string \<Rightarrow> links \<Rightarrow> string list" where
  "get_parents child m = map (\<lambda>((p, _, _), _). p) (filter (\<lambda>((_, c, _), _). child = c) m)"

text \<open>
  \<^verbatim>\<open>std::unique\<close> moves the elements that are not repeated to the front and leaves what it leaves behind
  them, \<open>left\<close>; the code does not cut that off.
\<close>

definition get_all_unique_parents :: "(string list \<Rightarrow> string list) \<Rightarrow> links \<Rightarrow> string list" where
  "get_all_unique_parents left m =
     (let elems = map (\<lambda>((p, _, _), _). p) m; front = remdups_adj elems
      in front @ take (length elems - length front) (left elems))"

definition clean_links_for_agent :: "string \<Rightarrow> links \<Rightarrow> links" where
  "clean_links_for_agent gami_id = link_remove_if (\<lambda>p c a. a = gami_id)"

definition clean_links_with_no_agent :: "links \<Rightarrow> links" where
  "clean_links_with_no_agent = link_remove_if (\<lambda>p c a. a = [])"

text \<open>Every link the key of which is changed is erased and filed anew; the loop does not change one twice.\<close>

definition update_links :: "(link_key \<Rightarrow> bool) \<Rightarrow> (link_key \<Rightarrow> link_key) \<Rightarrow> links \<Rightarrow> links" where
  "update_links P f m = foldl (\<lambda>m' k. if P k then smap_put (f k) () (smap_erase k m') else m') m (map fst m)"

definition update_parent :: "string \<Rightarrow> string \<Rightarrow> links \<Rightarrow> links" where
  "update_parent old new = update_links (\<lambda>(p, c, a). old = p) (\<lambda>(p, c, a). (new, c, a))"

definition update_child :: "string \<Rightarrow> string \<Rightarrow> links \<Rightarrow> links" where
  "update_child old new = update_links (\<lambda>(p, c, a). old = c) (\<lambda>(p, c, a). (p, new, a))"

definition update_agent :: "string \<Rightarrow> string \<Rightarrow> links \<Rightarrow> links" where
  "update_agent old new = update_links (\<lambda>(p, c, a). old = a) (\<lambda>(p, c, a). (p, c, new))"

end
