(* ===== verification/Resource_Ids.thy ===== *)
theory Resource_Ids
  imports Id_Policy Resource_Manager
begin

text \<open>
  The identifiers of all kinds of resources together: a policy for each kind (the aliases of
  \<^verbatim>\<open>handler_manager.cpp\<close>), one directory, a memoizer for each kind. The locale \<open>numbering\<close> is what the
  tables of resources rely on: an assigned number is the resource's own until it is released.
\<close>

section \<open>The policies\<close>

definition shared_components :: "component list" where
  "shared_components = [Chassis, System, EthernetSwitch, RemoteEthernetSwitch, StorageServices, Fabric, Manager, Task, Root]"

definition policy_of :: "component \<Rightarrow> id_policy" where
  "policy_of c = \<lparr>pol_component = component_name c,
     pol_zone = (if c \<in> set shared_components then SHARED else PARENT_SPACE)\<rparr>"

record id_service =
  is_store :: db_store
  is_memos :: "component \<Rightarrow> memoizer"

definition id_part :: "component \<Rightarrow> id_service \<Rightarrow> id_state" where
  "id_part c st = \<lparr>id_store = is_store st, id_memo = is_memos st c\<rparr>"

definition id_put :: "component \<Rightarrow> id_state \<Rightarrow> id_service \<Rightarrow> id_service" where
  "id_put c p st = \<lparr>is_store = id_store p, is_memos = (is_memos st)(c := id_memo p)\<rparr>"

text \<open>The number 0, which an assertion of \<^verbatim>\<open>get_id\<close> excludes, is undefined behaviour.\<close>

definition assign_id :: "component \<Rightarrow> int \<Rightarrow> string \<Rightarrow> string \<Rightarrow> id_service \<Rightarrow> (64 word result \<times> id_service) option" where
  "assign_id c now uuid parent st =
     (case get_id now (policy_of c) uuid parent (id_part c st) of
        None \<Rightarrow> None
      | Some (r, p) \<Rightarrow> Some (if r = Inr 0 then Inl (Undefined ''Entity ID wrapped'') else r, id_put c p st))"

definition release_id :: "component \<Rightarrow> int \<Rightarrow> string \<Rightarrow> string \<Rightarrow> (id_service, exn, unit) action" where
  "release_id c now uuid parent st =
     (case purge now (policy_of c) uuid parent (id_part c st) of (r, p) \<Rightarrow> (r, id_put c p st))"

definition new_id_service :: id_service where
  "new_id_service = \<lparr>is_store = [], is_memos = (\<lambda>_. [])\<rparr>"

definition id_owner :: "component \<Rightarrow> id_service \<Rightarrow> string \<Rightarrow> 64 word \<Rightarrow> string" where
  "id_owner c st = is_allocated_for (is_memos st c)"

definition id_zone :: "component \<Rightarrow> string \<Rightarrow> string" where
  "id_zone c = zone_parent (policy_of c)"

section \<open>What a provider of numbers promises\<close>

text \<open>A result that is not undefined behaviour.\<close>

definition defined :: "'a result \<Rightarrow> bool" where
  "defined r \<longleftrightarrow> (\<forall>m. r \<noteq> Inl (Undefined m))"

lemma defined_simps [simp]: "defined (Inr x)" "\<not> defined (Inl (Undefined m))" "defined (Inl (Gami g))"
    "defined (Inl (AgentUnreachable m))" "defined (Inl (StdExc m))" "defined (Inl (ServerExc e))"
  by (simp_all add: defined_def)

locale numbering =
  fixes owner :: "'s \<Rightarrow> string \<Rightarrow> 64 word \<Rightarrow> string" and zone :: "string \<Rightarrow> string"
    and invar :: "'s \<Rightarrow> bool" and good :: "string \<Rightarrow> bool" and good_parent :: "string \<Rightarrow> bool"
    and assign :: "int \<Rightarrow> string \<Rightarrow> string \<Rightarrow> 's \<Rightarrow> (64 word result \<times> 's) option"
    and release :: "int \<Rightarrow> string \<Rightarrow> string \<Rightarrow> 's \<Rightarrow> unit result \<times> 's"
  assumes assign_invar: "invar s \<Longrightarrow> good u \<Longrightarrow> good_parent p \<Longrightarrow> assign now u p s = Some (r, s') \<Longrightarrow> defined r \<Longrightarrow> invar s'"
    and assign_owner: "invar s \<Longrightarrow> good u \<Longrightarrow> good_parent p \<Longrightarrow> assign now u p s = Some (Inr i, s') \<Longrightarrow> owner s' (zone p) i = u"
    and assign_keeps: "invar s \<Longrightarrow> good u \<Longrightarrow> good_parent p \<Longrightarrow> assign now u p s = Some (r, s') \<Longrightarrow> defined r
      \<Longrightarrow> owner s q j \<noteq> [] \<Longrightarrow> owner s' q j = owner s q j"
    and release_invar: "invar s \<Longrightarrow> good u \<Longrightarrow> good_parent p \<Longrightarrow> owner s (zone p) i = u \<Longrightarrow> invar (snd (release now u p s))"
    and release_owner: "invar s \<Longrightarrow> good u \<Longrightarrow> good_parent p \<Longrightarrow> owner s (zone p) i = u
      \<Longrightarrow> owner (snd (release now u p s)) q j = (if q = zone p \<and> owner s q j = u then [] else owner s q j)"
    and good_nonempty: "good u \<Longrightarrow> u \<noteq> []"

text \<open>The resources of a table have the numbers that are theirs.\<close>

definition numbered :: "(string \<Rightarrow> 64 word \<Rightarrow> string) \<Rightarrow> (string \<Rightarrow> string) \<Rightarrow> resource list \<Rightarrow> bool" where
  "numbered own zone rs \<longleftrightarrow> (\<forall>r \<in> set rs. own (zone (r_parent r)) (r_id r) = get_uuid r)"

context numbering
begin

lemma numbered_assign:
  assumes "numbered (owner s) zone rs" and "\<forall>r \<in> set rs. good (get_uuid r)" and "invar s" and "good u" and "good_parent p"
    and "assign now u p s = Some (r, s')" and "defined r"
  shows "numbered (owner s') zone rs"
  using assms(1,2) assign_keeps [OF assms(3-7)] good_nonempty unfolding numbered_def by metis

lemma numbered_store:
  assumes "numbered (owner s) zone rs" and "\<forall>r \<in> set rs. good (get_uuid r)" and "invar s" and "good u" and "good_parent p"
    and "assign now u p s = Some (Inr i, s')" and "get_uuid e = u" and "r_parent e = p" and "r_id e = i"
    and "set rs' \<subseteq> insert e (set rs)"
  shows "numbered (owner s') zone rs'"
  using numbered_assign [OF assms(1-6)] assign_owner [OF assms(3-6)] assms(7-10) by (auto simp: numbered_def)

lemma numbered_release:
  assumes "numbered (owner s) zone rs" and "invar s" and "good u" and "good_parent p" and "e \<in> set rs" and "get_uuid e = u" and "r_parent e = p"
    and "set rs' \<subseteq> {r \<in> set rs. get_uuid r \<noteq> u}"
  shows "numbered (owner (snd (release now u p s))) zone rs'"
proof -
  have "owner s (zone p) (r_id e) = u" using assms(1,5-7) by (auto simp: numbered_def)
  note law = release_owner [OF assms(2-4) this]
  show ?thesis
    unfolding numbered_def
  proof
    fix r assume "r \<in> set rs'"
    with assms(1,8) have "owner s (zone (r_parent r)) (r_id r) = get_uuid r" "get_uuid r \<noteq> u" by (auto simp: numbered_def)
    then show "owner (snd (release now u p s)) (zone (r_parent r)) (r_id r) = get_uuid r" by (simp add: law)
  qed
qed

text \<open>Two resources of a zone with the same number are the same.\<close>

lemma numbers_unique:
  assumes "numbered (owner s) zone rs" and "r \<in> set rs" and "r' \<in> set rs"
    and "zone (r_parent r) = zone (r_parent r')" and "r_id r = r_id r'"
  shows "get_uuid r = get_uuid r'"
  using assms unfolding numbered_def by metis

end

section \<open>The policies are a provider\<close>

lemma policy_of_ok [simp]: "policy_ok (policy_of c)"
proof -
  have "list_all (\<lambda>n. n \<noteq> [] \<and> dotless n) component_names"
    by (simp add: component_names_def dotless_def)
  then show ?thesis using component_name_mem [of c] by (auto simp: policy_ok_def policy_of_def list_all_iff)
qed

lemma entity_file_other: "c \<noteq> d \<Longrightarrow> entity_file (policy_of c) p u \<noteq> entity_file (policy_of d) q v"
proof -
  assume "c \<noteq> d"
  then have "component_name c \<noteq> component_name d" by simp
  moreover have "dotless (component_name c)" "dotless (component_name d)"
    using policy_of_ok [of c] policy_of_ok [of d] by (simp_all add: policy_ok_def policy_of_def)
  ultimately show ?thesis
    by (auto simp: entity_file_def entity_name_def policy_of_def dotted_inj)
qed

definition id_service_ok :: "id_service \<Rightarrow> bool" where
  "id_service_ok st \<longleftrightarrow> (\<forall>c. ids_ok (policy_of c) (id_part c st))"

lemma new_id_service_ok: "id_service_ok new_id_service"
  by (auto simp: id_service_ok_def id_part_def new_id_service_def ids_ok_def holds_number_def is_allocated_for_def)

text \<open>A step of one policy is, for the others, a change of the directory that leaves their files alone.\<close>

lemma id_service_step:
  assumes "id_service_ok st" and "id_step (policy_of c) (id_part c st) p"
    and "\<And>d name. d \<noteq> c \<Longrightarrow> own_file (policy_of d) name \<Longrightarrow> map_of (id_store p) name = map_of (is_store st) name"
    and "\<And>d q. d \<noteq> c \<Longrightarrow> holds_number (is_store st) (entity_file (policy_of d) q LAST)
      \<Longrightarrow> holds_number (id_store p) (entity_file (policy_of d) q LAST)"
  shows "id_service_ok (id_put c p st)"
proof -
  have own: "ids_ok (policy_of c) p"
    using id_step_ok [OF assms(2) policy_of_ok] assms(1) by (simp add: id_service_ok_def)
  have "ids_ok (policy_of d) (id_part d (id_put c p st))" for d
  proof (cases "d = c")
    case False
    have "id_step (policy_of d) (id_part d st) ((id_part d st)\<lparr>id_store := id_store p\<rparr>)"
    proof (rule id_step.others)
      show "smap_ok (id_store p)" using own by (simp add: ids_ok_def)
    qed (use assms(3,4) False in \<open>simp_all add: id_part_def\<close>)
    from id_step_ok [OF this policy_of_ok] assms(1) False show ?thesis
      by (simp add: id_service_ok_def id_part_def id_put_def)
  qed (use own in \<open>cases p; simp add: id_part_def id_put_def\<close>)
  then show ?thesis by (simp add: id_service_ok_def)
qed

lemma invalidate_file_other: "x \<noteq> n \<Longrightarrow> map_of (snd (invalidate_file now n s)) x = map_of s x"
  by (auto simp: invalidate_file_def split: option.split)

lemma invalidate_last_keeps:
  assumes "policy_ok pol" and "dotless p" and "proper_uuid u"
  shows "map_of (snd (invalidate_last now pol' v s)) (entity_file pol p u) = map_of s (entity_file pol p u)"
proof -
  let ?x = "entity_file pol p u" and ?key = "ResourceLastKey (zone_parent pol' v) []"
  have "map_of (snd (process_names (cleanup_name now [] NEVER) (key_names [] ?key s) s)) ?x = map_of s ?x"
  proof (rule process_cleanup_other, rule ballI)
    fix n assume "n \<in> set (key_names [] ?key s)"
    then have "key_unserialize ?key n \<noteq> None" "n \<noteq> []" by (auto simp: key_names_def)
    with entity_not_last [OF assms] have "n \<noteq> entity_name pol p u" by metis
    then show "full_name [] n \<noteq> ?x" using \<open>n \<noteq> []\<close> by (simp add: full_name_def entity_file_def)
  qed
  then show ?thesis by (simp add: invalidate_last_def create_database_def cleanup_def foreach_name_def)
qed

lemma own_fileE:
  assumes "own_file (policy_of d) name"
  obtains q v where "dotless q" "proper_uuid v" "name = entity_file (policy_of d) q v"
  using assms by (auto simp: own_file_def)

lemma assign_id_ok:
  assumes "id_service_ok st" and "proper_uuid u" and "dotless p" and "assign_id c now u p st = Some (r, st')" and "defined r"
  obtains i where "r = Inr i" "id_service_ok st'" "id_owner c st' (id_zone c p) i = u"
    "\<And>q j. id_owner c st q j \<noteq> [] \<Longrightarrow> id_owner c st' q j = id_owner c st q j" "\<And>d. d \<noteq> c \<Longrightarrow> id_owner d st' = id_owner d st"
proof -
  let ?pol = "policy_of c"
  have ok: "ids_ok ?pol (id_part c st)" using assms(1) by (simp add: id_service_ok_def)
  obtain r' s where got: "get_id now ?pol u p (id_part c st) = Some (r', s)" and r: "r = (if r' = Inr 0 then Inl (Undefined ''Entity ID wrapped'') else r')"
      and st': "st' = id_put c s st"
    using assms(4) by (auto simp: assign_id_def split: option.splits prod.splits)
  have nz: "r' \<noteq> Inr 0" using assms(5) r by auto
  show ?thesis
  proof (cases rule: get_id_cases [OF policy_of_ok ok assms(2,3) refl, where now = now, case_names endless wrapped given])
    case (given i renew)
    then have r': "r' = Inr i" and s: "id_store s = store_after now ?pol (id_zone c p) u i renew (is_store st)"
        "id_memo s = snd (allocate (id_zone c p) u i (is_memos st c))"
      using got by (auto simp: id_part_def id_zone_def)
    have "id_service_ok (id_put c s st)"
    proof (rule id_service_step [OF assms(1) id_step.fetched [OF got nz assms(2,3)]])
      fix d name assume "d \<noteq> c" "own_file (policy_of d) name"
      then show "map_of (id_store s) name = map_of (is_store st) name"
        by (auto elim!: own_fileE simp: s store_after_def entity_file_other)
    next
      fix d q assume "d \<noteq> c" "holds_number (is_store st) (entity_file (policy_of d) q LAST)"
      then show "holds_number (id_store s) (entity_file (policy_of d) q LAST)"
        by (simp add: s store_after_def holds_number_def holds_def entity_file_other)
    qed
    moreover have "is_allocated_for (id_memo s) (id_zone c p) i = u"
      using given(2) by (auto simp: s is_allocated_after_allocate usable_def id_part_def id_zone_def)
    moreover have "id_owner c st' q j = id_owner c st q j" if "id_owner c st q j \<noteq> []" for q j
      using that by (auto simp: st' id_put_def id_owner_def s is_allocated_after_allocate)
    ultimately show ?thesis
      using r r' given(1) by (intro that [of i]) (simp_all add: st' id_put_def id_owner_def)
  qed (use got nz in auto)
qed

lemma release_id_ok:
  assumes "id_service_ok st" and "proper_uuid u" and "dotless p" and "id_owner c st (id_zone c p) i = u"
  shows "id_service_ok (snd (release_id c now u p st))"
    and "id_owner c (snd (release_id c now u p st)) q j = (if q = id_zone c p \<and> id_owner c st q j = u then [] else id_owner c st q j)"
    and "d \<noteq> c \<Longrightarrow> id_owner d (snd (release_id c now u p st)) = id_owner d st"
    and "fst (release_id c now u p st) = Inr ()"
proof -
  let ?pol = "policy_of c" and ?p = "id_zone c p" and ?s = "id_part c st"
  have ok: "ids_ok ?pol ?s" using assms(1) by (simp add: id_service_ok_def)
  have i: "is_allocated_for (id_memo ?s) ?p i = u" using assms(4) by (simp add: id_owner_def id_part_def)
  note law = purge_law [OF policy_of_ok ok assms(2) id_zone_def [THEN fun_cong] i, of now]
  let ?store = "snd (invalidate_file now (entity_file ?pol ?p u) (snd (invalidate_last now ?pol u (is_store st))))"
  let ?t = "\<lparr>id_store = ?store, id_memo = snd (remove_allocated ?p i (is_memos st c))\<rparr>"
  have rel: "release_id c now u p st = (Inr (), id_put c ?t st)"
    using law by (simp add: release_id_def id_part_def)
  show "fst (release_id c now u p st) = Inr ()" by (simp add: rel)
  have "id_service_ok (id_put c ?t st)"
  proof (rule id_service_step [OF assms(1)])
    show "id_step ?pol ?s ?t"
      using law i by (intro id_step.purged [OF _ _ assms(2,3)]) (auto simp: id_part_def has_id_def id_zone_def)
  next
    fix d name assume d: "d \<noteq> c" "own_file (policy_of d) name"
    then show "map_of (id_store ?t) name = map_of (is_store st) name"
      by (auto elim!: own_fileE simp: entity_file_other invalidate_last_keeps invalidate_file_other)
  next
    fix d q assume "d \<noteq> c" "holds_number (is_store st) (entity_file (policy_of d) q LAST)"
    then show "holds_number (id_store ?t) (entity_file (policy_of d) q LAST)"
      by (simp add: invalidate_file_number invalidate_last_def cleanup_number)
  qed
  then show "id_service_ok (snd (release_id c now u p st))" by (simp add: rel)
  have same: "j = i" if "is_allocated_for (is_memos st c) ?p j = u" for j
  proof -
    have "holds (id_store ?s) (entity_file ?pol ?p u) j" "holds (id_store ?s) (entity_file ?pol ?p u) i"
      using ids_ok_allocated [OF ok, of ?p j u] ids_ok_allocated [OF ok i] that proper_LAST [OF assms(2)] valid_with_holds
      by (simp_all add: id_part_def)
    then show ?thesis by (rule holds_inj)
  qed
  show "id_owner c (snd (release_id c now u p st)) q j = (if q = ?p \<and> id_owner c st q j = u then [] else id_owner c st q j)"
  proof (cases "q = ?p \<and> j = i")
    case False
    then have "\<not> (q = ?p \<and> is_allocated_for (is_memos st c) q j = u)" using same by metis
    with False show ?thesis by (cases "q = ?p") (simp_all add: rel id_owner_def id_put_def is_allocated_after_remove)
  qed (use i in \<open>simp add: rel id_owner_def id_put_def is_allocated_after_remove id_part_def\<close>)
  show "d \<noteq> c \<Longrightarrow> id_owner d (snd (release_id c now u p st)) = id_owner d st"
    by (simp add: rel id_owner_def id_put_def)
qed

interpretation ids: numbering "id_owner c" "id_zone c" id_service_ok proper_uuid dotless "assign_id c" "release_id c"
  for c
proof
  fix s u p now r s'
  assume "id_service_ok s" "proper_uuid u" "dotless p" "assign_id c now u p s = Some (r, s')" "defined r"
  then show "id_service_ok s'" by (rule assign_id_ok)
next
  fix s u p now i s'
  assume "id_service_ok s" "proper_uuid u" "dotless p" "assign_id c now u p s = Some (Inr i, s')"
  then show "id_owner c s' (id_zone c p) i = u" by (rule assign_id_ok) simp_all
next
  fix s u p now r s' q j
  assume "id_service_ok s" "proper_uuid u" "dotless p" "assign_id c now u p s = Some (r, s')" "defined r" "id_owner c s q j \<noteq> []"
  then show "id_owner c s' q j = id_owner c s q j" by (metis assign_id_ok)
qed (simp_all add: release_id_ok proper_uuid_def)

end
