(* ===== verification/Handler_State.thy ===== *)
theory Handler_State
  imports Resource_Ids Event_Service Http_Message
begin

text \<open>
  What the handlers of resources (\<^verbatim>\<open>rest/model/handlers\<close>) work on: the tables of resources, their numbers, the
  links, what the handlers know of each other, the agents, and the context of the operation in
  progress. On it: talking to an agent (\<^verbatim>\<open>json_agent.hpp\<close>, \<^verbatim>\<open>rpc_client.cpp\<close>), the URLs of resources
  (\<^verbatim>\<open>rest/endpoints/utils.cpp\<close>), and the removal of resources (the last part of \<^verbatim>\<open>generic_handler.hpp\<close>).
\<close>

section \<open>Programs that may not end\<close>

text \<open>A program has a result, which may be an exception, and a new state; \<open>None\<close> is a run without end.\<close>

type_synonym ('s, 'a) prog = "'s \<Rightarrow> ('a result \<times> 's) option"

definition p_return :: "'a \<Rightarrow> ('s, 'a) prog" where
  "p_return a s = Some (Inr a, s)"

definition p_throw :: "exn \<Rightarrow> ('s, 'a) prog" where
  "p_throw e s = Some (Inl e, s)"

definition p_bind :: "('s, 'a) prog \<Rightarrow> ('a \<Rightarrow> ('s, 'b) prog) \<Rightarrow> ('s, 'b) prog" where
  "p_bind m f s = (case m s of
      None \<Rightarrow> None
    | Some (r, s') \<Rightarrow> (case r of Inl e \<Rightarrow> Some (Inl e, s') | Inr a \<Rightarrow> f a s'))"

definition p_catch :: "('s, 'a) prog \<Rightarrow> (exn \<Rightarrow> ('s, 'a) prog) \<Rightarrow> ('s, 'a) prog" where
  "p_catch m h s = (case m s of
      None \<Rightarrow> None
    | Some (r, s') \<Rightarrow> (case r of Inl e \<Rightarrow> h e s' | Inr a \<Rightarrow> Some (Inr a, s')))"

definition p_get :: "('s \<Rightarrow> 'a) \<Rightarrow> ('s, 'a) prog" where
  "p_get f s = Some (Inr (f s), s)"

definition p_result :: "('s \<Rightarrow> 'a result) \<Rightarrow> ('s, 'a) prog" where
  "p_result f s = Some (f s, s)"

definition p_modify :: "('s \<Rightarrow> 's) \<Rightarrow> ('s, unit) prog" where
  "p_modify f s = Some (Inr (), f s)"

primrec p_map :: "('x \<Rightarrow> ('s, 'a) prog) \<Rightarrow> 'x list \<Rightarrow> ('s, 'a list) prog" where
  "p_map f [] = p_return []"
| "p_map f (x # xs) = p_bind (f x) (\<lambda>a. p_bind (p_map f xs) (\<lambda>as. p_return (a # as)))"

primrec p_each :: "('x \<Rightarrow> ('s, unit) prog) \<Rightarrow> 'x list \<Rightarrow> ('s, unit) prog" where
  "p_each f [] = p_return ()"
| "p_each f (x # xs) = p_bind (f x) (\<lambda>_. p_each f xs)"

text \<open>Handlers of \<^verbatim>\<open>catch (...)\<close> that let an unreachable agent through; undefined behaviour is never caught.\<close>

definition p_ignore :: "('s, unit) prog \<Rightarrow> ('s, unit) prog" where
  "p_ignore m = p_catch m (\<lambda>e. case e of AgentUnreachable _ \<Rightarrow> p_throw e | Undefined _ \<Rightarrow> p_throw e | _ \<Rightarrow> p_return ())"

section \<open>The state\<close>

datatype link_table =
    StorageSubsystemDrives | DriveFunction | ZoneEndpoint | EndpointPort
  | PortMembersTable | AclPort | LogicalDriveMembers | PhysicalDriveMembers

datatype mode = EVENT | POLLING | LOADING

record handler_state =
  h_managers :: "component \<Rightarrow> generic_manager"
  h_ids :: id_service
  h_links :: "link_table \<Rightarrow> links"
  h_subs :: "component \<Rightarrow> component list"
  h_agents :: "string list"
  h_error_since :: "string \<Rightarrow> int option"
  h_notified :: "event list"
  h_completed :: "nat list"
  h_calls :: nat
  cx_mode :: mode
  cx_stack :: "component list"
  cx_agent :: string
  cx_events :: "event list"
  cx_quiet :: bool
  cx_added :: "32 word"
  cx_removed :: "32 word"
  cx_updated :: "32 word"
  cx_status_changed :: "32 word"

text \<open>What an agent is asked, and what comes back; \<open>Malformed\<close> is an answer that is not of the form asked for.\<close>

record resource_data =
  rd_status_hash :: string
  rd_rest_hash :: string
  rd_collections :: "collection list"
  rd_task :: task_part
  rd_health :: "health option"

datatype rpc_request =
    GetInfo component string | GetCollection string string
  | GetManagersCollection | GetTasksCollection | GetTaskResultInfo string

datatype rpc_reply =
    InfoReply resource_data | UuidsReply "string list" | ResultReply
  | Malformed exn | RpcError gami_exception | ConnectorError

text \<open>
  The rest of the world, at each call to an agent: its replies, the two clocks, new event ids. \<open>env_tables\<close> is the
  order in which the tables were registered.
\<close>

record handler_env =
  env_reply :: "nat \<Rightarrow> string \<Rightarrow> rpc_request \<Rightarrow> rpc_reply"
  env_now :: "nat \<Rightarrow> int"
  env_nanos :: "nat \<Rightarrow> int"
  env_event_id :: "nat \<Rightarrow> string"
  env_tables :: "component list"

definition manager_of :: "component \<Rightarrow> handler_state \<Rightarrow> generic_manager" where
  "manager_of c s = h_managers s c"

definition set_manager :: "component \<Rightarrow> generic_manager \<Rightarrow> handler_state \<Rightarrow> handler_state" where
  "set_manager c m s = s\<lparr>h_managers := (h_managers s)(c := m)\<rparr>"

definition update_links_of :: "link_table \<Rightarrow> (links \<Rightarrow> links) \<Rightarrow> (handler_state, unit) prog" where
  "update_links_of t f = p_modify (\<lambda>s. s\<lparr>h_links := (h_links s)(t := f (h_links s t))\<rparr>)"

definition with_ids :: "(id_service, exn, 'a) action \<Rightarrow> (handler_state, 'a) prog" where
  "with_ids a s = (case a (h_ids s) of (r, ids) \<Rightarrow> Some (r, s\<lparr>h_ids := ids\<rparr>))"

definition notify :: "event list \<Rightarrow> (handler_state, unit) prog" where
  "notify es = p_modify (\<lambda>s. s\<lparr>h_notified := h_notified s @ es\<rparr>)"

text \<open>The \<open>i\<close>-th of the events that are made at once.\<close>

definition new_event_at :: "handler_env \<Rightarrow> nat \<Rightarrow> event_type \<Rightarrow> string \<Rightarrow> handler_state \<Rightarrow> event" where
  "new_event_at env i ty origin s = new_event (env_event_id env (h_calls s + length (h_notified s) + i)) (env_now env (h_calls s)) ty origin"

section \<open>Handlers\<close>

text \<open>
  The handlers by the component they are registered for, and the component of the resources each handles; the handler of the
  root is not registered.
\<close>

definition handler_components :: "component list" where
  "handler_components =
     [Manager, Chassis, Fan, ThermalZone, PowerZone, PSU, System, Processor, Memory, NetworkInterface,
      StorageController, StorageSubsystem, NetworkDevice, NetworkDeviceFunction, Drive, EthernetSwitch,
      EthernetSwitchPort, EthernetSwitchPortVlan, Vlan, Acl, AclRule, StaticMac, RemoteEthernetSwitch, NeighborSwitch,
      StorageServices, IscsiTarget, LogicalDrive, PhysicalDrive, Switch, Zone, Port, Endpoint, Fabric,
      PcieDevice, PcieFunction, Task]"

definition model_of :: "component \<Rightarrow> component" where
  "model_of h = (if h = NeighborSwitch then RemoteEthernetSwitch else h)"

text \<open>\<^verbatim>\<open>HandlerInterface::get_component\<close>; the handler of the root says \<^verbatim>\<open>None\<close>.\<close>

definition component_of :: "component \<Rightarrow> component" where
  "component_of h = (if h = Root then NoComponent else model_of h)"

definition get_handler :: "component \<Rightarrow> component result" where
  "get_handler c =
     (if c \<in> set handler_components then Inr c
      else Inl (Gami (invalid_value_exc (''Handler for component '' @ [CHR 0x22] @ component_name c @ [CHR 0x22] @ '' not defined.''))))"

fun collection_handler :: "collection_type \<Rightarrow> component option" where
  "collection_handler Systems = Some System"
| "collection_handler Processors = Some Processor"
| "collection_handler MemoryCollection = Some Memory"
| "collection_handler NetworkInterfaces = Some NetworkInterface"
| "collection_handler EthernetSwitchPortVlans = Some EthernetSwitchPortVlan"
| "collection_handler Fans = Some Fan"
| "collection_handler ThermalZones = Some ThermalZone"
| "collection_handler PowerZones = Some PowerZone"
| "collection_handler PSUs = Some PSU"
| "collection_handler StorageControllers = Some StorageController"
| "collection_handler StorageSubsystems = Some StorageSubsystem"
| "collection_handler NetworkDevices = Some NetworkDevice"
| "collection_handler NetworkDeviceFunctions = Some NetworkDeviceFunction"
| "collection_handler Drives = Some Drive"
| "collection_handler EthernetSwitches = Some EthernetSwitch"
| "collection_handler NeighborSwitches = Some NeighborSwitch"
| "collection_handler EthernetSwitchPorts = Some EthernetSwitchPort"
| "collection_handler PortMembers = Some EthernetSwitchPort"
| "collection_handler Vlans = Some Vlan"
| "collection_handler Acls = Some Acl"
| "collection_handler Rules = Some AclRule"
| "collection_handler StaticMacs = Some StaticMac"
| "collection_handler StorageServicesCollection = Some StorageServices"
| "collection_handler LogicalDrives = Some LogicalDrive"
| "collection_handler PhysicalDrives = Some PhysicalDrive"
| "collection_handler iSCSITargets = Some IscsiTarget"
| "collection_handler Managers = Some Manager"
| "collection_handler Fabrics = Some Fabric"
| "collection_handler ChassisCollection = Some Chassis"
| "collection_handler Switches = Some Switch"
| "collection_handler Zones = Some Zone"
| "collection_handler Ports = Some Port"
| "collection_handler Endpoints = Some Endpoint"
| "collection_handler PCIeDevices = Some PcieDevice"
| "collection_handler PCIeFunctions = Some PcieFunction"
| "collection_handler Tasks = Some Task"
| "collection_handler NoCollection = None"

text \<open>Collections of a type without a handler are left out.\<close>

definition get_handlers :: "collection list \<Rightarrow> (string \<times> component) list" where
  "get_handlers cs = List.map_filter (\<lambda>c. map_option (\<lambda>h. (c_name c, h)) (collection_handler (c_type c))) cs"

text \<open>The name of the collection a kind of resource is in, for messages.\<close>

fun collection_name_of :: "component \<Rightarrow> string" where
  "collection_name_of Acl = ''Acls''"
| "collection_name_of AclRule = ''AclRules''"
| "collection_name_of AuthorizationCertificate = ''AuthorizationCertificates''"
| "collection_name_of Chassis = ''Chassis''"
| "collection_name_of Drive = ''Drives''"
| "collection_name_of Endpoint = ''Endpoints''"
| "collection_name_of EthernetSwitch = ''EthernetSwitches''"
| "collection_name_of EthernetSwitchPort = ''EthernetSwitchPorts''"
| "collection_name_of EthernetSwitchPortVlan = ''EthernetSwitchPortVlans''"
| "collection_name_of Fabric = ''Fabrics''"
| "collection_name_of Fan = ''Fans''"
| "collection_name_of IscsiTarget = ''iSCSITargets''"
| "collection_name_of LogicalDrive = ''LogicalDrives''"
| "collection_name_of Manager = ''Managers''"
| "collection_name_of Memory = ''Memory''"
| "collection_name_of NetworkDevice = ''NetworkDevices''"
| "collection_name_of NetworkDeviceFunction = ''NetworkDeviceFunctions''"
| "collection_name_of NetworkInterface = ''NetworkInterfaces''"
| "collection_name_of PcieDevice = ''PcieDevices''"
| "collection_name_of PcieFunction = ''PcieFunctions''"
| "collection_name_of PhysicalDrive = ''PhysicalDrives''"
| "collection_name_of Port = ''Ports''"
| "collection_name_of PowerZone = ''PowerZones''"
| "collection_name_of Processor = ''Processors''"
| "collection_name_of PSU = ''Psus''"
| "collection_name_of RemoteEthernetSwitch = ''RemoteEthernetSwitches''"
| "collection_name_of StaticMac = ''StaticMacs''"
| "collection_name_of StorageController = ''StorageControllers''"
| "collection_name_of StorageServices = ''StorageServices''"
| "collection_name_of StorageSubsystem = ''StorageSubsystems''"
| "collection_name_of Switch = ''Switches''"
| "collection_name_of System = ''Systems''"
| "collection_name_of Task = ''Tasks''"
| "collection_name_of ThermalZone = ''ThermalZones''"
| "collection_name_of Vlan = ''Vlans''"
| "collection_name_of Zone = ''Zones''"
| "collection_name_of _ = ''None''"

section \<open>URLs of resources\<close>

text \<open>The last part of the path of a resource: the collection it is in, below the root or below its parent.\<close>

fun parent_literal :: "component \<Rightarrow> string option" where
  "parent_literal Chassis = Some ''Chassis''"
| "parent_literal Manager = Some ''Managers''"
| "parent_literal System = Some ''Systems''"
| "parent_literal StorageServices = Some ''Services''"
| "parent_literal EthernetSwitch = Some ''EthernetSwitches''"
| "parent_literal Fabric = Some ''Fabrics''"
| "parent_literal _ = None"

fun child_literal :: "component \<Rightarrow> string option" where
  "child_literal StorageSubsystem = Some ''Storage''"
| "child_literal Drive = Some ''Drives''"
| "child_literal PhysicalDrive = Some ''Drives''"
| "child_literal LogicalDrive = Some ''LogicalDrives''"
| "child_literal IscsiTarget = Some ''Targets''"
| "child_literal Memory = Some ''Memory''"
| "child_literal Processor = Some ''Processors''"
| "child_literal NetworkInterface = Some ''EthernetInterfaces''"
| "child_literal StorageController = Some ''StorageControllers''"
| "child_literal EthernetSwitchPort = Some ''Ports''"
| "child_literal EthernetSwitchPortVlan = Some ''VLANs''"
| "child_literal Zone = Some ''Zones''"
| "child_literal PcieFunction = Some ''Functions''"
| "child_literal Port = Some ''Ports''"
| "child_literal Switch = Some ''Switches''"
| "child_literal Acl = Some ''ACLs''"
| "child_literal AclRule = Some ''Rules''"
| "child_literal StaticMac = Some ''StaticMACs''"
| "child_literal Endpoint = Some ''Endpoints''"
| "child_literal NetworkDevice = Some ''NetworkInterfaces''"
| "child_literal NetworkDeviceFunction = Some ''NetworkDeviceFunctions''"
| "child_literal _ = None"

definition path_append_id :: "64 word \<Rightarrow> string \<Rightarrow> string" where
  "path_append_id i = path_append (dec_of_nat (unat i))"

definition build_parent_path :: "(component \<Rightarrow> generic_manager) \<Rightarrow> component \<Rightarrow> string \<Rightarrow> string \<Rightarrow> string \<Rightarrow> string result" where
  "build_parent_path ms c uuid literal path =
     res_bind (uuid_to_rest_id uuid (ms c)) (\<lambda>i. Inr (path_append_id i (path_append literal path)))"

text \<open>The path of a resource may have no end, when its parents are its children.\<close>

partial_function (option) get_component_url_recursive ::
  "(component \<Rightarrow> generic_manager) \<Rightarrow> string \<Rightarrow> component \<Rightarrow> string \<Rightarrow> string result option" where
  "get_component_url_recursive ms path c uuid =
     (case parent_literal c of
        Some literal \<Rightarrow> Some (build_parent_path ms c uuid literal path)
      | None \<Rightarrow>
     (case child_literal c of
        Some literal \<Rightarrow>
          (case get_entry (collection_name_of c) uuid (ms c) of
             Inl e \<Rightarrow> Some (Inl e)
           | Inr r \<Rightarrow>
               Option.bind (get_component_url_recursive ms path (r_parent_type r) (r_parent r))
                 (\<lambda>p. Some (res_bind p (\<lambda>path'. Inr (path_append_id (r_id r) (path_append literal path'))))))
      | None \<Rightarrow>
          if c = Task then Some (build_parent_path ms Task uuid ''Tasks'' (path_append ''TaskService'' path))
          else if c = PcieDevice then
            (case get_entry (collection_name_of PcieDevice) uuid (ms PcieDevice) of
               Inl e \<Rightarrow> Some (Inl e)
             | Inr r \<Rightarrow>
                 (case get_keys_of_parent (r_parent r) (\<lambda>_. True) (ms Chassis) of
                    [chassis] \<Rightarrow> Some (res_bind (build_parent_path ms Chassis chassis ''Chassis'' path)
                      (\<lambda>p. Inr (path_append_id (r_id r) (path_append ''PCIeDevices'' p))))
                  | _ \<Rightarrow> Some (Inr path)))
          else Some (Inl (Gami (not_found_exc (''Could not get URL for component type: '' @ component_name c))))))"

definition get_component_url :: "component \<Rightarrow> string \<Rightarrow> (handler_state, string) prog" where
  "get_component_url c uuid s =
     map_option (\<lambda>r. (r, s)) (get_component_url_recursive (h_managers s) ''/redfish/v1'' c uuid)"

section \<open>Removing resources\<close>

lemma p_bind_mono [partial_function_mono]:
  assumes "\<And>s. mono_option (\<lambda>f. B f s)" and "\<And>a s. mono_option (\<lambda>f. C f a s)"
  shows "mono_option (\<lambda>f. p_bind (B f) (\<lambda>a. C f a) s)"
proof -
  have "p_bind (B f) (\<lambda>a. C f a) s
      = Option.bind (B f s) (\<lambda>x. case x of (Inl e, s') \<Rightarrow> Some (Inl e, s') | (Inr a, s') \<Rightarrow> C f a s')" for f
    by (simp add: p_bind_def split: option.split prod.split sum.split)
  moreover have "mono_option (\<lambda>f. case x of (Inl e, s') \<Rightarrow> Some (Inl e, s') | (Inr a, s') \<Rightarrow> C f a s')" for x
  proof (cases x)
    case (Pair r s')
    then show ?thesis by (cases r) (simp_all add: option.const_mono assms(2))
  qed
  ultimately show ?thesis by (simp only:) (intro bind_mono assms(1))
qed

lemma p_catch_mono [partial_function_mono]:
  assumes "\<And>s. mono_option (\<lambda>f. B f s)" and "\<And>e s. mono_option (\<lambda>f. C f e s)"
  shows "mono_option (\<lambda>f. p_catch (B f) (\<lambda>e. C f e) s)"
proof -
  have "p_catch (B f) (\<lambda>e. C f e) s
      = Option.bind (B f s) (\<lambda>x. case x of (Inl e, s') \<Rightarrow> C f e s' | (Inr a, s') \<Rightarrow> Some (Inr a, s'))" for f
    by (simp add: p_catch_def split: option.split prod.split sum.split)
  moreover have "mono_option (\<lambda>f. case x of (Inl e, s') \<Rightarrow> C f e s' | (Inr a, s') \<Rightarrow> Some (Inr a, s'))" for x
  proof (cases x)
    case (Pair r s')
    then show ?thesis by (cases r) (simp_all add: option.const_mono assms(2))
  qed
  ultimately show ?thesis by (simp only:) (intro bind_mono assms(1))
qed

lemma p_each_mono [partial_function_mono]:
  assumes "\<And>x s. mono_option (\<lambda>f. B f x s)"
  shows "mono_option (\<lambda>f. p_each (\<lambda>x. B f x) xs s)"
proof (induction xs arbitrary: s)
  case (Cons x xs)
  show ?case by (simp, rule p_bind_mono, rule assms, rule Cons.IH)
qed (simp add: option.const_mono)

lemma p_ignore_mono [partial_function_mono]:
  assumes "\<And>s. mono_option (\<lambda>f. B f s)"
  shows "mono_option (\<lambda>f. p_ignore (B f) s)"
  unfolding p_ignore_def by (rule p_catch_mono) (auto intro: assms option.const_mono split: exn.split)

definition remove_single :: "handler_env \<Rightarrow> component \<Rightarrow> string \<Rightarrow> (handler_state, unit) prog" where
  "remove_single env h uuid =
     p_bind (p_result (\<lambda>s. get_entry (collection_name_of (model_of h)) uuid (manager_of (model_of h) s)))
       (\<lambda>r. p_bind (p_modify (\<lambda>s. set_manager (model_of h) (remove_entry uuid (manager_of (model_of h) s)) s))
         (\<lambda>_ s. with_ids (release_id (model_of h) (env_now env (h_calls s)) uuid (r_parent r)) s))"

text \<open>
  A resource is removed after its descendants, which the handlers it has learned of find by their parent. It may have no end,
  when a resource is its own descendant.
\<close>

partial_function (option) do_remove :: "handler_env \<Rightarrow> component \<Rightarrow> string \<Rightarrow> (handler_state, unit) prog" where
  "do_remove env h uuid s =
     p_bind
       (p_each (\<lambda>c. p_bind (p_result (\<lambda>_. get_handler c))
            (\<lambda>h' s'. p_each (\<lambda>u s''. do_remove env h' u s'')
               (get_keys_of_parent uuid (\<lambda>_. True) (manager_of (model_of h') s')) s'))
          (h_subs s h))
       (\<lambda>_ s'. remove_single env h uuid s') s"

text \<open>The links of a resource that is removed by itself, in the order of the code.\<close>

fun unlink :: "component \<Rightarrow> string \<Rightarrow> (handler_state, unit) prog" where
  "unlink Acl u = update_links_of AclPort (remove_parent u)"
| "unlink Drive u = p_bind (update_links_of StorageSubsystemDrives (remove_child u)) (\<lambda>_. update_links_of DriveFunction (remove_parent u))"
| "unlink Endpoint u = p_bind (update_links_of EndpointPort (remove_parent u)) (\<lambda>_. update_links_of ZoneEndpoint (remove_child u))"
| "unlink EthernetSwitchPort u = p_bind (update_links_of PortMembersTable (link_remove_if (\<lambda>p c a. p = u \<or> c = u)))
     (\<lambda>_. update_links_of AclPort (remove_child u))"
| "unlink LogicalDrive u = p_bind (update_links_of LogicalDriveMembers (link_remove_if (\<lambda>p c a. p = u \<or> c = u)))
     (\<lambda>_. update_links_of PhysicalDriveMembers (remove_parent u))"
| "unlink PcieFunction u = update_links_of DriveFunction (remove_child u)"
| "unlink PhysicalDrive u = update_links_of PhysicalDriveMembers (remove_child u)"
| "unlink Port u = update_links_of EndpointPort (remove_child u)"
| "unlink StorageSubsystem u = update_links_of StorageSubsystemDrives (remove_parent u)"
| "unlink Zone u = update_links_of ZoneEndpoint (remove_parent u)"
| "unlink _ u = p_return ()"

text \<open>The link tables a handler clears of an agent's links, and the handlers that do so after the resources.\<close>

fun agent_link_tables :: "component \<Rightarrow> link_table list" where
  "agent_link_tables Acl = [AclPort]"
| "agent_link_tables Drive = [StorageSubsystemDrives, DriveFunction]"
| "agent_link_tables Endpoint = [EndpointPort, ZoneEndpoint]"
| "agent_link_tables EthernetSwitchPort = [AclPort, PortMembersTable]"
| "agent_link_tables LogicalDrive = [LogicalDriveMembers, PhysicalDriveMembers]"
| "agent_link_tables PcieFunction = [DriveFunction]"
| "agent_link_tables PhysicalDrive = [PhysicalDriveMembers]"
| "agent_link_tables Port = [EndpointPort]"
| "agent_link_tables StorageSubsystem = [StorageSubsystemDrives]"
| "agent_link_tables Zone = [ZoneEndpoint]"
| "agent_link_tables _ = []"

definition links_last :: "component \<Rightarrow> bool" where
  "links_last h \<longleftrightarrow> h \<in> {Acl, LogicalDrive, PhysicalDrive, StorageSubsystem, Zone}"

definition remove :: "handler_env \<Rightarrow> component \<Rightarrow> string \<Rightarrow> (handler_state, unit) prog" where
  "remove env h uuid =
     p_bind (unlink h uuid) (\<lambda>_. p_bind (get_component_url (component_of h) uuid) (\<lambda>url.
       p_bind (do_remove env h uuid) (\<lambda>_ s. notify [new_event_at env 0 ResourceRemoved url s] s)))"

definition remove_agent_resources :: "handler_env \<Rightarrow> component \<Rightarrow> string \<Rightarrow> (handler_state, unit) prog" where
  "remove_agent_resources env h gami_id s =
     p_each (remove_single env h) (get_keys (\<lambda>r. r_agent r = gami_id) (manager_of (model_of h) s)) s"

definition clean_agent_links :: "component \<Rightarrow> string \<Rightarrow> (handler_state, unit) prog" where
  "clean_agent_links h gami_id = p_each (\<lambda>t. update_links_of t (clean_links_for_agent gami_id)) (agent_link_tables h)"

definition remove_agent_data :: "handler_env \<Rightarrow> component \<Rightarrow> string \<Rightarrow> (handler_state, unit) prog" where
  "remove_agent_data env h gami_id =
     (if links_last h
      then p_bind (remove_agent_resources env h gami_id) (\<lambda>_. clean_agent_links h gami_id)
      else p_bind (clean_agent_links h gami_id) (\<lambda>_. remove_agent_resources env h gami_id))"

definition remove_all_agent_data :: "handler_env \<Rightarrow> string \<Rightarrow> (handler_state, unit) prog" where
  "remove_all_agent_data env gami_id = p_each (\<lambda>h. remove_agent_data env h gami_id) handler_components"

section \<open>Talking to an agent\<close>

definition notify_clients_about_removals :: "handler_env \<Rightarrow> string \<Rightarrow> (handler_state, unit) prog" where
  "notify_clients_about_removals env gami_id s =
     p_bind (p_map (get_component_url Manager) (get_keys (\<lambda>m. r_agent m = gami_id) (manager_of Manager s)))
       (\<lambda>urls s'. notify (map (\<lambda>(i, url). new_event_at env i ResourceRemoved url s') (enumerate 0 urls)) s') s"

definition clean_resource_for_agent :: "handler_env \<Rightarrow> string \<Rightarrow> (handler_state, unit) prog" where
  "clean_resource_for_agent env gami_id =
     p_bind (notify_clients_about_removals env gami_id) (\<lambda>_. remove_all_agent_data env gami_id)"

definition unregister_agent :: "string \<Rightarrow> (handler_state, unit) prog" where
  "unregister_agent gami_id = p_modify (\<lambda>s. s\<lparr>h_agents := filter (\<lambda>a. a \<noteq> gami_id) (h_agents s)\<rparr>)"

definition set_error_since :: "string \<Rightarrow> int option \<Rightarrow> (handler_state, unit) prog" where
  "set_error_since a t = p_modify (\<lambda>s. s\<lparr>h_error_since := (h_error_since s)(a := t)\<rparr>)"

definition REMOVE_AGENT_AFTER_SECONDS :: int where
  "REMOVE_AGENT_AFTER_SECONDS = 60"

text \<open>What \<^verbatim>\<open>RpcClient::CallMethod\<close> makes of an error the agent answers with.\<close>

definition rpc_exception :: "gami_exception \<Rightarrow> exn" where
  "rpc_exception g = ServerExc
     (if is_communication_error (gami_code g)
      then create_internal_error ''There were communication errors with underlying Agent.''
      else create_error_from_gami_exception g)"

text \<open>
  An error the agent answers with does not end the time it counts as broken; the exception is not a \<^verbatim>\<open>JsonRpcException\<close> any
  more.
\<close>

definition on_reply :: "handler_env \<Rightarrow> nat \<Rightarrow> string \<Rightarrow> int option \<Rightarrow> rpc_reply \<Rightarrow> (handler_state, rpc_reply) prog" where
  "on_reply env n a since reply =
     (case reply of
        ConnectorError \<Rightarrow>
          p_bind
            (case since of
               None \<Rightarrow> set_error_since a (Some (env_nanos env n))
             | Some t \<Rightarrow>
                 if REMOVE_AGENT_AFTER_SECONDS \<le> (env_nanos env n - t) div 10 ^ 9
                 then p_bind (clean_resource_for_agent env a) (\<lambda>_. unregister_agent a)
                 else p_return ())
            (\<lambda>_. p_throw (AgentUnreachable a))
      | RpcError g \<Rightarrow> p_throw (rpc_exception g)
      | Malformed e \<Rightarrow> p_bind (set_error_since a None) (\<lambda>_. p_throw e)
      | _ \<Rightarrow> p_bind (set_error_since a None) (\<lambda>_. p_return reply))"

definition execute :: "handler_env \<Rightarrow> rpc_request \<Rightarrow> (handler_state, rpc_reply) prog" where
  "execute env req s =
     (let n = h_calls s; a = cx_agent s
      in on_reply env n a (h_error_since s a) (env_reply env n a req) (s\<lparr>h_calls := Suc n\<rparr>))"

definition execute_info :: "handler_env \<Rightarrow> component \<Rightarrow> string \<Rightarrow> (handler_state, resource_data) prog" where
  "execute_info env c uuid = p_bind (execute env (GetInfo c uuid))
     (\<lambda>reply. case reply of InfoReply d \<Rightarrow> p_return d | _ \<Rightarrow> p_throw (StdExc ''malformed reply''))"

definition execute_uuids :: "handler_env \<Rightarrow> rpc_request \<Rightarrow> (handler_state, string list) prog" where
  "execute_uuids env req = p_bind (execute env req)
     (\<lambda>reply. case reply of UuidsReply us \<Rightarrow> p_return us | _ \<Rightarrow> p_throw (StdExc ''malformed reply''))"

end
