(* ===== verification/Generic_Handler.thy ===== *)
theory Generic_Handler
  imports Handler_State
begin

text \<open>
  Reading resources from the agents (\<^verbatim>\<open>rest/model/handlers/generic_handler.hpp\<close>, the handlers derived from it, and
  \<^verbatim>\<open>root_handler.hpp\<close>): a resource is fetched, gets its number and is stored; its collections are
  followed; what an agent no longer reports is removed. The handlers share one definition that looks
  at the component where the code overrides a method.
\<close>

section \<open>Fetching one resource\<close>

definition resource_of :: "resource_data \<Rightarrow> resource" where
  "resource_of d = \<lparr>r_temporary = [], r_persistent = [], r_is_persistent = False, r_parent = [], r_parent_type = NoComponent,
     r_id = 0, r_agent = [], r_touched = 0, r_status_hash = rd_status_hash d, r_rest_hash = rd_rest_hash d,
     r_collections = rd_collections d, r_task = rd_task d, r_health = rd_health d\<rparr>"

definition get_parent_component :: "handler_state \<Rightarrow> component" where
  "get_parent_component s = (case cx_stack s of [] \<Rightarrow> NoComponent | c # _ \<Rightarrow> c)"

text \<open>
  A task that is known keeps its messages and those to be told of its end; for one that ended in an exception the
  result is asked for, and the error that is its answer gives the messages.
\<close>

definition task_result_messages :: "handler_env \<Rightarrow> string \<Rightarrow> resource \<Rightarrow> (handler_state, resource) prog" where
  "task_result_messages env uuid elem =
     p_catch (p_bind (execute env (GetTaskResultInfo uuid))
         (\<lambda>reply. case reply of ResultReply \<Rightarrow> p_return elem | _ \<Rightarrow> p_throw (StdExc ''malformed reply'')))
       (\<lambda>e. case e of
          ServerExc se \<Rightarrow> p_return (elem\<lparr>r_task := (r_task elem)\<lparr>tp_messages :=
              map (\<lambda>m. m\<lparr>mo_related := [''#/Id'']\<rparr>) (se_extended se)\<rparr>\<rparr>)
        | _ \<Rightarrow> p_throw e)"

definition task_known :: "string \<Rightarrow> resource \<Rightarrow> handler_state \<Rightarrow> resource" where
  "task_known uuid elem s =
     (case find_entry uuid (gm_data (manager_of Task s)) of
        None \<Rightarrow> elem
      | Some t \<Rightarrow> elem\<lparr>r_task := (r_task elem)\<lparr>tp_messages := tp_messages (r_task t), tp_notifiers := tp_notifiers (r_task t)\<rparr>\<rparr>)"

definition fetch_entry :: "handler_env \<Rightarrow> component \<Rightarrow> string \<Rightarrow> string \<Rightarrow> (handler_state, resource) prog" where
  "fetch_entry env h parent uuid =
     p_bind (execute_info env (model_of h) uuid) (\<lambda>d.
       p_bind
         (if h = Task
          then p_bind (p_get (task_known uuid (resource_of d)))
            (\<lambda>elem. if tp_exception (r_task elem) then task_result_messages env uuid elem else p_return elem)
          else p_return (resource_of d))
         (\<lambda>elem. p_get (\<lambda>s. set_uuid uuid (elem\<lparr>r_parent := parent, r_parent_type := get_parent_component s\<rparr>))))"

text \<open>A task that changed and has an end time tells those who wait for it.\<close>

definition complete_task :: "component \<Rightarrow> update_status \<Rightarrow> resource \<Rightarrow> (handler_state, unit) prog" where
  "complete_task h status entry =
     (if h = Task \<and> (status = StatusChanged \<or> status = Updated) \<and> tp_ended (r_task entry)
      then p_modify (\<lambda>s. s\<lparr>h_completed := h_completed s @ tp_notifiers (r_task entry)\<rparr>)
      else p_return ())"

definition count_status :: "update_status \<Rightarrow> handler_state \<Rightarrow> handler_state" where
  "count_status status s = s\<lparr>
     cx_status_changed := (if status = StatusChanged then cx_status_changed s + 1 else cx_status_changed s),
     cx_updated := (if status = StatusChanged \<or> status = Updated then cx_updated s + 1 else cx_updated s),
     cx_added := (if status = Added then cx_added s + 1 else cx_added s)\<rparr>"

definition with_manager :: "component \<Rightarrow> (generic_manager, exn, 'a) action \<Rightarrow> (handler_state, 'a) prog" where
  "with_manager c a s = (case a (manager_of c s) of (r, m) \<Rightarrow> Some (r, set_manager c m s))"

definition add_to_model :: "component \<Rightarrow> resource \<Rightarrow> (handler_state, update_status) prog" where
  "add_to_model h entry =
     p_bind (with_manager (model_of h) (add_or_update_entry entry)) (\<lambda>status.
       p_bind (complete_task h status entry) (\<lambda>_. p_bind (p_modify (count_status status)) (\<lambda>_. p_return status)))"

definition get_resource_id :: "handler_env \<Rightarrow> component \<Rightarrow> string \<Rightarrow> string \<Rightarrow> (handler_state, 64 word) prog" where
  "get_resource_id env h uuid parent s =
     map_option (\<lambda>(r, ids). (r, s\<lparr>h_ids := ids\<rparr>)) (assign_id (model_of h) (env_now env (h_calls s)) uuid parent (h_ids s))"

definition fetch :: "handler_env \<Rightarrow> component \<Rightarrow> string \<Rightarrow> string \<Rightarrow> (handler_state, resource \<times> update_status) prog" where
  "fetch env h parent uuid =
     p_bind (fetch_entry env h parent uuid) (\<lambda>e.
       p_bind (get_resource_id env h uuid parent) (\<lambda>i.
         p_bind (p_get (\<lambda>s. e\<lparr>r_id := i, r_agent := cx_agent s\<rparr>)) (\<lambda>entry.
           p_bind (add_to_model h entry) (\<lambda>status. p_return (entry, status)))))"

section \<open>Collections\<close>

text \<open>The managers and tasks of an agent are not a collection of a resource.\<close>

definition fetch_sibling_uuid_list :: "handler_env \<Rightarrow> component \<Rightarrow> string \<Rightarrow> string \<Rightarrow> (handler_state, string list) prog" where
  "fetch_sibling_uuid_list env h parent name s =
     (if h = Manager \<and> get_parent_component s = NoComponent then execute_uuids env GetManagersCollection s
      else if h = Task \<and> get_parent_component s = NoComponent then execute_uuids env GetTasksCollection s
      else execute_uuids env (GetCollection parent name) s)"

text \<open>
  Where a collection holds links only: the table, and whether the resource with the collection is the child of the
  link. \<open>Inl\<close> is a collection of resources; a collection under another parent is left alone.
\<close>

datatype collection_use = Strong | Weak link_table | WeakChild link_table | Ignored

definition collection_use_of :: "component \<Rightarrow> component \<Rightarrow> collection_use" where
  "collection_use_of h parent =
     (if h = Acl then
        (if parent = EthernetSwitch then Strong else if parent = EthernetSwitchPort then WeakChild AclPort else Ignored)
      else if h = Drive then
        (if parent = Chassis then Strong else if parent = StorageSubsystem then Weak StorageSubsystemDrives else Ignored)
      else if h = Endpoint then
        (if parent = Fabric then Strong else if parent = Zone then Weak ZoneEndpoint else Ignored)
      else if h = EthernetSwitchPort then
        (if parent = EthernetSwitch then Strong else if parent = EthernetSwitchPort then Weak PortMembersTable
         else if parent = Acl then Weak AclPort else Ignored)
      else if h = LogicalDrive then
        (if parent = StorageServices then Strong else if parent = LogicalDrive then Weak LogicalDriveMembers else Ignored)
      else if h = PcieFunction then
        (if parent = PcieDevice then Strong else if parent = Drive then Weak DriveFunction else Ignored)
      else if h = PhysicalDrive then
        (if parent = StorageServices then Strong else if parent = LogicalDrive then Weak PhysicalDriveMembers else Ignored)
      else if h = Port then
        (if parent = Switch then Strong else if parent = Endpoint then Weak EndpointPort else Ignored)
      else Strong)"

text \<open>The set differences of what was fetched and what is known.\<close>

definition what_to_add_what_to_remove :: "string list \<Rightarrow> string list \<Rightarrow> string list \<times> string list" where
  "what_to_add_what_to_remove fetched previous =
     (let new_set = sort (remdups fetched); old_set = sort (remdups previous)
      in (filter (\<lambda>u. u \<notin> set old_set) new_set, filter (\<lambda>u. u \<notin> set new_set) old_set))"

definition relink :: "link_table \<Rightarrow> (string \<Rightarrow> links \<Rightarrow> links) \<Rightarrow> (string \<Rightarrow> links \<Rightarrow> links) \<Rightarrow> string list \<times> string list
    \<Rightarrow> (handler_state, unit) prog" where
  "relink t put del changes =
     p_bind (p_each (\<lambda>u. update_links_of t (put u)) (fst changes)) (\<lambda>_. p_each (\<lambda>u. update_links_of t (del u)) (snd changes))"

definition fetch_parent_children :: "handler_env \<Rightarrow> component \<Rightarrow> string \<Rightarrow> string \<Rightarrow> link_table \<Rightarrow> (handler_state, unit) prog" where
  "fetch_parent_children env h parent name t =
     p_bind (fetch_sibling_uuid_list env h parent name) (\<lambda>fetched s.
       relink t (\<lambda>u. link_add parent u (cx_agent s)) (\<lambda>u. link_remove parent u)
         (what_to_add_what_to_remove fetched (get_children parent (h_links s t))) s)"

text \<open>Ports report the rules that are bound to them; in the table of these links the rule is the parent.\<close>

definition bind_to_parents :: "handler_env \<Rightarrow> component \<Rightarrow> string \<Rightarrow> string \<Rightarrow> link_table \<Rightarrow> (handler_state, unit) prog" where
  "bind_to_parents env h child name t =
     p_bind (fetch_sibling_uuid_list env h child name) (\<lambda>fetched s.
       relink t (\<lambda>u. link_add u child (cx_agent s)) (\<lambda>u. link_remove u child)
         (what_to_add_what_to_remove fetched (get_parents child (h_links s t))) s)"

definition remember_sub_handler :: "component \<Rightarrow> component \<Rightarrow> (handler_state, unit) prog" where
  "remember_sub_handler h c = p_modify (\<lambda>s. s\<lparr>h_subs := (h_subs s)(h :=
     (if c \<in> set (h_subs s h) then h_subs s h else insort c (h_subs s h)))\<rparr>)"

definition push_component :: "component \<Rightarrow> (handler_state, unit) prog" where
  "push_component c = p_modify (\<lambda>s. s\<lparr>cx_stack := c # cx_stack s\<rparr>)"

definition pop_component :: "(handler_state, unit) prog" where
  "pop_component = p_modify (\<lambda>s. s\<lparr>cx_stack := tl (cx_stack s)\<rparr>)"

text \<open>What was not read, in a poll or a load, since an epoch.\<close>

definition untouched_keys :: "component \<Rightarrow> string \<Rightarrow> 64 word \<Rightarrow> handler_state \<Rightarrow> string list" where
  "untouched_keys h parent epoch s =
     (if cx_mode s = POLLING \<or> cx_mode s = LOADING
      then get_keys_of_parent parent (\<lambda>r. r_agent r = cx_agent s \<and> \<not> was_touched_after epoch r) (manager_of (model_of h) s)
      else [])"

definition remove_untouched :: "handler_env \<Rightarrow> component \<Rightarrow> string \<Rightarrow> 64 word \<Rightarrow> (handler_state, unit) prog" where
  "remove_untouched env h parent epoch s =
     p_each (\<lambda>u. p_bind (remove env h u) (\<lambda>_. p_modify (\<lambda>s. s\<lparr>cx_removed := cx_removed s + 1\<rparr>)))
       (untouched_keys h parent epoch s) s"

section \<open>Trees of resources\<close>

text \<open>What is read of the resources below goes through \<open>self\<close>, the addition of a resource.\<close>

type_synonym adder = "component \<Rightarrow> string \<Rightarrow> string \<Rightarrow> (handler_state, 64 word) prog"

definition fetch_strong_siblings :: "handler_env \<Rightarrow> adder \<Rightarrow> component \<Rightarrow> string \<Rightarrow> string \<Rightarrow> (handler_state, unit) prog" where
  "fetch_strong_siblings env self h parent name =
     p_bind (fetch_sibling_uuid_list env h parent name)
       (\<lambda>us. p_each (\<lambda>u. p_ignore (p_bind (self h parent u) (\<lambda>_. p_return ()))) us)"

definition fetch_siblings :: "handler_env \<Rightarrow> adder \<Rightarrow> component \<Rightarrow> string \<Rightarrow> string \<Rightarrow> (handler_state, unit) prog" where
  "fetch_siblings env self h parent name s =
     (case collection_use_of h (get_parent_component s) of
        Strong \<Rightarrow> fetch_strong_siblings env self h parent name s
      | Weak t \<Rightarrow> fetch_parent_children env h parent name t s
      | WeakChild t \<Rightarrow> bind_to_parents env h parent name t s
      | Ignored \<Rightarrow> p_return () s)"

type_synonym epochs = "component \<Rightarrow> 64 word option"

definition learn_epoch :: "component \<Rightarrow> epochs \<Rightarrow> handler_state \<Rightarrow> epochs" where
  "learn_epoch h epochs s =
     (case epochs (component_of h) of
        None \<Rightarrow> epochs(component_of h \<mapsto> gm_epoch (manager_of (model_of h) s))
      | Some _ \<Rightarrow> epochs)"

primrec fetch_collections :: "handler_env \<Rightarrow> adder \<Rightarrow> component \<Rightarrow> string \<Rightarrow> (string \<times> component) list \<Rightarrow> epochs
    \<Rightarrow> (handler_state, epochs) prog" where
  "fetch_collections env self h parent [] epochs = p_return epochs"
| "fetch_collections env self h parent (nh # nhs) epochs =
     p_bind (p_get (learn_epoch (snd nh) epochs)) (\<lambda>epochs'.
       p_bind (p_ignore (p_bind (fetch_siblings env self (snd nh) parent (fst nh))
                  (\<lambda>_. remember_sub_handler h (component_of (snd nh)))))
         (\<lambda>_. fetch_collections env self h parent nhs epochs'))"

definition fetch_subcomponents :: "handler_env \<Rightarrow> adder \<Rightarrow> component \<Rightarrow> string \<Rightarrow> collection list \<Rightarrow> (handler_state, unit) prog" where
  "fetch_subcomponents env self h parent collections =
     p_bind (push_component (component_of h)) (\<lambda>_.
       p_bind (fetch_collections env self h parent (get_handlers collections) Map.empty) (\<lambda>epochs.
         p_bind (p_each (\<lambda>nh. remove_untouched env (snd nh) parent
             (case epochs (component_of (snd nh)) of None \<Rightarrow> 0 | Some e \<Rightarrow> e)) (get_handlers collections))
           (\<lambda>_. pop_component)))"

text \<open>The collections of the root: the managers and the tasks of the agent.\<close>

definition root_collections :: "collection list" where
  "root_collections = [\<lparr>c_name = [], c_type = Managers\<rparr>, \<lparr>c_name = [], c_type = Tasks\<rparr>]"

definition set_quiet :: "bool \<Rightarrow> bool \<Rightarrow> (handler_state, unit) prog" where
  "set_quiet when q = p_modify (\<lambda>s. if when then s\<lparr>cx_quiet := q\<rparr> else s)"

definition fetch_below :: "handler_env \<Rightarrow> adder \<Rightarrow> component \<Rightarrow> string \<Rightarrow> resource \<Rightarrow> update_status \<Rightarrow> (handler_state, unit) prog" where
  "fetch_below env self h uuid entry status =
     p_bind (p_get (\<lambda>s. status = Added \<and> \<not> cx_quiet s)) (\<lambda>my_skip.
       p_bind (set_quiet my_skip True) (\<lambda>_.
         p_bind (fetch_subcomponents env self h uuid (r_collections entry)) (\<lambda>_. set_quiet my_skip False)))"

definition add_with :: "handler_env \<Rightarrow> adder \<Rightarrow> component \<Rightarrow> string \<Rightarrow> string \<Rightarrow> bool \<Rightarrow> (handler_state, 64 word) prog" where
  "add_with env self h parent uuid recursively =
     (if h = Root then p_bind (fetch_subcomponents env self Root uuid root_collections) (\<lambda>_. p_return 0)
      else p_bind (fetch env h parent uuid) (\<lambda>es.
        p_bind (if recursively then fetch_below env self h uuid (fst es) (snd es) else p_return ())
          (\<lambda>_. p_return (r_id (fst es)))))"

lemma fetch_siblings_mono [partial_function_mono]:
  assumes "\<And>h p u s. mono_option (\<lambda>f. S f h p u s)"
  shows "mono_option (\<lambda>f. fetch_siblings env (S f) h parent name s)"
proof -
  have "mono_option (\<lambda>f. fetch_strong_siblings env (S f) h parent name s)"
    unfolding fetch_strong_siblings_def
    by (intro p_bind_mono p_each_mono p_ignore_mono option.const_mono assms)
  then show ?thesis
    unfolding fetch_siblings_def
    by (cases "collection_use_of h (get_parent_component s)") (simp_all add: option.const_mono)
qed

lemma fetch_collections_mono [partial_function_mono]:
  assumes "\<And>h p u s. mono_option (\<lambda>f. S f h p u s)"
  shows "mono_option (\<lambda>f. fetch_collections env (S f) h parent nhs epochs s)"
proof (induction nhs arbitrary: epochs s)
  case (Cons nh nhs)
  show ?case
    unfolding fetch_collections.simps
    by (intro p_bind_mono p_ignore_mono fetch_siblings_mono option.const_mono assms Cons.IH)
qed (simp add: option.const_mono)

lemma fetch_subcomponents_mono [partial_function_mono]:
  assumes "\<And>h p u s. mono_option (\<lambda>f. S f h p u s)"
  shows "mono_option (\<lambda>f. fetch_subcomponents env (S f) h parent collections s)"
  unfolding fetch_subcomponents_def
  by (intro p_bind_mono fetch_collections_mono option.const_mono assms)

lemma add_with_mono [partial_function_mono]:
  assumes "\<And>h p u s. mono_option (\<lambda>f. S f h p u s)"
  shows "mono_option (\<lambda>f. add_with env (S f) h parent uuid recursively s)"
proof -
  have below: "mono_option (\<lambda>f. fetch_below env (S f) h uuid e st s)" for e st s
    unfolding fetch_below_def by (intro p_bind_mono fetch_subcomponents_mono option.const_mono assms)
  have root: "mono_option (\<lambda>f. p_bind (fetch_subcomponents env (S f) Root uuid root_collections) (\<lambda>_. p_return 0) s)"
    by (intro p_bind_mono fetch_subcomponents_mono option.const_mono assms)
  have other: "mono_option (\<lambda>f. p_bind (fetch env h parent uuid) (\<lambda>es.
      p_bind (if recursively then fetch_below env (S f) h uuid (fst es) (snd es) else p_return ())
        (\<lambda>_. p_return (r_id (fst es)))) s)"
    by (cases recursively) (simp_all, (intro p_bind_mono below option.const_mono)+)
  from root other show ?thesis unfolding add_with_def by (cases "h = Root") simp_all
qed

text \<open>Reading a tree may have no end: the agent may report ever new resources.\<close>

partial_function (option) add :: "handler_env \<Rightarrow> component \<Rightarrow> string \<Rightarrow> string \<Rightarrow> bool \<Rightarrow> (handler_state, 64 word) prog" where
  "add env h parent uuid recursively s =
     add_with env (\<lambda>h' p u s'. add env h' p u True s') h parent uuid recursively s"

section \<open>The operations of a handler\<close>

definition with_context :: "mode \<Rightarrow> component \<Rightarrow> string \<Rightarrow> (handler_state, 'a) prog \<Rightarrow> (handler_state, 'a) prog" where
  "with_context m parent_component agent f s = f (s\<lparr>cx_mode := m, cx_stack := [parent_component], cx_agent := agent,
     cx_events := [], cx_quiet := False, cx_added := 0, cx_removed := 0, cx_updated := 0, cx_status_changed := 0\<rparr>)"

definition notify_context :: "(handler_state, unit) prog" where
  "notify_context s = notify (cx_events s) s"

definition poll :: "handler_env \<Rightarrow> component \<Rightarrow> string \<Rightarrow> string \<Rightarrow> component \<Rightarrow> string \<Rightarrow> (handler_state, unit) prog" where
  "poll env h agent parent parent_component uuid =
     with_context POLLING parent_component agent
       (p_catch (p_bind (add env h parent uuid True) (\<lambda>_. notify_context))
         (\<lambda>e. case e of AgentUnreachable _ \<Rightarrow> p_return () | _ \<Rightarrow> p_throw e))"

definition load :: "handler_env \<Rightarrow> component \<Rightarrow> string \<Rightarrow> string \<Rightarrow> component \<Rightarrow> string \<Rightarrow> bool \<Rightarrow> (handler_state, 64 word) prog" where
  "load env h agent parent parent_component uuid recursively =
     with_context LOADING parent_component agent
       (p_bind (add env h parent uuid recursively) (\<lambda>i. p_bind notify_context (\<lambda>_. p_return i)))"

definition get_collection_handler :: "collection_type \<Rightarrow> component result" where
  "get_collection_handler ty =
     (case collection_handler ty of
        Some h \<Rightarrow> Inr h
      | None \<Rightarrow> Inl (Gami (invalid_value_exc (''Handler for collection type '' @ [CHR 0x22] @ ''None'' @ [CHR 0x22] @ '' not defined.''))))"

text \<open>Without recursion, the epochs are by the type of the collection.\<close>

primrec load_siblings :: "handler_env \<Rightarrow> string \<Rightarrow> collection list \<Rightarrow> (collection_type \<Rightarrow> 64 word option)
    \<Rightarrow> (handler_state, collection_type \<Rightarrow> 64 word option) prog" where
  "load_siblings env parent [] epochs = p_return epochs"
| "load_siblings env parent (c # cs) epochs =
     p_bind (p_result (\<lambda>_. get_collection_handler (c_type c))) (\<lambda>h.
       p_bind (p_get (\<lambda>s. if epochs (c_type c) = None
            then epochs(c_type c \<mapsto> gm_epoch (manager_of (model_of h) s)) else epochs)) (\<lambda>epochs'.
         p_bind (fetch_sibling_uuid_list env h parent (c_name c)) (\<lambda>us.
           p_bind (p_each (\<lambda>u. p_bind (add env h parent u False) (\<lambda>_. p_return ())) us)
             (\<lambda>_. load_siblings env parent cs epochs'))))"

definition load_collection :: "handler_env \<Rightarrow> component \<Rightarrow> string \<Rightarrow> string \<Rightarrow> component \<Rightarrow> collection_type \<Rightarrow> bool
    \<Rightarrow> (handler_state, unit) prog" where
  "load_collection env h agent parent parent_component ty recursively =
     with_context LOADING parent_component agent
       (p_bind (execute_info env (model_of h) parent) (\<lambda>d.
          (let collections = filter (\<lambda>c. c_type c = ty) (rd_collections d)
           in p_bind
               (if recursively
                then fetch_subcomponents env (\<lambda>h p u. add env h p u True) h parent collections
                else p_bind (load_siblings env parent collections Map.empty) (\<lambda>epochs.
                  p_each (\<lambda>t. p_bind (p_result (\<lambda>_. get_collection_handler t))
                      (\<lambda>h'. remove_untouched env h' parent (case epochs t of None \<Rightarrow> 0 | Some e \<Rightarrow> e)))
                    (remdups (map c_type collections))))
               (\<lambda>_. notify_context))))"

section \<open>Events of an agent\<close>

text \<open>\<open>Notification\<close>, with an N where the names are those of the events to clients.\<close>

datatype notification = Add | Remove | Update | NResourceAdded | NResourceRemoved | NAlert | NResourceUpdated | NStatusChange

record event_data =
  ed_gami_id :: string
  ed_notification :: notification
  ed_type :: component
  ed_parent :: string
  ed_component :: string
  ed_content :: string
  ed_old_state :: string

text \<open>The first of the registered tables that knows the uuid.\<close>

definition find_component :: "handler_env \<Rightarrow> string \<Rightarrow> handler_state \<Rightarrow> component" where
  "find_component env uuid s =
     (case List.find (\<lambda>c. entry_exists uuid (manager_of c s)) (env_tables env) of None \<Rightarrow> NoComponent | Some c \<Rightarrow> c)"

definition forward_event :: "handler_env \<Rightarrow> event_type \<Rightarrow> string \<Rightarrow> string \<Rightarrow> (event \<Rightarrow> event) \<Rightarrow> (handler_state, bool) prog" where
  "forward_event env ty origin content f s =
     p_bind (notify [f (new_event_at env 0 ty origin s\<lparr>ev_message := content\<rparr>)]) (\<lambda>_. p_return True) s"

definition handle_add :: "handler_env \<Rightarrow> component \<Rightarrow> event_data \<Rightarrow> (handler_state, bool) prog" where
  "handle_add env h ev =
     p_catch
       (p_bind (p_get (\<lambda>s. entry_exists (ed_component ev) (manager_of (model_of h) s))) (\<lambda>known.
          if known then p_return True
          else p_bind (add env h (ed_parent ev) (ed_component ev) True)
                 (\<lambda>_. p_bind notify_context (\<lambda>_. p_return True))))
       (\<lambda>e. case e of
          AgentUnreachable _ \<Rightarrow> p_bind (do_remove env h (ed_component ev)) (\<lambda>_. p_return False)
        | _ \<Rightarrow> p_throw e)"

definition handle_remove :: "handler_env \<Rightarrow> component \<Rightarrow> event_data \<Rightarrow> (handler_state, bool) prog" where
  "handle_remove env h ev =
     p_catch (p_bind (remove env h (ed_component ev)) (\<lambda>_. p_bind notify_context (\<lambda>_. p_return True)))
       (\<lambda>e. case e of
          Gami g \<Rightarrow> if gami_code g = INVALID_VALUE \<or> gami_code g = NOT_FOUND then p_return True else p_throw e
        | _ \<Rightarrow> p_throw e)"

text \<open>A zone is read again with what is below it.\<close>

definition handle_update :: "handler_env \<Rightarrow> component \<Rightarrow> event_data \<Rightarrow> (handler_state, bool) prog" where
  "handle_update env h ev =
     p_bind (p_get (\<lambda>s. entry_exists (ed_component ev) (manager_of (model_of h) s))) (\<lambda>known.
       if \<not> known then p_return True
       else p_bind (add env h (ed_parent ev) (ed_component ev) (h = Zone))
              (\<lambda>_. p_bind notify_context (\<lambda>_. p_return True)))"

definition handle_notification :: "handler_env \<Rightarrow> component \<Rightarrow> event_data \<Rightarrow> (handler_state, bool) prog" where
  "handle_notification env h ev =
     (case ed_notification ev of
        Add \<Rightarrow> handle_add env h ev
      | Remove \<Rightarrow> handle_remove env h ev
      | Update \<Rightarrow> handle_update env h ev
      | NResourceAdded \<Rightarrow> forward_event env ResourceAdded (ed_old_state ev) (ed_content ev) (\<lambda>e. e)
      | NResourceRemoved \<Rightarrow> forward_event env ResourceRemoved (ed_old_state ev) (ed_content ev) (\<lambda>e. e)
      | NAlert \<Rightarrow> forward_event env Alert (ed_old_state ev) (ed_content ev) (\<lambda>e. e\<lparr>ev_severity := ''Warning''\<rparr>)
      | NResourceUpdated \<Rightarrow> forward_event env Alert (ed_old_state ev) (ed_content ev) (\<lambda>e. e)
      | NStatusChange \<Rightarrow> forward_event env event_type.StatusChange (ed_content ev) (ed_content ev) (\<lambda>e. e))"

definition handle :: "handler_env \<Rightarrow> component \<Rightarrow> string \<Rightarrow> event_data \<Rightarrow> (handler_state, bool) prog" where
  "handle env h agent ev s =
     with_context EVENT (find_component env (ed_parent ev) s) agent
       (p_catch (handle_notification env h ev)
         (\<lambda>e. case e of Undefined _ \<Rightarrow> p_throw e | _ \<Rightarrow> p_return False)) s"

section \<open>The watcher\<close>

text \<open>An event of an agent that is not known is dropped; exceptions end in the log.\<close>

definition process_event :: "handler_env \<Rightarrow> event_data \<Rightarrow> (handler_state, unit) prog" where
  "process_event env ev s =
     (if ed_gami_id ev \<notin> set (h_agents s) then p_return () s
      else p_catch
        (p_bind (p_result (\<lambda>_. get_handler (ed_type ev))) (\<lambda>h.
          p_bind (handle env h (ed_gami_id ev) ev) (\<lambda>_. p_return ())))
        (\<lambda>e. case e of Undefined _ \<Rightarrow> p_throw e | _ \<Rightarrow> p_return ()) s)"

text \<open>A poll of all agents; an exception of one that is not \<^verbatim>\<open>AgentUnreachable\<close> ends the round.\<close>

definition poll_agents :: "handler_env \<Rightarrow> (handler_state, unit) prog" where
  "poll_agents env s =
     p_each (\<lambda>a. p_catch (poll env Root a [] NoComponent [])
         (\<lambda>e. case e of AgentUnreachable _ \<Rightarrow> p_return () | _ \<Rightarrow> p_throw e)) (h_agents s) s"

definition on_directory :: "(db_store \<Rightarrow> nat \<times> db_store) \<Rightarrow> (handler_state, nat) prog" where
  "on_directory f s = (case f (is_store (h_ids s)) of (n, store) \<Rightarrow> Some (Inr n, s\<lparr>h_ids := (h_ids s)\<lparr>is_store := store\<rparr>\<rparr>))"

definition retention_started :: "handler_env \<Rightarrow> int \<Rightarrow> (handler_state, nat) prog" where
  "retention_started env outdated s = on_directory (invalidate_all (env_now env (h_calls s)) outdated) s"

text \<open>\<^verbatim>\<open>StopWatching\<close> is \<open>Inl\<close> of an exception the caller knows.\<close>

definition retention_execute :: "handler_env \<Rightarrow> int \<Rightarrow> int \<Rightarrow> (handler_state, nat) prog" where
  "retention_execute env interval outdated s =
     (if interval = 0 then p_throw (StdExc ''StopWatching'') s
      else on_directory (remove_outdated (env_now env (h_calls s)) outdated) s)"

definition retention_stopped :: "handler_env \<Rightarrow> int \<Rightarrow> int \<Rightarrow> (handler_state, nat) prog" where
  "retention_stopped env interval outdated s =
     (if interval = 0 then p_return 0 s else on_directory (invalidate_all (env_now env (h_calls s)) outdated) s)"

end
