(* ===== verification/Resource_Tree.thy ===== *)
theory Resource_Tree
  imports Generic_Handler
begin

text \<open>
  What holds of the tables of resources and their numbers whatever the agents answer: the uuids of a table are different,
  and every resource has a number that is its own. The proof follows the structure of the handlers with a
  small program logic.
\<close>

section \<open>A logic for the programs\<close>

named_theorems p_rules

text \<open>
  From a state with \<open>P\<close> a program ends, if it ends, in a result with \<open>Q\<close> or in an exception with \<open>I\<close>; nothing is said after
  undefined behaviour.
\<close>

definition p_valid :: "('s \<Rightarrow> bool) \<Rightarrow> ('s \<Rightarrow> bool) \<Rightarrow> ('s, 'a) prog \<Rightarrow> ('a \<Rightarrow> 's \<Rightarrow> bool) \<Rightarrow> bool" where
  "p_valid I P m Q \<longleftrightarrow> (\<forall>s r s'. P s \<longrightarrow> m s = Some (r, s') \<longrightarrow> defined r \<longrightarrow> (case r of Inl e \<Rightarrow> I s' | Inr a \<Rightarrow> Q a s'))"

lemma p_validI:
  "(\<And>s r s'. P s \<Longrightarrow> m s = Some (r, s') \<Longrightarrow> defined r \<Longrightarrow> (case r of Inl e \<Rightarrow> I s' | Inr a \<Rightarrow> Q a s')) \<Longrightarrow> p_valid I P m Q"
  by (simp add: p_valid_def)

lemma p_validD:
  "p_valid I P m Q \<Longrightarrow> P s \<Longrightarrow> m s = Some (r, s') \<Longrightarrow> defined r \<Longrightarrow> (case r of Inl e \<Rightarrow> I s' | Inr a \<Rightarrow> Q a s')"
  by (simp add: p_valid_def)

lemma p_valid_weaken:
  "p_valid I P m Q \<Longrightarrow> (\<And>s. P' s \<Longrightarrow> P s) \<Longrightarrow> (\<And>a s. Q a s \<Longrightarrow> Q' a s) \<Longrightarrow> p_valid I P' m Q'"
  unfolding p_valid_def by (fastforce split: sum.splits)

lemma p_valid_return: "(\<And>s. P s \<Longrightarrow> Q a s) \<Longrightarrow> p_valid I P (p_return a) Q"
  by (simp add: p_valid_def p_return_def)

lemma p_valid_throw: "(\<And>s. P s \<Longrightarrow> I s) \<Longrightarrow> p_valid I P (p_throw e) Q"
  by (simp add: p_valid_def p_throw_def)

lemma p_valid_get: "(\<And>s. P s \<Longrightarrow> Q (f s) s) \<Longrightarrow> p_valid I P (p_get f) Q"
  by (simp add: p_valid_def p_get_def)

lemma p_valid_result:
  "(\<And>s. P s \<Longrightarrow> I s) \<Longrightarrow> (\<And>s a. P s \<Longrightarrow> f s = Inr a \<Longrightarrow> Q a s) \<Longrightarrow> p_valid I P (p_result f) Q"
  by (auto simp: p_valid_def p_result_def split: sum.split)

lemma p_valid_modify: "(\<And>s. P s \<Longrightarrow> Q () (f s)) \<Longrightarrow> p_valid I P (p_modify f) Q"
  by (auto simp: p_valid_def p_modify_def)

lemma p_valid_bind:
  assumes "p_valid I P m R" and "\<And>a. p_valid I (R a) (f a) Q"
  shows "p_valid I P (p_bind m f) Q"
proof (rule p_validI)
  fix s r s' assume s: "P s" "p_bind m f s = Some (r, s')" "defined r"
  then obtain r1 s1 where m: "m s = Some (r1, s1)" by (auto simp: p_bind_def split: option.splits)
  show "case r of Inl e \<Rightarrow> I s' | Inr a \<Rightarrow> Q a s'"
  proof (cases r1)
    case (Inl e)
    with s m have "r = Inl e" "s' = s1" "defined r1" by (auto simp: p_bind_def defined_def)
    with p_validD [OF assms(1) s(1) m] Inl show ?thesis by simp
  next
    case (Inr a)
    with s m have "f a s1 = Some (r, s')" by (simp add: p_bind_def)
    with p_validD [OF assms(1) s(1) m] p_validD [OF assms(2) [of a]] s(3) Inr show ?thesis by auto
  qed
qed

lemma p_valid_catch:
  assumes "p_valid J P m Q" and "\<And>e. p_valid I J (h e) Q" and "\<And>x. h (Undefined x) = p_throw (Undefined x)"
  shows "p_valid I P (p_catch m h) Q"
proof (rule p_validI)
  fix s r s' assume s: "P s" "p_catch m h s = Some (r, s')" "defined r"
  then obtain r1 s1 where m: "m s = Some (r1, s1)" by (auto simp: p_catch_def split: option.splits)
  show "case r of Inl e \<Rightarrow> I s' | Inr a \<Rightarrow> Q a s'"
  proof (cases r1)
    case (Inl e)
    with s m have h: "h e s1 = Some (r, s')" by (simp add: p_catch_def)
    then have "defined r1" using s(3) assms(3) Inl by (auto simp: defined_def p_throw_def)
    with p_validD [OF assms(1) s(1) m] Inl have "J s1" by simp
    from p_validD [OF assms(2) this h s(3)] show ?thesis .
  next
    case (Inr a)
    with s m have "r = Inr a" "s' = s1" by (auto simp: p_catch_def)
    with p_validD [OF assms(1) s(1) m] s(3) Inr show ?thesis by simp
  qed
qed

text \<open>Programs that keep an invariant.\<close>

definition p_keeps :: "('s \<Rightarrow> bool) \<Rightarrow> ('s, 'a) prog \<Rightarrow> bool" where
  "p_keeps I m \<longleftrightarrow> p_valid I I m (\<lambda>_. I)"

lemma p_keepsI: "(\<And>s r s'. I s \<Longrightarrow> m s = Some (r, s') \<Longrightarrow> defined r \<Longrightarrow> I s') \<Longrightarrow> p_keeps I m"
  by (auto simp: p_keeps_def p_valid_def split: sum.split)

lemma p_keepsD: "p_keeps I m \<Longrightarrow> I s \<Longrightarrow> m s = Some (r, s') \<Longrightarrow> defined r \<Longrightarrow> I s'"
  unfolding p_keeps_def by (drule (3) p_validD) (cases r, auto)

lemma p_keeps_basic [p_rules]:
  "p_keeps I (p_return a)" "p_keeps I (p_throw e)" "p_keeps I (p_get f)" "p_keeps I (p_result g)"
  by (auto simp: p_keeps_def intro: p_valid_return p_valid_throw p_valid_get p_valid_result)

lemma p_keeps_modify: "(\<And>s. I s \<Longrightarrow> I (f s)) \<Longrightarrow> p_keeps I (p_modify f)"
  by (simp add: p_keeps_def p_valid_modify)

lemma p_keeps_bind [p_rules]: "p_keeps I m \<Longrightarrow> (\<And>a. p_keeps I (f a)) \<Longrightarrow> p_keeps I (p_bind m f)"
  unfolding p_keeps_def by (rule p_valid_bind)

lemma p_keeps_catch [p_rules]:
  "p_keeps I m \<Longrightarrow> (\<And>e. p_keeps I (h e)) \<Longrightarrow> (\<And>x. h (Undefined x) = p_throw (Undefined x)) \<Longrightarrow> p_keeps I (p_catch m h)"
  unfolding p_keeps_def by (rule p_valid_catch)

lemma p_keeps_each [p_rules]: "(\<And>x. x \<in> set xs \<Longrightarrow> p_keeps I (f x)) \<Longrightarrow> p_keeps I (p_each f xs)"
  by (induction xs) (simp_all add: p_rules)

lemma p_keeps_map [p_rules]: "(\<And>x. x \<in> set xs \<Longrightarrow> p_keeps I (f x)) \<Longrightarrow> p_keeps I (p_map f xs)"
  by (induction xs) (simp_all add: p_rules)

lemma p_keeps_ignore [p_rules]: "p_keeps I m \<Longrightarrow> p_keeps I (p_ignore m)"
  unfolding p_ignore_def by (rule p_keeps_catch) (auto simp: p_rules split: exn.split)

lemma p_keeps_bind_result:
  assumes "p_valid I I m (\<lambda>a s. I s \<and> R a)" and "\<And>a. R a \<Longrightarrow> p_keeps I (f a)"
  shows "p_keeps I (p_bind m f)"
  unfolding p_keeps_def
proof (rule p_valid_bind [OF assms(1)])
  fix a show "p_valid I (\<lambda>s. I s \<and> R a) (f a) (\<lambda>_. I)"
    using assms(2) [of a] by (auto simp: p_keeps_def p_valid_def)
qed

text \<open>A program that is chosen by the state it starts in.\<close>

lemma p_keeps_start: "(\<And>s. I s \<Longrightarrow> p_keeps I (m s)) \<Longrightarrow> (\<And>s. f s = m s s) \<Longrightarrow> p_keeps I f"
  by (rule p_keepsI) (metis p_keepsD)

section \<open>Tables in order\<close>

definition table_ok :: "resource list \<Rightarrow> bool" where
  "table_ok rs \<longleftrightarrow> distinct (map get_uuid rs)
     \<and> (\<forall>r \<in> set rs. \<not> r_is_persistent r \<and> r_persistent r = [] \<and> proper_uuid (get_uuid r) \<and> dotless (r_parent r))"

lemma table_ok_Nil [simp]: "table_ok []"
  by (simp add: table_ok_def)

lemma has_uuid_iff: "\<not> r_is_persistent r \<Longrightarrow> r_persistent r = [] \<Longrightarrow> u \<noteq> [] \<Longrightarrow> has_uuid u r \<longleftrightarrow> get_uuid r = u"
  by (auto simp: has_uuid_def get_uuid_def)

lemma table_has_uuid: "table_ok rs \<Longrightarrow> r \<in> set rs \<Longrightarrow> u \<noteq> [] \<Longrightarrow> has_uuid u r \<longleftrightarrow> get_uuid r = u"
  by (simp add: table_ok_def has_uuid_iff)

lemma table_ok_Cons: "table_ok (r # rs) \<longleftrightarrow> get_uuid r \<notin> get_uuid ` set rs \<and> \<not> r_is_persistent r \<and> r_persistent r = []
    \<and> proper_uuid (get_uuid r) \<and> dotless (r_parent r) \<and> table_ok rs"
  by (auto simp: table_ok_def)

lemma find_entry_iff:
  assumes "table_ok rs" and "u \<noteq> []"
  shows "find_entry u rs = Some r \<longleftrightarrow> r \<in> set rs \<and> get_uuid r = u"
  using assms
proof (induction rs)
  case (Cons a rs)
  then show ?case by (auto simp: find_entry_def table_ok_Cons has_uuid_iff)
qed (simp add: find_entry_def)

lemma find_entry_None_iff:
  "table_ok rs \<Longrightarrow> u \<noteq> [] \<Longrightarrow> find_entry u rs = None \<longleftrightarrow> u \<notin> get_uuid ` set rs"
  by (metis (no_types, lifting) find_entry_iff image_iff not_None_eq option.distinct(1))

lemma erase_entry_filter: "table_ok rs \<Longrightarrow> u \<noteq> [] \<Longrightarrow> erase_entry u rs = filter (\<lambda>r. get_uuid r \<noteq> u) rs"
proof (induction rs)
  case (Cons a rs)
  have "filter (\<lambda>r. get_uuid r \<noteq> get_uuid a) rs = rs"
    using Cons.prems(1) by (auto simp: table_ok_Cons filter_id_conv image_iff)
  with Cons show ?case by (auto simp: table_ok_Cons has_uuid_iff)
qed simp

lemma replace_entry_map: "table_ok rs \<Longrightarrow> u \<noteq> [] \<Longrightarrow> replace_entry u e rs = map (\<lambda>r. if get_uuid r = u then e else r) rs"
proof (induction rs)
  case (Cons a rs)
  have "map (\<lambda>r. if get_uuid r = get_uuid a then e else r) rs = rs"
    using Cons.prems(1) by (intro map_idI) (auto simp: table_ok_Cons image_iff)
  with Cons show ?case by (auto simp: table_ok_Cons has_uuid_iff)
qed simp

lemma table_ok_filter: "table_ok rs \<Longrightarrow> table_ok (filter P rs)"
  by (auto simp: table_ok_def distinct_map_filter)

lemma table_ok_replace:
  assumes "table_ok rs" and "get_uuid e = u" and "\<not> r_is_persistent e" and "r_persistent e = []" and "proper_uuid u" and "dotless (r_parent e)"
  shows "table_ok (replace_entry u e rs)"
proof -
  have rep: "replace_entry u e rs = map (\<lambda>r. if get_uuid r = u then e else r) rs"
    using proper_LAST [OF assms(5)] assms(1) by (simp add: replace_entry_map)
  have "map get_uuid (replace_entry u e rs) = map get_uuid rs"
    unfolding rep map_map by (rule map_cong) (auto simp: assms(2))
  moreover have "set (replace_entry u e rs) \<subseteq> insert e (set rs)" by (auto simp: rep)
  ultimately show ?thesis using assms unfolding table_ok_def by (metis insertE subsetD)
qed

lemma table_ok_append:
  "table_ok rs \<Longrightarrow> get_uuid e \<notin> get_uuid ` set rs \<Longrightarrow> \<not> r_is_persistent e \<Longrightarrow> r_persistent e = [] \<Longrightarrow> proper_uuid (get_uuid e)
    \<Longrightarrow> dotless (r_parent e) \<Longrightarrow> table_ok (rs @ [e])"
  by (auto simp: table_ok_def)

lemma get_uuid_simps [simp]:
  "get_uuid (touch n r) = get_uuid r" "get_uuid (r\<lparr>r_id := i\<rparr>) = get_uuid r" "get_uuid (r\<lparr>r_agent := a\<rparr>) = get_uuid r"
  "get_uuid (set_uuid u r) = u" "r_parent (touch n r) = r_parent r" "r_id (touch n r) = r_id r"
  "r_is_persistent (touch n r) = r_is_persistent r" "r_persistent (touch n r) = r_persistent r"
  "r_parent (set_uuid u r) = r_parent r" "\<not> r_is_persistent (set_uuid u r)" "r_persistent (set_uuid u r) = r_persistent r"
  by (simp_all add: get_uuid_def touch_def set_uuid_def)

section \<open>The invariant\<close>

definition part_ok :: "id_service \<Rightarrow> component \<Rightarrow> generic_manager \<Rightarrow> bool" where
  "part_ok ids c m \<longleftrightarrow> table_ok (gm_data m) \<and> numbered (id_owner c ids) (id_zone c) (gm_data m)"

text \<open>The handlers that are learned of by the component they name; that of neighbour switches names the other one.\<close>

definition named_handler :: "component \<Rightarrow> bool" where
  "named_handler h \<longleftrightarrow> h \<in> set handler_components \<and> h \<noteq> NeighborSwitch"

definition tree_ok :: "handler_state \<Rightarrow> bool" where
  "tree_ok s \<longleftrightarrow> id_service_ok (h_ids s) \<and> (\<forall>c. part_ok (h_ids s) c (manager_of c s))
     \<and> (\<forall>h. \<forall>c \<in> set (h_subs s h). named_handler c)"

lemma tree_ok_table: "tree_ok s \<Longrightarrow> table_ok (gm_data (manager_of c s))"
  by (simp add: tree_ok_def part_ok_def)

lemma tree_ok_proper: "tree_ok s \<Longrightarrow> r \<in> set (gm_data (manager_of c s)) \<Longrightarrow> proper_uuid (get_uuid r) \<and> dotless (r_parent r)"
  by (auto simp: tree_ok_def part_ok_def table_ok_def)

lemma manager_of_set [simp]: "manager_of d (set_manager c m s) = (if d = c then m else manager_of d s)"
  "h_ids (set_manager c m s) = h_ids s" "h_subs (set_manager c m s) = h_subs s"
  by (simp_all add: manager_of_def set_manager_def)

lemma manager_of_ids [simp]: "manager_of d (s\<lparr>h_ids := ids\<rparr>) = manager_of d s"
  by (simp add: manager_of_def)

text \<open>Changes of the rest of the state.\<close>

lemma tree_ok_cong:
  "h_ids s' = h_ids s \<Longrightarrow> h_managers s' = h_managers s \<Longrightarrow> h_subs s' = h_subs s \<Longrightarrow> tree_ok s \<Longrightarrow> tree_ok s'"
  by (simp add: tree_ok_def manager_of_def)

lemma tree_keeps_modify [p_rules]:
  "(\<And>s. h_ids (f s) = h_ids s \<and> h_managers (f s) = h_managers s \<and> h_subs (f s) = h_subs s) \<Longrightarrow> p_keeps tree_ok (p_modify f)"
  by (rule p_keeps_modify) (meson tree_ok_cong)

lemma tree_ok_manager:
  "tree_ok s \<Longrightarrow> part_ok (h_ids s) c m \<Longrightarrow> tree_ok (set_manager c m s)"
  by (auto simp: tree_ok_def)

section \<open>Removing\<close>

lemma with_ids_eq: "with_ids a s = Some (fst (a (h_ids s)), s\<lparr>h_ids := snd (a (h_ids s))\<rparr>)"
  by (simp add: with_ids_def split: prod.split)

lemma get_entry_Inr: "get_entry n u m = Inr r \<longleftrightarrow> find_entry u (gm_data m) = Some r"
  by (simp add: get_entry_def split: option.split)

text \<open>A resource that is taken out of its table gives its number back.\<close>

lemma tree_ok_released:
  assumes "tree_ok s" and "r \<in> set (gm_data (manager_of c s))" and "get_uuid r = u"
  shows "tree_ok ((set_manager c (remove_entry u (manager_of c s)) s)\<lparr>h_ids := snd (release_id c now u (r_parent r) (h_ids s))\<rparr>)"
proof -
  have u: "proper_uuid u" "dotless (r_parent r)" using tree_ok_proper [OF assms(1,2)] assms(3) by auto
  have ids: "id_service_ok (h_ids s)" and num: "numbered (id_owner d (h_ids s)) (id_zone d) (gm_data (manager_of d s))" for d
    using assms(1) by (simp_all add: tree_ok_def part_ok_def)
  have own: "id_owner c (h_ids s) (id_zone c (r_parent r)) (r_id r) = u"
    using num [of c] assms(2,3) by (auto simp: numbered_def)
  note law = release_id_ok [OF ids u own, where now = now]
  have erased: "erase_entry u (gm_data (manager_of c s)) = filter (\<lambda>r. get_uuid r \<noteq> u) (gm_data (manager_of c s))"
    using erase_entry_filter [OF tree_ok_table [OF assms(1)]] proper_LAST [OF u(1)] by blast
  have "part_ok (snd (release_id c now u (r_parent r) (h_ids s))) c (remove_entry u (manager_of c s))"
    using tree_ok_table [OF assms(1), of c] ids.numbered_release [OF num ids u assms(2,3) refl]
    by (simp add: part_ok_def remove_entry_def erased table_ok_filter)
  moreover have "part_ok (snd (release_id c now u (r_parent r) (h_ids s))) d (manager_of d s)" if "d \<noteq> c" for d
    using assms(1) law(3) [OF that] by (simp add: tree_ok_def part_ok_def)
  ultimately show ?thesis using law(1) assms(1) by (simp add: tree_ok_def)
qed

lemma remove_single_keeps [p_rules]:
  assumes "u \<noteq> []"
  shows "p_keeps tree_ok (remove_single env h u)"
proof (rule p_keepsI)
  fix s r s' assume s: "tree_ok s" "remove_single env h u s = Some (r, s')"
  let ?c = "model_of h"
  show "tree_ok s'"
  proof (cases "find_entry u (gm_data (manager_of ?c s))")
    case None
    with s show ?thesis by (auto simp: remove_single_def p_bind_def p_result_def get_entry_def)
  next
    case (Some e)
    then have e: "e \<in> set (gm_data (manager_of ?c s))" "get_uuid e = u"
      using find_entry_iff [OF tree_ok_table [OF s(1)] assms] by auto
    have "s' = (set_manager ?c (remove_entry u (manager_of ?c s)) s)
        \<lparr>h_ids := snd (release_id ?c (env_now env (h_calls s)) u (r_parent e) (h_ids s))\<rparr>"
      using s(2) Some by (simp add: remove_single_def p_bind_def p_result_def get_entry_def p_modify_def with_ids_eq)
        (simp add: set_manager_def)
    with tree_ok_released [OF s(1) e] show ?thesis by simp
  qed
qed

text \<open>The uuids a table gives are proper ones.\<close>

lemma get_keys_proper: "tree_ok s \<Longrightarrow> u \<in> set (get_keys P (manager_of c s)) \<Longrightarrow> u \<noteq> []"
  using tree_ok_proper proper_LAST by (fastforce simp: get_keys_def)

lemma get_keys_of_parent_proper: "tree_ok s \<Longrightarrow> u \<in> set (get_keys_of_parent p P (manager_of c s)) \<Longrightarrow> u \<noteq> []"
  by (simp add: get_keys_of_parent_def get_keys_proper)

lemma do_remove_keeps_result:
  "do_remove env h u s = Some y \<Longrightarrow> u \<noteq> [] \<longrightarrow> tree_ok s \<longrightarrow> defined (fst y) \<longrightarrow> tree_ok (snd y)"
proof (erule do_remove.raw_induct [rotated], intro impI)
  fix rec env h u s y
  assume IH: "\<And>env h u s y. rec env h u s = Some y \<Longrightarrow> u \<noteq> [] \<longrightarrow> tree_ok s \<longrightarrow> defined (fst y) \<longrightarrow> tree_ok (snd y)"
    and body: "p_bind
       (p_each (\<lambda>c. p_bind (p_result (\<lambda>_. get_handler c))
            (\<lambda>h' s'. p_each (\<lambda>u s''. rec env h' u s'')
               (get_keys_of_parent u (\<lambda>_. True) (manager_of (model_of h') s')) s'))
          (h_subs s h))
       (\<lambda>_ s'. remove_single env h u s') s = Some y"
    and start: "u \<noteq> []" "tree_ok s" "defined (fst y)"
  have self: "p_keeps tree_ok (\<lambda>s''. rec env h' v s'')" if "v \<noteq> []" for h' v
    using IH that by (intro p_keepsI) fastforce
  have "p_keeps tree_ok (\<lambda>s'. p_each (\<lambda>v s''. rec env h' v s'')
             (get_keys_of_parent u (\<lambda>_. True) (manager_of (model_of h') s')) s')" for h'
    by (rule p_keeps_start [where m = "\<lambda>s1. p_each (\<lambda>v s''. rec env h' v s'') (get_keys_of_parent u (\<lambda>_. True) (manager_of (model_of h') s1))"])
      (auto intro!: p_keeps_each self dest: get_keys_of_parent_proper)
  then have "p_keeps tree_ok (p_bind
     (p_each (\<lambda>c. p_bind (p_result (\<lambda>_. get_handler c))
          (\<lambda>h' s'. p_each (\<lambda>u s''. rec env h' u s'')
             (get_keys_of_parent u (\<lambda>_. True) (manager_of (model_of h') s')) s'))
        (h_subs s h))
     (\<lambda>_ s'. remove_single env h u s'))"
    by (intro p_keeps_bind p_keeps_each p_keeps_basic remove_single_keeps start(1))
  from p_keepsD [OF this start(2), of "fst y" "snd y"] body start(3) show "tree_ok (snd y)" by simp
qed

lemma do_remove_keeps [p_rules]: "u \<noteq> [] \<Longrightarrow> p_keeps tree_ok (do_remove env h u)"
  using do_remove_keeps_result by (intro p_keepsI) fastforce

lemma update_links_keeps [p_rules]: "p_keeps tree_ok (update_links_of t f)"
  unfolding update_links_of_def by (rule tree_keeps_modify) simp

lemma unlink_keeps [p_rules]: "p_keeps tree_ok (unlink h u)"
  by (cases h) (simp_all add: p_rules)

lemma get_component_url_keeps [p_rules]: "p_keeps I (get_component_url c u)"
  by (rule p_keepsI) (auto simp: get_component_url_def)

lemma notify_keeps [p_rules]: "p_keeps tree_ok (notify es)"
  unfolding notify_def by (rule tree_keeps_modify) simp

lemma notify_at_keeps [p_rules]: "p_keeps tree_ok (\<lambda>s. notify (f s) s)"
  by (rule p_keeps_start [where m = "\<lambda>s. notify (f s)"]) (simp_all add: p_rules)

lemma remove_keeps [p_rules]: "u \<noteq> [] \<Longrightarrow> p_keeps tree_ok (remove env h u)"
  unfolding remove_def by (intro p_rules)

lemma remove_agent_resources_keeps [p_rules]: "p_keeps tree_ok (remove_agent_resources env h a)"
  by (rule p_keeps_start [where m = "\<lambda>s. p_each (remove_single env h) (get_keys (\<lambda>r. r_agent r = a) (manager_of (model_of h) s))"])
    (auto intro!: p_rules dest: get_keys_proper simp: remove_agent_resources_def)

lemma remove_agent_data_keeps [p_rules]: "p_keeps tree_ok (remove_agent_data env h a)"
  by (simp add: remove_agent_data_def clean_agent_links_def p_rules)

lemma notify_clients_keeps [p_rules]: "p_keeps tree_ok (notify_clients_about_removals env a)"
  by (rule p_keeps_start [where m = "\<lambda>s. p_bind (p_map (get_component_url Manager) (get_keys (\<lambda>m. r_agent m = a) (manager_of Manager s)))
       (\<lambda>urls s'. notify (map (\<lambda>(i, url). new_event_at env i ResourceRemoved url s') (enumerate 0 urls)) s')"])
    (intro p_rules, simp add: notify_clients_about_removals_def)

lemma clean_resource_for_agent_keeps [p_rules]: "p_keeps tree_ok (clean_resource_for_agent env a)"
  unfolding clean_resource_for_agent_def remove_all_agent_data_def by (intro p_rules)

section \<open>Reading\<close>

lemma agents_keeps [p_rules]: "p_keeps tree_ok (unregister_agent a)" "p_keeps tree_ok (set_error_since a t)"
  unfolding unregister_agent_def set_error_since_def by (intro tree_keeps_modify, simp)+

lemma on_reply_keeps [p_rules]: "p_keeps tree_ok (on_reply env n a since reply)"
  unfolding on_reply_def by (auto intro!: p_rules split: rpc_reply.split option.split)

lemma execute_keeps [p_rules]: "p_keeps tree_ok (execute env req)"
proof (rule p_keepsI)
  fix s r s' assume s: "tree_ok s" "execute env req s = Some (r, s')" "defined r"
  have "tree_ok (s\<lparr>h_calls := Suc (h_calls s)\<rparr>)" using s(1) by (rule tree_ok_cong [rotated 3]) simp_all
  from p_keepsD [OF on_reply_keeps this] s(2,3) show "tree_ok s'" by (simp add: execute_def Let_def)
qed

lemma execute_info_keeps [p_rules]: "p_keeps tree_ok (execute_info env c u)"
  unfolding execute_info_def by (auto intro!: p_rules split: rpc_reply.split)

text \<open>The uuids agents report are proper; nothing else is asked of them.\<close>

definition env_proper :: "handler_env \<Rightarrow> bool" where
  "env_proper env \<longleftrightarrow> (\<forall>n a req us. env_reply env n a req = UuidsReply us \<longrightarrow> (\<forall>u \<in> set us. proper_uuid u))"

lemma execute_reply: "execute env req s = Some (Inr x, s') \<Longrightarrow> x = env_reply env (h_calls s) (cx_agent s) req"
  by (auto simp: execute_def on_reply_def Let_def p_bind_def p_throw_def p_return_def set_error_since_def p_modify_def
      split: rpc_reply.splits option.splits prod.splits sum.splits if_splits)

lemma execute_uuids_proper:
  assumes "env_proper env"
  shows "p_valid tree_ok tree_ok (execute_uuids env req) (\<lambda>us s. tree_ok s \<and> (\<forall>u \<in> set us. proper_uuid u))"
  unfolding execute_uuids_def
proof (rule p_valid_bind)
  let ?R = "\<lambda>x. \<forall>us. x = UuidsReply us \<longrightarrow> (\<forall>u \<in> set us. proper_uuid u)"
  show "p_valid tree_ok tree_ok (execute env req) (\<lambda>x s. tree_ok s \<and> ?R x)"
  proof (rule p_validI)
    fix s r s' assume s: "tree_ok s" "execute env req s = Some (r, s')" "defined r"
    have "tree_ok s'" using p_keepsD [OF execute_keeps s] .
    moreover have "?R x" if "r = Inr x" for x
      using execute_reply [of env req s x s'] s(2) that assms by (simp add: env_proper_def)
    ultimately show "case r of Inl e \<Rightarrow> tree_ok s' | Inr x \<Rightarrow> tree_ok s' \<and> ?R x" by (auto split: sum.split)
  qed
  show "p_valid tree_ok (\<lambda>s. tree_ok s \<and> ?R x)
      (case x of UuidsReply us \<Rightarrow> p_return us | _ \<Rightarrow> p_throw (StdExc ''malformed reply''))
      (\<lambda>us s. tree_ok s \<and> (\<forall>u \<in> set us. proper_uuid u))" for x
    by (cases x) (auto intro!: p_valid_return p_valid_throw)
qed

lemma fetch_sibling_uuids_proper:
  assumes "env_proper env"
  shows "p_valid tree_ok tree_ok (fetch_sibling_uuid_list env h p n) (\<lambda>us s. tree_ok s \<and> (\<forall>u \<in> set us. proper_uuid u))"
  using p_validD [OF execute_uuids_proper [OF assms]] unfolding fetch_sibling_uuid_list_def
  by (intro p_validI) (auto split: if_splits)

definition fresh_entry :: "string \<Rightarrow> string \<Rightarrow> resource \<Rightarrow> bool" where
  "fresh_entry parent u e \<longleftrightarrow> get_uuid e = u \<and> r_parent e = parent \<and> \<not> r_is_persistent e \<and> r_persistent e = []"

lemma task_result_persistent:
  assumes "r_persistent elem = []"
  shows "p_valid tree_ok tree_ok (task_result_messages env u elem) (\<lambda>e s. tree_ok s \<and> r_persistent e = [])"
  unfolding task_result_messages_def
proof (rule p_valid_catch)
  show "p_valid tree_ok tree_ok (p_bind (execute env (GetTaskResultInfo u))
      (\<lambda>reply. case reply of ResultReply \<Rightarrow> p_return elem | _ \<Rightarrow> p_throw (StdExc ''malformed reply'')))
      (\<lambda>e s. tree_ok s \<and> r_persistent e = [])"
  proof (rule p_valid_bind)
    show "p_valid tree_ok tree_ok (execute env (GetTaskResultInfo u)) (\<lambda>_. tree_ok)"
      using execute_keeps by (simp add: p_keeps_def)
  qed (auto intro!: p_valid_return p_valid_throw simp: assms split: rpc_reply.split)
qed (auto intro!: p_valid_return p_valid_throw simp: assms split: exn.split)

lemma fetch_entry_fresh:
  "p_valid tree_ok tree_ok (fetch_entry env h parent u) (\<lambda>e s. tree_ok s \<and> fresh_entry parent u e)"
  unfolding fetch_entry_def
proof (rule p_valid_bind)
  show "p_valid tree_ok tree_ok (execute_info env (model_of h) u) (\<lambda>_. tree_ok)"
    using execute_info_keeps by (simp add: p_keeps_def)
next
  fix d
  show "p_valid tree_ok tree_ok
       (p_bind
         (if h = Task
          then p_bind (p_get (task_known u (resource_of d)))
            (\<lambda>elem. if tp_exception (r_task elem) then task_result_messages env u elem else p_return elem)
          else p_return (resource_of d))
         (\<lambda>elem. p_get (\<lambda>s. set_uuid u (elem\<lparr>r_parent := parent, r_parent_type := get_parent_component s\<rparr>))))
       (\<lambda>e s. tree_ok s \<and> fresh_entry parent u e)"
  proof (rule p_valid_bind [where R = "\<lambda>e s. tree_ok s \<and> r_persistent e = []"])
    have "p_valid tree_ok tree_ok (p_bind (p_get (task_known u (resource_of d)))
            (\<lambda>elem. if tp_exception (r_task elem) then task_result_messages env u elem else p_return elem))
          (\<lambda>e s. tree_ok s \<and> r_persistent e = [])"
    proof (rule p_valid_bind [where R = "\<lambda>e s. tree_ok s \<and> r_persistent e = []"])
      show "p_valid tree_ok tree_ok (p_get (task_known u (resource_of d))) (\<lambda>e s. tree_ok s \<and> r_persistent e = [])"
        by (rule p_valid_get) (simp add: task_known_def resource_of_def split: option.split)
    next
      fix elem
      have "r_persistent elem = [] \<Longrightarrow> p_valid tree_ok tree_ok
          (if tp_exception (r_task elem) then task_result_messages env u elem else p_return elem)
          (\<lambda>e s. tree_ok s \<and> r_persistent e = [])"
        by (auto intro!: task_result_persistent p_valid_return)
      then show "p_valid tree_ok (\<lambda>s. tree_ok s \<and> r_persistent elem = [])
          (if tp_exception (r_task elem) then task_result_messages env u elem else p_return elem)
          (\<lambda>e s. tree_ok s \<and> r_persistent e = [])"
        by (auto simp: p_valid_def)
    qed
    then show "p_valid tree_ok tree_ok
         (if h = Task
          then p_bind (p_get (task_known u (resource_of d)))
            (\<lambda>elem. if tp_exception (r_task elem) then task_result_messages env u elem else p_return elem)
          else p_return (resource_of d)) (\<lambda>e s. tree_ok s \<and> r_persistent e = [])"
      by (auto intro!: p_valid_return simp: resource_of_def)
  qed (auto intro!: p_valid_get simp: fresh_entry_def)
qed

text \<open>The number a resource gets is its own.\<close>

lemma assign_keeps_tree:
  assumes "tree_ok s" and "proper_uuid u" and "dotless parent" and "assign_id c now u parent (h_ids s) = Some (r, ids)" and "defined r"
  shows "tree_ok (s\<lparr>h_ids := ids\<rparr>)"
proof -
  have ids: "id_service_ok (h_ids s)" using assms(1) by (simp add: tree_ok_def)
  note law = assign_id_ok [OF ids assms(2-5)]
  have "part_ok ids d (manager_of d s)" for d
  proof (cases "d = c")
    case True
    have "\<forall>r \<in> set (gm_data (manager_of c s)). proper_uuid (get_uuid r)" using tree_ok_proper [OF assms(1)] by blast
    with True assms(1) ids.numbered_assign [OF _ _ ids assms(2-5)] show ?thesis by (auto simp: tree_ok_def part_ok_def)
  next
    case False
    with law have "id_owner d ids = id_owner d (h_ids s)" by metis
    with assms(1) show ?thesis by (simp add: tree_ok_def part_ok_def)
  qed
  moreover have "id_service_ok ids" using law by blast
  ultimately show ?thesis using assms(1) by (simp add: tree_ok_def)
qed

lemma get_resource_id_owner:
  assumes "proper_uuid u" and "dotless parent"
  shows "p_valid tree_ok tree_ok (get_resource_id env h u parent)
    (\<lambda>i s. tree_ok s \<and> id_owner (model_of h) (h_ids s) (id_zone (model_of h) parent) i = u)"
proof (rule p_validI)
  fix s r s' assume s: "tree_ok s" "get_resource_id env h u parent s = Some (r, s')" "defined r"
  then obtain ids where got: "assign_id (model_of h) (env_now env (h_calls s)) u parent (h_ids s) = Some (r, ids)"
      and s': "s' = s\<lparr>h_ids := ids\<rparr>" by (auto simp: get_resource_id_def)
  have "tree_ok s'" using assign_keeps_tree [OF s(1) assms got s(3)] s' by simp
  moreover have "id_owner (model_of h) ids (id_zone (model_of h) parent) i = u" if "r = Inr i" for i
    using ids.assign_owner [OF _ assms got [unfolded that]] s(1) by (simp add: tree_ok_def)
  ultimately show "case r of Inl e \<Rightarrow> tree_ok s' | Inr i \<Rightarrow> tree_ok s' \<and>
      id_owner (model_of h) (h_ids s') (id_zone (model_of h) parent) i = u"
    using s' by (auto split: sum.split)
qed

lemma add_or_update_part_ok:
  assumes "part_ok ids c m" and "fresh_entry parent u e" and "proper_uuid u" and "dotless parent"
    and "id_owner c ids (id_zone c parent) (r_id e) = u"
  shows "part_ok ids c (snd (add_or_update_entry e m))"
proof -
  let ?e = "touch (gm_epoch m + 1) e"
  have e: "get_uuid ?e = u" "r_parent ?e = parent" "\<not> r_is_persistent ?e" "r_persistent ?e = []"
    using assms(2) by (simp_all add: fresh_entry_def)
  have t: "table_ok (gm_data m)" and num: "numbered (id_owner c ids) (id_zone c) (gm_data m)"
    using assms(1) by (simp_all add: part_ok_def)
  have u: "u \<noteq> []" using proper_LAST [OF assms(3)] by blast
  have sub: "numbered (id_owner c ids) (id_zone c) rs" if "set rs \<subseteq> insert ?e (set (gm_data m))" for rs
    using num assms(5) e that by (auto simp: numbered_def)
  show ?thesis
  proof (cases "find_entry u (gm_data m)")
    case None
    then have "table_ok (gm_data m @ [?e])"
      using find_entry_None_iff [OF t u] assms(3,4) e by (intro table_ok_append [OF t]) auto
    with None e sub [of "gm_data m @ [?e]"] show ?thesis by (simp add: add_or_update_entry_def Let_def part_ok_def)
  next
    case (Some old)
    have "table_ok (replace_entry u ?e (gm_data m))" using assms(3,4) e by (intro table_ok_replace [OF t]) auto
    moreover have "set (replace_entry u ?e (gm_data m)) \<subseteq> insert ?e (set (gm_data m))"
      by (auto simp: replace_entry_map [OF t u])
    ultimately show ?thesis
      using Some e sub t num by (simp add: add_or_update_entry_def Let_def part_ok_def)
  qed
qed

lemma add_to_model_keeps:
  assumes "fresh_entry parent u e" and "proper_uuid u" and "dotless parent"
  shows "p_valid tree_ok (\<lambda>s. tree_ok s \<and> id_owner (model_of h) (h_ids s) (id_zone (model_of h) parent) (r_id e) = u)
    (add_to_model h e) (\<lambda>_. tree_ok)"
  unfolding add_to_model_def
proof (rule p_valid_bind [where R = "\<lambda>_. tree_ok"])
  show "p_valid tree_ok (\<lambda>s. tree_ok s \<and> id_owner (model_of h) (h_ids s) (id_zone (model_of h) parent) (r_id e) = u)
      (with_manager (model_of h) (add_or_update_entry e)) (\<lambda>_. tree_ok)"
  proof (rule p_validI)
    fix s r s'
    assume s: "tree_ok s \<and> id_owner (model_of h) (h_ids s) (id_zone (model_of h) parent) (r_id e) = u"
      and run: "with_manager (model_of h) (add_or_update_entry e) s = Some (r, s')"
    have "s' = set_manager (model_of h) (snd (add_or_update_entry e (manager_of (model_of h) s))) s"
      using run by (auto simp: with_manager_def split: prod.splits)
    moreover have "part_ok (h_ids s) (model_of h) (snd (add_or_update_entry e (manager_of (model_of h) s)))"
      using s by (intro add_or_update_part_ok [OF _ assms]) (auto simp: tree_ok_def)
    ultimately have "tree_ok s'" using s tree_ok_manager by blast
    then show "case r of Inl e \<Rightarrow> tree_ok s' | Inr a \<Rightarrow> tree_ok s'" by (simp split: sum.split)
  qed
  have "p_keeps tree_ok (p_bind (complete_task h st e) (\<lambda>_. p_bind (p_modify (count_status st)) (\<lambda>_. p_return st)))" for st
    by (auto simp: complete_task_def count_status_def intro!: p_rules)
  then show "p_valid tree_ok tree_ok (p_bind (complete_task h st e) (\<lambda>_. p_bind (p_modify (count_status st)) (\<lambda>_. p_return st)))
      (\<lambda>_. tree_ok)" for st
    by (simp add: p_keeps_def)
qed

lemma fetch_keeps [p_rules]:
  assumes "proper_uuid u" and "dotless parent"
  shows "p_keeps tree_ok (fetch env h parent u)"
  unfolding fetch_def
proof (rule p_keeps_bind_result [OF fetch_entry_fresh])
  fix e assume e: "fresh_entry parent u e"
  let ?own = "\<lambda>i s. tree_ok s \<and> id_owner (model_of h) (h_ids s) (id_zone (model_of h) parent) i = u"
  show "p_keeps tree_ok (p_bind (get_resource_id env h u parent) (\<lambda>i.
         p_bind (p_get (\<lambda>s. e\<lparr>r_id := i, r_agent := cx_agent s\<rparr>)) (\<lambda>entry.
           p_bind (add_to_model h entry) (\<lambda>status. p_return (entry, status)))))"
    unfolding p_keeps_def
  proof (rule p_valid_bind [OF get_resource_id_owner [OF assms]])
    fix i
    have "p_valid tree_ok (?own i) (p_bind (p_get (\<lambda>s. e\<lparr>r_id := i, r_agent := cx_agent s\<rparr>)) (\<lambda>entry.
           p_bind (add_to_model h entry) (\<lambda>status. p_return (entry, status)))) (\<lambda>_. tree_ok)"
    proof (rule p_valid_bind [where R = "\<lambda>entry s. ?own i s \<and> fresh_entry parent u entry \<and> r_id entry = i"])
      show "p_valid tree_ok (?own i) (p_get (\<lambda>s. e\<lparr>r_id := i, r_agent := cx_agent s\<rparr>))
          (\<lambda>entry s. ?own i s \<and> fresh_entry parent u entry \<and> r_id entry = i)"
        using e by (intro p_valid_get) (auto simp: fresh_entry_def get_uuid_def)
    next
      fix entry
      have "p_valid tree_ok (?own i) (p_bind (add_to_model h entry) (\<lambda>status. p_return (entry, status))) (\<lambda>_. tree_ok)"
        if "fresh_entry parent u entry" "r_id entry = i"
        using add_to_model_keeps [OF that(1) assms] that(2)
        by (intro p_valid_bind [where R = "\<lambda>_. tree_ok"] p_valid_return) auto
      then show "p_valid tree_ok (\<lambda>s. ?own i s \<and> fresh_entry parent u entry \<and> r_id entry = i)
          (p_bind (add_to_model h entry) (\<lambda>status. p_return (entry, status))) (\<lambda>_. tree_ok)"
        by (auto simp: p_valid_def)
    qed
    then show "p_valid tree_ok (?own i) (p_bind (p_get (\<lambda>s. e\<lparr>r_id := i, r_agent := cx_agent s\<rparr>)) (\<lambda>entry.
           p_bind (add_to_model h entry) (\<lambda>status. p_return (entry, status)))) (\<lambda>_. tree_ok)" .
  qed
qed

section \<open>Reading trees\<close>

lemma relink_keeps [p_rules]: "p_keeps tree_ok (\<lambda>s. relink t (f s) g (x s) s)"
  by (rule p_keeps_start [where m = "\<lambda>s. relink t (f s) g (x s)"]) (auto simp: relink_def intro!: p_rules)

lemma fetch_sibling_uuids_keeps [p_rules]:
  assumes "env_proper env"
  shows "p_keeps tree_ok (fetch_sibling_uuid_list env h p n)"
  unfolding p_keeps_def by (rule p_valid_weaken [OF fetch_sibling_uuids_proper [OF assms]]) simp_all

lemma fetch_links_keeps [p_rules]:
  assumes "env_proper env"
  shows "p_keeps tree_ok (fetch_parent_children env h p n t)" "p_keeps tree_ok (bind_to_parents env h p n t)"
  unfolding fetch_parent_children_def bind_to_parents_def by (intro p_rules assms)+

text \<open>What is given to the addition of resources: proper uuids, and parents without dots.\<close>

definition adder_keeps :: "adder \<Rightarrow> bool" where
  "adder_keeps self \<longleftrightarrow> (\<forall>h p u. proper_uuid u \<longrightarrow> dotless p \<longrightarrow> p_keeps tree_ok (self h p u))"

lemma fetch_strong_siblings_keeps:
  assumes "env_proper env" and "adder_keeps self" and "dotless p"
  shows "p_keeps tree_ok (fetch_strong_siblings env self h p n)"
  unfolding fetch_strong_siblings_def
proof (rule p_keeps_bind_result [OF fetch_sibling_uuids_proper [OF assms(1)]])
  fix us assume "\<forall>u \<in> set us. proper_uuid u"
  with assms(2,3) show "p_keeps tree_ok (p_each (\<lambda>u. p_ignore (p_bind (self h p u) (\<lambda>_. p_return ()))) us)"
    by (auto simp: adder_keeps_def intro!: p_rules)
qed

lemma fetch_siblings_keeps:
  assumes "env_proper env" and "adder_keeps self" and "dotless p"
  shows "p_keeps tree_ok (fetch_siblings env self h p n)"
  by (rule p_keeps_start [where m = "\<lambda>s. case collection_use_of h (get_parent_component s) of
        Strong \<Rightarrow> fetch_strong_siblings env self h p n
      | Weak t \<Rightarrow> fetch_parent_children env h p n t
      | WeakChild t \<Rightarrow> bind_to_parents env h p n t
      | Ignored \<Rightarrow> p_return ()"])
    (auto simp: fetch_siblings_def split: collection_use.split intro!: p_rules fetch_strong_siblings_keeps assms)

lemma collection_handler_known: "collection_handler t = Some h \<Longrightarrow> named_handler (component_of h)"
  by (cases t) (auto simp: named_handler_def component_of_def model_of_def handler_components_def)

lemma get_handlers_known: "nh \<in> set (get_handlers cs) \<Longrightarrow> named_handler (component_of (snd nh))"
  by (auto simp: get_handlers_def List.map_filter_def collection_handler_known)

lemma remember_keeps [p_rules]:
  "named_handler c \<Longrightarrow> p_keeps tree_ok (remember_sub_handler h c)"
  unfolding remember_sub_handler_def
  by (rule p_keeps_modify) (auto simp: tree_ok_def manager_of_def set_insort_key)

lemma fetch_collections_keeps:
  assumes "env_proper env" and "adder_keeps self" and "dotless p" and "\<forall>nh \<in> set nhs. named_handler (component_of (snd nh))"
  shows "p_keeps tree_ok (fetch_collections env self h p nhs epochs)"
  using assms(4)
proof (induction nhs arbitrary: epochs)
  case (Cons nh nhs)
  then have "p_keeps tree_ok (fetch_collections env self h p nhs e)" for e by simp
  with Cons.prems show ?case
    unfolding fetch_collections.simps by (intro p_rules fetch_siblings_keeps assms) simp_all
qed (simp add: p_rules)

lemma remove_untouched_keeps [p_rules]: "p_keeps tree_ok (remove_untouched env h p e)"
proof (rule p_keeps_start [where m = "\<lambda>s. p_each (\<lambda>u. p_bind (remove env h u)
    (\<lambda>_. p_modify (\<lambda>s. s\<lparr>cx_removed := cx_removed s + 1\<rparr>))) (untouched_keys h p e s)"])
  fix s assume "tree_ok s"
  then have "u \<noteq> []" if "u \<in> set (untouched_keys h p e s)" for u
    using that by (auto simp: untouched_keys_def split: if_splits dest: get_keys_of_parent_proper)
  then show "p_keeps tree_ok (p_each (\<lambda>u. p_bind (remove env h u)
      (\<lambda>_. p_modify (\<lambda>s. s\<lparr>cx_removed := cx_removed s + 1\<rparr>))) (untouched_keys h p e s))"
    by (intro p_rules) simp_all
qed (simp add: remove_untouched_def)

lemma fetch_subcomponents_keeps:
  assumes "env_proper env" and "adder_keeps self" and "dotless p"
  shows "p_keeps tree_ok (fetch_subcomponents env self h p cs)"
proof -
  have "p_keeps tree_ok (push_component c)" "p_keeps tree_ok pop_component" for c
    unfolding push_component_def pop_component_def by (intro p_rules; simp)+
  then show ?thesis
    unfolding fetch_subcomponents_def by (intro p_rules fetch_collections_keeps assms) (simp_all add: get_handlers_known)
qed

lemma add_with_keeps:
  assumes "env_proper env" and "adder_keeps self" and "dotless p" and "proper_uuid u \<or> h = Root \<and> u = []"
  shows "p_keeps tree_ok (add_with env self h p u rec)"
proof -
  have u: "dotless u" using assms(4) proper_LAST by auto
  have "p_keeps tree_ok (set_quiet b q)" for b q
    unfolding set_quiet_def by (intro p_rules) simp
  then have "p_keeps tree_ok (fetch_below env self h u e st)" for e st
    unfolding fetch_below_def by (intro p_rules fetch_subcomponents_keeps assms u)
  with assms u show ?thesis
    unfolding add_with_def by (auto intro!: p_rules fetch_subcomponents_keeps)
qed

lemma add_keeps_result:
  "add env h p u rec s = Some y \<Longrightarrow>
    env_proper env \<longrightarrow> dotless p \<longrightarrow> proper_uuid u \<or> h = Root \<and> u = [] \<longrightarrow> tree_ok s \<longrightarrow> defined (fst y) \<longrightarrow> tree_ok (snd y)"
proof (erule add.raw_induct [rotated], intro impI)
  fix self env h p u rec s y
  assume IH: "\<And>env h p u rec s y. self env h p u rec s = Some y \<Longrightarrow>
      env_proper env \<longrightarrow> dotless p \<longrightarrow> proper_uuid u \<or> h = Root \<and> u = [] \<longrightarrow> tree_ok s \<longrightarrow> defined (fst y) \<longrightarrow> tree_ok (snd y)"
    and body: "add_with env (\<lambda>h' p u s'. self env h' p u True s') h p u rec s = Some y"
    and start: "env_proper env" "dotless p" "proper_uuid u \<or> h = Root \<and> u = []" "tree_ok s" "defined (fst y)"
  have "adder_keeps (\<lambda>h' p u s'. self env h' p u True s')"
    unfolding adder_keeps_def using IH start(1) by (intro allI impI p_keepsI) fastforce
  from p_keepsD [OF add_with_keeps [OF start(1) this start(2,3)] start(4), of rec "fst y" "snd y"] body start(5)
  show "tree_ok (snd y)" by simp
qed

lemma add_keeps [p_rules]:
  assumes "env_proper env" and "dotless p" and "proper_uuid u \<or> h = Root \<and> u = []"
  shows "p_keeps tree_ok (add env h p u rec)"
  using add_keeps_result assms by (intro p_keepsI) fastforce

section \<open>The operations\<close>

lemma with_context_keeps [p_rules]: "p_keeps tree_ok f \<Longrightarrow> p_keeps tree_ok (with_context m c a f)"
proof (rule p_keepsI)
  fix s r s' assume f: "p_keeps tree_ok f" and s: "tree_ok s" "with_context m c a f s = Some (r, s')" "defined r"
  let ?s = "s\<lparr>cx_mode := m, cx_stack := [c], cx_agent := a, cx_events := [], cx_quiet := False, cx_added := 0,
    cx_removed := 0, cx_updated := 0, cx_status_changed := 0\<rparr>"
  have "tree_ok ?s" using s(1) by (rule tree_ok_cong [rotated 3]) simp_all
  from p_keepsD [OF f this] s(2,3) show "tree_ok s'" by (simp add: with_context_def)
qed

lemma notify_context_keeps [p_rules]: "p_keeps tree_ok notify_context"
  by (rule p_keeps_start [where m = "\<lambda>s. notify (cx_events s)"]) (simp_all add: notify_context_def p_rules)

lemma poll_keeps [p_rules]:
  assumes "env_proper env" and "dotless p" and "proper_uuid u \<or> h = Root \<and> u = []"
  shows "p_keeps tree_ok (poll env h a p pc u)"
  unfolding poll_def by (auto intro!: p_rules assms split: exn.split)

lemma load_keeps [p_rules]:
  assumes "env_proper env" and "dotless p" and "proper_uuid u"
  shows "p_keeps tree_ok (load env h a p pc u rec)"
  unfolding load_def using assms by (intro p_rules) simp_all

lemma load_siblings_keeps [p_rules]:
  assumes "env_proper env" and "dotless p"
  shows "p_keeps tree_ok (load_siblings env p cs epochs)"
proof (induction cs arbitrary: epochs)
  case (Cons c cs)
  have inner: "p_keeps tree_ok (p_bind (p_each (\<lambda>u. p_bind (add env h p u False) (\<lambda>_. p_return ())) us) (\<lambda>_. load_siblings env p cs e))"
    if "\<forall>u \<in> set us. proper_uuid u" for h us e
    using that assms Cons.IH by (intro p_rules) auto
  show ?case
    unfolding load_siblings.simps
    by (rule p_keeps_bind [OF p_keeps_basic(4)], rule p_keeps_bind [OF p_keeps_basic(3)],
        rule p_keeps_bind_result [OF fetch_sibling_uuids_proper [OF assms(1)]], rule inner)
qed (simp add: p_rules)

lemma load_collection_keeps [p_rules]:
  assumes "env_proper env" and "proper_uuid p"
  shows "p_keeps tree_ok (load_collection env h a p pc ty rec)"
proof -
  have p: "dotless p" using assms(2) proper_LAST by blast
  have "adder_keeps (\<lambda>h p u. add env h p u True)" using assms(1) by (auto simp: adder_keeps_def intro: add_keeps)
  from fetch_subcomponents_keeps [OF assms(1) this p] p show ?thesis
    unfolding load_collection_def Let_def by (auto intro!: p_rules assms)
qed

lemma handle_add_keeps [p_rules]:
  assumes "env_proper env" and "dotless (ed_parent ev)" and "proper_uuid (ed_component ev)"
  shows "p_keeps tree_ok (handle_add env h ev)"
  unfolding handle_add_def
proof (rule p_keeps_catch)
  have "p_keeps tree_ok (p_bind (add env h (ed_parent ev) (ed_component ev) True) (\<lambda>_. p_bind notify_context (\<lambda>_. p_return True)))"
    using assms by (intro p_rules) simp_all
  then show "p_keeps tree_ok (p_bind (p_get (\<lambda>s. entry_exists (ed_component ev) (manager_of (model_of h) s))) (\<lambda>known.
          if known then p_return True
          else p_bind (add env h (ed_parent ev) (ed_component ev) True) (\<lambda>_. p_bind notify_context (\<lambda>_. p_return True))))"
    by (intro p_keeps_bind p_keeps_basic) (simp add: p_keeps_basic)
next
  fix e
  have "p_keeps tree_ok (p_bind (do_remove env h (ed_component ev)) (\<lambda>_. p_return False))"
    using proper_LAST [OF assms(3)] by (intro p_rules) simp
  then show "p_keeps tree_ok (case e of AgentUnreachable _ \<Rightarrow> p_bind (do_remove env h (ed_component ev)) (\<lambda>_. p_return False)
        | _ \<Rightarrow> p_throw e)"
    by (cases e) (simp_all add: p_keeps_basic)
qed simp

lemma handle_remove_keeps [p_rules]:
  assumes "proper_uuid (ed_component ev)"
  shows "p_keeps tree_ok (handle_remove env h ev)"
  unfolding handle_remove_def
proof (rule p_keeps_catch)
  show "p_keeps tree_ok (p_bind (remove env h (ed_component ev)) (\<lambda>_. p_bind notify_context (\<lambda>_. p_return True)))"
    using proper_LAST [OF assms] by (intro p_rules) simp
next
  fix e
  show "p_keeps tree_ok (case e of
          Gami g \<Rightarrow> if gami_code g = INVALID_VALUE \<or> gami_code g = NOT_FOUND then p_return True else p_throw e
        | _ \<Rightarrow> p_throw e)"
    by (cases e) (simp_all add: p_keeps_basic)
qed simp

lemma handle_update_keeps [p_rules]:
  assumes "env_proper env" and "dotless (ed_parent ev)" and "proper_uuid (ed_component ev)"
  shows "p_keeps tree_ok (handle_update env h ev)"
proof -
  have "p_keeps tree_ok (p_bind (add env h (ed_parent ev) (ed_component ev) (h = Zone)) (\<lambda>_. p_bind notify_context (\<lambda>_. p_return True)))"
    using assms by (intro p_rules) simp_all
  then show ?thesis unfolding handle_update_def by (intro p_keeps_bind p_keeps_basic) (simp add: p_keeps_basic)
qed

lemma forward_event_keeps [p_rules]: "p_keeps tree_ok (forward_event env ty origin content f)"
  by (rule p_keeps_start [where m = "\<lambda>s. p_bind (notify [f (new_event_at env 0 ty origin s\<lparr>ev_message := content\<rparr>)]) (\<lambda>_. p_return True)"])
    (simp_all add: forward_event_def p_rules)

lemma handle_keeps [p_rules]:
  assumes "env_proper env" and "dotless (ed_parent ev)" and "proper_uuid (ed_component ev)"
  shows "p_keeps tree_ok (handle env h a ev)"
proof (rule p_keeps_start [where m = "\<lambda>s. with_context EVENT (find_component env (ed_parent ev) s) a
      (p_catch (handle_notification env h ev) (\<lambda>e. case e of Undefined _ \<Rightarrow> p_throw e | _ \<Rightarrow> p_return False))"])
  have "p_keeps tree_ok (handle_notification env h ev)"
    unfolding handle_notification_def by (cases "ed_notification ev") (simp_all add: p_rules assms)
  moreover have "p_keeps tree_ok (case e of Undefined _ \<Rightarrow> p_throw e | _ \<Rightarrow> p_return False)" for e
    by (cases e) (simp_all add: p_keeps_basic)
  ultimately show "p_keeps tree_ok (with_context EVENT (find_component env (ed_parent ev) s) a
      (p_catch (handle_notification env h ev) (\<lambda>e. case e of Undefined _ \<Rightarrow> p_throw e | _ \<Rightarrow> p_return False)))" for s
    by (intro with_context_keeps p_keeps_catch) simp_all
qed (simp add: handle_def)

lemma process_event_keeps [p_rules]:
  assumes "env_proper env" and "dotless (ed_parent ev)" and "proper_uuid (ed_component ev)"
  shows "p_keeps tree_ok (process_event env ev)"
proof (rule p_keeps_start [where m = "\<lambda>s. if ed_gami_id ev \<notin> set (h_agents s) then p_return ()
      else p_catch
        (p_bind (p_result (\<lambda>_. get_handler (ed_type ev))) (\<lambda>h. p_bind (handle env h (ed_gami_id ev) ev) (\<lambda>_. p_return ())))
        (\<lambda>e. case e of Undefined _ \<Rightarrow> p_throw e | _ \<Rightarrow> p_return ())"])
  have "p_keeps tree_ok (case e of Undefined _ \<Rightarrow> p_throw e | _ \<Rightarrow> p_return ())" for e
    by (cases e) (simp_all add: p_keeps_basic)
  then have "p_keeps tree_ok (p_catch
        (p_bind (p_result (\<lambda>_. get_handler (ed_type ev))) (\<lambda>h. p_bind (handle env h (ed_gami_id ev) ev) (\<lambda>_. p_return ())))
        (\<lambda>e. case e of Undefined _ \<Rightarrow> p_throw e | _ \<Rightarrow> p_return ()))"
    by (intro p_keeps_catch p_keeps_bind p_keeps_basic handle_keeps assms) simp_all
  then show "p_keeps tree_ok (if ed_gami_id ev \<notin> set (h_agents s) then p_return ()
      else p_catch
        (p_bind (p_result (\<lambda>_. get_handler (ed_type ev))) (\<lambda>h. p_bind (handle env h (ed_gami_id ev) ev) (\<lambda>_. p_return ())))
        (\<lambda>e. case e of Undefined _ \<Rightarrow> p_throw e | _ \<Rightarrow> p_return ()))" for s
    by (simp add: p_keeps_basic)
qed (simp add: process_event_def)

lemma poll_agents_keeps [p_rules]:
  assumes "env_proper env"
  shows "p_keeps tree_ok (poll_agents env)"
proof (rule p_keeps_start [where m = "\<lambda>s. p_each (\<lambda>a. p_catch (poll env Root a [] NoComponent [])
         (\<lambda>e. case e of AgentUnreachable _ \<Rightarrow> p_return () | _ \<Rightarrow> p_throw e)) (h_agents s)"])
  have "p_keeps tree_ok (case e of AgentUnreachable _ \<Rightarrow> p_return () | _ \<Rightarrow> p_throw e)" for e
    by (cases e) (simp_all add: p_keeps_basic)
  then show "p_keeps tree_ok (p_each (\<lambda>a. p_catch (poll env Root a [] NoComponent [])
         (\<lambda>e. case e of AgentUnreachable _ \<Rightarrow> p_return () | _ \<Rightarrow> p_throw e)) (h_agents s))" for s
    using assms by (intro p_keeps_each p_keeps_catch poll_keeps) simp_all
qed (simp add: poll_agents_def)

section \<open>What the service goes through\<close>

text \<open>The state after the start, with the directory there is: the watcher first marks all of it as not valid.\<close>

definition started_state :: "int \<Rightarrow> int \<Rightarrow> nat \<Rightarrow> db_store \<Rightarrow> handler_state" where
  "started_state now outdated calls store =
     \<lparr>h_managers = \<lambda>_. new_manager, h_ids = \<lparr>is_store = snd (invalidate_all now outdated store), is_memos = \<lambda>_. []\<rparr>,
      h_links = \<lambda>_. [], h_subs = \<lambda>_. [], h_agents = [], h_error_since = \<lambda>_. None, h_notified = [], h_completed = [],
      h_calls = calls, cx_mode = EVENT, cx_stack = [], cx_agent = [], cx_events = [], cx_quiet = False,
      cx_added = 0, cx_removed = 0, cx_updated = 0, cx_status_changed = 0\<rparr>"

inductive tree_step :: "handler_env \<Rightarrow> handler_state \<Rightarrow> handler_state \<Rightarrow> bool" for env where
  registered: "tree_step env s (s\<lparr>h_agents := h_agents s @ [a]\<rparr>)"
| polled: "poll_agents env s = Some (r, s') \<Longrightarrow> defined r \<Longrightarrow> tree_step env s s'"
| told: "process_event env ev s = Some (r, s') \<Longrightarrow> defined r \<Longrightarrow> dotless (ed_parent ev) \<Longrightarrow> proper_uuid (ed_component ev)
    \<Longrightarrow> tree_step env s s'"
| loaded: "load env h a p pc u rec s = Some (r, s') \<Longrightarrow> defined r \<Longrightarrow> dotless p \<Longrightarrow> proper_uuid u \<Longrightarrow> tree_step env s s'"
| collection_loaded: "load_collection env h a p pc ty rec s = Some (r, s') \<Longrightarrow> defined r \<Longrightarrow> proper_uuid p \<Longrightarrow> tree_step env s s'"
| cleaned: "clean_resource_for_agent env a s = Some (r, s') \<Longrightarrow> defined r \<Longrightarrow> tree_step env s s'"
| wiped: "retention_execute env interval outdated s = Some (r, s') \<Longrightarrow> tree_step env s s'"
| restarted: "tree_step env s (started_state now outdated (h_calls s) (is_store (h_ids s)))"

inductive_cases tree_stepE: "tree_step env s s'"

lemma tree_ok_wiped:
  assumes "tree_ok s"
  shows "tree_ok (s\<lparr>h_ids := (h_ids s)\<lparr>is_store := snd (remove_outdated now outdated (is_store (h_ids s)))\<rparr>\<rparr>)"
proof -
  let ?ids = "(h_ids s)\<lparr>is_store := snd (remove_outdated now outdated (is_store (h_ids s)))\<rparr>"
  have "ids_ok (policy_of c) (id_part c ?ids)" for c
  proof -
    have "ids_ok (policy_of c) (id_part c (h_ids s))" using assms by (simp add: tree_ok_def id_service_ok_def)
    from id_step_ok [OF id_step.wiped [of _ _ now outdated] policy_of_ok this] show ?thesis by (simp add: id_part_def)
  qed
  then show ?thesis
    using assms by (simp add: tree_ok_def id_service_ok_def part_ok_def id_owner_def)
qed

lemma tree_ok_started:
  assumes "id_service_ok \<lparr>is_store = store, is_memos = m\<rparr>"
  shows "tree_ok (started_state now outdated calls store)"
proof -
  have "ids_ok (policy_of c) (id_part c \<lparr>is_store = snd (invalidate_all now outdated store), is_memos = \<lambda>_. []\<rparr>)" for c
  proof -
    have "ids_ok (policy_of c) (id_part c \<lparr>is_store = store, is_memos = m\<rparr>)" using assms by (simp add: id_service_ok_def)
    from id_step_ok [OF id_step.restarted [of _ _ now outdated] policy_of_ok this] show ?thesis by (simp add: id_part_def)
  qed
  then show ?thesis
    by (simp add: tree_ok_def id_service_ok_def part_ok_def started_state_def manager_of_def new_manager_def numbered_def)
qed

lemma tree_step_ok:
  assumes "tree_step env s s'" and "env_proper env" and "tree_ok s"
  shows "tree_ok s'"
  using assms(1)
proof cases
  case (registered a)
  then show ?thesis using tree_ok_cong [OF _ _ _ assms(3), of s'] by simp
next
  case (polled r)
  then show ?thesis using p_keepsD [OF poll_agents_keeps [OF assms(2)] assms(3)] by blast
next
  case (told ev r)
  then show ?thesis using p_keepsD [OF process_event_keeps [OF assms(2)] assms(3)] by blast
next
  case (loaded h a p pc u rec r)
  then show ?thesis using p_keepsD [OF load_keeps [OF assms(2)] assms(3)] by blast
next
  case (collection_loaded h a p pc ty rec r)
  then show ?thesis using p_keepsD [OF load_collection_keeps [OF assms(2)] assms(3)] by blast
next
  case (cleaned a r)
  then show ?thesis using p_keepsD [OF clean_resource_for_agent_keeps assms(3)] by blast
next
  case (wiped interval outdated r)
  then show ?thesis
    using tree_ok_wiped [OF assms(3), of "env_now env (h_calls s)" outdated] assms(3)
    by (auto simp: retention_execute_def on_directory_def p_throw_def split: if_splits prod.splits)
next
  case (restarted now outdated)
  have "id_service_ok \<lparr>is_store = is_store (h_ids s), is_memos = is_memos (h_ids s)\<rparr>"
    using assms(3) by (cases "h_ids s") (simp add: tree_ok_def)
  then show ?thesis using restarted tree_ok_started by blast
qed

lemma tree_reachable_ok:
  assumes "(tree_step env)\<^sup>*\<^sup>* (started_state now outdated calls []) s" and "env_proper env"
  shows "tree_ok s"
  using assms(1)
proof (induction rule: rtranclp_induct)
  case base
  show ?case using tree_ok_started new_id_service_ok unfolding new_id_service_def by blast
qed (use tree_step_ok assms(2) in blast)

section \<open>Addresses\<close>

lemma find_unique:
  assumes "r \<in> set rs" and "P r" and "\<And>r'. r' \<in> set rs \<Longrightarrow> P r' \<Longrightarrow> get_uuid r' = get_uuid r"
  shows "\<exists>r'. List.find P rs = Some r' \<and> get_uuid r' = get_uuid r"
proof -
  have "List.find P rs \<noteq> None" using assms(1,2) by (auto simp: find_None_iff)
  then obtain r' where r': "List.find P rs = Some r'" by blast
  then have "r' \<in> set rs" "P r'" by (auto simp: find_Some_iff)
  with assms(3) r' show ?thesis by blast
qed

lemma addresses_law:
  assumes "tree_ok s" and "r \<in> set (gm_data (manager_of c s))"
  shows "uuid_to_rest_id (get_uuid r) (manager_of c s) = Inr (r_id r)"
    and "r_parent r \<noteq> [] \<Longrightarrow> rest_id_to_uuid n (r_id r) (r_parent r) (manager_of c s) = Inr (get_uuid r)"
    and "c \<in> set shared_components \<Longrightarrow> rest_id_to_uuid n (r_id r) [] (manager_of c s) = Inr (get_uuid r)"
proof -
  let ?rs = "gm_data (manager_of c s)"
  have t: "table_ok ?rs" and num: "numbered (id_owner c (h_ids s)) (id_zone c) ?rs"
    using assms(1) by (simp_all add: tree_ok_def part_ok_def)
  have "get_uuid r \<noteq> []" using tree_ok_proper [OF assms] proper_LAST by blast
  then have "find_entry (get_uuid r) ?rs = Some r" using find_entry_iff [OF t] assms(2) by blast
  then show "uuid_to_rest_id (get_uuid r) (manager_of c s) = Inr (r_id r)" by (simp add: uuid_to_rest_id_def)
  note same = ids.numbers_unique [OF num _ assms(2)]
  have "\<exists>r'. List.find (\<lambda>r'. r_parent r' = r_parent r \<and> r_id r' = r_id r) ?rs = Some r' \<and> get_uuid r' = get_uuid r"
    using same by (intro find_unique assms(2)) auto
  then show "r_parent r \<noteq> [] \<Longrightarrow> rest_id_to_uuid n (r_id r) (r_parent r) (manager_of c s) = Inr (get_uuid r)"
    by (auto simp: rest_id_to_uuid_def find_uuid_by_id_and_parent_def)
  assume "c \<in> set shared_components"
  then have "id_zone c p = []" for p by (simp add: id_zone_def zone_parent_def policy_of_def)
  then have "\<exists>r'. List.find (\<lambda>r'. r_id r' = r_id r) ?rs = Some r' \<and> get_uuid r' = get_uuid r"
    using same by (intro find_unique assms(2)) auto
  then show "rest_id_to_uuid n (r_id r) [] (manager_of c s) = Inr (get_uuid r)"
    by (auto simp: rest_id_to_uuid_def find_uuid_by_id_def)
qed

text \<open>
  C16: whatever the agents answer and tell, and however often they are lost, the service is restarted and resources come and
  go: no uuid is twice in a table, a resource is found by its uuid, and its number below its parent (for the kinds of the
  root: its number alone) leads to it and to no other.
\<close>

theorem resources_addressed:
  assumes "(tree_step env)\<^sup>*\<^sup>* (started_state now outdated calls []) s" and "env_proper env"
    and "r \<in> set (gm_data (manager_of c s))"
  shows "distinct (map get_uuid (gm_data (manager_of c s)))
    \<and> uuid_to_rest_id (get_uuid r) (manager_of c s) = Inr (r_id r)
    \<and> (r_parent r \<noteq> [] \<longrightarrow> rest_id_to_uuid n (r_id r) (r_parent r) (manager_of c s) = Inr (get_uuid r))
    \<and> (c \<in> set shared_components \<longrightarrow> rest_id_to_uuid n (r_id r) [] (manager_of c s) = Inr (get_uuid r))"
proof -
  have ok: "tree_ok s" by (rule tree_reachable_ok [OF assms(1,2)])
  then have "distinct (map get_uuid (gm_data (manager_of c s)))" using tree_ok_table by (auto simp: table_ok_def)
  with addresses_law [OF ok assms(3)] show ?thesis by blast
qed

end
