(* ===== verification/Resource_Removal.thy ===== *)
theory Resource_Removal
  imports Resource_Tree
begin

text \<open>
  What a removal takes away: exactly the resources below the one that is removed, as far as the handlers have learned of each
  other, with their numbers; and what an agent that is gone takes with it. The order in which the code walks is
  shown to end, as long as no resource is below itself.
\<close>

section \<open>Subtrees\<close>

type_synonym node = "component \<times> string"

text \<open>A resource of a handler, and one in the table of a handler it has learned of that has it as its parent.\<close>

definition below_rel :: "handler_state \<Rightarrow> (node \<times> node) set" where
  "below_rel s = {((h, u), (c, v)). c \<in> set (h_subs s h) \<and> (\<exists>r \<in> set (gm_data (manager_of c s)). get_uuid r = v \<and> r_parent r = u)}"

definition subtree :: "handler_state \<Rightarrow> component \<Rightarrow> string \<Rightarrow> node set" where
  "subtree s h u = (below_rel s)\<^sup>* `` {(h, u)}"

definition child_rel :: "handler_state \<Rightarrow> (string \<times> string) set" where
  "child_rel s = {(get_uuid r, r_parent r) | c r. r \<in> set (gm_data (manager_of c s))}"

text \<open>The state without some resources, and what becomes of the numbers.\<close>

definition prune :: "node set \<Rightarrow> handler_state \<Rightarrow> handler_state" where
  "prune Y s = s\<lparr>h_managers := \<lambda>c. (h_managers s c)\<lparr>gm_data := filter (\<lambda>r. (c, get_uuid r) \<notin> Y) (gm_data (h_managers s c))\<rparr>\<rparr>"

definition given_back :: "node set \<Rightarrow> handler_state \<Rightarrow> id_service \<Rightarrow> bool" where
  "given_back Y s ids \<longleftrightarrow> (\<forall>c.
     (\<forall>r \<in> set (gm_data (manager_of c s)). (c, get_uuid r) \<in> Y \<longrightarrow> id_owner c ids (id_zone c (r_parent r)) (r_id r) = []) \<and>
     (\<forall>q j. id_owner c (h_ids s) q j = [] \<longrightarrow> id_owner c ids q j = []))"

definition pruned :: "node set \<Rightarrow> handler_state \<Rightarrow> handler_state \<Rightarrow> bool" where
  "pruned Y s s' \<longleftrightarrow> s' = (prune Y s)\<lparr>h_ids := h_ids s'\<rparr> \<and> given_back Y s (h_ids s')"

definition removes :: "node set \<Rightarrow> (handler_state, unit) prog \<Rightarrow> handler_state \<Rightarrow> bool" where
  "removes Y m s \<longleftrightarrow> (\<exists>s'. m s = Some (Inr (), s') \<and> pruned Y s s' \<and> tree_ok s')"

lemma prune_simps [simp]:
  "gm_data (manager_of c (prune Y s)) = filter (\<lambda>r. (c, get_uuid r) \<notin> Y) (gm_data (manager_of c s))"
  "h_subs (prune Y s) = h_subs s" "h_ids (prune Y s) = h_ids s"
  by (simp_all add: prune_def manager_of_def)

lemma prune_prune: "prune Z ((prune Y s)\<lparr>h_ids := ids\<rparr>) = (prune (Y \<union> Z) s)\<lparr>h_ids := ids\<rparr>"
  by (simp add: prune_def fun_eq_iff filter_filter conj_commute)

lemma pruned_data:
  assumes "pruned Y s s'"
  shows "gm_data (manager_of c s') = filter (\<lambda>r. (c, get_uuid r) \<notin> Y) (gm_data (manager_of c s))" and "h_subs s' = h_subs s"
proof -
  obtain ids where s': "s' = (prune Y s)\<lparr>h_ids := ids\<rparr>" using assms unfolding pruned_def by blast
  show "gm_data (manager_of c s') = filter (\<lambda>r. (c, get_uuid r) \<notin> Y) (gm_data (manager_of c s))" "h_subs s' = h_subs s"
    by (simp_all add: s')
qed

lemma pruned_nothing: "pruned {} s s"
  by (simp add: pruned_def prune_def given_back_def)

lemma pruned_trans:
  assumes "pruned Y s s1" and "pruned Z s1 s2"
  shows "pruned (Y \<union> Z) s s2"
proof -
  have "s2 = (prune Z ((prune Y s)\<lparr>h_ids := h_ids s1\<rparr>))\<lparr>h_ids := h_ids s2\<rparr>"
    using assms unfolding pruned_def by metis
  then have "s2 = (prune (Y \<union> Z) s)\<lparr>h_ids := h_ids s2\<rparr>" by (simp add: prune_prune)
  moreover have "given_back (Y \<union> Z) s (h_ids s2)"
    unfolding given_back_def
  proof (intro allI conjI ballI impI)
    fix c q j assume "id_owner c (h_ids s) q j = []"
    with assms show "id_owner c (h_ids s2) q j = []" by (simp add: pruned_def given_back_def)
  next
    fix c r assume r: "r \<in> set (gm_data (manager_of c s))" "(c, get_uuid r) \<in> Y \<union> Z"
    show "id_owner c (h_ids s2) (id_zone c (r_parent r)) (r_id r) = []"
    proof (cases "(c, get_uuid r) \<in> Y")
      case True
      with r(1) assms show ?thesis by (simp add: pruned_def given_back_def)
    next
      case False
      with r have "r \<in> set (gm_data (manager_of c s1))" "(c, get_uuid r) \<in> Z" by (simp_all add: pruned_data(1) [OF assms(1)])
      with assms(2) show ?thesis by (simp add: pruned_def given_back_def)
    qed
  qed
  ultimately show ?thesis by (simp add: pruned_def)
qed

lemma below_rel_pruned:
  assumes "pruned Y s s'"
  shows "below_rel s' = {(a, b) \<in> below_rel s. b \<notin> Y}"
  using pruned_data [OF assms] by (auto simp: below_rel_def)

text \<open>Walking in a graph from which a closed set was taken.\<close>

lemma closed_reach:
  assumes "R `` Y \<subseteq> Y"
  shows "Y \<union> {(a, b) \<in> R. b \<notin> Y}\<^sup>* `` {x} = Y \<union> R\<^sup>* `` {x}"
proof -
  let ?R = "{(a, b) \<in> R. b \<notin> Y}"
  have "y \<in> Y \<or> (x, y) \<in> ?R\<^sup>*" if "(x, y) \<in> R\<^sup>*" for y
    using that
  proof (induction rule: rtrancl_induct)
    case (step y z)
    show ?case
    proof (cases "z \<in> Y")
      case False
      with step assms have "y \<notin> Y" by blast
      with step False show ?thesis by (auto intro: rtrancl_into_rtrancl)
    qed simp
  qed simp
  moreover have "?R\<^sup>* \<subseteq> R\<^sup>*" by (rule rtrancl_mono) blast
  ultimately show ?thesis by blast
qed

section \<open>Ranks\<close>

text \<open>Where no resource is below itself, each has a rank below that of its parent.\<close>

definition ranked :: "(string \<Rightarrow> nat) \<Rightarrow> handler_state \<Rightarrow> bool" where
  "ranked f s \<longleftrightarrow> (\<forall>c. \<forall>r \<in> set (gm_data (manager_of c s)). f (get_uuid r) < f (r_parent r))"

lemma component_listed: "c \<in> set all_components"
  by (cases c) (simp_all add: all_components_def)

lemma finite_components: "finite (UNIV :: component set)"
proof -
  have "UNIV \<subseteq> set all_components" using component_listed by blast
  then show ?thesis by (rule finite_subset) simp
qed

lemma finite_child_rel: "finite (child_rel s)"
proof -
  have "child_rel s = (\<Union>c. (\<lambda>r. (get_uuid r, r_parent r)) ` set (gm_data (manager_of c s)))"
    by (auto simp: child_rel_def)
  then show ?thesis by (simp add: finite_components)
qed

lemma rank_exists:
  assumes "finite R" and "acyclic R"
  obtains f :: "'a \<Rightarrow> nat" where "\<And>a b. (a, b) \<in> R \<Longrightarrow> f a < f b"
proof
  fix a b assume ab: "(a, b) \<in> R"
  have fin: "finite {w. (w, b) \<in> R\<^sup>+}"
    by (rule finite_subset [of _ "fst ` R\<^sup>+"]) (force intro: rev_image_eqI, simp add: assms(1))
  have "a \<notin> {w. (w, a) \<in> R\<^sup>+}" using assms(2) by (simp add: acyclic_def)
  moreover have "a \<in> {w. (w, b) \<in> R\<^sup>+}" using ab by blast
  moreover have "{w. (w, a) \<in> R\<^sup>+} \<subseteq> {w. (w, b) \<in> R\<^sup>+}" using ab by (auto intro: trancl_into_trancl)
  ultimately have "{w. (w, a) \<in> R\<^sup>+} \<subset> {w. (w, b) \<in> R\<^sup>+}" by blast
  with fin show "card {w. (w, a) \<in> R\<^sup>+} < card {w. (w, b) \<in> R\<^sup>+}" by (rule psubset_card_mono)
qed

lemma ranked_exists:
  assumes "acyclic (child_rel s)"
  obtains f where "ranked f s"
proof -
  obtain f :: "string \<Rightarrow> nat" where "\<And>a b. (a, b) \<in> child_rel s \<Longrightarrow> f a < f b"
    using rank_exists [OF finite_child_rel assms] by blast
  then show ?thesis by (intro that [of f]) (auto simp: ranked_def child_rel_def)
qed

lemma acyclic_ranked: "(\<And>c r. r \<in> set (gm_data (manager_of c s)) \<Longrightarrow> f (get_uuid r) < (f (r_parent r) :: nat)) \<Longrightarrow> acyclic (child_rel s)"
  by (rule wf_acyclic, rule wf_subset [OF wf_measure [of f]]) (auto simp: child_rel_def)

lemma ranked_pruned: "ranked f s \<Longrightarrow> pruned Y s s' \<Longrightarrow> ranked f s'"
  using pruned_data(1) by (auto simp: ranked_def)

lemma ranked_edge: "ranked f s \<Longrightarrow> (x, y) \<in> below_rel s \<Longrightarrow> f (snd y) < f (snd x)"
  by (auto simp: ranked_def below_rel_def)

lemma ranked_walk:
  assumes "ranked f s" and "(x, y) \<in> (below_rel s)\<^sup>*"
  shows "f (snd y) \<le> f (snd x)"
  using assms(2) by (induction rule: rtrancl_induct) (use ranked_edge [OF assms(1)] in fastforce)+

lemma ranked_path:
  assumes "ranked f s" and "(x, y) \<in> (below_rel s)\<^sup>+"
  shows "f (snd y) < f (snd x)"
proof -
  obtain z where "(x, z) \<in> (below_rel s)\<^sup>*" "(z, y) \<in> below_rel s" using assms(2) by (metis tranclD2)
  with ranked_edge [OF assms(1)] ranked_walk [OF assms(1)] show ?thesis by fastforce
qed

text \<open>A resource has one parent, so of two children of one none is below the other.\<close>

lemma siblings_apart:
  assumes "ranked f s" and "tree_ok s" and "((h, u), (c, v)) \<in> below_rel s" and "((h, u), (c, w)) \<in> below_rel s" and "v \<noteq> w"
  shows "((c, v), (c, w)) \<notin> (below_rel s)\<^sup>*"
proof
  assume "((c, v), (c, w)) \<in> (below_rel s)\<^sup>*"
  with assms(5) obtain z where z: "((c, v), z) \<in> (below_rel s)\<^sup>*" "(z, (c, w)) \<in> below_rel s"
    by (auto elim: rtranclE)
  obtain h' p where zp: "z = (h', p)" by (cases z)
  have "p = u"
    using z(2) assms(4) tree_ok_table [OF assms(2), of c] unfolding zp below_rel_def table_ok_def
    by (auto simp: distinct_map dest: inj_onD)
  with ranked_walk [OF assms(1) z(1)] ranked_edge [OF assms(1,3)] show False by (simp add: zp)
qed

section \<open>The removal of a subtree\<close>

lemma remove_single_prunes:
  assumes "tree_ok s" and "r \<in> set (gm_data (manager_of (model_of h) s))" and "get_uuid r = u"
  shows "removes {(model_of h, u)} (remove_single env h u) s"
proof -
  let ?c = "model_of h" and ?now = "env_now env (h_calls s)"
  have u: "proper_uuid u" "dotless (r_parent r)" using tree_ok_proper [OF assms(1,2)] assms(3) by auto
  have t: "table_ok (gm_data (manager_of ?c s))" by (rule tree_ok_table [OF assms(1)])
  have nonempty: "u \<noteq> []" using u(1) proper_LAST by blast
  have ids: "id_service_ok (h_ids s)" and num: "numbered (id_owner ?c (h_ids s)) (id_zone ?c) (gm_data (manager_of ?c s))"
    using assms(1) by (simp_all add: tree_ok_def part_ok_def)
  have own: "id_owner ?c (h_ids s) (id_zone ?c (r_parent r)) (r_id r) = u" using num assms(2,3) by (auto simp: numbered_def)
  note law = release_id_ok [OF ids u own, where now = ?now]
  let ?ids = "snd (release_id ?c ?now u (r_parent r) (h_ids s))"
  let ?s = "(set_manager ?c (remove_entry u (manager_of ?c s)) s)\<lparr>h_ids := ?ids\<rparr>"
  have "find_entry u (gm_data (manager_of ?c s)) = Some r" using find_entry_iff [OF t nonempty] assms(2,3) by blast
  then have run: "remove_single env h u s = Some (Inr (), ?s)"
    using law(4) by (simp add: remove_single_def p_bind_def p_result_def get_entry_def p_modify_def with_ids_eq)
      (simp add: set_manager_def)
  have "?s = (prune {(?c, u)} s)\<lparr>h_ids := ?ids\<rparr>"
    using erase_entry_filter [OF t nonempty]
    by (simp add: prune_def set_manager_def remove_entry_def manager_of_def fun_eq_iff)
  moreover have "given_back {(?c, u)} s ?ids"
    unfolding given_back_def
  proof (intro allI conjI ballI impI)
    fix d q j assume "id_owner d (h_ids s) q j = []"
    then show "id_owner d ?ids q j = []" using law(2) law(3) by (cases "d = ?c") simp_all
  next
    fix d e assume e: "e \<in> set (gm_data (manager_of d s))" "(d, get_uuid e) \<in> {(?c, u)}"
    then have "e = r" using t assms(2,3) by (auto simp: table_ok_def distinct_map dest: inj_onD)
    with e own law(2) show "id_owner d ?ids (id_zone d (r_parent e)) (r_id e) = []" by simp
  qed
  ultimately have "pruned {(?c, u)} s ?s" by (simp add: pruned_def)
  with run tree_ok_released [OF assms] show ?thesis unfolding removes_def by blast
qed

text \<open>
  The walk below a resource: some of what is below it is gone, and what is gone took with it what was below.
\<close>

definition walked :: "handler_state \<Rightarrow> node \<Rightarrow> node set \<Rightarrow> handler_state \<Rightarrow> bool" where
  "walked s n Y s' \<longleftrightarrow> pruned Y s s' \<and> tree_ok s' \<and> Y \<subseteq> (below_rel s)\<^sup>+ `` {n} \<and> below_rel s `` Y \<subseteq> Y"

lemma walked_step:
  assumes "walked s n Y s1" and "(n, (c, v)) \<in> below_rel s" and "removes (subtree s1 c v) m s1"
  shows "\<exists>s2. m s1 = Some (Inr (), s2) \<and> walked s n (Y \<union> subtree s c v) s2"
proof -
  have Y: "pruned Y s s1" "Y \<subseteq> (below_rel s)\<^sup>+ `` {n}" "below_rel s `` Y \<subseteq> Y" using assms(1) by (auto simp: walked_def)
  obtain s2 where s2: "m s1 = Some (Inr (), s2)" "pruned (subtree s1 c v) s1 s2" "tree_ok s2"
    using assms(3) unfolding removes_def by blast
  have "Y \<union> subtree s1 c v = Y \<union> subtree s c v"
    using closed_reach [OF Y(3), of "(c, v)"] by (simp add: subtree_def below_rel_pruned [OF Y(1)])
  then have "pruned (Y \<union> subtree s c v) s s2" using pruned_trans [OF Y(1) s2(2)] by simp
  moreover have "subtree s c v \<subseteq> (below_rel s)\<^sup>+ `` {n}" using assms(2) by (auto simp: subtree_def)
  moreover have "below_rel s `` subtree s c v \<subseteq> subtree s c v" by (auto simp: subtree_def)
  ultimately show ?thesis using s2 Y(2,3) by (auto simp: walked_def)
qed

lemma walk_children:
  assumes "ranked f s" and "tree_ok s" and "named_handler c"
    and IH: "\<And>v s1. f v < f u \<Longrightarrow> tree_ok s1 \<Longrightarrow> ranked f s1 \<Longrightarrow> v \<in> get_uuid ` set (gm_data (manager_of c s1))
      \<Longrightarrow> removes (subtree s1 c v) (do_remove env c v) s1"
    and "distinct vs" and "\<forall>v \<in> set vs. ((h, u), (c, v)) \<in> below_rel s \<and> (c, v) \<notin> Y" and "walked s (h, u) Y s1"
  shows "\<exists>s2 Z. p_each (do_remove env c) vs s1 = Some (Inr (), s2) \<and> walked s (h, u) Z s2 \<and> Y \<subseteq> Z \<and> (\<forall>v \<in> set vs. (c, v) \<in> Z)"
  using assms(5-)
proof (induction vs arbitrary: Y s1)
  case (Cons v vs)
  have edge: "((h, u), (c, v)) \<in> below_rel s" "(c, v) \<notin> Y" using Cons.prems(2) by simp_all
  have p: "pruned Y s s1" "tree_ok s1" using Cons.prems(3) by (simp_all add: walked_def)
  have "v \<in> get_uuid ` set (gm_data (manager_of c s1))"
    using edge pruned_data(1) [OF p(1)] by (auto simp: below_rel_def)
  moreover have "f v < f u" using ranked_edge [OF assms(1) edge(1)] by simp
  ultimately have "removes (subtree s1 c v) (do_remove env c v) s1" using p ranked_pruned [OF assms(1) p(1)] by (intro IH)
  from walked_step [OF Cons.prems(3) edge(1) this]
  obtain s2 where s2: "do_remove env c v s1 = Some (Inr (), s2)" "walked s (h, u) (Y \<union> subtree s c v) s2" by blast
  have "(c, w) \<notin> subtree s c v" if "w \<in> set vs" for w
    using siblings_apart [OF assms(1,2) edge(1)] Cons.prems(1,2) that by (auto simp: subtree_def)
  with Cons.prems s2(2) obtain s3 Z where
    "p_each (do_remove env c) vs s2 = Some (Inr (), s3)" "walked s (h, u) Z s3" "Y \<union> subtree s c v \<subseteq> Z" "\<forall>v \<in> set vs. (c, v) \<in> Z"
    using Cons.IH [of "Y \<union> subtree s c v" s2] by auto
  then show ?case using s2(1) by (auto simp: p_bind_def subtree_def)
qed (auto simp: p_return_def)

lemma children_keys:
  assumes "pruned Y s s1" and "c \<in> set (h_subs s h)"
  shows "v \<in> set (get_keys_of_parent u (\<lambda>_. True) (manager_of c s1)) \<longleftrightarrow> ((h, u), (c, v)) \<in> below_rel s \<and> (c, v) \<notin> Y"
  using assms(2) by (auto simp: get_keys_of_parent_def get_keys_def pruned_data(1) [OF assms(1)] below_rel_def)

lemma children_distinct: "tree_ok s \<Longrightarrow> distinct (get_keys_of_parent u P (manager_of c s))"
  using tree_ok_table by (auto simp: get_keys_of_parent_def get_keys_def table_ok_def intro: distinct_map_filter)

lemma named_handler_simps: "named_handler c \<Longrightarrow> model_of c = c" "named_handler c \<Longrightarrow> get_handler c = Inr c"
  by (simp_all add: named_handler_def model_of_def get_handler_def)

definition remove_children :: "handler_env \<Rightarrow> string \<Rightarrow> component \<Rightarrow> (handler_state, unit) prog" where
  "remove_children env u c = p_bind (p_result (\<lambda>_. get_handler c))
     (\<lambda>h' s'. p_each (\<lambda>u s''. do_remove env h' u s'') (get_keys_of_parent u (\<lambda>_. True) (manager_of (model_of h') s')) s')"

lemma remove_children_named:
  "named_handler c \<Longrightarrow> remove_children env u c s = p_each (do_remove env c) (get_keys_of_parent u (\<lambda>_. True) (manager_of c s)) s"
  by (simp add: remove_children_def named_handler_simps p_bind_def p_result_def)

lemma do_remove_unfold:
  "do_remove env h u s = p_bind (p_each (remove_children env u) (h_subs s h)) (\<lambda>_. remove_single env h u) s"
  by (subst do_remove.simps) (simp add: remove_children_def [abs_def])

lemma walk_below:
  assumes "ranked f s" and "tree_ok s"
    and IH: "\<And>c v s1. named_handler c \<Longrightarrow> f v < f u \<Longrightarrow> tree_ok s1 \<Longrightarrow> ranked f s1
      \<Longrightarrow> v \<in> get_uuid ` set (gm_data (manager_of c s1)) \<Longrightarrow> removes (subtree s1 c v) (do_remove env c v) s1"
    and "set cs \<subseteq> set (h_subs s h)" and "walked s (h, u) Y s1"
  shows "\<exists>s2 Z. p_each (remove_children env u) cs s1 = Some (Inr (), s2)
    \<and> walked s (h, u) Z s2 \<and> Y \<subseteq> Z \<and> (\<forall>c \<in> set cs. \<forall>v. ((h, u), (c, v)) \<in> below_rel s \<longrightarrow> (c, v) \<in> Z)"
  using assms(4-)
proof (induction cs arbitrary: Y s1)
  case (Cons c cs)
  let ?vs = "get_keys_of_parent u (\<lambda>_. True) (manager_of c s1)"
  have c: "c \<in> set (h_subs s h)" using Cons.prems(1) by simp
  then have named: "named_handler c" using assms(2) by (auto simp: tree_ok_def)
  have p: "pruned Y s s1" "tree_ok s1" using Cons.prems(2) by (simp_all add: walked_def)
  note keys = children_keys [OF p(1) c, of _ u]
  have "\<exists>s2 Z. p_each (do_remove env c) ?vs s1 = Some (Inr (), s2) \<and> walked s (h, u) Z s2 \<and> Y \<subseteq> Z \<and> (\<forall>v \<in> set ?vs. (c, v) \<in> Z)"
    using keys by (intro walk_children [OF assms(1,2) named IH [OF named] children_distinct [OF p(2)] _ Cons.prems(2)]) auto
  then obtain s2 Z where s2: "p_each (do_remove env c) ?vs s1 = Some (Inr (), s2)" "walked s (h, u) Z s2" "Y \<subseteq> Z"
    "\<forall>v \<in> set ?vs. (c, v) \<in> Z" by blast
  from Cons.IH [OF _ s2(2)] Cons.prems(1) obtain s3 X where s3:
    "p_each (remove_children env u) cs s2 = Some (Inr (), s3)" "walked s (h, u) X s3" "Z \<subseteq> X"
    "\<forall>c \<in> set cs. \<forall>v. ((h, u), (c, v)) \<in> below_rel s \<longrightarrow> (c, v) \<in> X" by auto
  have "(c, v) \<in> X" if "((h, u), (c, v)) \<in> below_rel s" for v
    using keys [of v] that s2(3,4) s3(3) by blast
  moreover have "p_each (remove_children env u) (c # cs) s1 = Some (Inr (), s3)"
    by (simp add: p_bind_def remove_children_named [OF named] s2(1) s3(1))
  ultimately show ?case using s2(3) s3(2-4) by (intro exI [of _ s3] exI [of _ X]) auto
qed (auto simp: p_return_def)

lemma do_remove_subtree:
  "tree_ok s \<Longrightarrow> ranked f s \<Longrightarrow> named_handler h \<Longrightarrow> u \<in> get_uuid ` set (gm_data (manager_of h s))
    \<Longrightarrow> removes (subtree s h u) (do_remove env h u) s"
proof (induction u arbitrary: h s rule: measure_induct_rule [of f])
  case (less u)
  let ?n = "(h, u)" and ?R = "below_rel s"
  have "walked s ?n {} s" using less.prems(1) pruned_nothing by (simp add: walked_def)
  from walk_below [OF less.prems(2,1) less.IH subset_refl this]
  obtain s2 Z where walk: "p_each (remove_children env u) (h_subs s h) s = Some (Inr (), s2)"
    and Z: "walked s ?n Z s2" "\<forall>c \<in> set (h_subs s h). \<forall>v. (?n, (c, v)) \<in> ?R \<longrightarrow> (c, v) \<in> Z" by blast
  have p: "pruned Z s s2" "tree_ok s2" "Z \<subseteq> ?R\<^sup>+ `` {?n}" "?R `` Z \<subseteq> Z" using Z(1) by (simp_all add: walked_def)
  have "?R\<^sup>+ `` {?n} \<subseteq> Z"
  proof
    fix y assume "y \<in> ?R\<^sup>+ `` {?n}"
    then have "(?n, y) \<in> ?R\<^sup>+" by simp
    then show "y \<in> Z"
    proof (induction rule: trancl_induct)
      case (base y)
      moreover have "fst y \<in> set (h_subs s h)" using base by (auto simp: below_rel_def)
      ultimately show ?case using Z(2) by (cases y) simp
    next
      case (step y z)
      with p(4) show ?case by blast
    qed
  qed
  with p(3) have whole: "Z \<union> {?n} = subtree s h u" by (auto simp: subtree_def rtrancl_eq_or_trancl)
  have "?n \<notin> Z" using ranked_path [OF less.prems(2), of ?n ?n] p(3) by auto
  then obtain r where "r \<in> set (gm_data (manager_of h s2))" "get_uuid r = u"
    using less.prems(4) pruned_data(1) [OF p(1)] by auto
  from remove_single_prunes [of s2 r h u env] this p(2) named_handler_simps(1) [OF less.prems(3)]
  obtain s3 where s3: "remove_single env h u s2 = Some (Inr (), s3)" "pruned {?n} s2 s3" "tree_ok s3"
    by (auto simp: removes_def)
  have "do_remove env h u s = Some (Inr (), s3)"
    by (simp add: do_remove_unfold p_bind_def walk s3(1))
  with s3 pruned_trans [OF p(1) s3(2)] whole show ?case by (auto simp: removes_def)
qed

section \<open>The removal of a resource\<close>

text \<open>The kinds of the two ends of a table of links, as the types of the table have them.\<close>

fun link_kinds :: "link_table \<Rightarrow> component \<times> component" where
  "link_kinds StorageSubsystemDrives = (StorageSubsystem, Drive)"
| "link_kinds DriveFunction = (Drive, PcieFunction)"
| "link_kinds ZoneEndpoint = (Zone, Endpoint)"
| "link_kinds EndpointPort = (Endpoint, Port)"
| "link_kinds PortMembersTable = (EthernetSwitchPort, EthernetSwitchPort)"
| "link_kinds AclPort = (Acl, EthernetSwitchPort)"
| "link_kinds LogicalDriveMembers = (LogicalDrive, LogicalDrive)"
| "link_kinds PhysicalDriveMembers = (LogicalDrive, PhysicalDrive)"

text \<open>The links without those that have a resource at the end of its kind.\<close>

definition links_without :: "component \<Rightarrow> string \<Rightarrow> (link_table \<Rightarrow> links) \<Rightarrow> link_table \<Rightarrow> links" where
  "links_without h u links t = link_remove_if (\<lambda>p c a. fst (link_kinds t) = h \<and> p = u \<or> snd (link_kinds t) = h \<and> c = u) (links t)"

lemma link_remove_if_none: "link_remove_if (\<lambda>p c a. False) m = m"
  by (simp add: link_remove_if_def filter_id_conv split_beta)

lemma links_withoutI:
  "(\<And>t. L t = links_without h u (h_links s) t) \<Longrightarrow> s\<lparr>h_links := L\<rparr> = s\<lparr>h_links := links_without h u (h_links s)\<rparr>"
  "(\<And>t. h_links s t = links_without h u (h_links s) t) \<Longrightarrow> s = s\<lparr>h_links := links_without h u (h_links s)\<rparr>"
proof -
  show "(\<And>t. L t = links_without h u (h_links s) t) \<Longrightarrow> s\<lparr>h_links := L\<rparr> = s\<lparr>h_links := links_without h u (h_links s)\<rparr>"
    by (rule arg_cong [where f = "\<lambda>L. s\<lparr>h_links := L\<rparr>"]) (rule ext)
  assume "\<And>t. h_links s t = links_without h u (h_links s) t"
  then have "links_without h u (h_links s) = h_links s" by (simp add: fun_eq_iff)
  then show "s = s\<lparr>h_links := links_without h u (h_links s)\<rparr>" by simp
qed

lemma unlink_links: "unlink h u s = Some (Inr (), s\<lparr>h_links := links_without h u (h_links s)\<rparr>)"
proof -
  have step: "update_links_of t f s = Some (Inr (), s\<lparr>h_links := (h_links s)(t := f (h_links s t))\<rparr>)" for t f s
    by (simp add: update_links_of_def p_modify_def)
  have sym: "(\<lambda>p c a. u = p) = (\<lambda>p c a. p = u)" "(\<lambda>p c a. u = c) = (\<lambda>p c a. c = u)" by auto
  show ?thesis
    by (cases h) (simp_all add: p_bind_def p_return_def step remove_parent_def remove_child_def sym,
      (rule links_withoutI, case_tac t; simp add: links_without_def link_remove_if_none)+)
qed

lemma pruned_links: "pruned Y s s' \<Longrightarrow> pruned Y (s\<lparr>h_links := L\<rparr>) (s'\<lparr>h_links := L\<rparr>)"
proof -
  assume p: "pruned Y s s'"
  then obtain ids where s': "s' = (prune Y s)\<lparr>h_ids := ids\<rparr>" unfolding pruned_def by blast
  from p show ?thesis by (simp add: pruned_def s') (simp add: prune_def given_back_def manager_of_def)
qed

lemma links_irrelevant [simp]:
  "manager_of c (s\<lparr>h_links := L\<rparr>) = manager_of c s" "tree_ok (s\<lparr>h_links := L\<rparr>) = tree_ok s"
  "below_rel (s\<lparr>h_links := L\<rparr>) = below_rel s" "ranked f (s\<lparr>h_links := L\<rparr>) = ranked f s"
  "subtree (s\<lparr>h_links := L\<rparr>) h u = subtree s h u"
  by (simp_all add: manager_of_def tree_ok_def below_rel_def ranked_def subtree_def)

lemma named_component: "named_handler h \<Longrightarrow> component_of h = h"
  by (auto simp: named_handler_def component_of_def model_of_def handler_components_def)

text \<open>
  C17: a resource that has a URL, where no resource is below itself, is removed with exactly what is below it as far as the
  handlers have learned of each other: every table loses these resources and no others and keeps its order, each of them
  gives its number back, the links that have the resource at the end of its kind are gone and no others, and
  clients are told once, with the URL.
\<close>

theorem remove_exactly_subtree:
  assumes "(tree_step env)\<^sup>*\<^sup>* (started_state now outdated calls []) s" and "env_proper env" and "acyclic (child_rel s)"
    and "named_handler h" and "u \<in> get_uuid ` set (gm_data (manager_of h s))" and "get_component_url h u s = Some (Inr url, s)"
  shows "\<exists>s'. remove env h u s = Some (Inr (), s')
    \<and> (\<forall>c. gm_data (manager_of c s') = filter (\<lambda>r. (c, get_uuid r) \<notin> subtree s h u) (gm_data (manager_of c s)))
    \<and> given_back (subtree s h u) s (h_ids s')
    \<and> h_links s' = links_without h u (h_links s)
    \<and> map ev_origin (h_notified s') = map ev_origin (h_notified s) @ [url]"
proof -
  obtain f where f: "ranked f s" by (rule ranked_exists [OF assms(3)])
  let ?s = "s\<lparr>h_links := links_without h u (h_links s)\<rparr>"
  have "tree_ok s" by (rule tree_reachable_ok [OF assms(1,2)])
  then have "removes (subtree s h u) (do_remove env h u) ?s"
    using do_remove_subtree [of ?s f h u env] f assms(4,5) by simp
  then obtain s1 where s1: "do_remove env h u ?s = Some (Inr (), s1)" "pruned (subtree s h u) ?s s1" by (auto simp: removes_def)
  have url: "get_component_url h u ?s = Some (Inr url, ?s)"
    using assms(6) by (auto simp: get_component_url_def)
  let ?s' = "s1\<lparr>h_notified := h_notified s1 @ [new_event_at env 0 ResourceRemoved url s1]\<rparr>"
  have "remove env h u s = Some (Inr (), ?s')"
    by (simp add: remove_def p_bind_def unlink_links named_component [OF assms(4)] url s1(1) notify_def p_modify_def)
  moreover obtain ids where s1_eq: "s1 = (prune (subtree s h u) ?s)\<lparr>h_ids := ids\<rparr>" using s1(2) unfolding pruned_def by blast
  have "h_links s1 = links_without h u (h_links s)" "h_notified s1 = h_notified s"
    by (simp_all add: s1_eq prune_def)
  moreover have "gm_data (manager_of c ?s') = filter (\<lambda>r. (c, get_uuid r) \<notin> subtree s h u) (gm_data (manager_of c s))" for c
    using pruned_data(1) [OF s1(2), of c] by (simp add: manager_of_def)
  moreover have "given_back (subtree s h u) s (h_ids s1)"
    using s1(2) by (simp add: pruned_def given_back_def manager_of_def)
  ultimately show ?thesis by (simp add: new_event_at_def new_event_def)
qed

section \<open>Resources without a URL\<close>

definition no_url_kinds :: "component list" where
  "no_url_kinds = [Fan, ThermalZone, PowerZone, PSU, Vlan, RemoteEthernetSwitch, NeighborSwitch]"


text \<open>For the other kinds the URL of an unknown resource is refused as an unknown uuid.\<close>

lemma unknown_has_no_url:
  assumes "h \<in> set handler_components" and "h \<notin> set no_url_kinds" and "find_entry u (gm_data (manager_of h s)) = None"
  shows "\<exists>msg. get_component_url (component_of h) u s = Some (Inl (invalid_uuid msg), s)"
proof -
  have "h = Manager \<or> h = Chassis \<or> h = System \<or> h = Processor \<or> h = Memory \<or> h = NetworkInterface \<or> h = StorageController
      \<or> h = StorageSubsystem \<or> h = NetworkDevice \<or> h = NetworkDeviceFunction \<or> h = Drive \<or> h = EthernetSwitch
      \<or> h = EthernetSwitchPort \<or> h = EthernetSwitchPortVlan \<or> h = Acl \<or> h = AclRule \<or> h = StaticMac \<or> h = StorageServices
      \<or> h = IscsiTarget \<or> h = LogicalDrive \<or> h = PhysicalDrive \<or> h = Switch \<or> h = Zone \<or> h = Port \<or> h = Endpoint
      \<or> h = Fabric \<or> h = PcieDevice \<or> h = PcieFunction \<or> h = Task"
    using assms(1,2) by (auto simp: handler_components_def no_url_kinds_def)
  with assms(3) show ?thesis
    by (elim disjE; simp add: get_component_url_def get_component_url_recursive.simps component_of_def model_of_def
      build_parent_path_def uuid_to_rest_id_def get_entry_def manager_of_def; blast)
qed

text \<open>
  The event that a resource is gone, of a kind that has a URL, when it is not known, counts as not processed and leaves the
  tables as they are; the handler waits for other exceptions than the one that comes.
\<close>

lemma remove_unknown_not_processed:
  assumes "ed_notification ev = Remove" and "h \<in> set handler_components" and "h \<notin> set no_url_kinds"
    and "find_entry (ed_component ev) (gm_data (manager_of h s)) = None"
  shows "\<exists>s'. handle env h a ev s = Some (Inr False, s') \<and> h_managers s' = h_managers s"
proof -
  let ?u = "ed_component ev"
  let ?s = "s\<lparr>cx_mode := EVENT, cx_stack := [find_component env (ed_parent ev) s], cx_agent := a, cx_events := [], cx_quiet := False,
    cx_added := 0, cx_removed := 0, cx_updated := 0, cx_status_changed := 0\<rparr>"
  let ?s' = "?s\<lparr>h_links := links_without h ?u (h_links ?s)\<rparr>"
  have "find_entry ?u (gm_data (manager_of h ?s')) = None" using assms(4) by (simp add: manager_of_def)
  from unknown_has_no_url [OF assms(2,3) this] obtain msg where
    "get_component_url (component_of h) ?u ?s' = Some (Inl (invalid_uuid msg), ?s')" by blast
  then have "remove env h ?u ?s = Some (Inl (invalid_uuid msg), ?s')" by (simp add: remove_def p_bind_def unlink_links)
  then have "handle_remove env h ev ?s = Some (Inl (invalid_uuid msg), ?s')"
    by (simp add: handle_remove_def p_catch_def p_bind_def invalid_uuid_def p_throw_def)
  then show ?thesis
    using assms(1) by (simp add: handle_def with_context_def p_catch_def handle_notification_def invalid_uuid_def p_return_def)
qed

section \<open>An agent that is gone\<close>

definition agent_nodes :: "component \<Rightarrow> string \<Rightarrow> handler_state \<Rightarrow> node set" where
  "agent_nodes h a s = {(model_of h, get_uuid r) | r. r \<in> set (gm_data (manager_of (model_of h) s)) \<and> r_agent r = a}"

lemma removes_each_single:
  "tree_ok s \<Longrightarrow> distinct vs \<Longrightarrow> set vs \<subseteq> get_uuid ` set (gm_data (manager_of (model_of h) s))
    \<Longrightarrow> removes ((\<lambda>v. (model_of h, v)) ` set vs) (p_each (remove_single env h) vs) s"
proof (induction vs arbitrary: s)
  case Nil
  then show ?case using pruned_nothing by (simp add: removes_def p_return_def)
next
  case (Cons v vs)
  then obtain r where "r \<in> set (gm_data (manager_of (model_of h) s))" "get_uuid r = v" by auto
  from remove_single_prunes [OF Cons.prems(1) this] obtain s1 where
    s1: "remove_single env h v s = Some (Inr (), s1)" "pruned {(model_of h, v)} s s1" "tree_ok s1"
    by (auto simp: removes_def)
  have "set vs \<subseteq> get_uuid ` set (gm_data (manager_of (model_of h) s1))"
    using Cons.prems(2,3) by (fastforce simp: pruned_data(1) [OF s1(2)])
  with Cons.IH [OF s1(3)] Cons.prems(2) obtain s2 where
    s2: "p_each (remove_single env h) vs s1 = Some (Inr (), s2)" "pruned ((\<lambda>v. (model_of h, v)) ` set vs) s1 s2" "tree_ok s2"
    by (auto simp: removes_def)
  from pruned_trans [OF s1(2) s2(2)] s1(1) s2(1,3) show ?case
    by (auto simp: removes_def p_bind_def)
qed

lemma removes_agent_resources:
  assumes "tree_ok s"
  shows "removes (agent_nodes h a s) (remove_agent_resources env h a) s"
proof -
  let ?keys = "get_keys (\<lambda>r. r_agent r = a) (manager_of (model_of h) s)"
  have "distinct ?keys" using tree_ok_table [OF assms] by (auto simp: get_keys_def table_ok_def intro: distinct_map_filter)
  moreover have "set ?keys \<subseteq> get_uuid ` set (gm_data (manager_of (model_of h) s))" by (auto simp: get_keys_def)
  moreover have "(\<lambda>v. (model_of h, v)) ` set ?keys = agent_nodes h a s" by (auto simp: get_keys_def agent_nodes_def)
  ultimately show ?thesis
    using removes_each_single [OF assms, of ?keys h env] by (simp add: removes_def remove_agent_resources_def)
qed

text \<open>The links of the agent go from some tables.\<close>

definition links_without_agent :: "link_table set \<Rightarrow> string \<Rightarrow> (link_table \<Rightarrow> links) \<Rightarrow> link_table \<Rightarrow> links" where
  "links_without_agent T a links t = (if t \<in> T then clean_links_for_agent a (links t) else links t)"

lemma clean_links_twice: "clean_links_for_agent a (clean_links_for_agent a m) = clean_links_for_agent a m"
  unfolding clean_links_for_agent_def link_remove_if_def filter_filter by (rule filter_cong) auto

lemma links_without_agent_join: "links_without_agent U a (links_without_agent T a L) = links_without_agent (T \<union> U) a L"
  by (rule ext) (simp add: links_without_agent_def clean_links_twice)

lemma clean_agent_links_run:
  "clean_agent_links h a s = Some (Inr (), s\<lparr>h_links := links_without_agent (set (agent_link_tables h)) a (h_links s)\<rparr>)"
proof -
  have step: "update_links_of t (clean_links_for_agent a) s = Some (Inr (), s\<lparr>h_links := links_without_agent {t} a (h_links s)\<rparr>)" for t s
    by (simp add: update_links_of_def p_modify_def) (rule arg_cong [where f = "\<lambda>L. s\<lparr>h_links := L\<rparr>"], auto simp: links_without_agent_def)
  have "p_each (\<lambda>t. update_links_of t (clean_links_for_agent a)) ts s
      = Some (Inr (), s\<lparr>h_links := links_without_agent (set ts) a (h_links s)\<rparr>)" for ts s
  proof (induction ts arbitrary: s)
    case Nil
    have "links_without_agent {} a (h_links s) = h_links s" by (rule ext) (simp add: links_without_agent_def)
    then show ?case by (simp add: p_return_def)
  qed (simp add: p_bind_def step links_without_agent_join)
  then show ?thesis by (simp add: clean_agent_links_def)
qed

definition agent_gone :: "node set \<Rightarrow> link_table set \<Rightarrow> string \<Rightarrow> handler_state \<Rightarrow> handler_state \<Rightarrow> bool" where
  "agent_gone Y T a s s' \<longleftrightarrow> pruned Y (s\<lparr>h_links := links_without_agent T a (h_links s)\<rparr>) s' \<and> tree_ok s'"

lemma pruned_keeps_links: "pruned Y s s' \<Longrightarrow> h_links s' = h_links s \<and> h_notified s' = h_notified s"
proof -
  assume "pruned Y s s'"
  then obtain ids where "s' = (prune Y s)\<lparr>h_ids := ids\<rparr>" unfolding pruned_def by blast
  then show ?thesis by (simp add: prune_def)
qed

lemma agent_nodes_links [simp]: "agent_nodes h a (s\<lparr>h_links := L\<rparr>) = agent_nodes h a s"
  by (simp add: agent_nodes_def)

lemma remove_agent_data_gone:
  assumes "tree_ok s"
  shows "\<exists>s'. remove_agent_data env h a s = Some (Inr (), s') \<and> agent_gone (agent_nodes h a s) (set (agent_link_tables h)) a s s'"
proof -
  let ?L = "links_without_agent (set (agent_link_tables h)) a (h_links s)"
  show ?thesis
  proof (cases "links_last h")
    case True
    obtain s1 where s1: "remove_agent_resources env h a s = Some (Inr (), s1)" "pruned (agent_nodes h a s) s s1" "tree_ok s1"
      using removes_agent_resources [OF assms, of h a env] by (auto simp: removes_def)
    from True s1(1) pruned_keeps_links [OF s1(2)]
    have "remove_agent_data env h a s = Some (Inr (), s1\<lparr>h_links := ?L\<rparr>)"
      by (simp add: remove_agent_data_def p_bind_def clean_agent_links_run)
    with pruned_links [OF s1(2), of ?L] s1(3) show ?thesis by (simp add: agent_gone_def)
  next
    case False
    have "tree_ok (s\<lparr>h_links := ?L\<rparr>)" using assms by simp
    from removes_agent_resources [OF this, of h a env] obtain s1 where
      "remove_agent_resources env h a (s\<lparr>h_links := ?L\<rparr>) = Some (Inr (), s1)" "agent_gone (agent_nodes h a s) (set (agent_link_tables h)) a s s1"
      by (auto simp: removes_def agent_gone_def)
    with False show ?thesis by (simp add: remove_agent_data_def p_bind_def clean_agent_links_run)
  qed
qed

lemma agent_gone_join:
  assumes "agent_gone Y T a s s1" and "agent_gone Z U a s1 s2"
  shows "agent_gone (Y \<union> Z) (T \<union> U) a s s2"
proof -
  let ?L = "links_without_agent (T \<union> U) a (h_links s)"
  have s1: "pruned Y (s\<lparr>h_links := links_without_agent T a (h_links s)\<rparr>) s1" using assms(1) by (simp add: agent_gone_def)
  have "links_without_agent U a (h_links s1) = ?L"
    using pruned_keeps_links [OF s1] by (simp add: links_without_agent_join)
  with assms(2) pruned_links [OF s1, of ?L] show ?thesis
    by (auto simp: agent_gone_def intro: pruned_trans)
qed

lemma remove_all_gone:
  "tree_ok s \<Longrightarrow> \<exists>s'. p_each (\<lambda>h. remove_agent_data env h a) hs s = Some (Inr (), s')
    \<and> agent_gone (\<Union>h \<in> set hs. agent_nodes h a s) (\<Union>h \<in> set hs. set (agent_link_tables h)) a s s'"
proof (induction hs arbitrary: s)
  case Nil
  have "links_without_agent {} a (h_links s) = h_links s" by (rule ext) (simp add: links_without_agent_def)
  with Nil pruned_nothing show ?case by (simp add: p_return_def agent_gone_def)
next
  case (Cons h hs)
  obtain s1 where s1: "remove_agent_data env h a s = Some (Inr (), s1)"
    "agent_gone (agent_nodes h a s) (set (agent_link_tables h)) a s s1" using remove_agent_data_gone [OF Cons.prems] by blast
  have p: "pruned (agent_nodes h a s) (s\<lparr>h_links := links_without_agent (set (agent_link_tables h)) a (h_links s)\<rparr>) s1" "tree_ok s1"
    using s1(2) by (simp_all add: agent_gone_def)
  obtain s2 where s2: "p_each (\<lambda>h. remove_agent_data env h a) hs s1 = Some (Inr (), s2)"
    "agent_gone (\<Union>h \<in> set hs. agent_nodes h a s1) (\<Union>h \<in> set hs. set (agent_link_tables h)) a s1 s2" using Cons.IH [OF p(2)] by blast
  have "agent_nodes h a s \<union> agent_nodes h' a s1 = agent_nodes h a s \<union> agent_nodes h' a s" for h'
    using pruned_data(1) [OF p(1), of "model_of h'"] by (auto simp: agent_nodes_def)
  then have "agent_nodes h a s \<union> (\<Union>h \<in> set hs. agent_nodes h a s1) = (\<Union>h \<in> set (h # hs). agent_nodes h a s)" by auto
  with agent_gone_join [OF s1(2) s2(2)] s1(1) s2(1) show ?case by (auto simp: p_bind_def)
qed

lemma agent_tables_all: "(\<Union>h \<in> set handler_components. set (agent_link_tables h)) = UNIV"
proof -
  have "t \<in> (\<Union>h \<in> set handler_components. set (agent_link_tables h))" for t
    by (cases t) (simp_all add: handler_components_def)
  then show ?thesis by blast
qed

lemma manager_urls:
  "tree_ok s \<Longrightarrow> set us \<subseteq> get_uuid ` set (gm_data (manager_of Manager s)) \<Longrightarrow>
    \<exists>urls. p_map (get_component_url Manager) us s = Some (Inr urls, s) \<and> length urls = length us"
proof (induction us)
  case (Cons u us)
  then obtain r where "r \<in> set (gm_data (manager_of Manager s))" "get_uuid r = u" by auto
  then have "uuid_to_rest_id u (manager_of Manager s) = Inr (r_id r)" using addresses_law(1) [OF Cons.prems(1)] by blast
  then have "\<exists>url. get_component_url Manager u s = Some (Inr url, s)"
    by (simp add: get_component_url_def get_component_url_recursive.simps build_parent_path_def manager_of_def)
  with Cons show ?case by (auto simp: p_bind_def p_return_def)
qed (simp add: p_return_def)

text \<open>
  C18: when an agent is given up, the tables of all handlers lose exactly its resources, which give their numbers back, no
  table keeps a link that came from it, other links stay, and clients are told of each of its managers; none of this
  can fail or go on for ever.
\<close>

theorem agent_cleaned:
  assumes "(tree_step env)\<^sup>*\<^sup>* (started_state now outdated calls []) s" and "env_proper env"
  shows "\<exists>s'. clean_resource_for_agent env a s = Some (Inr (), s')
    \<and> (\<forall>h \<in> set handler_components. gm_data (manager_of (model_of h) s') = filter (\<lambda>r. r_agent r \<noteq> a) (gm_data (manager_of (model_of h) s)))
    \<and> given_back (\<Union>h \<in> set handler_components. agent_nodes h a s) s (h_ids s')
    \<and> (\<forall>t. h_links s' t = clean_links_for_agent a (h_links s t))
    \<and> length (h_notified s') = length (h_notified s) + length (filter (\<lambda>r. r_agent r = a) (gm_data (manager_of Manager s)))"
proof -
  let ?Y = "\<Union>h \<in> set handler_components. agent_nodes h a s" and ?keys = "get_keys (\<lambda>m. r_agent m = a) (manager_of Manager s)"
  have ok: "tree_ok s" by (rule tree_reachable_ok [OF assms])
  have "set ?keys \<subseteq> get_uuid ` set (gm_data (manager_of Manager s))" by (auto simp: get_keys_def)
  from manager_urls [OF ok this] obtain urls where
    urls: "p_map (get_component_url Manager) ?keys s = Some (Inr urls, s)" "length urls = length ?keys" by blast
  let ?es = "map (\<lambda>(i, url). new_event_at env i ResourceRemoved url s) (enumerate 0 urls)"
  let ?s = "s\<lparr>h_notified := h_notified s @ ?es\<rparr>"
  have told: "notify_clients_about_removals env a s = Some (Inr (), ?s)"
    by (simp add: notify_clients_about_removals_def p_bind_def urls(1) notify_def p_modify_def)
  have ok': "tree_ok ?s" using ok by (rule tree_ok_cong [rotated 3]) simp_all
  have nodes: "agent_nodes h a ?s = agent_nodes h a s" for h by (simp add: agent_nodes_def manager_of_def)
  obtain s' where s': "remove_all_agent_data env a ?s = Some (Inr (), s')"
      "pruned ?Y (?s\<lparr>h_links := links_without_agent UNIV a (h_links s)\<rparr>) s'"
    using remove_all_gone [OF ok', of env a handler_components]
    by (auto simp: remove_all_agent_data_def agent_gone_def agent_tables_all nodes)
  have "clean_resource_for_agent env a s = Some (Inr (), s')"
    by (simp add: clean_resource_for_agent_def p_bind_def told s'(1))
  moreover have "gm_data (manager_of (model_of h) s') = filter (\<lambda>r. r_agent r \<noteq> a) (gm_data (manager_of (model_of h) s))"
    if "h \<in> set handler_components" for h
  proof -
    have "gm_data (manager_of (model_of h) s') = filter (\<lambda>r. (model_of h, get_uuid r) \<notin> ?Y) (gm_data (manager_of (model_of h) s))"
      using pruned_data(1) [OF s'(2), of "model_of h"] by (simp add: manager_of_def)
    also have "\<dots> = filter (\<lambda>r. r_agent r \<noteq> a) (gm_data (manager_of (model_of h) s))"
    proof (rule filter_cong [OF refl])
      fix r assume r: "r \<in> set (gm_data (manager_of (model_of h) s))"
      have same: "r' = r" if "r' \<in> set (gm_data (manager_of (model_of h) s))" "get_uuid r' = get_uuid r" for r'
        using that r tree_ok_table [OF ok, of "model_of h"] by (auto simp: table_ok_def distinct_map dest: inj_onD)
      have "(model_of h, get_uuid r) \<in> ?Y \<longleftrightarrow> r_agent r = a"
      proof
        assume "(model_of h, get_uuid r) \<in> ?Y"
        then obtain h' r' where "model_of h' = model_of h" "r' \<in> set (gm_data (manager_of (model_of h') s))"
          "get_uuid r' = get_uuid r" "r_agent r' = a" by (auto simp: agent_nodes_def)
        with same [of r'] show "r_agent r = a" by simp
      next
        assume "r_agent r = a"
        with r have "(model_of h, get_uuid r) \<in> agent_nodes h a s" by (auto simp: agent_nodes_def)
        with that show "(model_of h, get_uuid r) \<in> ?Y" by blast
      qed
      then show "(model_of h, get_uuid r) \<notin> ?Y \<longleftrightarrow> r_agent r \<noteq> a" by simp
    qed
    finally show ?thesis .
  qed
  moreover have "given_back ?Y s (h_ids s')"
    using s'(2) by (simp add: pruned_def given_back_def manager_of_def)
  moreover have "h_links s' t = clean_links_for_agent a (h_links s t)" for t
    using pruned_keeps_links [OF s'(2)] by (simp add: links_without_agent_def)
  moreover have "length (h_notified s') = length (h_notified s) + length (filter (\<lambda>r. r_agent r = a) (gm_data (manager_of Manager s)))"
    using pruned_keeps_links [OF s'(2)] urls(2) by (simp add: get_keys_def)
  ultimately show ?thesis by blast
qed

end
