(* ===== verification/Health_Rollup.thy ===== *)
theory Health_Rollup
  imports Resource_Removal "HOL-Library.Option_ord"
begin

text \<open>
  Visiting a resource and what is below it (\<^verbatim>\<open>accept\<close> of \<^verbatim>\<open>generic_handler.hpp\<close>) and the health that the
  endpoints report for a whole tree (\<^verbatim>\<open>HealthRollup\<close> of \<^verbatim>\<open>rest/utils/status_helpers.hpp\<close>). A visit changes
  nothing of the tables; its own state is the set of visited uuids and what the visitor gathers.
\<close>

section \<open>Visitors\<close>

type_synonym 'v visitor = "string set \<times> 'v"
type_synonym 'v visit = "resource \<Rightarrow> component \<Rightarrow> 'v \<Rightarrow> bool \<times> 'v"

text \<open>A loop that ends when a step answers false.\<close>

primrec p_all :: "('x \<Rightarrow> ('s, bool) prog) \<Rightarrow> 'x list \<Rightarrow> ('s, bool) prog" where
  "p_all f [] = p_return True"
| "p_all f (x # xs) = p_bind (f x) (\<lambda>go. if go then p_all f xs else p_return False)"

lemma p_all_mono [partial_function_mono]:
  assumes "\<And>x s. mono_option (\<lambda>f. B f x s)"
  shows "mono_option (\<lambda>f. p_all (\<lambda>x. B f x) xs s)"
proof (induction xs arbitrary: s)
  case (Cons x xs)
  have "mono_option (\<lambda>f. (if go then p_all (\<lambda>x. B f x) xs else p_return False) s)" for go s
    using Cons.IH by (cases go) (simp_all add: option.const_mono)
  then show ?case by (simp, intro p_bind_mono assms)
qed (simp add: option.const_mono)

definition call_visit :: "'v visit \<Rightarrow> resource \<Rightarrow> component \<Rightarrow> ('v visitor, bool) prog" where
  "call_visit visit r c v = (case visit r c (snd v) of (go, w) \<Rightarrow> Some (Inr go, (fst v, w)))"

text \<open>
  The children of a resource that a handler visits: those with it as parent, or, where the handler's collection there holds links
  only, the linked ones, whether they are known or not.
\<close>

fun accept_links :: "component \<Rightarrow> link_table option" where
  "accept_links Drive = Some StorageSubsystemDrives"
| "accept_links Endpoint = Some ZoneEndpoint"
| "accept_links LogicalDrive = Some LogicalDriveMembers"
| "accept_links PcieFunction = Some DriveFunction"
| "accept_links PhysicalDrive = Some PhysicalDriveMembers"
| "accept_links Port = Some EndpointPort"
| "accept_links _ = None"

definition accept_keys :: "handler_state \<Rightarrow> component \<Rightarrow> string \<Rightarrow> component \<Rightarrow> string list" where
  "accept_keys s h parent_uuid parent_component =
     (case accept_links h of
        Some t \<Rightarrow>
          if collection_use_of h parent_component = Strong then get_keys_of_parent parent_uuid (\<lambda>_. True) (manager_of (model_of h) s)
          else if h = LogicalDrive \<and> parent_component \<noteq> LogicalDrive then []
          else get_children parent_uuid (h_links s t)
      | None \<Rightarrow> get_keys_of_parent parent_uuid (\<lambda>_. True) (manager_of (model_of h) s))"

partial_function (option) do_accept :: "'v visit \<Rightarrow> handler_state \<Rightarrow> component \<Rightarrow> string \<Rightarrow> ('v visitor, bool) prog" where
  "do_accept visit s h uuid v =
     p_bind (p_get (\<lambda>v. uuid \<in> fst v)) (\<lambda>seen v.
       if seen then p_return True v
       else p_bind (p_result (\<lambda>_. get_entry (collection_name_of (model_of h)) uuid (manager_of (model_of h) s))) (\<lambda>r v.
         p_bind (call_visit visit r (component_of h)) (\<lambda>go v.
           if \<not> go then p_return False v
           else p_bind (p_modify (\<lambda>v. (insert uuid (fst v), snd v))) (\<lambda>_ v.
             p_all (\<lambda>c v. p_bind (p_result (\<lambda>_. get_handler c)) (\<lambda>h' v.
                 p_all (\<lambda>child v. do_accept visit s h' child v) (accept_keys s h' uuid (component_of h)) v) v)
               (h_subs s h) v) v) v) v) v"

definition accept :: "'v visit \<Rightarrow> handler_state \<Rightarrow> component \<Rightarrow> string \<Rightarrow> 'v \<Rightarrow> (bool result \<times> 'v) option" where
  "accept visit s h uuid v = map_option (\<lambda>(r, v'). (r, snd v')) (do_accept visit s h uuid ({}, v))"

section \<open>The health of a tree\<close>

record rollup =
  ro_mine :: "health option"
  ro_worst :: "health option"

definition rollup_visit :: "string \<Rightarrow> component \<Rightarrow> rollup visit" where
  "rollup_visit my_uuid component_filter r c st =
     (if component_filter = NoComponent \<or> c = component_filter
      then if my_uuid = get_uuid r then (r_health r \<noteq> None, st\<lparr>ro_mine := r_health r\<rparr>)
           else (True, case r_health r of None \<Rightarrow> st | Some _ \<Rightarrow> st\<lparr>ro_worst := max (ro_worst st) (r_health r)\<rparr>)
      else (True, st))"

definition rollup_value :: "rollup \<Rightarrow> health option" where
  "rollup_value st =
     (if ro_mine st \<noteq> None \<and> ro_worst st \<noteq> None then max (ro_worst st) (ro_mine st)
      else if ro_mine st \<noteq> None then ro_mine st
      else ro_worst st)"

definition health_rollup :: "handler_state \<Rightarrow> component \<Rightarrow> string \<Rightarrow> component \<Rightarrow> health option result option" where
  "health_rollup s c uuid component_filter =
     (case get_handler c of
        Inl e \<Rightarrow> Some (Inl e)
      | Inr h \<Rightarrow> map_option (\<lambda>(r, st). res_bind r (\<lambda>_. Inr (rollup_value st)))
          (accept (rollup_visit uuid component_filter) s h uuid \<lparr>ro_mine = None, ro_worst = None\<rparr>))"

section \<open>What is visited\<close>

text \<open>The uuids of the registered tables are different from table to table.\<close>

definition one_table :: "handler_state \<Rightarrow> bool" where
  "one_table s \<longleftrightarrow> (\<forall>c d r r'. r \<in> set (gm_data (manager_of c s)) \<longrightarrow> r' \<in> set (gm_data (manager_of d s))
     \<longrightarrow> get_uuid r = get_uuid r' \<longrightarrow> c = d)"

definition is_node :: "handler_state \<Rightarrow> node \<Rightarrow> bool" where
  "is_node s n \<longleftrightarrow> named_handler (fst n) \<and> snd n \<in> get_uuid ` set (gm_data (manager_of (fst n) s))"

text \<open>The resources that count, and the worst health of the visited ones.\<close>

definition counted :: "handler_state \<Rightarrow> component \<Rightarrow> resource set" where
  "counted s flt = {r. \<exists>c. r \<in> set (gm_data (manager_of c s)) \<and> (flt = NoComponent \<or> c = flt)}"

definition worst_of :: "handler_state \<Rightarrow> component \<Rightarrow> string set \<Rightarrow> health option" where
  "worst_of s flt us = Max (insert None (r_health ` {r \<in> counted s flt. get_uuid r \<in> us}))"

lemma finite_counted: "finite (counted s flt)"
proof (rule finite_subset)
  show "counted s flt \<subseteq> (\<Union>c. set (gm_data (manager_of c s)))" by (auto simp: counted_def)
  show "finite (\<Union>c. set (gm_data (manager_of c s)))" by (simp add: finite_components)
qed

lemma same_resource:
  assumes "tree_ok s" and "one_table s" and "r \<in> set (gm_data (manager_of c s))" and "r' \<in> set (gm_data (manager_of d s))"
    and "get_uuid r = get_uuid r'"
  shows "c = d \<and> r = r'"
proof -
  have "c = d" using assms(2-5) by (auto simp: one_table_def)
  with tree_ok_table [OF assms(1), of c] assms(3-5) show ?thesis by (auto simp: table_ok_def distinct_map dest: inj_onD)
qed

lemma Max_insert_None: "finite A \<Longrightarrow> Max (insert None (insert x A)) = max x (Max (insert None A))" for x :: "'a::linorder option"
  by (subst insert_commute) (simp del: Max_insert add: Max_insert [of "insert None A" x])

lemma worst_of_insert:
  assumes "tree_ok s" and "one_table s" and "r \<in> set (gm_data (manager_of c s))"
  shows "worst_of s flt (insert (get_uuid r) us)
    = (if flt = NoComponent \<or> c = flt then max (r_health r) (worst_of s flt us) else worst_of s flt us)"
proof -
  have "{r' \<in> counted s flt. get_uuid r' \<in> insert (get_uuid r) us}
      = (if flt = NoComponent \<or> c = flt then insert r {r' \<in> counted s flt. get_uuid r' \<in> us} else {r' \<in> counted s flt. get_uuid r' \<in> us})"
  proof -
    have "r' \<in> counted s flt \<and> get_uuid r' = get_uuid r \<longleftrightarrow> r' = r \<and> (flt = NoComponent \<or> c = flt)" for r'
    proof
      assume "r' \<in> counted s flt \<and> get_uuid r' = get_uuid r"
      then obtain d where "r' \<in> set (gm_data (manager_of d s))" "get_uuid r = get_uuid r'" "flt = NoComponent \<or> d = flt"
        by (auto simp: counted_def)
      with same_resource [OF assms this(1,2)] show "r' = r \<and> (flt = NoComponent \<or> c = flt)" by simp
    qed (use assms(3) in \<open>auto simp: counted_def\<close>)
    then show ?thesis by auto
  qed
  moreover have "finite (r_health ` {r' \<in> counted s flt. get_uuid r' \<in> us})" using finite_counted [of s flt] by simp
  ultimately show ?thesis using Max_insert_None by (simp only: worst_of_def image_insert split: if_split) blast
qed

text \<open>The links lead to resources that are known.\<close>

definition links_known :: "handler_state \<Rightarrow> bool" where
  "links_known s \<longleftrightarrow> (\<forall>t p c a. ((p, c, a), ()) \<in> set (h_links s t) \<longrightarrow>
     c \<in> get_uuid ` set (gm_data (manager_of (snd (link_kinds t)) s)))"

text \<open>A resource, and one that its visit goes on to.\<close>

definition accept_rel :: "handler_state \<Rightarrow> (node \<times> node) set" where
  "accept_rel s = {((h, u), (c, v)). c \<in> set (h_subs s h) \<and> v \<in> set (accept_keys s c u h)}"

definition visited_tree :: "handler_state \<Rightarrow> component \<Rightarrow> string \<Rightarrow> node set" where
  "visited_tree s h u = (accept_rel s)\<^sup>* `` {(h, u)}"

lemma accept_links_kind: "accept_links c = Some t \<Longrightarrow> snd (link_kinds t) = c"
  by (cases c) auto

lemma accept_edge_node:
  assumes "tree_ok s" and "links_known s" and "(x, y) \<in> accept_rel s"
  shows "is_node s y"
proof -
  obtain h u c v where xy: "x = (h, u)" "y = (c, v)" by (cases x; cases y)
  have e: "c \<in> set (h_subs s h)" "v \<in> set (accept_keys s c u h)" using assms(3) by (simp_all add: xy accept_rel_def)
  have named: "named_handler c" using assms(1) e(1) by (auto simp: tree_ok_def)
  have key: "v \<in> get_uuid ` set (gm_data (manager_of c s))"
    if "v \<in> set (get_keys_of_parent u (\<lambda>_. True) (manager_of (model_of c) s))"
    using that by (auto simp: get_keys_of_parent_def get_keys_def named_handler_simps [OF named])
  have "v \<in> get_uuid ` set (gm_data (manager_of c s))"
  proof (cases "accept_links c")
    case None
    with e(2) key show ?thesis by (simp add: accept_keys_def)
  next
    case (Some t)
    have "v \<in> get_uuid ` set (gm_data (manager_of c s))" if "v \<in> set (get_children u (h_links s t))"
      using that assms(2) accept_links_kind [OF Some] by (fastforce simp: get_children_def links_known_def)
    with Some e(2) key show ?thesis by (auto simp: accept_keys_def split: if_splits)
  qed
  with named show ?thesis by (simp add: is_node_def xy)
qed

text \<open>
  The visit goes on from a set of visited uuids to a greater one: it gets to some resources, to nothing that is not below
  them, and with each new resource to all that is next to it.
\<close>

definition grown :: "handler_state \<Rightarrow> node set \<Rightarrow> string set \<Rightarrow> string set \<Rightarrow> bool" where
  "grown s T vis vis' \<longleftrightarrow> vis \<subseteq> vis' \<and> snd ` T \<subseteq> vis' \<and> vis' \<subseteq> vis \<union> snd ` ((accept_rel s)\<^sup>* `` T)
     \<and> (\<forall>x y. is_node s x \<longrightarrow> snd x \<in> vis' - vis \<longrightarrow> (x, y) \<in> accept_rel s \<longrightarrow> snd y \<in> vis')"

lemma grown_nothing: "grown s {} vis vis"
  by (simp add: grown_def)

lemma grown_join:
  assumes "grown s T vis vis1" and "grown s U vis1 vis2"
  shows "grown s (T \<union> U) vis vis2"
  unfolding grown_def
proof (intro conjI allI impI)
  show "vis \<subseteq> vis2" "snd ` (T \<union> U) \<subseteq> vis2" using assms by (auto simp: grown_def)
  have "snd ` ((accept_rel s)\<^sup>* `` (T \<union> U)) = snd ` ((accept_rel s)\<^sup>* `` T) \<union> snd ` ((accept_rel s)\<^sup>* `` U)"
    by (simp add: Image_Un image_Un)
  with assms show "vis2 \<subseteq> vis \<union> snd ` ((accept_rel s)\<^sup>* `` (T \<union> U))" unfolding grown_def by blast
  fix x y assume "is_node s x" "snd x \<in> vis2 - vis" "(x, y) \<in> accept_rel s"
  with assms show "snd y \<in> vis2" unfolding grown_def by (metis Diff_iff subsetD)
qed

text \<open>A part of the visit with enough uuids left for it: it ends, and nothing stops it.\<close>

definition all_uuids :: "handler_state \<Rightarrow> string set" where
  "all_uuids s = (\<Union>c. get_uuid ` set (gm_data (manager_of c s)))"

definition rollup_state :: "handler_state \<Rightarrow> string \<Rightarrow> component \<Rightarrow> health option \<Rightarrow> string set \<Rightarrow> rollup visitor" where
  "rollup_state s my flt mine vis = (vis, \<lparr>ro_mine = mine, ro_worst = worst_of s flt (vis - {my})\<rparr>)"

definition explores :: "handler_state \<Rightarrow> string \<Rightarrow> (string set \<Rightarrow> rollup visitor) \<Rightarrow> nat \<Rightarrow> (rollup visitor, bool) prog \<Rightarrow> node set \<Rightarrow> bool" where
  "explores s my S k m T \<longleftrightarrow> (\<forall>vis. my \<in> vis \<longrightarrow> card (all_uuids s - vis) \<le> k \<longrightarrow>
     (\<exists>vis'. m (S vis) = Some (Inr True, S vis') \<and> grown s T vis vis'))"

lemma finite_all_uuids: "finite (all_uuids s)"
  by (simp add: all_uuids_def finite_components)

lemma card_grown: "grown s T vis vis' \<Longrightarrow> card (all_uuids s - vis') \<le> card (all_uuids s - vis)"
  by (rule card_mono) (auto simp: grown_def finite_all_uuids)

lemma explores_all:
  "(\<And>x. x \<in> set xs \<Longrightarrow> explores s my S k (F x) (T x)) \<Longrightarrow> explores s my S k (p_all F xs) (\<Union>x \<in> set xs. T x)"
proof (induction xs)
  case (Cons x xs)
  have first: "explores s my S k (F x) (T x)" and rest: "explores s my S k (p_all F xs) (\<Union>x \<in> set xs. T x)"
    using Cons by simp_all
  show ?case
    unfolding explores_def
  proof (intro allI impI)
    fix vis assume vis: "my \<in> vis" "card (all_uuids s - vis) \<le> k"
    with first obtain vis1 where 1: "F x (S vis) = Some (Inr True, S vis1)" "grown s (T x) vis vis1"
      by (auto simp: explores_def)
    have "my \<in> vis1" "card (all_uuids s - vis1) \<le> k" using vis 1(2) card_grown [OF 1(2)] by (auto simp: grown_def)
    with rest obtain vis2 where 2: "p_all F xs (S vis1) = Some (Inr True, S vis2)" "grown s (\<Union>x \<in> set xs. T x) vis1 vis2"
      by (auto simp: explores_def)
    from grown_join [OF 1(2) 2(2)] 1(1) 2(1)
    show "\<exists>vis'. p_all F (x # xs) (S vis) = Some (Inr True, S vis') \<and> grown s (\<Union>x \<in> set (x # xs). T x) vis vis'"
      by (auto simp: p_bind_def)
  qed
qed (auto simp: explores_def p_return_def grown_nothing)

definition accept_children :: "'v visit \<Rightarrow> handler_state \<Rightarrow> component \<Rightarrow> string \<Rightarrow> component \<Rightarrow> ('v visitor, bool) prog" where
  "accept_children visit s parent_component uuid c = p_bind (p_result (\<lambda>_. get_handler c)) (\<lambda>h v.
     p_all (\<lambda>child v. do_accept visit s h child v) (accept_keys s h uuid parent_component) v)"

lemma do_accept_unfold:
  "do_accept visit s h u v =
     (if u \<in> fst v then Some (Inr True, v)
      else case get_entry (collection_name_of (model_of h)) u (manager_of (model_of h) s) of
        Inl e \<Rightarrow> Some (Inl e, v)
      | Inr r \<Rightarrow> (case visit r (component_of h) (snd v) of (go, w) \<Rightarrow>
          if go then p_all (accept_children visit s (component_of h) u) (h_subs s h) (insert u (fst v), w)
          else Some (Inr False, (fst v, w))))"
  by (subst do_accept.simps)
    (simp add: accept_children_def [abs_def] p_bind_def p_get_def p_result_def p_return_def call_visit_def p_modify_def
      split: sum.split prod.split)

lemma accept_children_named:
  "named_handler c \<Longrightarrow> accept_children visit s p u c = p_all (do_accept visit s c) (accept_keys s c u p)"
  by (rule ext) (simp add: accept_children_def named_handler_simps p_bind_def p_result_def)

lemma accept_rel_image: "accept_rel s `` {(h, u)} = (\<Union>c \<in> set (h_subs s h). \<Union>v \<in> set (accept_keys s c u h). {(c, v)})"
  by (auto simp: accept_rel_def)

text \<open>The part next to a resource, from what is known of the resources there.\<close>

lemma explores_children:
  assumes "tree_ok s" and "links_known s" and "\<And>c v. is_node s (c, v) \<Longrightarrow> explores s my S k (do_accept visit s c v) {(c, v)}"
  shows "explores s my S k (p_all (accept_children visit s h u) (h_subs s h)) (accept_rel s `` {(h, u)})"
  unfolding accept_rel_image
proof (rule explores_all)
  fix c assume c: "c \<in> set (h_subs s h)"
  then have named: "named_handler c" using assms(1) by (auto simp: tree_ok_def)
  show "explores s my S k (accept_children visit s h u c) (\<Union>v \<in> set (accept_keys s c u h). {(c, v)})"
    unfolding accept_children_named [OF named]
  proof (rule explores_all)
    fix v assume "v \<in> set (accept_keys s c u h)"
    with c have "((h, u), (c, v)) \<in> accept_rel s" by (auto simp: accept_rel_def)
    from accept_edge_node [OF assms(1,2) this] show "explores s my S k (do_accept visit s c v) {(c, v)}" by (rule assms(3))
  qed
qed

lemma node_entry:
  assumes "tree_ok s" and "is_node s (h, u)"
  obtains r where "r \<in> set (gm_data (manager_of h s))" "get_uuid r = u"
    "get_entry (collection_name_of (model_of h)) u (manager_of (model_of h) s) = Inr r"
proof -
  obtain r where r: "r \<in> set (gm_data (manager_of h s))" "get_uuid r = u" using assms(2) by (auto simp: is_node_def)
  then have "u \<noteq> []" using tree_ok_proper [OF assms(1)] proper_LAST by blast
  then have "find_entry u (gm_data (manager_of h s)) = Some r" using find_entry_iff [OF tree_ok_table [OF assms(1)]] r by blast
  moreover have "model_of h = h" using assms(2) named_handler_simps(1) by (auto simp: is_node_def)
  ultimately show ?thesis using r by (intro that) (simp_all add: get_entry_def)
qed

lemma same_node: "one_table s \<Longrightarrow> is_node s (c, u) \<Longrightarrow> is_node s (d, u) \<Longrightarrow> c = d"
  by (fastforce simp: is_node_def one_table_def)

lemma grown_here:
  assumes "one_table s" and "is_node s (h, u)" and "grown s (accept_rel s `` {(h, u)}) (insert u vis) vis'"
  shows "grown s {(h, u)} vis vis'"
  unfolding grown_def
proof (intro conjI allI impI)
  show "vis \<subseteq> vis'" "snd ` {(h, u)} \<subseteq> vis'" using assms(3) by (auto simp: grown_def)
  have "(accept_rel s)\<^sup>* `` (accept_rel s `` {(h, u)}) \<subseteq> (accept_rel s)\<^sup>* `` {(h, u)}"
    by (auto intro: converse_rtrancl_into_rtrancl)
  moreover have "u \<in> snd ` ((accept_rel s)\<^sup>* `` {(h, u)})" by force
  ultimately show "vis' \<subseteq> vis \<union> snd ` ((accept_rel s)\<^sup>* `` {(h, u)})" using assms(3) unfolding grown_def by blast
  fix x y assume x: "is_node s x" "snd x \<in> vis' - vis" "(x, y) \<in> accept_rel s"
  show "snd y \<in> vis'"
  proof (cases "snd x = u")
    case True
    with same_node [OF assms(1), of "fst x" u h] x(1) assms(2) have "x = (h, u)" by (cases x) simp
    with x(3) assms(3) show ?thesis by (auto simp: grown_def)
  next
    case False
    with x assms(3) show ?thesis unfolding grown_def by blast
  qed
qed

lemma explores_node:
  assumes "tree_ok s" and "links_known s" and "one_table s"
  shows "is_node s (h, u) \<Longrightarrow> explores s my (rollup_state s my flt mine) k (do_accept (rollup_visit my flt) s h u) {(h, u)}"
proof (induction k arbitrary: h u rule: less_induct)
  case (less k)
  let ?S = "rollup_state s my flt mine" and ?visit = "rollup_visit my flt"
  obtain r where r: "r \<in> set (gm_data (manager_of h s))" "get_uuid r = u"
    "get_entry (collection_name_of (model_of h)) u (manager_of (model_of h) s) = Inr r"
    by (rule node_entry [OF assms(1) less.prems])
  have named: "component_of h = h" using less.prems named_component by (simp add: is_node_def)
  show ?case
    unfolding explores_def
  proof (intro allI impI)
    fix vis assume vis: "my \<in> vis" "card (all_uuids s - vis) \<le> k"
    show "\<exists>vis'. do_accept ?visit s h u (?S vis) = Some (Inr True, ?S vis') \<and> grown s {(h, u)} vis vis'"
    proof (cases "u \<in> vis")
      case True
      then have "grown s {(h, u)} vis vis" by (auto simp: grown_def)
      with True show ?thesis by (auto simp: do_accept_unfold rollup_state_def)
    next
      case False
      then have other: "u \<noteq> my" using vis(1) by blast
      have "u \<in> all_uuids s" using r(1,2) by (auto simp: all_uuids_def)
      then have "card (all_uuids s - insert u vis) < card (all_uuids s - vis)"
        using False finite_all_uuids by (intro psubset_card_mono) auto
      then have small: "card (all_uuids s - insert u vis) < k" using vis(2) by simp
      have "insert u vis - {my} = insert (get_uuid r) (vis - {my})" using other r(2) by blast
      then have "?visit r h (snd (?S vis)) = (True, snd (?S (insert u vis)))"
        using worst_of_insert [OF assms(1,3) r(1), of flt "vis - {my}"] other r(2)
        by (cases "r_health r") (simp_all add: rollup_visit_def rollup_state_def max.commute)
      then have run: "do_accept ?visit s h u (?S vis) = p_all (accept_children ?visit s h u) (h_subs s h) (?S (insert u vis))"
        using False r(3) by (simp add: do_accept_unfold named rollup_state_def)
      have "explores s my ?S (card (all_uuids s - insert u vis)) (p_all (accept_children ?visit s h u) (h_subs s h)) (accept_rel s `` {(h, u)})"
        by (rule explores_children [OF assms(1,2)]) (rule less.IH [OF small])
      then obtain vis' where "p_all (accept_children ?visit s h u) (h_subs s h) (?S (insert u vis)) = Some (Inr True, ?S vis')"
        "grown s (accept_rel s `` {(h, u)}) (insert u vis) vis'"
        using vis(1) by (auto simp: explores_def)
      with run grown_here [OF assms(3) less.prems] show ?thesis by auto
    qed
  qed
qed

text \<open>From nothing visited, all of the tree is.\<close>

lemma visited_all:
  assumes "tree_ok s" and "links_known s" and "is_node s (h, u)" and "grown s {(h, u)} {} vis"
  shows "vis = snd ` visited_tree s h u"
proof -
  have "snd x \<in> vis \<and> is_node s x" if "((h, u), x) \<in> (accept_rel s)\<^sup>*" for x
    using that
  proof (induction rule: rtrancl_induct)
    case base
    show ?case using assms(3,4) by (auto simp: grown_def)
  next
    case (step x y)
    then show ?case using assms(4) accept_edge_node [OF assms(1,2)] unfolding grown_def by blast
  qed
  with assms(4) show ?thesis by (auto simp: grown_def visited_tree_def)
qed

text \<open>
  C19: the health reported for a resource, where no uuid is in two tables and the links lead to known resources, is
  computed without fail, whatever circles the links make: nothing where the resource itself counts and has none, and else
  the worst of the resource and of all that its visit gets to, as far as they count.
\<close>

theorem health_rollup_worst:
  assumes "(tree_step env)\<^sup>*\<^sup>* (started_state now outdated calls []) s" and "env_proper env" and "links_known s"
    and "one_table s" and "named_handler h" and "r \<in> set (gm_data (manager_of h s))"
  shows "health_rollup s h (get_uuid r) flt = Some (Inr
    (if (flt = NoComponent \<or> h = flt) \<and> r_health r = None then None
     else Max (insert None {r_health r' | r' c. r' \<in> set (gm_data (manager_of c s)) \<and> (c, get_uuid r') \<in> visited_tree s h (get_uuid r)
       \<and> (flt = NoComponent \<or> c = flt)})))"
proof -
  let ?u = "get_uuid r" and ?visit = "rollup_visit (get_uuid r) flt" and ?in = "flt = NoComponent \<or> h = flt"
  let ?mine = "if ?in then r_health r else None"
  let ?S = "rollup_state s ?u flt ?mine" and ?tree = "visited_tree s h (get_uuid r)"
  have ok: "tree_ok s" by (rule tree_reachable_ok [OF assms(1,2)])
  have node: "is_node s (h, ?u)" using assms(5,6) by (simp add: is_node_def)
  obtain r' where r': "r' \<in> set (gm_data (manager_of h s))" "get_uuid r' = ?u"
    "get_entry (collection_name_of (model_of h)) ?u (manager_of (model_of h) s) = Inr r'" by (rule node_entry [OF ok node])
  have "r' = r" using same_resource [OF ok assms(4) r'(1) assms(6) r'(2)] by simp
  note entry = r'(3) [unfolded this]
  have here: "component_of h = h" "get_handler h = Inr h" using assms(5) by (simp_all add: named_component named_handler_simps)
  let ?start = "\<lparr>ro_mine = None, ro_worst = None\<rparr> :: rollup"
  have none: "worst_of s flt {} = None" by (simp add: worst_of_def)
  then have first: "?visit r h ?start = (\<not> (?in \<and> r_health r = None), snd (?S {?u}))"
    by (auto simp: rollup_visit_def rollup_state_def)
  show ?thesis
  proof (cases "?in \<and> r_health r = None")
    case True
    with none show ?thesis
      using first by (simp add: health_rollup_def here accept_def do_accept_unfold entry rollup_state_def rollup_value_def)
  next
    case False
    have "explores s ?u ?S (card (all_uuids s - {?u})) (p_all (accept_children ?visit s h ?u) (h_subs s h)) (accept_rel s `` {(h, ?u)})"
      by (intro explores_children explores_node ok assms(3,4))
    then obtain vis where vis: "p_all (accept_children ?visit s h ?u) (h_subs s h) (?S {?u}) = Some (Inr True, ?S vis)"
      "grown s (accept_rel s `` {(h, ?u)}) {?u} vis" by (auto simp: explores_def)
    have all: "vis = snd ` ?tree" using visited_all [OF ok assms(3) node] grown_here [OF assms(4) node vis(2)] by blast
    have run: "do_accept ?visit s h ?u ({}, ?start) = Some (Inr True, ?S (snd ` ?tree))"
      using False first vis(1) by (simp add: do_accept_unfold entry here rollup_state_def all)
    let ?worst = "worst_of s flt (snd ` ?tree - {?u})"
    have "rollup_value (snd (?S (snd ` ?tree))) = (if ?in then max (r_health r) ?worst else ?worst)"
      using False by (auto simp: rollup_value_def rollup_state_def max.commute max_def)
    also have "\<dots> = worst_of s flt (snd ` ?tree)"
    proof -
      have "(h, ?u) \<in> ?tree" by (simp add: visited_tree_def)
      then have "insert ?u (snd ` ?tree - {?u}) = snd ` ?tree" by force
      with worst_of_insert [OF ok assms(4,6), of flt "snd ` ?tree - {?u}"] show ?thesis by simp
    qed
    finally have worst: "rollup_value (snd (?S (snd ` ?tree))) = worst_of s flt (snd ` ?tree)" .
    have "r_health ` {r \<in> counted s flt. get_uuid r \<in> snd ` ?tree}
        = {r_health r' | r' c. r' \<in> set (gm_data (manager_of c s)) \<and> (c, get_uuid r') \<in> ?tree \<and> (flt = NoComponent \<or> c = flt)}"
    proof -
      have "(c, get_uuid r') \<in> ?tree" if "r' \<in> set (gm_data (manager_of c s))" "(d, get_uuid r') \<in> ?tree" for r' c d
      proof -
        have "is_node s (d, get_uuid r')"
          using that(2) node accept_edge_node [OF ok assms(3)] by (auto simp: visited_tree_def elim: rtranclE)
        with that(1) assms(4) have "d = c" by (auto simp: is_node_def one_table_def)
        with that(2) show ?thesis by simp
      qed
      then show ?thesis by (force simp: counted_def)
    qed
    with worst have "rollup_value (snd (?S (snd ` ?tree))) = Max (insert None
        {r_health r' | r' c. r' \<in> set (gm_data (manager_of c s)) \<and> (c, get_uuid r') \<in> ?tree \<and> (flt = NoComponent \<or> c = flt)})"
      by (simp only: worst_of_def)
    with False run show ?thesis by (simp only: health_rollup_def here accept_def) simp
  qed
qed

text \<open>A link to a resource that is gone makes the report fail; a removal leaves the links of what is below the removed resource.\<close>

lemma stale_link_fails:
  assumes "find_entry u (gm_data (manager_of StorageSubsystem s)) = Some r" and "get_uuid r = u" and "r_health r \<noteq> None"
    and "h_subs s StorageSubsystem = Drive # cs" and "get_children u (h_links s StorageSubsystemDrives) = v # vs" and "v \<noteq> u"
    and "find_entry v (gm_data (manager_of Drive s)) = None"
  shows "health_rollup s StorageSubsystem u NoComponent = Some (Inl (invalid_uuid (''Drives [UUID = '' @ quoted v @ ''] not found.'')))"
proof -
  have known: "model_of StorageSubsystem = StorageSubsystem" "component_of StorageSubsystem = StorageSubsystem"
    "get_handler StorageSubsystem = Inr StorageSubsystem" "get_handler Drive = Inr Drive" "model_of Drive = Drive"
    by (simp_all add: model_of_def component_of_def get_handler_def handler_components_def)
  have "accept_keys s Drive u StorageSubsystem = v # vs" by (simp add: accept_keys_def collection_use_of_def assms(5))
  then have "accept_children visit s StorageSubsystem u Drive x
      = Some (Inl (invalid_uuid (''Drives [UUID = '' @ quoted v @ ''] not found.'')), x)" if "v \<notin> fst x" for visit and x :: "rollup visitor"
    using that assms(7) by (simp add: accept_children_def p_bind_def p_result_def known do_accept_unfold [of _ _ Drive] get_entry_def)
  then show ?thesis
    using assms by (simp add: health_rollup_def known accept_def do_accept_unfold [of _ _ StorageSubsystem] get_entry_def
      rollup_visit_def p_bind_def)
qed

end
