(* ===== verification/Example_Tree.thy ===== *)
theory Example_Tree
  imports Health_Rollup
begin

text \<open>The theorems about the tables of resources at a manager with a chassis below it.\<close>

section \<open>Evaluation\<close>

text \<open>Equations that evaluate only once the state is known.\<close>

definition add_below :: "handler_env \<Rightarrow> adder" where
  "add_below env h p u s = add env h p u True s"

lemma add_code [code]: "add env h p u rec s = add_with env (add_below env) h p u rec s"
  by (subst add.simps) (simp add: add_below_def [abs_def])

lemma remove_children_code [code]:
  "remove_children env u c s = (case get_handler c of
      Inl e \<Rightarrow> Some (Inl e, s)
    | Inr h \<Rightarrow> p_each (do_remove env h) (get_keys_of_parent u (\<lambda>_. True) (manager_of (model_of h) s)) s)"
  by (simp add: remove_children_def p_bind_def p_result_def split: sum.split)

declare do_remove_unfold [code] get_component_url_recursive.simps [code] free_id.simps [code]

definition tree_data :: "collection list \<Rightarrow> health \<Rightarrow> rpc_reply" where
  "tree_data cs x = InfoReply \<lparr>rd_status_hash = ''s'', rd_rest_hash = ''r'', rd_collections = cs,
     rd_task = \<lparr>tp_exception = False, tp_ended = False, tp_messages = [], tp_notifiers = []\<rparr>, rd_health = Some x\<rparr>"

fun tree_reply :: "rpc_request \<Rightarrow> rpc_reply" where
  "tree_reply GetManagersCollection = UuidsReply [''m'']"
| "tree_reply (GetInfo Manager u) = tree_data [\<lparr>c_name = ''cs'', c_type = ChassisCollection\<rparr>] OK"
| "tree_reply (GetInfo c u) = tree_data [] Critical"
| "tree_reply (GetCollection p n) = UuidsReply [''k'']"
| "tree_reply r = UuidsReply []"

definition tree_env :: handler_env where
  "tree_env = \<lparr>env_reply = \<lambda>n a. tree_reply, env_now = \<lambda>n. int n, env_nanos = \<lambda>n. int n, env_event_id = \<lambda>n. ''e'', env_tables = [Manager, Chassis]\<rparr>"

definition tree_start :: handler_state where
  "tree_start = started_state 0 60 0 []"

definition tree_load :: "(64 word result \<times> handler_state) option" where
  "tree_load = load tree_env Manager ''a'' [] NoComponent ''m'' True tree_start"

definition tree_state :: handler_state where
  "tree_state = snd (the tree_load)"

definition rows :: "handler_state \<Rightarrow> (component \<times> string \<times> string \<times> 64 word \<times> string \<times> health option) list" where
  "rows s = concat (map (\<lambda>c. map (\<lambda>r. (c, get_uuid r, r_parent r, r_id r, r_agent r, r_health r)) (gm_data (manager_of c s))) all_components)"

definition tree_links :: "handler_state \<Rightarrow> links list" where
  "tree_links s = map (h_links s) [StorageSubsystemDrives, DriveFunction, ZoneEndpoint, EndpointPort,
     PortMembersTable, AclPort, LogicalDriveMembers, PhysicalDriveMembers]"

lemma tree_load_run:
  "case tree_load of Some (Inr i, s) \<Rightarrow> rows s = [(Chassis, ''k'', ''m'', 1, ''a'', Some Critical), (Manager, ''m'', [], 1, ''a'', Some OK)] \<and> h_subs s Manager = [Chassis] \<and> tree_links s = replicate 8 []
   | _ \<Rightarrow> False"
  by code_simp

lemma tree_load_some: "\<exists>i. tree_load = Some (Inr i, tree_state)"
  and tree_state_rows: "rows tree_state = [(Chassis, ''k'', ''m'', 1, ''a'', Some Critical), (Manager, ''m'', [], 1, ''a'', Some OK)]"
  and tree_state_subs: "h_subs tree_state Manager = [Chassis]"
  and tree_state_links: "tree_links tree_state = replicate 8 []"
proof -
  obtain i s where load: "tree_load = Some (Inr i, s)"
    and known:
    "rows s = [(Chassis, ''k'', ''m'', 1, ''a'', Some Critical), (Manager, ''m'', [], 1, ''a'', Some OK)]" "h_subs s Manager = [Chassis]" "tree_links s = replicate 8 []"
  proof (cases tree_load)
    case None
    from tree_load_run [unfolded None] show ?thesis by simp
  next
    case (Some x)
    obtain r s where x: "x = (r, s)" by (cases x)
    from tree_load_run [unfolded Some x] Some x that show ?thesis by (cases r) auto
  qed
  then show "\<exists>i. tree_load = Some (Inr i, tree_state)" "rows tree_state = [(Chassis, ''k'', ''m'', 1, ''a'', Some Critical), (Manager, ''m'', [], 1, ''a'', Some OK)]"
    "h_subs tree_state Manager = [Chassis]" "tree_links tree_state = replicate 8 []" using known by (simp_all add: tree_state_def load)
qed

lemma in_rows: "(c, u, p, i, a, x) \<in> set (rows s) \<longleftrightarrow>
    (\<exists>r \<in> set (gm_data (manager_of c s)). get_uuid r = u \<and> r_parent r = p \<and> r_id r = i \<and> r_agent r = a \<and> r_health r = x)"
  using component_listed by (force simp: rows_def)

lemma tree_entries:
  "r \<in> set (gm_data (manager_of c tree_state)) \<Longrightarrow>
    c = Chassis \<and> get_uuid r = ''k'' \<and> r_parent r = ''m'' \<and> r_id r = 1 \<and> r_agent r = ''a'' \<and> r_health r = Some Critical \<or>
    c = Manager \<and> get_uuid r = ''m'' \<and> r_parent r = [] \<and> r_id r = 1 \<and> r_agent r = ''a'' \<and> r_health r = Some OK"
  using in_rows [of c "get_uuid r" "r_parent r" "r_id r" "r_agent r" "r_health r" tree_state] by (auto simp: tree_state_rows)

lemma tree_chassis: "\<exists>r \<in> set (gm_data (manager_of Chassis tree_state)). get_uuid r = ''k'' \<and> r_parent r = ''m'' \<and> r_id r = 1"
  and tree_manager: "\<exists>r \<in> set (gm_data (manager_of Manager tree_state)). get_uuid r = ''m'' \<and> r_id r = 1 \<and> r_agent r = ''a''"
  using in_rows [of Chassis "''k''" "''m''" 1 "''a''" "Some Critical" tree_state] in_rows [of Manager "''m''" "[]" 1 "''a''" "Some OK" tree_state]
  by (auto simp: tree_state_rows)

lemma tree_env_proper: "env_proper tree_env"
  unfolding env_proper_def
proof (intro allI impI)
  fix n a req us
  assume "env_reply tree_env n a req = UuidsReply us"
  then have "us = [''m''] \<or> us = [''k''] \<or> us = []" by (cases req rule: tree_reply.cases) (auto simp: tree_env_def tree_data_def)
  then show "\<forall>u \<in> set us. proper_uuid u" by (auto simp: proper_uuid_def dotless_def)
qed

lemma tree_state_reachable: "(tree_step tree_env)\<^sup>*\<^sup>* (started_state 0 60 0 []) tree_state"
proof -
  obtain i where "load tree_env Manager ''a'' [] NoComponent ''m'' True (started_state 0 60 0 []) = Some (Inr i, tree_state)"
    using tree_load_some unfolding tree_load_def tree_start_def by blast
  then have "tree_step tree_env (started_state 0 60 0 []) tree_state"
    by (rule tree_step.loaded) (simp_all add: proper_uuid_def dotless_def)
  then show ?thesis by blast
qed

section \<open>The theorems\<close>

lemma resources_addressed_witness:
  "uuid_to_rest_id ''k'' (manager_of Chassis tree_state) = Inr 1
    \<and> rest_id_to_uuid ''Chassis'' 1 ''m'' (manager_of Chassis tree_state) = Inr ''k''"
proof -
  obtain r where r: "r \<in> set (gm_data (manager_of Chassis tree_state))" "get_uuid r = ''k''" "r_parent r = ''m''" "r_id r = 1"
    using tree_chassis by blast
  show ?thesis using resources_addressed [OF tree_state_reachable tree_env_proper r(1), of "''Chassis''"] r(2-4) by simp
qed

lemma tree_below: "((Manager, ''m''), (Chassis, ''k'')) \<in> below_rel tree_state"
  using tree_chassis by (auto simp: below_rel_def tree_state_subs)

lemma tree_acyclic: "acyclic (child_rel tree_state)"
  by (rule acyclic_ranked [where f = "\<lambda>u. if u = ''k'' then 0 else if u = ''m'' then 1 else 2"]) (auto dest!: tree_entries)

lemma tree_url: "get_component_url Manager ''m'' tree_state = Some (Inr ''/redfish/v1/Managers/1'', tree_state)"
proof -
  obtain r where "r \<in> set (gm_data (manager_of Manager tree_state))" "get_uuid r = ''m''" "r_id r = 1" using tree_manager by blast
  then have "uuid_to_rest_id ''m'' (manager_of Manager tree_state) = Inr 1"
    using addresses_law(1) [OF tree_reachable_ok [OF tree_state_reachable tree_env_proper], of r Manager] by simp
  then show ?thesis
    by (simp add: get_component_url_def get_component_url_recursive.simps build_parent_path_def manager_of_def path_append_id_def)
      code_simp
qed

lemma remove_exactly_subtree_witness:
  "\<exists>s'. remove tree_env Manager ''m'' tree_state = Some (Inr (), s')
    \<and> gm_data (manager_of Manager s') = [] \<and> gm_data (manager_of Chassis s') = []
    \<and> map ev_origin (h_notified s') = map ev_origin (h_notified tree_state) @ [''/redfish/v1/Managers/1'']"
proof -
  have "named_handler Manager" by (simp add: named_handler_def handler_components_def)
  moreover have "''m'' \<in> get_uuid ` set (gm_data (manager_of Manager tree_state))" using tree_manager by force
  ultimately obtain s' where s': "remove tree_env Manager ''m'' tree_state = Some (Inr (), s')"
    "\<And>c. gm_data (manager_of c s') = filter (\<lambda>r. (c, get_uuid r) \<notin> subtree tree_state Manager ''m'') (gm_data (manager_of c tree_state))"
    "map ev_origin (h_notified s') = map ev_origin (h_notified tree_state) @ [''/redfish/v1/Managers/1'']"
    using remove_exactly_subtree [OF tree_state_reachable tree_env_proper tree_acyclic _ _ tree_url] by blast
  have "(Manager, ''m'') \<in> subtree tree_state Manager ''m''" "(Chassis, ''k'') \<in> subtree tree_state Manager ''m''"
    using tree_below by (auto simp: subtree_def)
  then have "gm_data (manager_of Manager s') = []" "gm_data (manager_of Chassis s') = []"
    by (auto simp: s'(2) filter_empty_conv dest: tree_entries)
  with s' show ?thesis by blast
qed


lemma remove_unknown_not_processed_witness:
  "\<exists>s'. handle tree_env Drive ''a'' \<lparr>ed_gami_id = ''a'', ed_notification = Remove, ed_type = Drive, ed_parent = ''k'',
    ed_component = ''d'', ed_content = [], ed_old_state = []\<rparr> tree_state = Some (Inr False, s')"
proof -
  have "find_entry ''d'' (gm_data (manager_of Drive tree_state)) = None"
    using tree_entries [of _ Drive] by (cases "gm_data (manager_of Drive tree_state)") (auto simp: find_entry_def)
  moreover have "Drive \<in> set handler_components" "Drive \<notin> set no_url_kinds"
    by (simp_all add: handler_components_def no_url_kinds_def)
  ultimately show ?thesis
    using remove_unknown_not_processed [of "\<lparr>ed_gami_id = ''a'', ed_notification = Remove, ed_type = Drive, ed_parent = ''k'',
      ed_component = ''d'', ed_content = [], ed_old_state = []\<rparr>" Drive tree_state tree_env "''a''"] by auto
qed

lemma agent_cleaned_witness:
  "\<exists>s'. clean_resource_for_agent tree_env ''a'' tree_state = Some (Inr (), s') \<and> gm_data (manager_of Chassis s') = []"
proof -
  have "filter (\<lambda>r. r_agent r \<noteq> ''a'') (gm_data (manager_of Chassis tree_state)) = []"
    by (auto simp: filter_empty_conv dest: tree_entries)
  with agent_cleaned [OF tree_state_reachable tree_env_proper, of "''a''"] show ?thesis
    by (auto simp: handler_components_def model_of_def)
qed

lemma health_rollup_worst_witness: "health_rollup tree_state Manager ''m'' NoComponent = Some (Inr (Some Critical))"
proof -
  obtain r where r: "r \<in> set (gm_data (manager_of Manager tree_state))" "get_uuid r = ''m''" using tree_manager by blast
  have one: "one_table tree_state" unfolding one_table_def by (auto dest!: tree_entries)
  have named: "named_handler Manager" by (simp add: named_handler_def handler_components_def)
  have links: "links_known tree_state"
  proof -
    have "h_links tree_state t = []" for t
      using tree_state_links by (cases t) (simp_all add: tree_links_def numeral_eq_Suc)
    then show ?thesis by (simp add: links_known_def)
  qed
  have "((Manager, ''m''), (Chassis, ''k'')) \<in> accept_rel tree_state"
    using tree_chassis by (force simp: accept_rel_def tree_state_subs accept_keys_def get_keys_of_parent_def get_keys_def model_of_def)
  then have below: "(Manager, ''m'') \<in> visited_tree tree_state Manager ''m''" "(Chassis, ''k'') \<in> visited_tree tree_state Manager ''m''"
    by (auto simp: visited_tree_def)
  obtain r' where r': "r' \<in> set (gm_data (manager_of Chassis tree_state))" "get_uuid r' = ''k''" using tree_chassis by blast
  have "{r_health r' | r' c. r' \<in> set (gm_data (manager_of c tree_state)) \<and> (c, get_uuid r') \<in> visited_tree tree_state Manager ''m''}
      = {Some Critical, Some OK}"
    using r r' below tree_entries [OF r(1)] tree_entries [OF r'(1)] by (force dest: tree_entries)
  moreover have "Max {None, Some Critical, Some OK} = Some Critical" by code_simp
  ultimately show ?thesis
    using health_rollup_worst [OF tree_state_reachable tree_env_proper links one named r(1), of NoComponent]
      r(2) tree_entries [OF r(1)] by auto
qed

end
