(* ===== verification/Ssdp_Packet.thy ===== *)
theory Ssdp_Packet
  imports Prelude
begin

text \<open>
  \<^verbatim>\<open>common/ssdp\<close>: the packets of the discovery protocol (\<^verbatim>\<open>ssdp_packet.cpp\<close>), their parser
  (\<^verbatim>\<open>ssdp_packet_parser.hpp\<close>), the packets the service makes (\<^verbatim>\<open>ssdp_packet_factory_impl.cpp\<close>) and
  the validators of the packets it gets (\<^verbatim>\<open>ssdp_packet_validator.cpp\<close>). What is printed is read back as the
  same packet; a datagram that leaves a byte of the buffer free never makes the parser read outside of it.
\<close>

section \<open>Packets\<close>

text \<open>
  What the component throws. \<open>Outside\<close> is a read past the end of a container, which is undefined, and
  \<open>Endless\<close> a call that does not return; nothing catches these.
\<close>

datatype ssdp_error =
    ParserException string
  | RuntimeError string
  | NetError string
  | OutOfRange
  | Outside
  | Endless

datatype packet_type = NOTIFY | SEARCH_REQUEST | SEARCH_RESPONSE | UNKNOWN

definition type_strings :: "(packet_type \<times> string \<times> string) list" where
  "type_strings =
     [(NOTIFY, ''NOTIFY'', ''NOTIFY''),
      (SEARCH_REQUEST, ''M-SEARCH'', ''SEARCH_REQUEST''),
      (SEARCH_RESPONSE, ''HTTP/1.1'', ''SEARCH_RESPONSE''),
      (UNKNOWN, ''UNKNOWN'', ''UNKNOWN'')]"

fun type_index :: "packet_type \<Rightarrow> nat" where
  "type_index NOTIFY = 0"
| "type_index SEARCH_REQUEST = 1"
| "type_index SEARCH_RESPONSE = 2"
| "type_index UNKNOWN = 3"

definition from_request_line_string :: "string \<Rightarrow> packet_type" where
  "from_request_line_string s =
     (case List.find (\<lambda>(e, line, d). s = line) type_strings of Some (e, _) \<Rightarrow> e | None \<Rightarrow> UNKNOWN)"

definition to_request_line_string :: "packet_type \<Rightarrow> string" where
  "to_request_line_string t = fst (snd (type_strings ! type_index t))"

definition type_display :: "packet_type \<Rightarrow> string" where
  "type_display t = snd (snd (type_strings ! type_index t))"

abbreviation "AL \<equiv> ''AL''"
abbreviation "HOST \<equiv> ''Host''"
abbreviation "LOCATION \<equiv> ''Location''"
abbreviation "CACHE_CONTROL \<equiv> ''Cache-Control''"
abbreviation "NT \<equiv> ''NT''"
abbreviation "NTS \<equiv> ''NTS''"
abbreviation "SSDP_ALIVE_STR \<equiv> ''ssdp:alive''"
abbreviation "SSDP_BYEBYE_STR \<equiv> ''ssdp:byebye''"
abbreviation "USN \<equiv> ''USN''"
abbreviation "ST \<equiv> ''ST''"
abbreviation "MAN \<equiv> ''MAN''"
abbreviation "SSDP_DISCOVER \<equiv> CHR 0x22 # ''ssdp:discover'' @ [CHR 0x22]"
abbreviation "MX \<equiv> ''MX''"
abbreviation "EXT \<equiv> ''Ext''"
abbreviation "HTTP_VERSION \<equiv> ''HTTP/1.1''"
abbreviation "CR \<equiv> CHR 0x0D"
abbreviation "LF \<equiv> CHR 0x0A"
abbreviation "CRLF \<equiv> [CR, LF]"

type_synonym headers = "(string \<times> string) list"

record ssdp_packet =
  get_type :: packet_type
  m_headers :: headers

text \<open>\<^verbatim>\<open>std::tolower\<close> of a \<^verbatim>\<open>char\<close>, which is signed: the bytes from 128 on come before the others.\<close>

definition lower_int :: "char \<Rightarrow> int" where
  "lower_int c = (let n = int (of_char (to_lower c)) in if n < 128 then n else n - 256)"

fun icompare :: "string \<Rightarrow> string \<Rightarrow> int" where
  "icompare (c # cs) (d # ds) =
     (if lower_int c < lower_int d then -1 else if lower_int c > lower_int d then 1 else icompare cs ds)"
| "icompare [] ds = (if ds = [] then 0 else -1)"
| "icompare (c # cs) [] = 1"

definition find_header :: "headers \<Rightarrow> string \<Rightarrow> (string \<times> string) option" where
  "find_header hs key = List.find (\<lambda>h. icompare (fst h) key = 0) hs"

definition contains :: "headers \<Rightarrow> string \<Rightarrow> bool" where
  "contains hs key \<longleftrightarrow> find_header hs key \<noteq> None"

text \<open>The first header with the name gets the value; without one a header is added at the end.\<close>

fun headers_set :: "headers \<Rightarrow> string \<Rightarrow> string \<Rightarrow> headers" where
  "headers_set [] name value = [(name, value)]"
| "headers_set (h # hs) name value =
     (if icompare (fst h) name = 0 then (fst h, value) # hs else h # headers_set hs name value)"

definition headers_get :: "headers \<Rightarrow> string \<Rightarrow> ssdp_error + string" where
  "headers_get hs name =
     (case find_header hs name of Some h \<Rightarrow> Inr (snd h) | None \<Rightarrow> Inl (RuntimeError (name @ '' not found'')))"

definition new_packet :: "packet_type \<Rightarrow> ssdp_packet" where
  "new_packet t = \<lparr>get_type = t, m_headers = []\<rparr>"

definition packet_set_header :: "ssdp_packet \<Rightarrow> string \<Rightarrow> string \<Rightarrow> ssdp_packet" where
  "packet_set_header p name value = p\<lparr>m_headers := headers_set (m_headers p) name value\<rparr>"

definition packet_get_header :: "ssdp_packet \<Rightarrow> string \<Rightarrow> ssdp_error + string" where
  "packet_get_header p name = headers_get (m_headers p) name"

definition has_header :: "ssdp_packet \<Rightarrow> string \<Rightarrow> bool" where
  "has_header p name = contains (m_headers p) name"

definition is_search_request :: "ssdp_packet \<Rightarrow> bool" where
  "is_search_request p \<longleftrightarrow> get_type p = SEARCH_REQUEST"

definition get_request_line :: "packet_type \<Rightarrow> string" where
  "get_request_line t =
     to_request_line_string t
     @ (if t = SEARCH_REQUEST \<or> t = NOTIFY then '' * '' @ HTTP_VERSION
        else if t = SEARCH_RESPONSE then '' 200 OK'' else [])
     @ CRLF"

definition header_line :: "string \<times> string \<Rightarrow> string" where
  "header_line h = fst h @ '':'' @ snd h @ CRLF"

definition packet_to_string :: "ssdp_packet \<Rightarrow> string" where
  "packet_to_string p = get_request_line (get_type p) @ concat (map header_line (m_headers p)) @ CRLF"

section \<open>The parser\<close>

text \<open>
  The parser walks with \<^verbatim>\<open>m_current\<close> through a container of which only the first \<^verbatim>\<open>length\<close> elements are the
  datagram. A cursor is what the container holds from \<^verbatim>\<open>m_current\<close> on, and \<^verbatim>\<open>m_end - m_current\<close>. The conditions
  compare with \<^verbatim>\<open>m_end\<close> only, and some dereference \<^verbatim>\<open>m_current\<close> without comparing: at the end they see the
  element behind the datagram, and where the container ends there they are undefined.
\<close>

type_synonym cursor = "string \<times> int"

definition at_end :: "cursor \<Rightarrow> bool" where
  "at_end cu \<longleftrightarrow> snd cu = 0"

definition deref :: "cursor \<Rightarrow> ssdp_error + char" where
  "deref cu = (case fst cu of [] \<Rightarrow> Inl Outside | c # cs \<Rightarrow> Inr c)"

definition advance :: "cursor \<Rightarrow> cursor" where
  "advance cu = (tl (fst cu), snd cu - 1)"

text \<open>\<^verbatim>\<open>for (; m_current != m_end && P(*m_current); ++m_current) out += *m_current;\<close>\<close>

fun take_chars :: "(char \<Rightarrow> bool) \<Rightarrow> string \<Rightarrow> int \<Rightarrow> ssdp_error + (string \<times> cursor)" where
  "take_chars P cs k =
     (if k = 0 then Inr ([], (cs, k))
      else case cs of
          [] \<Rightarrow> Inl Outside
        | c # cs' \<Rightarrow>
            (if P c then res_bind (take_chars P cs' (k - 1)) (\<lambda>(out, cu). Inr (c # out, cu))
             else Inr ([], (cs, k))))"

declare take_chars.simps [simp del]

definition skip_spaces :: "cursor \<Rightarrow> ssdp_error + cursor" where
  "skip_spaces cu = res_bind (take_chars is_blank (fst cu) (snd cu)) (\<lambda>(_, cu'). Inr cu')"

definition next_token :: "cursor \<Rightarrow> ssdp_error + (string \<times> cursor)" where
  "next_token cu = take_chars (\<lambda>c. \<not> is_blank c) (fst cu) (snd cu)"

definition parse_request_line :: "cursor \<Rightarrow> ssdp_error + (packet_type \<times> cursor)" where
  "parse_request_line cu =
     res_bind (skip_spaces cu) (\<lambda>cu1.
     res_bind (next_token cu1) (\<lambda>(method_or_resp, cu2).
     res_bind (skip_spaces cu2) (\<lambda>cu3.
     res_bind (next_token cu3) (\<lambda>(_, cu4).
     res_bind (skip_spaces cu4) (\<lambda>cu5.
     res_bind (next_token cu5) (\<lambda>(_, cu6).
     res_bind (skip_spaces cu6) (\<lambda>cu7.
     Inr (from_request_line_string method_or_resp, cu7))))))))"

definition trim_right :: "string \<Rightarrow> string" where
  "trim_right s = rev (dropWhile is_blank (rev s))"

abbreviation "line_end c \<equiv> c = CR \<or> c = LF"

text \<open>The end of a line: a carriage return is skipped, then a line feed has to follow, unless nothing does.\<close>

definition end_of_line :: "cursor \<Rightarrow> ssdp_error + cursor" where
  "end_of_line cu =
     res_bind (deref cu) (\<lambda>c.
       let cu1 = (if c = CR then advance cu else cu) in
       res_bind (deref cu1) (\<lambda>d.
         if d = LF then Inr (advance cu1)
         else if \<not> at_end cu1 then Inl (ParserException ''No CRLF found'')
         else Inr cu1))"

text \<open>
  The lines a value is continued on. Every turn has to get past a character, which the loop of the code
  does as well: it starts at a blank, or it is at \<^verbatim>\<open>m_end\<close>, where it goes on for ever if a blank is there.
\<close>

partial_function (option) folding :: "cursor \<Rightarrow> string \<Rightarrow> (ssdp_error + (string \<times> cursor)) option" where
  "folding cu v =
     (case deref cu of
        Inl e \<Rightarrow> Some (Inl e)
      | Inr c \<Rightarrow>
          (if c = CHR '' '' \<or> c = CHR 0x09
           then (case take_chars (\<lambda>c. \<not> line_end c) (fst cu) (snd cu) of
                   Inl e \<Rightarrow> Some (Inl e)
                 | Inr (part, cu1) \<Rightarrow>
                     (case end_of_line cu1 of
                        Inl e \<Rightarrow> Some (Inl e)
                      | Inr cu2 \<Rightarrow> folding cu2 (v @ part)))
           else Some (Inr (v, cu))))"

text \<open>
  One header line. A line without a colon is left out, which the code does with \<^verbatim>\<open>continue\<close>.
\<close>

definition parse_header :: "cursor \<Rightarrow> ssdp_packet \<Rightarrow> (ssdp_error + (ssdp_packet \<times> cursor)) option" where
  "parse_header cu p =
     (case res_bind (take_chars (\<lambda>c. c \<noteq> CHR '':'' \<and> c \<noteq> LF) (fst cu) (snd cu)) (\<lambda>(name, cu1).
             res_bind (deref cu1) (\<lambda>c. Inr (name, c, cu1))) of
        Inl e \<Rightarrow> Some (Inl e)
      | Inr (name, c, cu1) \<Rightarrow>
          (if c = LF then Some (Inr (p, advance cu1))
           else if c \<noteq> CHR '':'' then Some (Inl (ParserException ''No colon found''))
           else
             (let cu2 = (if \<not> at_end cu1 then advance cu1 else cu1) in
              case res_bind (take_chars (\<lambda>c. is_blank c \<and> \<not> line_end c) (fst cu2) (snd cu2)) (\<lambda>(_, cu3).
                     res_bind (take_chars (\<lambda>c. \<not> line_end c) (fst cu3) (snd cu3)) (\<lambda>(v, cu4).
                     res_bind (end_of_line cu4) (\<lambda>cu5. Inr (v, cu5)))) of
                Inl e \<Rightarrow> Some (Inl e)
              | Inr (v, cu5) \<Rightarrow>
                  (case folding cu5 v of
                     None \<Rightarrow> None
                   | Some (Inl e) \<Rightarrow> Some (Inl e)
                   | Some (Inr (v', cu6)) \<Rightarrow> Some (Inr (packet_set_header p name (trim_right v'), cu6))))))"

partial_function (option) header_loop :: "cursor \<Rightarrow> ssdp_packet \<Rightarrow> (ssdp_error + (ssdp_packet \<times> cursor)) option" where
  "header_loop cu p =
     (if at_end cu then Some (Inr (p, cu))
      else case deref cu of
          Inl e \<Rightarrow> Some (Inl e)
        | Inr c \<Rightarrow>
            (if line_end c then Some (Inr (p, cu))
             else case parse_header cu p of
                None \<Rightarrow> None
              | Some (Inl e) \<Rightarrow> Some (Inl e)
              | Some (Inr (p', cu')) \<Rightarrow> header_loop cu' p'))"

definition parse_headers :: "cursor \<Rightarrow> ssdp_packet \<Rightarrow> (ssdp_error + ssdp_packet) option" where
  "parse_headers cu p =
     (case header_loop cu p of
        None \<Rightarrow> None
      | Some (Inl e) \<Rightarrow> Some (Inl e)
      | Some (Inr (p', cu')) \<Rightarrow>
          Some (res_bind (take_chars (\<lambda>c. c \<noteq> LF) (fst cu') (snd cu')) (\<lambda>_. Inr p')))"

definition parse_packet :: "string \<Rightarrow> nat \<Rightarrow> (ssdp_error + ssdp_packet) option" where
  "parse_packet container n =
     (if n > length container then Some (Inl (ParserException ''Length out of range''))
      else case parse_request_line (container, int n) of
          Inl e \<Rightarrow> Some (Inl e)
        | Inr (t, cu) \<Rightarrow> parse_headers cu (new_packet t))"

section \<open>Header names\<close>

lemma lower_int_eq_iff: "lower_int c = lower_int d \<longleftrightarrow> to_lower c = to_lower d"
proof -
  have "(of_char a :: nat) = of_char b \<longleftrightarrow> a = b" for a b :: char
    by (rule of_char_eq_iff)
  moreover have "int (of_char (to_lower c)) < 256" "int (of_char (to_lower d)) < 256"
    using nat_of_char_less_256 [of "to_lower c"] nat_of_char_less_256 [of "to_lower d"] by linarith+
  ultimately show ?thesis
    unfolding lower_int_def Let_def by (smt (verit) of_nat_0_le_iff of_nat_eq_iff)
qed

lemma icompare_eq_0_iff: "icompare s t = 0 \<longleftrightarrow> map to_lower s = map to_lower t"
proof (induction s t rule: icompare.induct)
  case (1 c cs d ds)
  then show ?case using lower_int_eq_iff [of c d] by auto
qed (auto simp: Cons_eq_map_conv)

abbreviation "lower_names hs \<equiv> map (\<lambda>h. map to_lower (fst h)) hs"

lemma contains_iff: "contains hs key \<longleftrightarrow> map to_lower key \<in> set (lower_names hs)"
  by (force simp: contains_def find_header_def icompare_eq_0_iff find_None_iff2 find_None_iff)

lemma lower_names_set:
  "lower_names (headers_set hs name v) =
     (if contains hs name then lower_names hs else lower_names hs @ [map to_lower name])"
  by (induction hs) (auto simp: contains_iff icompare_eq_0_iff)

lemma headers_set_append: "\<not> contains hs name \<Longrightarrow> headers_set hs name v = hs @ [(name, v)]"
  by (induction hs) (auto simp: contains_iff icompare_eq_0_iff)

lemma headers_get_set:
  "headers_get (headers_set hs name v) key =
     (if map to_lower key = map to_lower name then Inr v else headers_get hs key)"
  by (induction hs) (auto simp: headers_get_def find_header_def icompare_eq_0_iff)

section \<open>The parser on a datagram in a buffer\<close>

text \<open>The cursor where \<open>xs\<close> is left of the datagram and \<open>ys\<close> is behind it.\<close>

definition cur :: "string \<Rightarrow> string \<Rightarrow> cursor" where
  "cur xs ys = (xs @ ys, int (length xs))"

lemma cur_eq_iff [simp]: "cur xs ys = cur xs' ys \<longleftrightarrow> xs = xs'"
  by (auto simp: cur_def)

lemma at_end_cur [simp]: "at_end (cur xs ys) \<longleftrightarrow> xs = []"
  by (simp add: at_end_def cur_def)

lemma deref_cur [simp]:
  "deref (cur (x # xs) ys) = Inr x"
  "deref (cur [] (y # ys)) = Inr y"
  "deref (cur [] []) = Inl Outside"
  by (simp_all add: deref_def cur_def)

lemma advance_cur [simp]: "advance (cur (x # xs) ys) = cur xs ys"
  by (simp add: advance_def cur_def)

lemma take_chars_cur [simp]:
  "take_chars P (fst (cur xs ys)) (snd (cur xs ys)) = Inr (takeWhile P xs, cur (dropWhile P xs) ys)"
  by (induction xs) (auto simp: cur_def take_chars.simps)

lemma skip_spaces_cur [simp]: "skip_spaces (cur xs ys) = Inr (cur (dropWhile is_blank xs) ys)"
  by (simp add: skip_spaces_def)

lemma next_token_cur [simp]:
  "next_token (cur xs ys) = Inr (takeWhile (\<lambda>c. \<not> is_blank c) xs, cur (dropWhile (\<lambda>c. \<not> is_blank c) xs) ys)"
  by (simp add: next_token_def)

text \<open>What the request line leaves of a datagram.\<close>

definition after_token :: "string \<Rightarrow> string" where
  "after_token xs = dropWhile is_blank (dropWhile (\<lambda>c. \<not> is_blank c) xs)"

lemma parse_request_line_cur:
  "parse_request_line (cur xs ys) =
     Inr (from_request_line_string (takeWhile (\<lambda>c. \<not> is_blank c) (dropWhile is_blank xs)),
          cur (after_token (after_token (after_token (dropWhile is_blank xs)))) ys)"
  by (simp add: parse_request_line_def after_token_def)

text \<open>
  A byte behind the datagram at which no loop goes on and no line ends. The buffer of the service is filled
  with zeros before each packet, so that this byte is a zero.
\<close>

definition stopper :: "char \<Rightarrow> bool" where
  "stopper z \<longleftrightarrow> z \<noteq> CR \<and> z \<noteq> LF \<and> z \<noteq> CHR '' '' \<and> z \<noteq> CHR 0x09 \<and> z \<noteq> CHR '':''"

lemma stopper_nul [simp]: "stopper CHR 0x00"
  by (simp add: stopper_def)

text \<open>What a step of the parser on a datagram may do: throw, or go on with what is left of the datagram.\<close>

definition parser_error :: "ssdp_error \<Rightarrow> bool" where
  "parser_error e \<longleftrightarrow> e = ParserException ''No colon found'' \<or> e = ParserException ''No CRLF found''"

lemma end_of_line_cur:
  "end_of_line (cur (x # xs) (z # ys)) =
     (if x = LF then Inr (cur xs (z # ys))
      else if x \<noteq> CR then Inl (ParserException ''No CRLF found'')
      else case xs of
          [] \<Rightarrow> (if z = LF then Inr (advance (cur [] (z # ys))) else Inr (cur [] (z # ys)))
        | y # xs' \<Rightarrow> (if y = LF then Inr (cur xs' (z # ys)) else Inl (ParserException ''No CRLF found'')))"
  by (auto simp: end_of_line_def split: list.split)

lemma end_of_line_stopper:
  assumes "stopper z"
  shows "(\<exists>e. end_of_line (cur xs (z # ys)) = Inl e \<and> parser_error e)
       \<or> (\<exists>xs'. end_of_line (cur xs (z # ys)) = Inr (cur xs' (z # ys)) \<and> length xs' \<le> length xs)"
proof (cases xs)
  case Nil
  with assms show ?thesis by (auto simp: end_of_line_def stopper_def intro!: exI [of _ "[]"])
next
  case (Cons x xs')
  with assms show ?thesis
    by (cases xs') (force simp: end_of_line_cur stopper_def parser_error_def)+
qed

lemma folding_stopper:
  assumes "stopper z"
  shows "(\<exists>e. folding (cur xs (z # ys)) v = Some (Inl e) \<and> parser_error e)
       \<or> (\<exists>v' xs'. folding (cur xs (z # ys)) v = Some (Inr (v', cur xs' (z # ys))) \<and> length xs' \<le> length xs)"
proof (induction "length xs" arbitrary: xs v rule: less_induct)
  case less
  let ?c = "case xs of [] \<Rightarrow> z | x # _ \<Rightarrow> x"
  have d: "deref (cur xs (z # ys)) = Inr ?c" by (cases xs) auto
  show ?case
  proof (cases "?c = CHR '' '' \<or> ?c = CHR 0x09")
    case False
    then show ?thesis by (subst (1 2) folding.simps) (auto simp add: d)
  next
    case True
    then obtain x xt where xs: "xs = x # xt" using assms by (cases xs) (auto simp: stopper_def)
    let ?r = "dropWhile (\<lambda>c. \<not> line_end c) xs"
    have r: "length ?r < length xs" using True xs length_dropWhile_le [of "\<lambda>c. \<not> line_end c" xt] by auto
    from end_of_line_stopper [OF assms, of ?r ys] show ?thesis
    proof (elim disjE exE conjE)
      fix e
      assume "end_of_line (cur ?r (z # ys)) = Inl e" "parser_error e"
      then show ?thesis using True by (subst (1 2) folding.simps) (simp add: d)
    next
      fix xs'
      assume e: "end_of_line (cur ?r (z # ys)) = Inr (cur xs' (z # ys))" and l: "length xs' \<le> length ?r"
      have "folding (cur xs (z # ys)) v = folding (cur xs' (z # ys)) (v @ takeWhile (\<lambda>c. \<not> line_end c) xs)"
        using True e by (subst folding.simps) (simp add: d)
      then show ?thesis using less [of xs' "v @ takeWhile (\<lambda>c. \<not> line_end c) xs"] r l by fastforce
    qed
  qed
qed

text \<open>The names of a packet are distinct but for upper and lower case, which setting a header keeps.\<close>

definition packet_ok :: "ssdp_packet \<Rightarrow> bool" where
  "packet_ok p \<longleftrightarrow> distinct (lower_names (m_headers p))"

lemma packet_ok_new [inv_intros]: "packet_ok (new_packet t)"
  by (simp add: packet_ok_def new_packet_def)

lemma packet_ok_set [inv_intros]: "packet_ok p \<Longrightarrow> packet_ok (packet_set_header p name v)"
  by (auto simp: packet_ok_def packet_set_header_def lower_names_set contains_iff)

lemma parse_header_stopper:
  assumes "stopper z" "xs \<noteq> []" "\<not> line_end (hd xs)" "packet_ok p"
  shows "(\<exists>e. parse_header (cur xs (z # ys)) p = Some (Inl e) \<and> parser_error e)
       \<or> (\<exists>p' xs'. parse_header (cur xs (z # ys)) p = Some (Inr (p', cur xs' (z # ys)))
                  \<and> length xs' < length xs \<and> packet_ok p' \<and> get_type p' = get_type p)"
proof -
  define r where "r = dropWhile (\<lambda>c. c \<noteq> CHR '':'' \<and> c \<noteq> LF) xs"
  define nm where "nm = takeWhile (\<lambda>c. c \<noteq> CHR '':'' \<and> c \<noteq> LF) xs"
  have lr: "length r \<le> length xs" unfolding r_def by (rule length_dropWhile_le)
  show ?thesis
  proof (cases r)
    case Nil
    then show ?thesis using assms(1)
      by (simp add: parse_header_def parser_error_def stopper_def flip: r_def nm_def)
  next
    case (Cons c r')
    have "c = CHR '':'' \<or> c = LF"
      using hd_dropWhile [of "\<lambda>c. c \<noteq> CHR '':'' \<and> c \<noteq> LF" xs] Cons unfolding r_def by auto
    then consider "c = LF" | "c = CHR '':''" by blast
    then show ?thesis
    proof cases
      case 1
      with Cons have "parse_header (cur xs (z # ys)) p = Some (Inr (p, cur r' (z # ys)))"
        by (simp add: parse_header_def flip: r_def nm_def)
      moreover have "length r' < length xs" using lr Cons by simp
      ultimately show ?thesis using assms(4) by blast
    next
      case 2
      define q where "q = dropWhile (\<lambda>c. is_blank c \<and> \<not> line_end c) r'"
      define v where "v = takeWhile (\<lambda>c. \<not> line_end c) q"
      define t where "t = dropWhile (\<lambda>c. \<not> line_end c) q"
      have "length t \<le> length q" "length q \<le> length r'"
        unfolding t_def q_def by (rule length_dropWhile_le)+
      then have lt: "length t < length xs" using lr Cons by simp
      have ph: "parse_header (cur xs (z # ys)) p =
          (case end_of_line (cur t (z # ys)) of
             Inl e \<Rightarrow> Some (Inl e)
           | Inr cu5 \<Rightarrow>
               (case folding cu5 v of
                  None \<Rightarrow> None
                | Some (Inl e) \<Rightarrow> Some (Inl e)
                | Some (Inr (v', cu6)) \<Rightarrow> Some (Inr (packet_set_header p nm (trim_right v'), cu6))))"
        using 2 Cons
        by (simp add: parse_header_def Let_def t_def v_def q_def split: sum.split flip: r_def nm_def)
      from end_of_line_stopper [OF assms(1), of t ys] show ?thesis
      proof (elim disjE exE conjE)
        fix xs' assume e: "end_of_line (cur t (z # ys)) = Inr (cur xs' (z # ys))" "length xs' \<le> length t"
        from folding_stopper [OF assms(1), of xs' ys v] show ?thesis
          using ph e lt packet_ok_set [OF assms(4)] by (auto simp: packet_set_header_def)
      qed (use ph in auto)
    qed
  qed
qed

lemma header_loop_stopper:
  assumes "stopper z" "packet_ok p"
  shows "(\<exists>e. header_loop (cur xs (z # ys)) p = Some (Inl e) \<and> parser_error e)
       \<or> (\<exists>p' xs'. header_loop (cur xs (z # ys)) p = Some (Inr (p', cur xs' (z # ys)))
                  \<and> packet_ok p' \<and> get_type p' = get_type p)"
  using assms(2)
proof (induction "length xs" arbitrary: xs p rule: less_induct)
  case less
  show ?case
  proof (cases "xs = [] \<or> line_end (hd xs)")
    case True
    then show ?thesis using less.prems by (cases xs) (auto simp: header_loop.simps)
  next
    case False
    then obtain x xt where xs: "xs = x # xt" "\<not> line_end x" by (cases xs) auto
    have hl: "header_loop (cur xs (z # ys)) p =
        (case parse_header (cur xs (z # ys)) p of
           None \<Rightarrow> None
         | Some (Inl e) \<Rightarrow> Some (Inl e)
         | Some (Inr (p', cu')) \<Rightarrow> header_loop cu' p')"
      using xs by (subst header_loop.simps) simp
    have "xs \<noteq> []" "\<not> line_end (hd xs)" using xs by auto
    from parse_header_stopper [OF assms(1) this less.prems, of ys] show ?thesis
    proof (elim disjE exE conjE)
      fix p' xs'
      assume "parse_header (cur xs (z # ys)) p = Some (Inr (p', cur xs' (z # ys)))"
        "length xs' < length xs" "packet_ok p'" "get_type p' = get_type p"
      then show ?thesis using hl less.hyps [of xs' p'] by auto
    qed (use hl in auto)
  qed
qed

lemma parse_packet_cur:
  "parse_packet (xs @ ys) (length xs) =
     (case parse_request_line (cur xs ys) of
        Inl e \<Rightarrow> Some (Inl e)
      | Inr (t, cu) \<Rightarrow> parse_headers cu (new_packet t))"
  by (simp add: parse_packet_def cur_def)

text \<open>
  Whatever a datagram holds, if it leaves a byte of the buffer free, as with the zeros
  the service puts there first, its parsing ends and never looks outside of the buffer: it is a packet whose
  header names are distinct but for their case, or a parser exception.
\<close>

lemma datagram_parsed:
  assumes "n < length buffer" "stopper (buffer ! n)"
  shows "\<exists>r. parse_packet buffer n = Some r
           \<and> (case r of
                Inl e \<Rightarrow> e = ParserException ''No colon found'' \<or> e = ParserException ''No CRLF found''
              | Inr p \<Rightarrow> packet_ok p)"
proof -
  let ?xs = "take n buffer" and ?z = "buffer ! n" and ?ys = "drop (Suc n) buffer"
  have b: "buffer = ?xs @ ?z # ?ys" using assms(1) by (rule id_take_nth_drop)
  have l: "length ?xs = n" using assms(1) by simp
  obtain t xs' where "parse_request_line (cur ?xs (?z # ?ys)) = Inr (t, cur xs' (?z # ?ys))"
    by (simp add: parse_request_line_cur)
  then have "parse_packet buffer n = parse_headers (cur xs' (?z # ?ys)) (new_packet t)"
    using parse_packet_cur [of ?xs "?z # ?ys"] b l by simp
  then show ?thesis
    using header_loop_stopper [OF assms(2) packet_ok_new [of t], of xs' ?ys]
    by (auto simp: parse_headers_def parser_error_def)
qed

section \<open>What is printed is read back\<close>

definition wire_header :: "string \<times> string \<Rightarrow> bool" where
  "wire_header h \<longleftrightarrow>
     CHR '':'' \<notin> set (fst h) \<and> LF \<notin> set (fst h) \<and> (fst h = [] \<or> \<not> is_blank (hd (fst h)))
     \<and> CR \<notin> set (snd h) \<and> LF \<notin> set (snd h)
     \<and> (snd h = [] \<or> \<not> is_blank (hd (snd h)) \<and> \<not> is_blank (last (snd h)))"

text \<open>The packets whose text says what they are.\<close>

definition wire_packet :: "ssdp_packet \<Rightarrow> bool" where
  "wire_packet p \<longleftrightarrow> get_type p \<noteq> UNKNOWN \<and> packet_ok p \<and> (\<forall>h \<in> set (m_headers p). wire_header h)"

lemma is_blank_simps [simp]:
  "is_blank CHR '' ''" "is_blank CHR 0x09" "is_blank CR" "is_blank LF" "\<not> is_blank CHR '':''"
  by (simp_all add: is_blank_def)

lemma end_of_line_crlf [simp]: "end_of_line (cur (CR # LF # xs) ys) = Inr (cur xs ys)"
  by (simp add: end_of_line_def)

lemma folding_ends: "xs \<noteq> [] \<Longrightarrow> \<not> is_blank (hd xs) \<or> line_end (hd xs) \<Longrightarrow> folding (cur xs ys) v = Some (Inr (v, cur xs ys))"
  by (cases xs) (auto simp: folding.simps)

lemma takeWhile_dropWhile_end:
  assumes "\<forall>c \<in> set xs. P c" "\<not> P z"
  shows "takeWhile P (xs @ z # ys) = xs" "dropWhile P (xs @ z # ys) = z # ys"
  using assms by (simp_all add: takeWhile_append2 dropWhile_append2)

lemma trim_right_same: "xs = [] \<or> \<not> is_blank (last xs) \<Longrightarrow> trim_right xs = xs"
  by (cases xs rule: rev_cases) (auto simp: trim_right_def)

lemma parse_header_line:
  assumes "wire_header h" "xs \<noteq> []" "\<not> is_blank (hd xs) \<or> line_end (hd xs)"
  shows "parse_header (cur (header_line h @ xs) ys) p = Some (Inr (packet_set_header p (fst h) (snd h), cur xs ys))"
proof -
  obtain nm v where h: "h = (nm, v)" by (cases h)
  have n: "\<forall>c \<in> set nm. c \<noteq> CHR '':'' \<and> c \<noteq> LF" and v: "\<forall>c \<in> set v. c \<noteq> CR \<and> c \<noteq> LF"
    using assms(1) by (auto simp: h wire_header_def)
  note nm = takeWhile_dropWhile_end [OF n, of "CHR '':''" "v @ CR # LF # xs"]
  note vv = takeWhile_dropWhile_end [OF v, of CR "LF # xs", simplified]
  have b: "dropWhile (\<lambda>c. is_blank c \<and> c \<noteq> CR \<and> c \<noteq> LF) (v @ CR # LF # xs) = v @ CR # LF # xs"
    using assms(1) by (cases v) (auto simp: h wire_header_def)
  have "trim_right v = v" using assms(1) by (intro trim_right_same) (auto simp: h wire_header_def)
  then show ?thesis
    using assms
    by (simp add: parse_header_def h header_line_def nm vv b folding_ends wire_header_def)
qed

lemma header_loop_lines:
  assumes "\<forall>h \<in> set hs. wire_header h" "packet_ok (p\<lparr>m_headers := m_headers p @ hs\<rparr>)"
  shows "header_loop (cur (concat (map header_line hs) @ CRLF) ys) p
           = Some (Inr (p\<lparr>m_headers := m_headers p @ hs\<rparr>, cur CRLF ys))"
  using assms
proof (induction hs arbitrary: p)
  case Nil
  then show ?case by (simp add: header_loop.simps)
next
  case (Cons h hs)
  let ?rest = "concat (map header_line hs) @ CRLF"
  have first: "\<exists>x xt. header_line g @ us = x # xt \<and> \<not> is_blank x" if "wire_header g" for g us
    using that by (cases "fst g") (auto simp: header_line_def wire_header_def)
  have rest: "?rest \<noteq> []" "\<not> is_blank (hd ?rest) \<or> line_end (hd ?rest)"
    using first [of "hd hs" "concat (map header_line (tl hs)) @ CRLF"] Cons.prems(1) by (cases hs; force)+
  have "\<not> contains (m_headers p) (fst h)"
    using Cons.prems(2) by (auto simp: packet_ok_def contains_iff)
  then have set: "packet_set_header p (fst h) (snd h) = p\<lparr>m_headers := m_headers p @ [h]\<rparr>"
    by (simp add: packet_set_header_def headers_set_append)
  obtain x xt where x: "header_line h @ ?rest = x # xt" "\<not> is_blank x"
    using first [of h ?rest] Cons.prems(1) by auto
  then have "\<not> line_end x" by auto
  moreover have "parse_header (cur (header_line h @ ?rest) ys) p
      = Some (Inr (p\<lparr>m_headers := m_headers p @ [h]\<rparr>, cur ?rest ys))"
    using parse_header_line [OF _ rest, of h ys p] set Cons.prems(1) by simp
  ultimately have "header_loop (cur (header_line h @ ?rest) ys) p
          = header_loop (cur ?rest ys) (p\<lparr>m_headers := m_headers p @ [h]\<rparr>)"
    unfolding x(1) by (subst header_loop.simps) simp
  with Cons show ?case by simp
qed

lemma parse_request_line_printed:
  assumes "t \<noteq> UNKNOWN"
  shows "parse_request_line (cur (get_request_line t @ xs) ys) = Inr (t, cur (dropWhile is_blank xs) ys)"
  using assms
  by (cases t)
     (simp_all add: parse_request_line_cur after_token_def get_request_line_def to_request_line_string_def
        type_strings_def from_request_line_string_def is_blank_def)

lemma parse_headers_printed:
  assumes "\<forall>h \<in> set hs. wire_header h" "packet_ok \<lparr>get_type = t, m_headers = hs\<rparr>"
  shows "parse_headers (cur (dropWhile is_blank (concat (map header_line hs) @ CRLF)) ys) (new_packet t)
           = Some (Inr \<lparr>get_type = t, m_headers = hs\<rparr>)"
proof (cases hs)
  case Nil
  then show ?thesis by (simp add: parse_headers_def header_loop.simps new_packet_def)
next
  case (Cons h hs')
  then have "\<not> is_blank (hd (header_line h))" "header_line h \<noteq> []"
    using assms(1) by (cases "fst h"; auto simp: header_line_def wire_header_def)+
  then have "dropWhile is_blank (concat (map header_line hs) @ CRLF) = concat (map header_line hs) @ CRLF"
    using Cons by (cases "header_line h") auto
  with header_loop_lines [of hs "new_packet t" ys] assms show ?thesis
    by (simp add: parse_headers_def new_packet_def)
qed

text \<open>
  A packet the service prints is read back as the same packet, with its headers in their
  order, whatever is behind it in the buffer: names without colons and line ends and values without line ends
  and outer blanks are all it takes.
\<close>

lemma packet_read_back:
  assumes "wire_packet p"
  shows "parse_packet (packet_to_string p @ ys) (length (packet_to_string p)) = Some (Inr p)"
proof -
  have p: "\<lparr>get_type = get_type p, m_headers = m_headers p\<rparr> = p" by simp
  show ?thesis
    using assms parse_headers_printed [of "m_headers p" "get_type p" ys] p
    unfolding parse_packet_cur wire_packet_def packet_to_string_def
    by (simp add: parse_request_line_printed)
qed

section \<open>Validators\<close>

type_synonym packet_key = "packet_type \<times> string"

definition key_of_packet :: "ssdp_packet \<Rightarrow> ssdp_error + packet_key" where
  "key_of_packet p =
     (if has_header p NTS then res_bind (packet_get_header p NTS) (\<lambda>s. Inr (get_type p, s)) else Inr (get_type p, []))"

datatype packet_validator = AliveValidator | ByeByeValidator | SearchRequestValidator | SearchResponseValidator

fun validate_subtype :: "packet_validator \<Rightarrow> ssdp_packet \<Rightarrow> ssdp_error + bool" where
  "validate_subtype AliveValidator p =
     res_bind (packet_get_header p NTS) (\<lambda>s.
       Inr (s = SSDP_ALIVE_STR \<and> has_header p CACHE_CONTROL \<and> (has_header p AL \<or> has_header p LOCATION)))"
| "validate_subtype ByeByeValidator p = res_bind (packet_get_header p NTS) (\<lambda>s. Inr (s = SSDP_BYEBYE_STR))"
| "validate_subtype _ p = Inr False"

definition notify_is_valid :: "packet_validator \<Rightarrow> ssdp_packet \<Rightarrow> ssdp_error + bool" where
  "notify_is_valid v p =
     (if get_type p \<noteq> NOTIFY then Inr False
      else if \<not> has_header p HOST \<or> \<not> has_header p NT \<or> \<not> has_header p NTS \<or> \<not> has_header p USN then Inr False
      else validate_subtype v p)"

definition search_request_is_valid :: "ssdp_packet \<Rightarrow> ssdp_error + bool" where
  "search_request_is_valid p =
     (if SEARCH_REQUEST = get_type p
      then (if \<not> has_header p HOST \<or> \<not> has_header p ST \<or> \<not> has_header p MAN \<or> \<not> has_header p MX then Inr False
            else res_bind (packet_get_header p MAN) (\<lambda>m. if m \<noteq> SSDP_DISCOVER then Inr False else Inr True))
      else Inr False)"

definition search_response_is_valid :: "ssdp_packet \<Rightarrow> ssdp_error + bool" where
  "search_response_is_valid p =
     (if SEARCH_RESPONSE = get_type p
      then (if \<not> has_header p CACHE_CONTROL \<or> \<not> has_header p ST \<or> \<not> (has_header p AL \<or> has_header p LOCATION)
               \<or> \<not> has_header p USN then Inr False else Inr True)
      else Inr False)"

fun packet_is_valid :: "packet_validator \<Rightarrow> ssdp_packet \<Rightarrow> ssdp_error + bool" where
  "packet_is_valid SearchRequestValidator p = search_request_is_valid p"
| "packet_is_valid SearchResponseValidator p = search_response_is_valid p"
| "packet_is_valid v p = notify_is_valid v p"

definition validators_map :: "(packet_key \<times> packet_validator) list" where
  "validators_map =
     [((NOTIFY, SSDP_ALIVE_STR), AliveValidator),
      ((NOTIFY, SSDP_BYEBYE_STR), ByeByeValidator),
      ((SEARCH_REQUEST, []), SearchRequestValidator),
      ((SEARCH_RESPONSE, []), SearchResponseValidator)]"

definition validate_ssdp_packet :: "ssdp_packet \<Rightarrow> ssdp_error + bool" where
  "validate_ssdp_packet p =
     res_bind (key_of_packet p) (\<lambda>key.
       case map_of validators_map key of Some v \<Rightarrow> packet_is_valid v p | None \<Rightarrow> Inr False)"

text \<open>What a valid packet is: the headers its kind needs.\<close>

definition header_value :: "ssdp_packet \<Rightarrow> string \<Rightarrow> string option" where
  "header_value p name = map_option snd (find_header (m_headers p) name)"

definition needs :: "ssdp_packet \<Rightarrow> string list \<Rightarrow> bool" where
  "needs p names \<longleftrightarrow> (\<forall>n \<in> set names. header_value p n \<noteq> None)"

definition has_location :: "ssdp_packet \<Rightarrow> bool" where
  "has_location p \<longleftrightarrow> header_value p AL \<noteq> None \<or> header_value p LOCATION \<noteq> None"

fun valid_packet :: "ssdp_packet \<Rightarrow> bool" where
  "valid_packet p = (case get_type p of
       NOTIFY \<Rightarrow> needs p [HOST, NT, USN]
         \<and> (header_value p NTS = Some SSDP_BYEBYE_STR
            \<or> header_value p NTS = Some SSDP_ALIVE_STR \<and> needs p [CACHE_CONTROL] \<and> has_location p)
     | SEARCH_REQUEST \<Rightarrow> needs p [HOST, ST, MX] \<and> header_value p MAN = Some SSDP_DISCOVER
         \<and> header_value p NTS \<in> {None, Some []}
     | SEARCH_RESPONSE \<Rightarrow> needs p [CACHE_CONTROL, ST, USN] \<and> has_location p
         \<and> header_value p NTS \<in> {None, Some []}
     | UNKNOWN \<Rightarrow> False)"

lemma get_header_value:
  "packet_get_header p name = (case header_value p name of Some v \<Rightarrow> Inr v | None \<Rightarrow> Inl (RuntimeError (name @ '' not found'')))"
  "has_header p name \<longleftrightarrow> header_value p name \<noteq> None"
  by (auto simp: packet_get_header_def headers_get_def has_header_def contains_def header_value_def split: option.split)

lemma validate_packet: "validate_ssdp_packet p = Inr (valid_packet p)"
proof (cases "get_type p")
  case NOTIFY
  then show ?thesis
    by (cases "header_value p NTS")
       (auto simp: validate_ssdp_packet_def key_of_packet_def get_header_value validators_map_def
          notify_is_valid_def needs_def has_location_def)
next
  case SEARCH_REQUEST
  then show ?thesis
    by (cases "header_value p NTS"; cases "header_value p MAN")
       (auto simp: validate_ssdp_packet_def key_of_packet_def get_header_value validators_map_def
          search_request_is_valid_def needs_def)
next
  case SEARCH_RESPONSE
  then show ?thesis
    by (cases "header_value p NTS")
       (auto simp: validate_ssdp_packet_def key_of_packet_def get_header_value validators_map_def
          search_response_is_valid_def needs_def has_location_def)
next
  case UNKNOWN
  then show ?thesis
    by (cases "header_value p NTS")
       (auto simp: validate_ssdp_packet_def key_of_packet_def get_header_value validators_map_def)
qed

text \<open>
  C31: The validators, found by the type and the notification subtype of a packet, never
  throw, and accept exactly the packets with the headers their kind needs: announcements and goodbyes with a
  target, searches that say so, responses with a location.
\<close>

theorem validation_correct:
  "validate_ssdp_packet p = Inr (case get_type p of
       NOTIFY \<Rightarrow> has_header p HOST \<and> has_header p NT \<and> has_header p USN
         \<and> (header_value p NTS = Some SSDP_BYEBYE_STR
            \<or> header_value p NTS = Some SSDP_ALIVE_STR \<and> has_header p CACHE_CONTROL \<and> (has_header p AL \<or> has_header p LOCATION))
     | SEARCH_REQUEST \<Rightarrow> has_header p HOST \<and> has_header p ST \<and> has_header p MX \<and> header_value p MAN = Some SSDP_DISCOVER
         \<and> header_value p NTS \<in> {None, Some []}
     | SEARCH_RESPONSE \<Rightarrow> has_header p CACHE_CONTROL \<and> has_header p ST \<and> has_header p USN
         \<and> (has_header p AL \<or> has_header p LOCATION) \<and> header_value p NTS \<in> {None, Some []}
     | UNKNOWN \<Rightarrow> False)"
  by (simp add: validate_packet needs_def has_location_def get_header_value split: packet_type.split)

section \<open>The packets the service makes\<close>

record ssdp_config =
  m_ssdp_service_enabled :: bool
  m_service_uuid :: string
  m_service_urn :: string
  m_service_url :: string
  m_ttl :: "8 word"
  m_announce_interval :: "64 word"
  m_nic_names :: "string list"

definition default_config :: ssdp_config where
  "default_config = \<lparr>m_ssdp_service_enabled = False, m_service_uuid = [],
     m_service_urn = ''urn:dmtf-org:service:redfish-rest:1'', m_service_url = [], m_ttl = 2,
     m_announce_interval = 0, m_nic_names = []\<rparr>"

definition is_announcement_enabled :: "ssdp_config \<Rightarrow> bool" where
  "is_announcement_enabled cfg \<longleftrightarrow> 0 <s m_announce_interval cfg"

text \<open>\<^verbatim>\<open>std::to_string\<close> of a signed number, and the address of the protocol.\<close>

definition dec_of_int :: "int \<Rightarrow> string" where
  "dec_of_int i = (if i < 0 then CHR ''-'' # dec_of_nat (nat (- i)) else dec_of_nat (nat i))"

abbreviation "SSDP_MCAST_ADDRESS \<equiv> ''239.255.255.250:1900''"

definition build_usn :: "ssdp_config \<Rightarrow> string" where
  "build_usn cfg = ''uuid:'' @ m_service_uuid cfg @ ''::'' @ m_service_urn cfg"

definition build_cache_control :: "ssdp_config \<Rightarrow> string" where
  "build_cache_control cfg = ''max-age='' @ dec_of_int (sint (push_bit 1 (m_announce_interval cfg)))"

definition set_headers :: "packet_type \<Rightarrow> headers \<Rightarrow> ssdp_packet" where
  "set_headers t hs = foldl (\<lambda>p h. packet_set_header p (fst h) (snd h)) (new_packet t) hs"

definition create_ssdp_alive :: "ssdp_config \<Rightarrow> ssdp_packet" where
  "create_ssdp_alive cfg = set_headers NOTIFY
     [(HOST, SSDP_MCAST_ADDRESS), (CACHE_CONTROL, build_cache_control cfg), (NT, m_service_urn cfg),
      (NTS, SSDP_ALIVE_STR), (USN, build_usn cfg), (AL, m_service_url cfg), (EXT, [])]"

definition create_ssdp_search_reply :: "ssdp_config \<Rightarrow> ssdp_packet" where
  "create_ssdp_search_reply cfg = set_headers SEARCH_RESPONSE
     [(CACHE_CONTROL, build_cache_control cfg), (ST, m_service_urn cfg), (USN, build_usn cfg),
      (AL, m_service_url cfg), (EXT, [])]"

definition create_ssdp_byebye :: "ssdp_config \<Rightarrow> ssdp_packet" where
  "create_ssdp_byebye cfg = set_headers NOTIFY
     [(HOST, SSDP_MCAST_ADDRESS), (NT, m_service_urn cfg), (NTS, SSDP_BYEBYE_STR), (USN, build_usn cfg)]"

definition create_ssdp_search_request :: "ssdp_config \<Rightarrow> ssdp_packet" where
  "create_ssdp_search_request cfg = set_headers SEARCH_REQUEST
     [(HOST, SSDP_MCAST_ADDRESS), (ST, m_service_urn cfg), (MAN, SSDP_DISCOVER), (MX, ''3'')]"

definition prototypes :: "ssdp_config \<Rightarrow> (packet_key \<times> ssdp_packet) list" where
  "prototypes cfg =
     [((NOTIFY, []), create_ssdp_alive cfg),
      ((NOTIFY, SSDP_ALIVE_STR), create_ssdp_alive cfg),
      ((NOTIFY, SSDP_BYEBYE_STR), create_ssdp_byebye cfg),
      ((SEARCH_REQUEST, []), create_ssdp_search_request cfg),
      ((SEARCH_RESPONSE, []), create_ssdp_search_reply cfg)]"

definition create_ssdp_packet :: "ssdp_config \<Rightarrow> packet_key \<Rightarrow> ssdp_error + ssdp_packet" where
  "create_ssdp_packet cfg key =
     (case map_of (prototypes cfg) key of Some p \<Rightarrow> Inr p | None \<Rightarrow> Inl OutOfRange)"

text \<open>Texts that can stand in a header.\<close>

definition wire_value :: "string \<Rightarrow> bool" where
  "wire_value v \<longleftrightarrow> CR \<notin> set v \<and> LF \<notin> set v \<and> (v = [] \<or> \<not> is_blank (hd v) \<and> \<not> is_blank (last v))"

definition wire_config :: "ssdp_config \<Rightarrow> bool" where
  "wire_config cfg \<longleftrightarrow>
     CR \<notin> set (m_service_uuid cfg) \<and> LF \<notin> set (m_service_uuid cfg)
     \<and> wire_value (m_service_urn cfg) \<and> wire_value (m_service_url cfg)"

lemma set_headers_new:
  assumes "distinct (lower_names hs)"
  shows "set_headers t hs = \<lparr>get_type = t, m_headers = hs\<rparr>"
  using assms
proof (induction hs rule: rev_induct)
  case Nil
  then show ?case by (simp add: set_headers_def new_packet_def)
next
  case (snoc h hs)
  then have "\<not> contains hs (fst h)" by (simp add: contains_iff)
  with snoc show ?case
    by (simp add: set_headers_def packet_set_header_def headers_set_append)
qed

lemma dec_of_int_wire: "c \<in> set (dec_of_int i) \<Longrightarrow> \<not> is_blank c"
  using dec_of_nat_digits digit_not_blank by (fastforce simp: dec_of_int_def is_blank_def split: if_splits)

lemma wire_value_build_cache_control: "wire_value (build_cache_control cfg)"
proof -
  let ?d = "dec_of_int (sint (push_bit 1 (m_announce_interval cfg)))"
  have "?d \<noteq> []" by (simp add: dec_of_int_def)
  then have "\<not> is_blank (last ?d)" by (rule dec_of_int_wire [OF last_in_set])
  moreover have "CR \<notin> set ?d" "LF \<notin> set ?d" using dec_of_int_wire is_blank_simps by blast+
  moreover have "\<not> is_blank CHR ''m''" by (simp add: is_blank_def)
  ultimately show ?thesis using \<open>?d \<noteq> []\<close> by (simp add: wire_value_def build_cache_control_def)
qed

lemma wire_value_build_usn: "wire_config cfg \<Longrightarrow> wire_value (build_usn cfg)"
  by (cases "m_service_urn cfg") (auto simp: wire_value_def wire_config_def build_usn_def is_blank_def)

lemma to_lower_letters:
  "to_lower CHR ''A'' = CHR ''a''"
  "to_lower CHR ''C'' = CHR ''c''"
  "to_lower CHR ''E'' = CHR ''e''"
  "to_lower CHR ''H'' = CHR ''h''"
  "to_lower CHR ''L'' = CHR ''l''"
  "to_lower CHR ''M'' = CHR ''m''"
  "to_lower CHR ''N'' = CHR ''n''"
  "to_lower CHR ''S'' = CHR ''s''"
  "to_lower CHR ''T'' = CHR ''t''"
  "to_lower CHR ''U'' = CHR ''u''"
  "to_lower CHR ''X'' = CHR ''x''"
  "to_lower CHR ''-'' = CHR ''-''"
  "to_lower CHR ''a'' = CHR ''a''"
  "to_lower CHR ''c'' = CHR ''c''"
  "to_lower CHR ''d'' = CHR ''d''"
  "to_lower CHR ''e'' = CHR ''e''"
  "to_lower CHR ''h'' = CHR ''h''"
  "to_lower CHR ''i'' = CHR ''i''"
  "to_lower CHR ''l'' = CHR ''l''"
  "to_lower CHR ''m'' = CHR ''m''"
  "to_lower CHR ''n'' = CHR ''n''"
  "to_lower CHR ''o'' = CHR ''o''"
  "to_lower CHR ''p'' = CHR ''p''"
  "to_lower CHR ''r'' = CHR ''r''"
  "to_lower CHR ''s'' = CHR ''s''"
  "to_lower CHR ''t'' = CHR ''t''"
  "to_lower CHR ''u'' = CHR ''u''"
  "to_lower CHR ''x'' = CHR ''x''"
  by code_simp+

lemma made_packets:
  "create_ssdp_alive cfg = \<lparr>get_type = NOTIFY, m_headers =
     [(HOST, SSDP_MCAST_ADDRESS), (CACHE_CONTROL, build_cache_control cfg), (NT, m_service_urn cfg),
      (NTS, SSDP_ALIVE_STR), (USN, build_usn cfg), (AL, m_service_url cfg), (EXT, [])]\<rparr>"
  "create_ssdp_search_reply cfg = \<lparr>get_type = SEARCH_RESPONSE, m_headers =
     [(CACHE_CONTROL, build_cache_control cfg), (ST, m_service_urn cfg), (USN, build_usn cfg),
      (AL, m_service_url cfg), (EXT, [])]\<rparr>"
  "create_ssdp_byebye cfg = \<lparr>get_type = NOTIFY, m_headers =
     [(HOST, SSDP_MCAST_ADDRESS), (NT, m_service_urn cfg), (NTS, SSDP_BYEBYE_STR), (USN, build_usn cfg)]\<rparr>"
  "create_ssdp_search_request cfg = \<lparr>get_type = SEARCH_REQUEST, m_headers =
     [(HOST, SSDP_MCAST_ADDRESS), (ST, m_service_urn cfg), (MAN, SSDP_DISCOVER), (MX, ''3'')]\<rparr>"
  by (simp_all add: create_ssdp_alive_def create_ssdp_search_reply_def create_ssdp_byebye_def
        create_ssdp_search_request_def set_headers_new to_lower_letters)

lemma wire_header_value:
  "wire_header (n, v) \<longleftrightarrow>
     (CHR '':'' \<notin> set n \<and> LF \<notin> set n \<and> (n = [] \<or> \<not> is_blank (hd n))) \<and> wire_value v"
  by (auto simp: wire_header_def wire_value_def)

lemma wire_constants:
  "wire_value []" "wire_value SSDP_MCAST_ADDRESS" "wire_value SSDP_ALIVE_STR" "wire_value SSDP_BYEBYE_STR"
  "wire_value SSDP_DISCOVER" "wire_value ''3''"
  "\<not> is_blank CHR ''H''" "\<not> is_blank CHR ''C''" "\<not> is_blank CHR ''N''" "\<not> is_blank CHR ''U''"
  "\<not> is_blank CHR ''A''" "\<not> is_blank CHR ''E''" "\<not> is_blank CHR ''S''" "\<not> is_blank CHR ''M''"
  by (simp_all add: wire_value_def is_blank_def)

lemma made_packets_valid:
  "valid_packet (create_ssdp_alive cfg)" "valid_packet (create_ssdp_search_reply cfg)"
  "valid_packet (create_ssdp_byebye cfg)" "valid_packet (create_ssdp_search_request cfg)"
  by (simp_all add: made_packets needs_def has_location_def header_value_def find_header_def icompare_eq_0_iff
        to_lower_letters)

lemma wire_values:
  assumes "wire_config cfg"
  shows "wire_packet (create_ssdp_alive cfg)" "wire_packet (create_ssdp_search_reply cfg)"
    "wire_packet (create_ssdp_byebye cfg)" "wire_packet (create_ssdp_search_request cfg)"
  using assms wire_value_build_cache_control [of cfg] wire_value_build_usn [OF assms]
  by (simp_all add: made_packets wire_packet_def packet_ok_def wire_header_value wire_constants wire_constants(5) [simplified] wire_config_def
        to_lower_letters)

text \<open>
  What the service makes is understood: with a configuration whose texts can stand in a
  header, every packet of its factory, sent and received with anything behind it in the buffer, is read back
  as it was made, and is valid.
\<close>

lemma made_packets_understood:
  assumes "wire_config cfg" "create_ssdp_packet cfg key = Inr p"
  shows "parse_packet (packet_to_string p @ ys) (length (packet_to_string p)) = Some (Inr p)"
    and "validate_ssdp_packet p = Inr True"
proof -
  have "p \<in> {create_ssdp_alive cfg, create_ssdp_byebye cfg, create_ssdp_search_request cfg, create_ssdp_search_reply cfg}"
    using assms(2) by (auto simp: create_ssdp_packet_def prototypes_def split: if_splits)
  then have "wire_packet p" "valid_packet p" using wire_values [OF assms(1)] made_packets_valid by auto
  then show "parse_packet (packet_to_string p @ ys) (length (packet_to_string p)) = Some (Inr p)"
    and "validate_ssdp_packet p = Inr True"
    by (simp_all add: packet_read_back validate_packet)
qed

end
