(* ===== verification/Ssdp_Notification.thy ===== *)
theory Ssdp_Notification
  imports Ssdp_Packet
begin

unbundle bit_operations_syntax

text \<open>
  \<^verbatim>\<open>common/ssdp/src/notification.cpp\<close>: what the thread that watches the network tells the thread of the service,
  as bytes sent through a pair of sockets. Numbers are written in groups of seven bits. What is
  written is read back, and what is read is never more than what was sent.
\<close>

section \<open>Numbers in groups of seven bits\<close>

lemma unsigned_drop_group:
  fixes v :: "32 word"
  shows "uint (drop_bit 7 v) = uint v div 128" and "unat (drop_bit 7 v) = unat v div 128"
  by (simp_all add: drop_bit_eq_div uint_div unat_div)

function encode_int :: "32 word \<Rightarrow> 8 word list" where
  "encode_int v =
     (if v > 0x7F then (ucast (v AND 0x7F) OR 0x80) # encode_int (drop_bit 7 v) else [ucast (v AND 0x7F)])"
  by pat_completeness auto
termination
proof (relation "measure unat")
  fix v :: "32 word"
  assume "v > 0x7F"
  then have "127 < unat v" by (simp add: word_less_nat_alt)
  then show "(drop_bit 7 v, v) \<in> measure unat" by (simp add: unsigned_drop_group)
qed simp

declare encode_int.simps [simp del]

text \<open>
  A group is an \<^verbatim>\<open>int\<close> shifted to its place: a shift by 32 or more, or one whose result
  does not fit the bits of an \<^verbatim>\<open>int\<close>, is undefined. The result is the value and how many bytes were read.
\<close>

fun decode_from :: "nat \<Rightarrow> 32 word \<Rightarrow> 8 word list \<Rightarrow> ssdp_error + (32 word \<times> nat)" where
  "decode_from i v [] = Inr (v, i)"
| "decode_from i v (b # bs) =
     (let part = uint (b AND 0x7F) * 2 ^ (7 * i) in
      if 32 \<le> 7 * i \<or> 2 ^ 32 \<le> part then Inl Outside
      else let v' = v OR word_of_int part in
           if b AND 0x80 = 0 then Inr (v', Suc i) else decode_from (Suc i) v' bs)"

definition decode_int :: "8 word list \<Rightarrow> ssdp_error + (32 word \<times> nat)" where
  "decode_int bytes = decode_from 0 0 bytes"

section \<open>Notifications\<close>

abbreviation NETWORK_CHANGE :: "8 word" where "NETWORK_CHANGE \<equiv> 0"
abbreviation SHUT_DOWN :: "8 word" where "SHUT_DOWN \<equiv> 1"
abbreviation MAX_SERIALIZED_SIZE :: nat where "MAX_SERIALIZED_SIZE \<equiv> 255"

text \<open>The kinds of change are bytes; a byte that names no kind is read all the same.\<close>

datatype ssdp_notification =
    ShutDownNotification
  | NetworkChangeNotification (m_iface_index: "32 word") (m_change_type: "8 word")

fun serialize :: "ssdp_notification \<Rightarrow> 8 word list" where
  "serialize ShutDownNotification = [SHUT_DOWN]"
| "serialize (NetworkChangeNotification i t) = NETWORK_CHANGE # encode_int i @ [t]"

definition check_idx :: "nat \<Rightarrow> nat \<Rightarrow> ssdp_error + unit" where
  "check_idx idx len = (if idx \<ge> len then Inl (RuntimeError ''Notification deserialization failed.'') else Inr ())"

definition deserialize_shut_down :: "8 word list \<Rightarrow> nat \<Rightarrow> ssdp_error + ssdp_notification" where
  "deserialize_shut_down bytes len =
     (if bytes = [] \<or> length bytes < len \<or> SHUT_DOWN \<noteq> hd bytes
      then Inl (RuntimeError ''Notification deserialization failed.'') else Inr ShutDownNotification)"

definition deserialize_network_change :: "8 word list \<Rightarrow> nat \<Rightarrow> ssdp_error + ssdp_notification" where
  "deserialize_network_change bytes len =
     (if bytes = [] \<or> length bytes < len \<or> NETWORK_CHANGE \<noteq> hd bytes
      then Inl (RuntimeError ''Notification deserialization failed.'')
      else
        res_bind (check_idx 1 len) (\<lambda>_.
        res_bind (decode_int (take (len - 1) (tl bytes))) (\<lambda>(index, used).
        let idx = 1 + used in
        res_bind (check_idx idx len) (\<lambda>_.
        Inr (NetworkChangeNotification index (bytes ! idx))))))"

text \<open>What the thread of the service makes of the bytes it got into its buffer; \<open>None\<close> is a message in the log.\<close>

definition read_notification :: "8 word list \<Rightarrow> nat \<Rightarrow> ssdp_error + ssdp_notification option" where
  "read_notification bytes n =
     (case bytes of
        [] \<Rightarrow> Inr None
      | t # _ \<Rightarrow>
          (if t = SHUT_DOWN then res_bind (deserialize_shut_down bytes n) (Inr \<circ> Some)
           else if t = NETWORK_CHANGE then res_bind (deserialize_network_change bytes n) (Inr \<circ> Some)
           else Inr None))"

section \<open>What is written is read back\<close>

text \<open>
  An encoding that ends by itself: after the code of a value comes what comes after it, and what it
  was can be told without looking further.
\<close>

locale self_ending =
  fixes enc :: "'a \<Rightarrow> 'b list" and dec :: "'b list \<Rightarrow> 'e + ('a \<times> nat)"
  assumes dec_enc: "dec (enc x @ rest) = Inr (x, length (enc x))"
begin

lemma prefix_free: "enc x @ r = enc y @ s \<Longrightarrow> x = y \<and> r = s"
  by (metis Inr_inject Pair_inject append_eq_append_conv dec_enc)

lemma enc_inject: "enc x = enc y \<longleftrightarrow> x = y"
  using prefix_free [of x "[]" y "[]"] by auto

lemma rest_left: "dec (enc x @ rest) = Inr (y, n) \<Longrightarrow> drop n (enc x @ rest) = rest"
  by (auto simp: dec_enc)

end

lemma bytes_bits: "n < LENGTH(8) \<Longrightarrow> n \<in> {0, 1, 2, 3, 4, 5, 6, 7}"
  by auto

lemma low_group:
  fixes v :: "32 word"
  shows "((ucast (v AND 0x7F) :: 8 word) OR 0x80) AND 0x7F = ucast (take_bit 7 v)"
    and "(ucast (v AND 0x7F) :: 8 word) AND 0x7F = ucast (take_bit 7 v)"
    and "(ucast (v AND 0x7F) :: 8 word) AND 0x80 = 0"
  by (rule bit_word_eqI; drule bytes_bits; auto simp: bit_simps)+

lemma next_flag:
  fixes v :: "32 word"
  shows "((ucast (v AND 0x7F) :: 8 word) OR 0x80) AND 0x80 \<noteq> 0"
proof
  assume "((ucast (v AND 0x7F) :: 8 word) OR 0x80) AND 0x80 = 0"
  then have "\<not> bit (((ucast (v AND 0x7F) :: 8 word) OR 0x80) AND 0x80) 7" by simp
  then show False by (simp add: bit_simps)
qed

lemma uint_group: "uint (ucast (take_bit 7 v) :: 8 word) = uint (v :: 32 word) mod 128"
proof -
  have "uint (ucast (take_bit 7 v) :: 8 word) = take_bit 8 (take_bit 7 (uint v))"
    unfolding unsigned_ucast_eq unsigned_take_bit_eq by simp
  then show ?thesis unfolding take_bit_take_bit by (simp add: take_bit_eq_mod)
qed

text \<open>A group and what is left of the value make the value.\<close>

lemma group_step:
  fixes v x :: "32 word"
  shows "(v OR word_of_int (uint x mod 128 * 2 ^ k)) OR push_bit (k + 7) (drop_bit 7 x) = v OR push_bit k x"
proof -
  have "uint x mod 128 * 2 ^ k = push_bit k (take_bit 7 (uint x))"
    by (simp add: take_bit_eq_mod push_bit_eq_mult)
  then have "word_of_int (uint x mod 128 * 2 ^ k) = push_bit k (take_bit 7 x)"
    by (simp only:) (rule bit_word_eqI, auto simp: bit_simps)
  moreover have "push_bit k (take_bit 7 x) OR push_bit (k + 7) (drop_bit 7 x) = push_bit k x"
  proof (rule bit_word_eqI)
    fix n
    assume n: "n < LENGTH(32)"
    have "7 + (n - (k + 7)) = n - k" if "k + 7 \<le> n" using that by simp
    then show "bit (push_bit k (take_bit 7 x) OR push_bit (k + 7) (drop_bit 7 x)) n = bit (push_bit k x) n"
      using n by (cases "k + 7 \<le> n") (auto simp: bit_simps)
  qed
  ultimately show ?thesis by (simp add: or.assoc)
qed

lemma decode_encode:
  assumes "uint x * 2 ^ (7 * i) < 2 ^ 32" "7 * i < 32"
  shows "decode_from i v (encode_int x @ rest) = Inr (v OR push_bit (7 * i) x, i + length (encode_int x))"
  using assms
proof (induction x arbitrary: i v rule: encode_int.induct)
  case (1 x)
  have "uint x mod 128 * 2 ^ (7 * i) \<le> uint x * 2 ^ (7 * i)"
    by (intro mult_right_mono) (auto simp: zmod_le_nonneg_dividend)
  then have part: "uint x mod 128 * 2 ^ (7 * i) < 2 ^ 32" using "1.prems"(1) by (rule le_less_trans)
  note step = encode_int.simps [of x] low_group next_flag uint_group Let_def not_le
  show ?case
  proof (cases "x > 0x7F")
    case True
    then have "128 \<le> uint x" by (simp add: word_less_def)
    then have "128 * 2 ^ (7 * i) \<le> uint x * 2 ^ (7 * i)" by (intro mult_right_mono) auto
    then have "128 * (2 :: int) ^ (7 * i) < 2 ^ 32" using "1.prems"(1) by (rule le_less_trans)
    moreover have "128 * (2 :: int) ^ (7 * i) = 2 ^ (7 * Suc i)" by (simp add: power_add)
    ultimately have "(2 :: int) ^ (7 * Suc i) < 2 ^ 32" by (simp only:)
    then have i: "7 * Suc i < 32" by (rule power_less_imp_less_exp [rotated]) simp
    have "uint (drop_bit 7 x) * 2 ^ (7 * Suc i) \<le> uint x * 2 ^ (7 * i)"
      by (simp add: unsigned_drop_group power_add)
    then have "uint (drop_bit 7 x) * 2 ^ (7 * Suc i) < 2 ^ 32" using "1.prems" by simp
    define v' where "v' = v OR word_of_int (uint x mod 128 * 2 ^ (7 * i))"
    have "decode_from i v (encode_int x @ rest) = decode_from (Suc i) v' (encode_int (drop_bit 7 x) @ rest)"
      using True part "1.prems" by (simp add: step v'_def)
    moreover have "v' OR push_bit (7 * Suc i) (drop_bit 7 x) = v OR push_bit (7 * i) x"
      using group_step [of v x "7 * i"] unfolding v'_def by (simp add: add.commute)
    ultimately show ?thesis
      using "1.IH" [OF True \<open>uint (drop_bit 7 x) * 2 ^ (7 * Suc i) < 2 ^ 32\<close> i, of v'] True
      by (simp add: encode_int.simps [of x])
  next
    case False
    then have "uint x \<le> 127" by (simp add: word_less_def)
    then have "drop_bit 7 x = 0" by (simp add: word_uint_eq_iff unsigned_drop_group)
    with group_step [of v x "7 * i"] False part "1.prems" show ?thesis
      by (simp add: step)
  qed
qed

interpretation var_int: self_ending encode_int decode_int
proof
  fix x :: "32 word" and rest :: "8 word list"
  have "uint x < 2 ^ 32" using uint_lt2p [of x] by simp
  then show "decode_int (encode_int x @ rest) = Inr (x, length (encode_int x))"
    by (simp add: decode_int_def decode_encode)
qed

lemma length_encode_int: "length (encode_int x) \<le> 5"
proof -
  have "length (encode_int x) \<le> Suc n" if "uint x < 128 ^ Suc n" for x :: "32 word" and n
    using that
  proof (induction n arbitrary: x)
    case 0
    then show ?case by (simp add: encode_int.simps [of x] word_less_def)
  next
    case (Suc n)
    then have "uint (drop_bit 7 x) < 128 ^ Suc n" by (simp add: unsigned_drop_group)
    then show ?case using Suc.IH [of "drop_bit 7 x"] by (subst encode_int.simps) simp
  qed
  from this [of x 4] show ?thesis using uint_lt2p [of x] by simp
qed

text \<open>
  C33: Every notification, written, sent and received into the buffer of the service with
  anything behind it, is read as the same notification, and always fits the buffer.
\<close>

theorem notification_round_trip:
  assumes "bytes = serialize n @ behind" "length bytes \<le> MAX_SERIALIZED_SIZE"
  shows "read_notification bytes (length (serialize n)) = Inr (Some n) \<and> length (serialize n) \<le> 7"
proof (cases n)
  case ShutDownNotification
  with assms show ?thesis by (simp add: read_notification_def deserialize_shut_down_def)
next
  case (NetworkChangeNotification i t)
  have "decode_int (take (Suc (length (encode_int i))) (encode_int i @ t # behind)) = Inr (i, length (encode_int i))"
    using var_int.dec_enc [of i "[t]"] by simp
  with NetworkChangeNotification assms length_encode_int [of i] show ?thesis
    by (simp add: read_notification_def deserialize_network_change_def check_idx_def nth_append)
qed

end
