(* ===== verification/Ssdp_Uri.thy ===== *)
theory Ssdp_Uri
  imports Ssdp_Packet
begin

text \<open>
  \<^verbatim>\<open>common/ssdp/src/uri.cpp\<close>: the URL of the service, taken apart so that the host in it can be replaced by the
  address the client reaches, and put together again. The parameter \<open>service_port\<close> stands for the database of
  services (\<^verbatim>\<open>getservbyname\<close>): the port of a name, \<open>None\<close> for a name it does not have.
\<close>

type_synonym services = "string \<Rightarrow> 16 word option"

record uri =
  m_scheme :: string
  m_userInfo :: string
  m_host :: string
  m_port :: "16 word"
  m_path_and_query :: string

definition empty_uri :: uri where
  "empty_uri = \<lparr>m_scheme = [], m_userInfo = [], m_host = [], m_port = 0, m_path_and_query = []\<rparr>"

definition get_port_from_scheme :: "services \<Rightarrow> string \<Rightarrow> 16 word" where
  "get_port_from_scheme service_port scheme =
     (if scheme = ''http'' then 80
      else if scheme = ''https'' then 443
      else case service_port scheme of Some p \<Rightarrow> p | None \<Rightarrow> 0)"

definition get_authority :: "uri \<Rightarrow> string" where
  "get_authority u =
     (if m_userInfo u \<noteq> [] then m_userInfo u @ ''@'' else [])
     @ (if CHR '':'' \<in> set (m_host u) then ''['' @ m_host u @ '']'' else m_host u)
     @ (if m_port u \<noteq> 0 then '':'' @ dec_of_nat (unat (m_port u)) else [])"

definition uri_to_string :: "uri \<Rightarrow> string" where
  "uri_to_string u =
     (let auth = get_authority u in
      m_scheme u @ '':''
      @ (if auth \<noteq> [] \<or> m_scheme u = ''file'' then ''//'' @ auth else [])
      @ (if m_path_and_query u \<noteq> []
         then (if auth \<noteq> [] \<and> hd (m_path_and_query u) \<noteq> CHR ''/'' then ''/'' else []) @ m_path_and_query u
         else []))"

definition set_scheme :: "services \<Rightarrow> uri \<Rightarrow> string \<Rightarrow> uri" where
  "set_scheme sv u scheme =
     (let u1 = u\<lparr>m_scheme := scheme\<rparr> in
      if m_port u1 = 0 then u1\<lparr>m_port := get_port_from_scheme sv scheme\<rparr> else u1)"

definition set_host :: "uri \<Rightarrow> string \<Rightarrow> uri" where
  "set_host u host = u\<lparr>m_host := host\<rparr>"

definition uri_get_port :: "services \<Rightarrow> uri \<Rightarrow> 16 word" where
  "uri_get_port sv u = (if m_port u = 0 then get_port_from_scheme sv (m_scheme u) else m_port u)"

text \<open>What is behind the bracket or the first colon of an authority.\<close>

definition host_and_rest :: "string \<Rightarrow> ssdp_error + (string \<times> string)" where
  "host_and_rest part =
     (if hd part = CHR ''['' then
        (let host = takeWhile (\<lambda>c. c \<noteq> CHR '']'') (tl part); it = dropWhile (\<lambda>c. c \<noteq> CHR '']'') (tl part) in
         if it = [] then Inl (RuntimeError ''Unterminated IPv6 address'') else Inr (host, tl it))
      else Inr (takeWhile (\<lambda>c. c \<noteq> CHR '':'') part, dropWhile (\<lambda>c. c \<noteq> CHR '':'') part))"

definition parse_host_and_port :: "services \<Rightarrow> uri \<Rightarrow> string \<Rightarrow> ssdp_error + uri" where
  "parse_host_and_port sv u part =
     (if part = [] then Inr u
      else res_bind (host_and_rest part) (\<lambda>(host, it).
        if it \<noteq> [] \<and> hd it = CHR '':'' then
          (let port = tl it in
           if port \<noteq> [] then
             (case stoul port of
                Some nport \<Rightarrow>
                  if nport > 0 \<and> nport < 65536 then Inr (u\<lparr>m_port := ucast nport, m_host := host\<rparr>)
                  else Inl (RuntimeError ''Invalid port number'')
              | None \<Rightarrow> Inl (RuntimeError ''Invalid port number''))
           else Inr (u\<lparr>m_port := get_port_from_scheme sv (m_scheme u), m_host := host\<rparr>))
        else Inr (u\<lparr>m_port := get_port_from_scheme sv (m_scheme u), m_host := host\<rparr>)))"

text \<open>The loop of \<^verbatim>\<open>parse_authority\<close>: the user is what is before the last at sign, the part what is behind it.\<close>

fun scan_authority :: "string \<Rightarrow> string \<Rightarrow> string \<Rightarrow> string \<times> string \<times> string" where
  "scan_authority user part [] = (user, part, [])"
| "scan_authority user part (c # cs) =
     (if c = CHR ''/'' \<or> c = CHR ''?'' \<or> c = CHR ''#'' then (user, part, c # cs)
      else if c = CHR ''@'' then scan_authority part [] cs
      else scan_authority user (part @ [c]) cs)"

definition parse_authority :: "services \<Rightarrow> uri \<Rightarrow> string \<Rightarrow> ssdp_error + (uri \<times> string)" where
  "parse_authority sv u it =
     (let (user, part, rest) = scan_authority [] [] it in
      res_bind (parse_host_and_port sv u part) (\<lambda>u'. Inr (u'\<lparr>m_userInfo := user\<rparr>, rest)))"

definition set_authority :: "services \<Rightarrow> uri \<Rightarrow> string \<Rightarrow> ssdp_error + uri" where
  "set_authority sv u authority =
     res_bind (parse_authority sv (u\<lparr>m_userInfo := [], m_host := [], m_port := 0\<rparr>) authority) (\<lambda>(u', _). Inr u')"

definition parse_path :: "uri \<Rightarrow> string \<Rightarrow> uri" where
  "parse_path u it = u\<lparr>m_path_and_query := it\<rparr>"

definition scheme_char :: "char \<Rightarrow> bool" where
  "scheme_char c \<longleftrightarrow> c \<noteq> CHR '':'' \<and> c \<noteq> CHR ''?'' \<and> c \<noteq> CHR ''#'' \<and> c \<noteq> CHR ''/''"

text \<open>A text that starts like a relative reference is not read at all; one without a scheme is a path.\<close>

definition uri_parse :: "services \<Rightarrow> string \<Rightarrow> ssdp_error + uri" where
  "uri_parse sv s =
     (if s = [] then Inr empty_uri
      else if hd s \<in> {CHR ''/'', CHR ''.'', CHR ''?'', CHR ''#''} then Inr empty_uri
      else
        (let scheme = takeWhile scheme_char s; it = dropWhile scheme_char s in
         if it \<noteq> [] \<and> hd it = CHR '':'' then
           (let it1 = tl it; u = set_scheme sv empty_uri scheme in
            if it1 = [] then Inl (RuntimeError ''URI scheme must be followed by authority or path'')
            else if take 2 it1 = ''//'' then
              res_bind (parse_authority sv u (drop 2 it1)) (\<lambda>(u', it2). Inr (parse_path u' it2))
            else Inr (parse_path u it1))
         else Inr (parse_path empty_uri s)))"

section \<open>Printing and reading back\<close>

definition authority_char :: "char \<Rightarrow> bool" where
  "authority_char c \<longleftrightarrow> c \<noteq> CHR ''/'' \<and> c \<noteq> CHR ''?'' \<and> c \<noteq> CHR ''#'' \<and> c \<noteq> CHR ''@''"

definition scheme_ok :: "string \<Rightarrow> bool" where
  "scheme_ok s \<longleftrightarrow> s \<noteq> [] \<and> hd s \<noteq> CHR ''.'' \<and> (\<forall>c \<in> set s. scheme_char c)"

text \<open>The hosts that can be told from what is around them: names, and addresses with colons in brackets.\<close>

definition host_ok :: "string \<Rightarrow> bool" where
  "host_ok h \<longleftrightarrow> h \<noteq> [] \<and> (\<forall>c \<in> set h. authority_char c)
     \<and> (if CHR '':'' \<in> set h then CHR '']'' \<notin> set h else hd h \<noteq> CHR ''['')"

definition uri_ok :: "services \<Rightarrow> uri \<Rightarrow> bool" where
  "uri_ok sv u \<longleftrightarrow>
     scheme_ok (m_scheme u) \<and> (\<forall>c \<in> set (m_userInfo u). authority_char c) \<and> host_ok (m_host u)
     \<and> (m_port u = 0 \<longrightarrow> get_port_from_scheme sv (m_scheme u) = 0)
     \<and> (m_path_and_query u = [] \<or> hd (m_path_and_query u) = CHR ''/'')"

lemma scan_authority_append:
  assumes "\<forall>c \<in> set xs. authority_char c"
  shows "scan_authority user part (xs @ ys) = scan_authority user (part @ xs) ys"
  using assms by (induction xs arbitrary: part) (auto simp: authority_char_def)

lemma scan_authority_end:
  assumes "ys = [] \<or> hd ys \<in> {CHR ''/'', CHR ''?'', CHR ''#''}"
  shows "scan_authority user part ys = (user, part, ys)"
  using assms by (cases ys) auto

lemma host_and_rest_printed:
  assumes "host_ok h" "ys = [] \<or> hd ys = CHR '':''"
  shows "host_and_rest ((if CHR '':'' \<in> set h then ''['' @ h @ '']'' else h) @ ys) = Inr (h, ys)"
proof (cases "CHR '':'' \<in> set h")
  case True
  then have "\<forall>c \<in> set h. c \<noteq> CHR '']''" using assms(1) by (auto simp: host_ok_def)
  then show ?thesis using True
    by (simp add: host_and_rest_def takeWhile_append2 dropWhile_append2)
next
  case False
  then have h: "\<forall>c \<in> set h. c \<noteq> CHR '':''" "h \<noteq> []" "hd h \<noteq> CHR ''[''" using assms(1) by (auto simp: host_ok_def)
  moreover have "takeWhile (\<lambda>c. c \<noteq> CHR '':'') ys = [] \<and> dropWhile (\<lambda>c. c \<noteq> CHR '':'') ys = ys"
    using assms(2) by (cases ys) auto
  ultimately show ?thesis using False
    by (simp add: host_and_rest_def takeWhile_append2 dropWhile_append2)
qed

lemma authority_printed:
  assumes "uri_ok sv u" "ys = [] \<or> hd ys = CHR ''/''" "m_scheme v = m_scheme u"
  shows "parse_authority sv v (get_authority u @ ys)
           = Inr (v\<lparr>m_userInfo := m_userInfo u, m_host := m_host u, m_port := m_port u\<rparr>, ys)"
proof -
  define hp where "hp = (if CHR '':'' \<in> set (m_host u) then ''['' @ m_host u @ '']'' else m_host u)"
  define pp where "pp = (if m_port u \<noteq> 0 then '':'' @ dec_of_nat (unat (m_port u)) else [])"
  have "is_digit c \<Longrightarrow> authority_char c" for c by (auto simp: is_digit_def authority_char_def)
  then have pc: "\<forall>c \<in> set pp. authority_char c"
    using dec_of_nat_digits by (auto simp: pp_def authority_char_def)
  have hc: "\<forall>c \<in> set hp. authority_char c"
    using assms(1) by (auto simp: hp_def uri_ok_def host_ok_def authority_char_def)
  have end_ys: "ys = [] \<or> hd ys \<in> {CHR ''/'', CHR ''?'', CHR ''#''}" using assms(2) by auto
  have uc: "\<forall>c \<in> set (m_userInfo u). authority_char c" using assms(1) by (simp add: uri_ok_def)
  have a: "get_authority u = (if m_userInfo u \<noteq> [] then m_userInfo u @ ''@'' else []) @ hp @ pp"
    by (simp add: get_authority_def hp_def pp_def)
  have s1: "scan_authority user [] (hp @ pp @ ys) = (user, hp @ pp, ys)" for user
    using scan_authority_append [of "hp @ pp" user "[]" ys] scan_authority_end [OF end_ys] hc pc by auto
  have scan: "scan_authority [] [] (get_authority u @ ys) = (m_userInfo u, hp @ pp, ys)"
    using scan_authority_append [OF uc, of "[]" "[]" "''@'' @ hp @ pp @ ys"] s1 by (auto simp: a)
  have "hp \<noteq> []" using assms(1) by (auto simp: hp_def uri_ok_def host_ok_def)
  moreover have "host_and_rest (hp @ pp) = Inr (m_host u, pp)"
    unfolding hp_def using assms(1) by (intro host_and_rest_printed) (auto simp: uri_ok_def pp_def)
  ultimately have "parse_host_and_port sv v (hp @ pp) = Inr (v\<lparr>m_host := m_host u, m_port := m_port u\<rparr>)"
    using assms(1,3) stoul_port [of "m_port u"] by (auto simp: parse_host_and_port_def pp_def uri_ok_def)
  then show ?thesis by (simp add: parse_authority_def scan)
qed

lemma uri_round_trip:
  assumes "uri_ok sv u"
  shows "uri_parse sv (uri_to_string u) = Inr u"
proof -
  have s: "\<forall>c \<in> set (m_scheme u). scheme_char c" "m_scheme u \<noteq> []" "hd (m_scheme u) \<noteq> CHR ''.''"
    using assms by (auto simp: uri_ok_def scheme_ok_def)
  have "hd (m_scheme u) \<in> set (m_scheme u)" using s(2) by simp
  then have "scheme_char (hd (m_scheme u))" using s(1) by blast
  then have h: "hd (m_scheme u) \<notin> {CHR ''/'', CHR ''.'', CHR ''?'', CHR ''#''}"
    using s(3) by (auto simp: scheme_char_def)
  have path: "m_path_and_query u = [] \<or> hd (m_path_and_query u) = CHR ''/''" using assms by (simp add: uri_ok_def)
  have "get_authority u \<noteq> []" using assms by (auto simp: get_authority_def uri_ok_def host_ok_def)
  then have str: "uri_to_string u = m_scheme u @ '':'' @ ''//'' @ get_authority u @ m_path_and_query u"
    using path by (auto simp: uri_to_string_def Let_def)
  have sc: "takeWhile scheme_char (m_scheme u @ CHR '':'' # xs) = m_scheme u"
    "dropWhile scheme_char (m_scheme u @ CHR '':'' # xs) = CHR '':'' # xs" for xs
    using s(1) by (simp_all add: takeWhile_append2 dropWhile_append2 scheme_char_def)
  let ?v = "set_scheme sv empty_uri (m_scheme u)"
  have "m_scheme ?v = m_scheme u" by (simp add: set_scheme_def Let_def empty_uri_def)
  from authority_printed [OF assms path this]
  have "parse_authority sv ?v (get_authority u @ m_path_and_query u)
      = Inr (?v\<lparr>m_userInfo := m_userInfo u, m_host := m_host u, m_port := m_port u\<rparr>, m_path_and_query u)" .
  then show ?thesis
    using s(2) h by (simp add: str uri_parse_def sc Let_def parse_path_def set_scheme_def empty_uri_def numeral_2_eq_2)
qed

section \<open>What reading a URI gives\<close>

lemma scan_authority_chars:
  assumes "set user \<subseteq> Collect authority_char" "set part \<subseteq> Collect authority_char"
  shows "set (fst (scan_authority user part cs)) \<subseteq> Collect authority_char"
  using assms
proof (induction cs arbitrary: user part)
  case Nil
  then show ?case by simp
next
  case (Cons c cs)
  show ?case
  proof (cases "authority_char c \<or> c = CHR ''@''")
    case True
    with Cons.IH [of part "[]"] Cons.IH [of user "part @ [c]"] Cons.prems show ?thesis
      by (cases "c = CHR ''@''") (simp_all add: authority_char_def)
  next
    case False
    with Cons.prems(1) show ?thesis by (auto simp: authority_char_def)
  qed
qed

definition port_ok :: "services \<Rightarrow> uri \<Rightarrow> bool" where
  "port_ok sv u \<longleftrightarrow> (m_port u = 0 \<longrightarrow> get_port_from_scheme sv (m_scheme u) = 0)"

lemma port_in_range:
  assumes "(0 :: 64 word) < n" "n < 65536"
  shows "(ucast n :: 16 word) \<noteq> 0"
proof
  assume "(ucast n :: 16 word) = 0"
  then have "unat (ucast n :: 16 word) = 0" by simp
  then have "take_bit 16 (unat n) = 0" unfolding unsigned_ucast_eq by simp
  moreover have "unat n < 65536" "0 < unat n" using assms by (simp_all add: word_less_nat_alt)
  ultimately show False by (simp add: take_bit_nat_eq_self)
qed

lemma parse_host_and_port_keeps:
  assumes "parse_host_and_port sv u part = Inr u'" "port_ok sv u"
  shows "port_ok sv u' \<and> m_scheme u' = m_scheme u"
  using assms port_in_range
  by (auto simp: parse_host_and_port_def port_ok_def Let_def result_simps split: if_splits option.splits prod.splits)

lemma uri_parse_parts:
  assumes "uri_parse sv s = Inr u" "m_scheme u \<noteq> []"
  shows "scheme_ok (m_scheme u) \<and> (\<forall>c \<in> set (m_userInfo u). authority_char c) \<and> port_ok sv u"
proof -
  let ?scheme = "takeWhile scheme_char s" and ?it = "tl (dropWhile scheme_char s)"
  let ?v = "set_scheme sv empty_uri ?scheme"
  have v: "port_ok sv ?v" "m_scheme ?v = ?scheme" "m_userInfo ?v = []"
    by (auto simp: set_scheme_def empty_uri_def Let_def port_ok_def)
  have s: "s \<noteq> []" "hd s \<notin> {CHR ''/'', CHR ''.'', CHR ''?'', CHR ''#''}"
    using assms by (auto simp: uri_parse_def empty_uri_def split: if_splits)
  have hd_s: "?scheme \<noteq> [] \<Longrightarrow> hd ?scheme = hd s" by (cases s) auto
  have ok: "?scheme \<noteq> [] \<Longrightarrow> scheme_ok ?scheme"
    using s hd_s by (auto simp: scheme_ok_def dest: set_takeWhileD)
  consider (plain) "u = parse_path ?v ?it"
    | (auth) u' it2 where "parse_authority sv ?v (drop 2 ?it) = Inr (u', it2)" "u = parse_path u' it2"
    using assms s by (auto simp: uri_parse_def Let_def parse_path_def empty_uri_def result_simps split: if_splits)
  then show ?thesis
  proof cases
    case plain
    then show ?thesis using v ok assms(2) by (auto simp: parse_path_def port_ok_def)
  next
    case auth
    obtain user part rest where sa: "scan_authority [] [] (drop 2 ?it) = (user, part, rest)" by (cases "scan_authority [] [] (drop 2 ?it)")
    with auth obtain u1 where u1: "parse_host_and_port sv ?v part = Inr u1" "u' = u1\<lparr>m_userInfo := user\<rparr>"
      by (auto simp: parse_authority_def result_simps)
    have "port_ok sv u1" "m_scheme u1 = ?scheme"
      using parse_host_and_port_keeps [OF u1(1) v(1)] v(2) by auto
    moreover have "\<forall>c \<in> set user. authority_char c" using scan_authority_chars [of "[]" "[]" "drop 2 ?it"] sa by auto
    ultimately show ?thesis using u1(2) auth(2) ok assms(2) by (auto simp: parse_path_def port_ok_def)
  qed
qed

lemma url_read_back:
  assumes "uri_parse sv url = Inr u" "m_scheme u \<noteq> []"
    and "m_path_and_query u = [] \<or> hd (m_path_and_query u) = CHR ''/''" "host_ok host"
  shows "uri_parse sv (uri_to_string (set_host u host)) = Inr (set_host u host)"
  using uri_parse_parts [OF assms(1,2)] assms
  by (intro uri_round_trip) (auto simp: uri_ok_def set_host_def port_ok_def)

text \<open>
  C32: The URL the service announces, its configured one with the host replaced by an
  address of its own, is read by a client as that URL with that host: scheme, user, path and query are
  the ones configured, and the port it connects to is the port of the configured one. The URL may not have a
  query directly behind the host.
\<close>

theorem url_with_host:
  assumes "uri_parse sv url = Inr u" "m_scheme u \<noteq> []"
    and "m_path_and_query u = [] \<or> hd (m_path_and_query u) = CHR ''/''" "host_ok host"
  shows "\<exists>v. uri_parse sv (uri_to_string (set_host u host)) = Inr v \<and> m_host v = host
           \<and> m_scheme v = m_scheme u \<and> m_userInfo v = m_userInfo u \<and> m_path_and_query v = m_path_and_query u
           \<and> uri_get_port sv v = uri_get_port sv u"
  using url_read_back [OF assms] by (simp add: set_host_def uri_get_port_def)

end
