(* ===== verification/Net_Address.thy ===== *)
theory Net_Address
  imports Prelude
begin

unbundle bit_operations_syntax

text \<open>
  \<^verbatim>\<open>common/net\<close>: IP addresses and masks (\<^verbatim>\<open>ipaddress.cpp\<close>), addresses of sockets (\<^verbatim>\<open>socket_address.cpp\<close>)
  and network interfaces (\<^verbatim>\<open>network_interface.cpp\<close>). What throws a \<^verbatim>\<open>NetException\<close> gives its message. The texts
  of IPv6 addresses are made and read by the C library: the record \<open>inet6\<close> stands for \<^verbatim>\<open>inet_ntop\<close> and
  \<^verbatim>\<open>inet_pton\<close> on them.
\<close>

record inet6 =
  ntop6 :: "128 word \<Rightarrow> string"
  pton6 :: "string \<Rightarrow> 128 word option"

section \<open>IP addresses\<close>

text \<open>Addresses as numbers, the first byte in the network the highest.\<close>

datatype address_family = FamilyIPv4 | FamilyIPv6 | UNIX_LOCAL

datatype ip_address = IPv4 "32 word" | IPv6 "128 word"

type_synonym 'a net_result = "string + 'a"

definition any_address :: ip_address where
  "any_address = IPv4 0"

fun get_address_family :: "ip_address \<Rightarrow> address_family" where
  "get_address_family (IPv4 _) = FamilyIPv4"
| "get_address_family (IPv6 _) = FamilyIPv6"

fun ip_length :: "ip_address \<Rightarrow> nat" where
  "ip_length (IPv4 _) = 4"
| "ip_length (IPv6 _) = 16"

fun ip_eq :: "ip_address \<Rightarrow> ip_address \<Rightarrow> bool" where
  "ip_eq (IPv4 a) (IPv4 b) = (a = b)"
| "ip_eq (IPv6 a) (IPv6 b) = (a = b)"
| "ip_eq _ _ = False"

fun ip_less :: "ip_address \<Rightarrow> ip_address \<Rightarrow> bool" where
  "ip_less (IPv4 a) (IPv4 b) = (a < b)"
| "ip_less (IPv6 a) (IPv6 b) = (a < b)"
| "ip_less (IPv4 a) (IPv6 b) = True"
| "ip_less (IPv6 a) (IPv4 b) = False"

definition ip_greater :: "ip_address \<Rightarrow> ip_address \<Rightarrow> bool" where
  "ip_greater a b \<longleftrightarrow> \<not> ip_eq a b \<and> \<not> ip_less a b"

fun ip_and :: "ip_address \<Rightarrow> ip_address \<Rightarrow> ip_address net_result" where
  "ip_and (IPv4 a) (IPv4 b) = Inr (IPv4 (a AND b))"
| "ip_and (IPv6 a) (IPv6 b) = Inr (IPv6 (a AND b))"
| "ip_and _ _ = Inl ''Incompatible addresses.''"

fun ip_or :: "ip_address \<Rightarrow> ip_address \<Rightarrow> ip_address net_result" where
  "ip_or (IPv4 a) (IPv4 b) = Inr (IPv4 (a OR b))"
| "ip_or (IPv6 a) (IPv6 b) = Inr (IPv6 (a OR b))"
| "ip_or _ _ = Inl ''Incompatible addresses.''"

fun ip_xor :: "ip_address \<Rightarrow> ip_address \<Rightarrow> ip_address net_result" where
  "ip_xor (IPv4 a) (IPv4 b) = Inr (IPv4 (a XOR b))"
| "ip_xor (IPv6 a) (IPv6 b) = Inr (IPv6 (a XOR b))"
| "ip_xor _ _ = Inl ''Incompatible addresses.''"

fun ip_not :: "ip_address \<Rightarrow> ip_address" where
  "ip_not (IPv4 a) = IPv4 (a XOR (- 1))"
| "ip_not (IPv6 a) = IPv6 (a XOR (- 1))"

text \<open>The loop of \<^verbatim>\<open>mask_bits\<close> counts the bits of a number of ones.\<close>

function count_shifts :: "32 word \<Rightarrow> nat" where
  "count_shifts v = (if v = 0 then 0 else Suc (count_shifts (drop_bit 1 v)))"
  by pat_completeness auto
termination
proof (relation "measure unat")
  fix v :: "32 word"
  assume "v \<noteq> 0"
  then have "0 < unat v" by (simp add: unat_gt_0)
  then show "(drop_bit 1 v, v) \<in> measure unat" by (simp add: drop_bit_eq_div unat_div)
qed simp

declare count_shifts.simps [simp del]

definition mask_bits :: "32 word \<Rightarrow> nat \<Rightarrow> nat" where
  "mask_bits v n = (let count = (if v \<noteq> 0 then count_shifts (drop_bit 1 (v XOR (v - 1))) else n) in n - count)"

text \<open>The four words of an IPv6 address, \<^verbatim>\<open>s6_addr32[i]\<close> in host order.\<close>

definition addr32 :: "128 word \<Rightarrow> nat \<Rightarrow> 32 word" where
  "addr32 a i = ucast (drop_bit (96 - 32 * i) a)"

text \<open>The loop over the words of an IPv6 address, from the last one on.\<close>

fun prefix_loop :: "32 word list \<Rightarrow> nat \<Rightarrow> nat" where
  "prefix_loop [] bit_pos = 0"
| "prefix_loop (w # ws) bit_pos =
     (let bits = mask_bits w 32 in if bits \<noteq> 0 then bit_pos - (32 - bits) else prefix_loop ws (bit_pos - 32))"

fun prefix_length :: "ip_address \<Rightarrow> nat" where
  "prefix_length (IPv4 a) = mask_bits a 32"
| "prefix_length (IPv6 a) = prefix_loop (map (addr32 a) [3, 2, 1, 0]) 128"

fun is_any_address :: "ip_address \<Rightarrow> bool" where
  "is_any_address (IPv4 a) \<longleftrightarrow> a = 0"
| "is_any_address (IPv6 a) \<longleftrightarrow> a = 0"

section \<open>Texts of addresses\<close>

definition octet :: "32 word \<Rightarrow> nat \<Rightarrow> nat" where
  "octet a i = unat a div 256 ^ (3 - i) mod 256"

text \<open>\<^verbatim>\<open>inet_ntop\<close> on an IPv4 address.\<close>

definition ntop4 :: "32 word \<Rightarrow> string" where
  "ntop4 a = dec_of_nat (octet a 0) @ ''.'' @ dec_of_nat (octet a 1) @ ''.''
             @ dec_of_nat (octet a 2) @ ''.'' @ dec_of_nat (octet a 3)"

text \<open>
  \<^verbatim>\<open>inet_pton\<close> on an IPv4 address: four numbers of one to three digits, at most 255, without leading zeros,
  with dots between them.
\<close>

fun split_dots :: "string \<Rightarrow> string list" where
  "split_dots [] = [[]]"
| "split_dots (c # cs) =
     (if c = CHR ''.'' then [] # split_dots cs
      else case split_dots cs of [] \<Rightarrow> [[c]] | p # ps \<Rightarrow> (c # p) # ps)"

definition octet_text :: "string \<Rightarrow> bool" where
  "octet_text s \<longleftrightarrow> s \<noteq> [] \<and> (\<forall>c \<in> set s. is_digit c) \<and> nat_of_dec s \<le> 255 \<and> (hd s = CHR ''0'' \<longrightarrow> s = ''0'')"

definition pton4 :: "string \<Rightarrow> 32 word option" where
  "pton4 s =
     (let ps = split_dots s in
      if length ps = 4 \<and> list_all octet_text ps
      then Some (of_nat (foldl (\<lambda>n p. 256 * n + nat_of_dec p) 0 ps)) else None)"

fun ip_to_string :: "inet6 \<Rightarrow> ip_address \<Rightarrow> string" where
  "ip_to_string inet (IPv4 a) = ntop4 a"
| "ip_to_string inet (IPv6 a) = ntop6 inet a"

definition ip_from_string :: "inet6 \<Rightarrow> string \<Rightarrow> ip_address net_result" where
  "ip_from_string inet s =
     (case pton4 (c_str s) of
        Some a \<Rightarrow> Inr (IPv4 a)
      | None \<Rightarrow> (case pton6 inet (c_str s) of Some a \<Rightarrow> Inr (IPv6 a) | None \<Rightarrow> Inl ''Invalid address''))"

section \<open>Addresses of sockets\<close>

datatype socket_address = InetAddress ip_address "16 word" | UnixAddress string

fun sa_host :: "socket_address \<Rightarrow> ip_address net_result" where
  "sa_host (InetAddress a p) = Inr a"
| "sa_host (UnixAddress _) = Inl ''Cannot retrieve IP address''"

fun sa_port :: "socket_address \<Rightarrow> 16 word net_result" where
  "sa_port (InetAddress a p) = Inr p"
| "sa_port (UnixAddress _) = Inl ''Cannot retrieve port number''"

fun sa_family :: "socket_address \<Rightarrow> address_family" where
  "sa_family (InetAddress a p) = get_address_family a"
| "sa_family (UnixAddress _) = UNIX_LOCAL"

fun sa_to_string :: "inet6 \<Rightarrow> socket_address \<Rightarrow> string" where
  "sa_to_string inet (InetAddress (IPv4 a) p) = ip_to_string inet (IPv4 a) @ '':'' @ dec_of_nat (unat p)"
| "sa_to_string inet (InetAddress (IPv6 a) p) = ''['' @ ip_to_string inet (IPv6 a) @ '']'' @ '':'' @ dec_of_nat (unat p)"
| "sa_to_string inet (UnixAddress path) = path"

definition parse_port :: "string \<Rightarrow> 16 word net_result" where
  "parse_port s =
     (case stoul s of Some port \<Rightarrow> if port \<le> 0xFFFF then Inr (ucast port) else Inl ''Invalid port number.''
                    | None \<Rightarrow> Inl ''Invalid port number.'')"

text \<open>
  \<^verbatim>\<open>SocketAddress::init\<close> on a text. A path is put into the 108 bytes of a \<^verbatim>\<open>sockaddr_un\<close>, with a zero at its end.
\<close>

definition sa_from_string :: "inet6 \<Rightarrow> string \<Rightarrow> socket_address net_result" where
  "sa_from_string inet s =
     (if s = [] then Inl ''Invalid socket name.''
      else if hd s = CHR ''/'' then
        (if length s < 108 then Inr (UnixAddress (c_str s)) else Inl ''Failed to initialize unix socket address.'')
      else
        res_bind
          (if hd s = CHR ''['' then
             (let it = dropWhile (\<lambda>c. c \<noteq> CHR '']'') (tl s) in
              if it = [] then Inl ''Malformed IPv6 address''
              else Inr (takeWhile (\<lambda>c. c \<noteq> CHR '']'') (tl s), tl it))
           else Inr (takeWhile (\<lambda>c. c \<noteq> CHR '':'') s, dropWhile (\<lambda>c. c \<noteq> CHR '':'') s))
          (\<lambda>(address, it).
             if it \<noteq> [] \<and> hd it = CHR '':'' then
               res_bind (ip_from_string inet address) (\<lambda>a. res_bind (parse_port (tl it)) (\<lambda>p. Inr (InetAddress a p)))
             else Inl ''Missing port number''))"

section \<open>Masks and prefixes\<close>

text \<open>The mask with \<open>n\<close> leading ones.\<close>

definition netmask4 :: "nat \<Rightarrow> 32 word" where
  "netmask4 n = push_bit (32 - n) (- 1)"

definition netmask6 :: "nat \<Rightarrow> 128 word" where
  "netmask6 n = push_bit (128 - n) (- 1)"

lemma count_shifts_mask: "n \<le> 32 \<Longrightarrow> count_shifts (mask n) = n"
proof (induction n)
  case 0
  then show ?case by (simp add: count_shifts.simps)
next
  case (Suc n)
  have "drop_bit 1 (mask (Suc n) :: 32 word) = mask n"
    using Suc.prems by (intro bit_word_eqI) (auto simp: bit_simps)
  moreover have "(mask (Suc n) :: 32 word) \<noteq> 0" using Suc.prems by (simp add: mask_eq_0_iff)
  ultimately show ?case using Suc by (subst count_shifts.simps) simp
qed

text \<open>Of a number with its last one at bit \<open>k\<close> the exclusive or with its predecessor leaves \<open>k + 1\<close> ones.\<close>

lemma xor_pred:
  fixes v :: "32 word"
  assumes "bit v k" "\<forall>j < k. \<not> bit v j"
  shows "v XOR (v - 1) = mask (Suc k)"
proof -
  have k: "k < 32" using bit_imp_le_length [OF assms(1)] by simp
  define h where "h = v AND NOT (mask (Suc k))"
  have v: "v = h OR push_bit k 1"
  proof (rule bit_word_eqI)
    fix n
    assume "n < LENGTH(32)"
    then show "bit v n = bit (h OR push_bit k 1) n"
      using assms k by (cases n k rule: linorder_cases) (auto simp: h_def bit_simps)
  qed
  have "h AND push_bit k 1 = 0" unfolding h_def by (intro bit_word_eqI) (auto simp: bit_simps)
  then have "v = h + push_bit k 1" using v by (simp add: disjunctive_add_eq_or)
  moreover have "push_bit k 1 = (mask k :: 32 word) + 1" by (simp add: mask_eq_exp_minus_1 push_bit_eq_mult)
  ultimately have "v - 1 = h + mask k" by simp
  moreover have "h AND mask k = 0" unfolding h_def by (intro bit_word_eqI) (auto simp: bit_simps)
  ultimately have "v - 1 = h OR mask k" by (simp add: disjunctive_add_eq_or)
  then have w: "v - 1 = v AND NOT (mask (Suc k)) OR mask k" by (simp add: h_def)
  show ?thesis
  proof (rule bit_word_eqI)
    fix n
    assume "n < LENGTH(32)"
    then show "bit (v XOR (v - 1)) n = bit (mask (Suc k) :: 32 word) n"
      unfolding w using assms k by (cases n k rule: linorder_cases) (auto simp: bit_simps)
  qed
qed

lemma mask_bits_last:
  assumes "bit v k" "\<forall>j < k. \<not> bit v j"
  shows "mask_bits v 32 = 32 - k"
proof -
  have k: "k < 32" using bit_imp_le_length [OF assms(1)] by simp
  have "v \<noteq> 0" using assms(1) by auto
  moreover have "drop_bit 1 (mask (Suc k) :: 32 word) = mask k"
    using k by (intro bit_word_eqI) (auto simp: bit_simps)
  ultimately show ?thesis using k by (simp add: mask_bits_def xor_pred [OF assms] count_shifts_mask)
qed

lemma mask_bits_0 [simp]: "mask_bits 0 32 = 0"
  by (simp add: mask_bits_def)

lemma netmask4_0 [simp]: "netmask4 0 = 0"
  by (rule bit_word_eqI) (simp add: netmask4_def bit_simps)

lemma mask_bits_netmask4: "n \<le> 32 \<Longrightarrow> mask_bits (netmask4 n) 32 = n"
  using mask_bits_last [of "netmask4 n" "32 - n"]
  by (cases "n = 0") (simp, simp add: netmask4_def bit_simps)

lemma addr32_netmask6:
  assumes "n \<le> 128" "i \<le> 3"
  shows "addr32 (netmask6 n) i = netmask4 (min 32 (n - 32 * i))"
  using assms by (intro bit_word_eqI) (auto simp: addr32_def netmask6_def netmask4_def bit_simps min_def)

text \<open>
  The prefix length of the mask with \<open>n\<close> ones is \<open>n\<close>, for both
  kinds of address and every length from none to all bits.
\<close>

lemma prefix_length_netmask:
  "(\<forall>n \<in> {0..32}. prefix_length (IPv4 (netmask4 n)) = n)
   \<and> (\<forall>n \<in> {0..128}. prefix_length (IPv6 (netmask6 n)) = n)"
proof (intro conjI ballI)
  fix n :: nat
  assume "n \<in> {0..128}"
  then have n: "n \<le> 128" by simp
  have w: "mask_bits (addr32 (netmask6 n) i) 32 = min 32 (n - 32 * i)" if "i \<le> 3" for i
    using that by (simp add: addr32_netmask6 [OF n] mask_bits_netmask4)
  from w [of 3] w [of 2] w [of 1] w [of 0] n show "prefix_length (IPv6 (netmask6 n)) = n"
    by (simp add: Let_def)
qed (simp add: mask_bits_netmask4)

section \<open>Reading addresses back\<close>

text \<open>What the C library does with IPv6 addresses: their texts are theirs alone, without brackets and zeros.\<close>

definition inet6_ok :: "inet6 \<Rightarrow> bool" where
  "inet6_ok inet \<longleftrightarrow>
     (\<forall>a. pton6 inet (ntop6 inet a) = Some a \<and> pton4 (ntop6 inet a) = None
        \<and> CHR '']'' \<notin> set (ntop6 inet a) \<and> CHR 0x00 \<notin> set (ntop6 inet a))"

lemma octet_less: "octet a i < 256"
  by (simp add: octet_def)

lemma split_dots_digits: "\<forall>c \<in> set ds. is_digit c \<Longrightarrow> split_dots ds = [ds]"
  by (induction ds) (auto simp: is_digit_def)

lemma split_dots_append: "\<forall>c \<in> set ds. is_digit c \<Longrightarrow> split_dots (ds @ CHR ''.'' # cs) = ds # split_dots cs"
  by (induction ds) (auto simp: is_digit_def)

lemma hd_dec_of_nat_0: "hd (dec_of_nat n) = CHR ''0'' \<Longrightarrow> n = 0"
proof (induction n rule: dec_of_nat.induct)
  case (1 n)
  show ?case
  proof (cases "n < 10")
    case True
    then have "digit_char n = CHR ''0''" using 1(2) by (subst (asm) dec_of_nat.simps) simp
    then have "digit_val (digit_char n) = digit_val CHR ''0''" by simp
    with True show ?thesis by (simp add: digit_val_def)
  next
    case False
    then have "n div 10 = 0" using 1 by (subst (asm) (2) dec_of_nat.simps) (simp add: hd_append)
    with False show ?thesis by simp
  qed
qed

lemma octet_text_printed: "n < 256 \<Longrightarrow> octet_text (dec_of_nat n)"
  using hd_dec_of_nat_0 [of n] dec_of_nat_digits [of n]
  by (auto simp: octet_text_def dec_of_nat.simps [of 0] digit_char_def)

lemma octets_value:
  "256 * (256 * (256 * octet a 0 + octet a 1) + octet a 2) + octet a 3 = unat a"
proof -
  have "unat a < 2 ^ 32" using unsigned_less [of a] by simp
  moreover define q1 q2 q3 where "q1 = unat a div 256" and "q2 = q1 div 256" and "q3 = q2 div 256"
  ultimately have "q3 < 256" by simp
  moreover have "unat a div 256 ^ 3 = q3" "unat a div 256 ^ 2 = q2" "unat a div 256 ^ 1 = q1"
    unfolding q1_def q2_def q3_def div_mult2_eq [symmetric] by simp_all
  ultimately have "octet a 0 = q3" "octet a 1 = q2 mod 256" "octet a 2 = q1 mod 256" "octet a 3 = unat a mod 256"
    by (simp_all add: octet_def)
  moreover have "256 * q3 + q2 mod 256 = q2" "256 * q2 + q1 mod 256 = q1" "256 * q1 + unat a mod 256 = unat a"
    unfolding q1_def q2_def q3_def by simp_all
  ultimately show ?thesis by simp
qed

lemma pton4_ntop4: "pton4 (ntop4 a) = Some a"
proof -
  have "split_dots (ntop4 a) = map (\<lambda>i. dec_of_nat (octet a i)) [0, 1, 2, 3]"
    using dec_of_nat_digits by (simp add: ntop4_def split_dots_append split_dots_digits)
  then show ?thesis
    using octets_value [of a] by (simp add: pton4_def octet_text_printed octet_less)
qed

lemma ntop4_chars: "c \<in> set (ntop4 a) \<Longrightarrow> is_digit c \<or> c = CHR ''.''"
  using dec_of_nat_digits by (auto simp: ntop4_def)

lemma ip_round_trip:
  assumes "inet6_ok inet"
  shows "ip_from_string inet (ip_to_string inet a) = Inr a"
proof -
  have "CHR 0x00 \<notin> set (ip_to_string inet a)"
    using assms ntop4_chars [of "CHR 0x00"] by (cases a) (auto simp: inet6_ok_def is_digit_def)
  then have "c_str (ip_to_string inet a) = ip_to_string inet a"
    by (auto simp: c_str_def takeWhile_eq_all_conv)
  then show ?thesis using assms by (cases a) (auto simp: ip_from_string_def pton4_ntop4 inet6_ok_def)
qed

text \<open>
  The text of the address of a socket, written with brackets around an IPv6 address, is
  read back as the same address and port; so is a path that fits. The texts of IPv6 addresses
  are those of the C library.
\<close>

lemma socket_address_round_trip:
  assumes "inet6_ok inet"
    and "\<forall>path. s = UnixAddress path \<longrightarrow> path \<noteq> [] \<and> hd path = CHR ''/'' \<and> length path < 108 \<and> CHR 0x00 \<notin> set path"
  shows "sa_from_string inet (sa_to_string inet s) = Inr s"
proof (cases s)
  case (UnixAddress path)
  then have "c_str path = path" using assms(2) by (auto simp: c_str_def takeWhile_eq_all_conv)
  then show ?thesis using UnixAddress assms(2) by (simp add: sa_from_string_def)
next
  case (InetAddress a p)
  have port: "parse_port (dec_of_nat (unat p)) = Inr p"
    using stoul_port [of p] by (simp add: parse_port_def word_less_nat_alt word_le_nat_alt)
  show ?thesis
  proof (cases a)
    case (IPv4 w)
    let ?t = "ntop4 w"
    have c: "\<forall>c \<in> set ?t. c \<noteq> CHR '':'' \<and> c \<noteq> CHR ''/'' \<and> c \<noteq> CHR ''[''"
      using ntop4_chars [of "CHR '':''" w] ntop4_chars [of "CHR ''/''" w] ntop4_chars [of "CHR ''[''" w]
      by (auto simp: is_digit_def)
    moreover have "?t \<noteq> []" by (simp add: ntop4_def)
    ultimately have "hd ?t \<noteq> CHR ''/''" "hd ?t \<noteq> CHR ''[''" using hd_in_set by blast+
    with c \<open>?t \<noteq> []\<close> show ?thesis
      using ip_round_trip [OF assms(1), of a] InetAddress IPv4 port
      by (simp add: sa_from_string_def takeWhile_append2 dropWhile_append2)
  next
    case (IPv6 w)
    have "\<forall>c \<in> set (ntop6 inet w). c \<noteq> CHR '']''" using assms(1) by (auto simp: inet6_ok_def)
    then show ?thesis
      using ip_round_trip [OF assms(1), of a] InetAddress IPv6 port
      by (simp add: sa_from_string_def takeWhile_append2 dropWhile_append2 Let_def)
  qed
qed

section \<open>The order of addresses\<close>

instantiation ip_address :: linorder
begin

definition less_ip_address :: "ip_address \<Rightarrow> ip_address \<Rightarrow> bool" where
  "less_ip_address a b \<longleftrightarrow> ip_less a b"

definition less_eq_ip_address :: "ip_address \<Rightarrow> ip_address \<Rightarrow> bool" where
  "less_eq_ip_address a b \<longleftrightarrow> ip_less a b \<or> a = b"

instance
proof
  fix a b c :: ip_address
  show "(a < b) = (a \<le> b \<and> \<not> b \<le> a)"
    unfolding less_ip_address_def less_eq_ip_address_def by (cases a; cases b) auto
  show "a \<le> a" by (simp add: less_eq_ip_address_def)
  show "a \<le> b \<Longrightarrow> b \<le> c \<Longrightarrow> a \<le> c"
    unfolding less_eq_ip_address_def by (cases a; cases b; cases c) auto
  show "a \<le> b \<Longrightarrow> b \<le> a \<Longrightarrow> a = b"
    unfolding less_eq_ip_address_def by (cases a; cases b) auto
  show "a \<le> b \<or> b \<le> a"
    unfolding less_eq_ip_address_def by (cases a; cases b) auto
qed

end

lemma ip_eq_iff [simp]: "ip_eq a b \<longleftrightarrow> a = b"
  by (cases a; cases b) auto

lemma ip_greater_iff: "ip_greater a b \<longleftrightarrow> b < a"
  by (auto simp: ip_greater_def less_ip_address_def[symmetric])

section \<open>Network interfaces\<close>

text \<open>Each address of an interface with its mask and its broadcast address.\<close>

record network_interface =
  ni_name :: string
  ni_address_list :: "(ip_address \<times> ip_address \<times> ip_address) list"
  ni_index :: "32 word"
  ni_broadcast :: bool
  ni_loopback :: bool
  ni_multicast :: bool
  ni_p2p :: bool
  ni_up :: bool
  ni_running :: bool

definition new_interface :: network_interface where
  "new_interface = \<lparr>ni_name = [], ni_address_list = [], ni_index = - 1, ni_broadcast = False, ni_loopback = False,
     ni_multicast = False, ni_p2p = False, ni_up = False, ni_running = False\<rparr>"

definition supports_ipv4 :: "network_interface \<Rightarrow> bool" where
  "supports_ipv4 i \<longleftrightarrow> list_ex (\<lambda>a. get_address_family (fst a) = FamilyIPv4) (ni_address_list i)"

definition supports_ipv6 :: "network_interface \<Rightarrow> bool" where
  "supports_ipv6 i \<longleftrightarrow> list_ex (\<lambda>a. get_address_family (fst a) = FamilyIPv6) (ni_address_list i)"

definition get_first_address :: "network_interface \<Rightarrow> address_family \<Rightarrow> ip_address net_result" where
  "get_first_address i f =
     (case List.find (\<lambda>a. get_address_family (fst a) = f) (ni_address_list i) of
        Some a \<Rightarrow> Inr (fst a) | None \<Rightarrow> Inl ''IpAddress of NetworkInterface not found'')"

definition has_address :: "network_interface \<Rightarrow> ip_address \<Rightarrow> bool" where
  "has_address i a \<longleftrightarrow> list_ex (\<lambda>b. ip_eq a (fst b)) (ni_address_list i)"

end
