(* ===== verification/Ssdp_Queue.thy ===== *)
theory Ssdp_Queue
  imports Main Net_Address
begin

text \<open>
  \<^verbatim>\<open>common/ssdp\<close>, \<^verbatim>\<open>message_queue.hpp\<close> and \<^verbatim>\<open>message_queue.cpp\<close>: the messages that wait for their time or for
  their socket. The queue is a \<^verbatim>\<open>multimap\<close> from times to messages, the list of its pairs in order. What the
  sockets do with a message is an argument: the outcome of the \<open>k\<close>th call of \<^verbatim>\<open>send_to\<close>; the record
  \<open>net_state\<close> counts the calls and keeps what was sent. Times are milliseconds.
\<close>

section \<open>Messages\<close>

text \<open>A socket is known by its descriptor; the sockets of the service have the address they are bound to.\<close>

record msocket =
  sock_id :: nat
  sock_address :: ip_address

datatype message_state = READY_TO_SEND | WAIT_READY | SCHEDULED

record message =
  m_state :: message_state
  m_sender :: msocket
  m_receiver :: socket_address
  m_payload :: string

definition new_message :: "msocket \<Rightarrow> socket_address \<Rightarrow> string \<Rightarrow> message" where
  "new_message s r p = \<lparr>m_state = SCHEDULED, m_sender = s, m_receiver = r, m_payload = p\<rparr>"

text \<open>What \<^verbatim>\<open>send_to\<close> does: how many bytes it sent, or the code of the exception it throws.\<close>

datatype send_result = SentBytes nat | SendError nat

abbreviation "EINTR \<equiv> (4 :: nat)"
abbreviation "EAGAIN \<equiv> (11 :: nat)"

type_synonym send_env = "nat \<Rightarrow> msocket \<Rightarrow> socket_address \<Rightarrow> string \<Rightarrow> send_result"

record net_state =
  calls :: nat
  wire :: "(msocket \<times> socket_address \<times> string) list"

definition is_ready_to_send :: "message \<Rightarrow> msocket list \<Rightarrow> bool" where
  "is_ready_to_send m writable \<longleftrightarrow>
     m_state m = READY_TO_SEND \<or> m_state m = WAIT_READY \<and> m_sender m \<in> set writable"

definition is_scheduled :: "message \<Rightarrow> bool" where
  "is_scheduled m \<longleftrightarrow> m_state m = SCHEDULED"

text \<open>The result is positive when something was sent, zero when the sending is put off, negative on an error.\<close>

definition try_send :: "send_env \<Rightarrow> message \<Rightarrow> net_state \<Rightarrow> int \<times> message \<times> net_state" where
  "try_send env m n =
     (let n' = n\<lparr>calls := Suc (calls n)\<rparr> in
      case env (calls n) (m_sender m) (m_receiver m) (m_payload m) of
        SentBytes k \<Rightarrow> (int k, m, n'\<lparr>wire := wire n @ [(m_sender m, m_receiver m, m_payload m)]\<rparr>)
      | SendError code \<Rightarrow>
          (if code = EAGAIN then (0, m\<lparr>m_state := WAIT_READY\<rparr>, n')
           else if code = EINTR then (0, m\<lparr>m_state := READY_TO_SEND\<rparr>, n')
           else (-1, m, n')))"

section \<open>The queue\<close>

type_synonym queue = "(int \<times> message) list"

text \<open>\<^verbatim>\<open>multimap::emplace\<close>: behind the entries with the same key.\<close>

fun emplace :: "int \<Rightarrow> message \<Rightarrow> queue \<Rightarrow> queue" where
  "emplace t m [] = [(t, m)]"
| "emplace t m (e # q) = (if fst e \<le> t then e # emplace t m q else (t, m) # e # q)"

definition send_or_enqueue :: "send_env \<Rightarrow> int \<Rightarrow> message \<Rightarrow> int \<Rightarrow> queue \<times> net_state \<Rightarrow> queue \<times> net_state" where
  "send_or_enqueue env now m delay qn =
     (let (q, n) = qn in
      if delay = 0 then
        (let (rc, m', n') = try_send env m n in
         if rc \<noteq> 0 then (q, n') else (emplace (now + delay) m' q, n'))
      else (emplace (now + delay) m q, n))"

text \<open>\<^verbatim>\<open>select_ready_messages\<close>: the sockets to wait for and the time to wait, and the queue with the states changed.\<close>

definition select_message :: "message \<Rightarrow> message" where
  "select_message m = (if m_state m = WAIT_READY then m else m\<lparr>m_state := READY_TO_SEND\<rparr>)"

definition select_ready_messages :: "int \<Rightarrow> queue \<Rightarrow> msocket list \<Rightarrow> int \<Rightarrow> queue \<times> msocket list \<times> int" where
  "select_ready_messages now q writable timeout =
     (if q = [] then (q, writable, timeout)
      else
        (let due = takeWhile (\<lambda>e. fst e \<le> now) q;
             rest = dropWhile (\<lambda>e. fst e \<le> now) q;
             timeout' = (if due \<noteq> [] then 0
                         else (let diff = fst (hd rest) - now in if timeout > diff then diff else timeout))
         in (map (\<lambda>(t, m). (t, select_message m)) due @ rest,
             writable @ map (m_sender \<circ> snd) (filter (\<lambda>e. m_state (snd e) = WAIT_READY) due),
             timeout')))"

fun send_ready_messages :: "send_env \<Rightarrow> msocket list \<Rightarrow> queue \<Rightarrow> net_state \<Rightarrow> queue \<times> net_state" where
  "send_ready_messages env writable [] n = ([], n)"
| "send_ready_messages env writable ((t, m) # q) n =
     (if is_ready_to_send m writable then
        (let (rc, m', n') = try_send env m n;
             (q', n'') = send_ready_messages env writable q n'
         in if rc \<noteq> 0 then (q', n'') else ((t, m') # q', n''))
      else if is_scheduled m then ((t, m) # q, n)
      else (let (q', n') = send_ready_messages env writable q n in ((t, m) # q', n')))"

section \<open>Order and states\<close>

definition times_sorted :: "queue \<Rightarrow> bool" where
  "times_sorted q \<longleftrightarrow> sorted (map fst q)"

text \<open>What is not scheduled any more is not in the future.\<close>

definition mqueue_ok :: "int \<Rightarrow> queue \<Rightarrow> bool" where
  "mqueue_ok now q \<longleftrightarrow> times_sorted q \<and> (\<forall>e \<in> set q. m_state (snd e) \<noteq> SCHEDULED \<longrightarrow> fst e \<le> now)"

lemma mqueue_ok_mono: "mqueue_ok now q \<Longrightarrow> now \<le> now' \<Longrightarrow> mqueue_ok now' q"
  by (fastforce simp: mqueue_ok_def)

lemma set_mqueue_emplace: "set (emplace t m q) = insert (t, m) (set q)"
  by (induction q) auto

lemma sorted_mqueue_emplace: "times_sorted q \<Longrightarrow> times_sorted (emplace t m q)"
  unfolding times_sorted_def by (induction q) (auto simp: set_mqueue_emplace)

lemma try_send_keeps:
  "try_send env m n = (rc, m', n') \<Longrightarrow>
     m_sender m' = m_sender m \<and> m_receiver m' = m_receiver m \<and> m_payload m' = m_payload m
     \<and> (m_state m' = m_state m \<or> rc = 0 \<and> m_state m' \<noteq> SCHEDULED)"
  by (auto simp: try_send_def Let_def split: send_result.splits if_splits)

lemma send_or_enqueue_ok:
  assumes "mqueue_ok now q" "0 \<le> delay" "m_state m = SCHEDULED"
  shows "mqueue_ok now (fst (send_or_enqueue env now m delay (q, n)))"
proof -
  obtain rc m' n' where "try_send env m n = (rc, m', n')" by (cases "try_send env m n")
  then show ?thesis using assms
    by (auto simp: send_or_enqueue_def mqueue_ok_def sorted_mqueue_emplace set_mqueue_emplace)
qed

lemma due_split:
  assumes "times_sorted q"
  shows "dropWhile (\<lambda>e. fst e \<le> now) q = filter (\<lambda>e. now < fst e) q"
    and "takeWhile (\<lambda>e. fst e \<le> now) q = filter (\<lambda>e. fst e \<le> now) q"
  using assms unfolding times_sorted_def
  by (induction q) (auto intro!: filter_True [symmetric] filter_False [symmetric])

lemma map_fst_select: "map fst (map (\<lambda>(t, m). (t, select_message m)) xs) = map fst xs"
  by (induction xs) auto

lemma select_ready_sorted:
  assumes "times_sorted q"
  shows "times_sorted (fst (select_ready_messages now q w timeout))"
proof -
  let ?P = "\<lambda>e :: int \<times> message. fst e \<le> now"
  have "map fst (map (\<lambda>(t, m). (t, select_message m)) (takeWhile ?P q) @ dropWhile ?P q) = map fst q"
    unfolding map_append map_fst_select by (simp flip: map_append)
  with assms show ?thesis by (simp only: select_ready_messages_def times_sorted_def Let_def fst_conv split: if_split) simp
qed

lemma select_ready_ok:
  assumes "mqueue_ok now q"
  shows "mqueue_ok now (fst (select_ready_messages now q w timeout))"
proof -
  let ?P = "\<lambda>e :: int \<times> message. fst e \<le> now"
  have "fst e \<le> now" if "e \<in> set (fst (select_ready_messages now q w timeout))" "m_state (snd e) \<noteq> SCHEDULED" for e
  proof (cases "q = []")
    case False
    with that(1) have "e \<in> set (map (\<lambda>(t, m). (t, select_message m)) (takeWhile ?P q)) \<or> e \<in> set (dropWhile ?P q)"
      by (simp add: select_ready_messages_def Let_def)
    then show ?thesis
      using assms that(2) by (auto simp: mqueue_ok_def dest: set_takeWhileD set_dropWhileD)
  qed (use that in \<open>simp add: select_ready_messages_def\<close>)
  with select_ready_sorted assms show ?thesis by (simp add: mqueue_ok_def)
qed

lemma send_ready_Cons:
  obtains (gone) n' where "is_ready_to_send m writable"
      "fst (send_ready_messages env writable ((t, m) # q) n) = fst (send_ready_messages env writable q n')"
  | (put_off) n' m' where "is_ready_to_send m writable"
      "fst (send_ready_messages env writable ((t, m) # q) n) = (t, m') # fst (send_ready_messages env writable q n')"
  | (stop) "\<not> is_ready_to_send m writable" "fst (send_ready_messages env writable ((t, m) # q) n) = (t, m) # q"
  | (skip) "\<not> is_ready_to_send m writable"
      "fst (send_ready_messages env writable ((t, m) # q) n) = (t, m) # fst (send_ready_messages env writable q n)"
proof (cases "is_ready_to_send m writable")
  case True
  obtain rc m' n' where "try_send env m n = (rc, m', n')" by (cases "try_send env m n")
  with True gone [of n'] put_off [of m' n'] show ?thesis
    by (cases "rc = 0"; cases "send_ready_messages env writable q n'") auto
next
  case False
  with stop skip show ?thesis
    by (cases "is_scheduled m"; cases "send_ready_messages env writable q n") auto
qed

lemma ready_not_scheduled: "is_ready_to_send m writable \<Longrightarrow> m_state m \<noteq> SCHEDULED"
  by (auto simp: is_ready_to_send_def)

lemma send_ready_entries:
  assumes "e \<in> set (fst (send_ready_messages env writable q n))"
  shows "\<exists>m. (fst e, m) \<in> set q \<and> (m_state (snd e) = SCHEDULED \<or> m_state m \<noteq> SCHEDULED)"
  using assms
proof (induction q arbitrary: n)
  case (Cons x q)
  obtain t m where x: "x = (t, m)" by (cases x)
  show ?case
  proof (cases rule: send_ready_Cons [of m writable env t q n])
    case gone
    with Cons x show ?thesis by fastforce
  next
    case (put_off n' m')
    with Cons x ready_not_scheduled show ?thesis by fastforce
  next
    case stop
    then have "(fst e, snd e) \<in> set (x # q)" using Cons.prems unfolding x by (simp only: prod.collapse)
    then show ?thesis by blast
  next
    case skip
    with Cons x show ?thesis by fastforce
  qed
qed simp

lemma send_ready_sorted: "times_sorted q \<Longrightarrow> times_sorted (fst (send_ready_messages env writable q n))"
proof (induction q arbitrary: n)
  case (Cons x q)
  obtain t m where x: "x = (t, m)" by (cases x)
  have le: "\<forall>e \<in> set (fst (send_ready_messages env writable q n')). t \<le> fst e" for n'
    using send_ready_entries [of _ env writable q n'] Cons.prems by (force simp: times_sorted_def x)
  have "times_sorted q" using Cons.prems by (simp add: times_sorted_def)
  note IH = Cons.IH [OF this]
  show ?case
    by (cases rule: send_ready_Cons [of m writable env t q n])
       (use le IH Cons.prems in \<open>simp_all add: x times_sorted_def\<close>)
qed simp

lemma send_ready_ok: "mqueue_ok now q \<Longrightarrow> mqueue_ok now (fst (send_ready_messages env writable q n))"
  using send_ready_entries [of _ env writable q n] send_ready_sorted [of q env writable n]
  by (fastforce simp: mqueue_ok_def)

lemma emplace_ok: "mqueue_ok now q \<Longrightarrow> m_state m = SCHEDULED \<or> t \<le> now \<Longrightarrow> mqueue_ok now (emplace t m q)"
  by (auto simp: mqueue_ok_def sorted_mqueue_emplace set_mqueue_emplace)

text \<open>A message that waits for a socket stays in the queue while the socket is not reported writable.\<close>

lemma waiting_selected:
  assumes "e \<in> set q" "m_state (snd e) = WAIT_READY"
  shows "e \<in> set (fst (select_ready_messages now q w timeout))"
proof -
  let ?P = "\<lambda>e :: int \<times> message. fst e \<le> now"
  obtain t m where e: "e = (t, m)" by (cases e)
  have "e \<in> set (takeWhile ?P q) \<or> e \<in> set (dropWhile ?P q)"
    using assms(1) by (metis Un_iff set_append takeWhile_dropWhile_id)
  moreover have "(\<lambda>(t, m). (t, select_message m)) e = e"
    using assms(2) by (simp add: e select_message_def)
  then have "e \<in> set (takeWhile ?P q) \<Longrightarrow> e \<in> set (map (\<lambda>(t, m). (t, select_message m)) (takeWhile ?P q))"
    unfolding set_map by (rule image_eqI [OF sym])
  ultimately have "e \<in> set (map (\<lambda>(t, m). (t, select_message m)) (takeWhile ?P q) @ dropWhile ?P q)"
    by auto
  then show ?thesis using assms(1) by (auto simp: select_ready_messages_def Let_def)
qed

lemma waiting_sent:
  assumes "e \<in> set q" "m_state (snd e) = WAIT_READY" "m_sender (snd e) \<notin> set writable"
  shows "e \<in> set (fst (send_ready_messages env writable q n))"
  using assms
proof (induction q arbitrary: n)
  case (Cons x q)
  obtain t m where x: "x = (t, m)" by (cases x)
  have "x = e \<Longrightarrow> \<not> is_ready_to_send m writable"
    using Cons.prems x by (auto simp: is_ready_to_send_def)
  then show ?case
    by (cases rule: send_ready_Cons [of m writable env t q n]) (use Cons x in auto)
qed simp

section \<open>A round of the service\<close>

text \<open>What a try leaves of a message: nothing once it was sent or failed for good.\<close>

definition left_of :: "send_env \<Rightarrow> nat \<Rightarrow> message \<Rightarrow> message option" where
  "left_of env k m =
     (case env k (m_sender m) (m_receiver m) (m_payload m) of
        SentBytes b \<Rightarrow> if b = 0 then Some m else None
      | SendError code \<Rightarrow>
          if code = EAGAIN then Some (m\<lparr>m_state := WAIT_READY\<rparr>)
          else if code = EINTR then Some (m\<lparr>m_state := READY_TO_SEND\<rparr>) else None)"

definition was_sent :: "send_env \<Rightarrow> nat \<Rightarrow> message \<Rightarrow> (msocket \<times> socket_address \<times> string) list" where
  "was_sent env k m =
     (case env k (m_sender m) (m_receiver m) (m_payload m) of
        SentBytes b \<Rightarrow> [(m_sender m, m_receiver m, m_payload m)] | SendError code \<Rightarrow> [])"

text \<open>
  A round, as it should be: every message whose time has come and that does not wait for a socket that is
  not writable is tried once, in the order of the times; all others stay as they are. \<open>k\<close> is the number of the
  next call of \<^verbatim>\<open>send_to\<close>.
\<close>

fun round_spec :: "send_env \<Rightarrow> int \<Rightarrow> msocket list \<Rightarrow> nat \<Rightarrow> queue \<Rightarrow> queue \<times> (msocket \<times> socket_address \<times> string) list" where
  "round_spec env now writable k [] = ([], [])"
| "round_spec env now writable k ((t, m) # q) =
     (if t \<le> now \<and> (m_state m = WAIT_READY \<longrightarrow> m_sender m \<in> set writable) then
        (let (q', w) = round_spec env now writable (Suc k) q in
         (case left_of env k (select_message m) of None \<Rightarrow> q' | Some m' \<Rightarrow> (t, m') # q', was_sent env k m @ w))
      else (let (q', w) = round_spec env now writable k q in ((t, m) # q', w)))"

lemma try_send_left:
  "try_send env m n = (rc, m', n') \<Longrightarrow>
     calls n' = Suc (calls n) \<and> wire n' = wire n @ was_sent env (calls n) m
     \<and> (if rc = 0 then left_of env (calls n) m = Some m' else left_of env (calls n) m = None)"
  by (auto simp: try_send_def left_of_def was_sent_def Let_def split: send_result.splits if_splits)

lemma send_ready_scheduled:
  "\<forall>e \<in> set q. m_state (snd e) = SCHEDULED \<Longrightarrow> send_ready_messages env writable q n = (q, n)"
  by (cases q) (auto simp: is_ready_to_send_def is_scheduled_def)

lemma select_message_fields [simp]:
  "m_sender (select_message m) = m_sender m" "m_receiver (select_message m) = m_receiver m"
  "m_payload (select_message m) = m_payload m"
  by (simp_all add: select_message_def)

lemma was_sent_select [simp]: "was_sent env k (select_message m) = was_sent env k m"
  by (simp add: was_sent_def split: send_result.split)

lemma round_spec_later:
  assumes "\<forall>e \<in> set q. now < fst e"
  shows "round_spec env now writable k q = (q, [])"
  using assms by (induction q) auto

lemma send_ready_due:
  assumes "\<forall>e \<in> set due. fst e \<le> now" "\<forall>e \<in> set rest. now < fst e \<and> m_state (snd e) = SCHEDULED"
    and "send_ready_messages env writable (map (\<lambda>(t, m). (t, select_message m)) due @ rest) n = (q', n')"
  shows "round_spec env now writable (calls n) (due @ rest) = (q', drop (length (wire n)) (wire n'))
         \<and> take (length (wire n)) (wire n') = wire n"
  using assms
proof (induction due arbitrary: n q' n')
  case Nil
  then show ?case by (simp add: send_ready_scheduled round_spec_later)
next
  case (Cons e due)
  obtain t m where e: "e = (t, m)" by (cases e)
  let ?m = "select_message m"
  have tm: "t \<le> now" using Cons.prems(1) e by simp
  have ready: "is_ready_to_send ?m writable \<longleftrightarrow> (m_state m = WAIT_READY \<longrightarrow> m_sender m \<in> set writable)"
    by (cases "m_state m") (auto simp: is_ready_to_send_def select_message_def)
  have not_sch: "\<not> is_scheduled ?m" by (cases "m_state m") (auto simp: is_scheduled_def select_message_def)
  show ?case
  proof (cases "is_ready_to_send ?m writable")
    case True
    obtain rc m1 n1 where ts: "try_send env ?m n = (rc, m1, n1)" by (cases "try_send env ?m n")
    obtain q1 n2 where sr: "send_ready_messages env writable (map (\<lambda>(t, m). (t, select_message m)) due @ rest) n1 = (q1, n2)"
      by fastforce
    from try_send_left [OF ts] have n1: "calls n1 = Suc (calls n)" "wire n1 = wire n @ was_sent env (calls n) m"
      and lf: "if rc = 0 then left_of env (calls n) ?m = Some m1 else left_of env (calls n) ?m = None" by simp_all
    from Cons.IH [OF _ Cons.prems(2) sr] Cons.prems(1)
    have IH: "round_spec env now writable (Suc (calls n)) (due @ rest) = (q1, drop (length (wire n1)) (wire n2))"
      "take (length (wire n1)) (wire n2) = wire n1" using n1 by simp_all
    then obtain w where w: "wire n2 = wire n1 @ w" by (metis append_take_drop_id)
    have "n' = n2" "q' = (if rc = 0 then (t, m1) # q1 else q1)"
      using Cons.prems(3) True ts sr e by (auto split: if_splits)
    with IH w n1 lf tm True ready show ?thesis by (auto simp: e split: if_splits)
  next
    case False
    obtain q1 n2 where sr: "send_ready_messages env writable (map (\<lambda>(t, m). (t, select_message m)) due @ rest) n = (q1, n2)"
      by fastforce
    have m: "m_state m = WAIT_READY" using False ready by auto
    then have "?m = m" by (simp add: select_message_def)
    then have "n' = n2" "q' = (t, m) # q1" using Cons.prems(3) False not_sch sr e by auto
    with Cons.IH [OF _ Cons.prems(2) sr] Cons.prems(1) False ready m show ?thesis by (auto simp: e)
  qed
qed

lemma round_selected_and_sent:
  assumes "mqueue_ok now q" "select_ready_messages now q waiting timeout = (q1, waiting', timeout')" "0 \<le> timeout"
    and "send_ready_messages env writable q1 n = (q2, n2)"
  shows "round_spec env now writable (calls n) q = (q2, drop (length (wire n)) (wire n2))
       \<and> take (length (wire n)) (wire n2) = wire n
       \<and> timeout' = (if q = [] then timeout else min (max 0 (fst (hd q) - now)) timeout)"
proof -
  let ?due = "takeWhile (\<lambda>e. fst e \<le> now) q" and ?rest = "dropWhile (\<lambda>e. fst e \<le> now) q"
  have q1: "q1 = map (\<lambda>(t, m). (t, select_message m)) ?due @ ?rest"
    using assms(2) by (auto simp: select_ready_messages_def Let_def split: if_splits)
  have "\<forall>e \<in> set ?due. fst e \<le> now" by (auto dest: set_takeWhileD)
  moreover have "\<forall>e \<in> set ?rest. now < fst e \<and> m_state (snd e) = SCHEDULED"
    using assms(1) due_split(1) [of q now] by (fastforce simp: mqueue_ok_def)
  ultimately have "round_spec env now writable (calls n) q = (q2, drop (length (wire n)) (wire n2))
      \<and> take (length (wire n)) (wire n2) = wire n"
    using send_ready_due [of ?due now ?rest env writable n q2 n2] assms(4) q1 by simp
  moreover have "timeout' = (if q = [] then timeout else min (max 0 (fst (hd q) - now)) timeout)"
    using assms(2,3) by (cases q) (auto simp: select_ready_messages_def Let_def split: if_splits)
  ultimately show ?thesis by simp
qed

text \<open>
  With a network that sends what it is given, and the sockets waited for writable, a
  round sends exactly the messages that are due, in the order of their times, and keeps exactly the others.
\<close>

lemma due_messages_sent:
  assumes "mqueue_ok now q" "select_ready_messages now q [] timeout = (q1, waiting, timeout')" "0 \<le> timeout"
    and "send_ready_messages env writable q1 n = (q2, n2)"
    and "\<forall>k s r p. env k s r p = SentBytes (length p)" "\<forall>e \<in> set q. m_payload (snd e) \<noteq> []"
    and "set waiting \<subseteq> set writable"
  shows "q2 = filter (\<lambda>e. now < fst e) q"
    and "wire n2 = wire n @ map (\<lambda>(t, m). (m_sender m, m_receiver m, m_payload m)) (filter (\<lambda>e. fst e \<le> now) q)"
proof -
  have w: "waiting = map (m_sender \<circ> snd) (filter (\<lambda>e. m_state (snd e) = WAIT_READY) (filter (\<lambda>e. fst e \<le> now) q))"
    using assms(1,2) due_split(2) [of q now] by (auto simp: select_ready_messages_def Let_def mqueue_ok_def split: if_splits)
  have "round_spec env now writable k r =
      (filter (\<lambda>e. now < fst e) r, map (\<lambda>(t, m). (m_sender m, m_receiver m, m_payload m)) (filter (\<lambda>e. fst e \<le> now) r))"
    if "set r \<subseteq> set q" for k r
    using that
  proof (induction r arbitrary: k)
    case Nil
    then show ?case by simp
  next
    case (Cons e r)
    obtain t m where e: "e = (t, m)" by (cases e)
    have "m_sender m \<in> set writable" if "t \<le> now" "m_state m = WAIT_READY"
      using that Cons.prems assms(7) w e by force
    moreover have "m_payload m \<noteq> []" using Cons.prems assms(6) e by auto
    ultimately show ?case using Cons assms(5)
      by (auto simp: e left_of_def was_sent_def select_message_def)
  qed
  with round_selected_and_sent [OF assms(1-4)] show "q2 = filter (\<lambda>e. now < fst e) q"
    and "wire n2 = wire n @ map (\<lambda>(t, m). (m_sender m, m_receiver m, m_payload m)) (filter (\<lambda>e. fst e \<le> now) q)"
    by (auto, metis append_take_drop_id)
qed

text \<open>
  C24: Selecting the messages that are due and then sending the ready ones is one round as it
  should be, whatever the sockets do: each due message that need not wait for its socket is tried once, in order,
  and leaves the queue only when it was sent or failed for good. The time to wait is the time to the first
  message, at least zero and at most what it was. When the network sends what it is given and the sockets waited
  for are writable, exactly the due messages are sent, in the order of their times, and exactly the others are kept.
\<close>

theorem queue_round:
  assumes "mqueue_ok now q" "select_ready_messages now q [] timeout = (q1, waiting, timeout')" "0 \<le> timeout"
    and "send_ready_messages env writable q1 n = (q2, n2)"
  shows "round_spec env now writable (calls n) q = (q2, drop (length (wire n)) (wire n2))
    \<and> take (length (wire n)) (wire n2) = wire n
    \<and> timeout' = (if q = [] then timeout else min (max 0 (fst (hd q) - now)) timeout)
    \<and> ((\<forall>k s r p. env k s r p = SentBytes (length p)) \<and> (\<forall>e \<in> set q. m_payload (snd e) \<noteq> []) \<and> set waiting \<subseteq> set writable \<longrightarrow>
      q2 = filter (\<lambda>e. now < fst e) q
      \<and> wire n2 = wire n @ map (\<lambda>(t, m). (m_sender m, m_receiver m, m_payload m)) (filter (\<lambda>e. fst e \<le> now) q))"
  using round_selected_and_sent [OF assms] due_messages_sent [OF assms] by simp

end
