(* ===== verification/Ssdp_Service.thy ===== *)
theory Ssdp_Service
  imports Ssdp_Notification Ssdp_Uri Ssdp_Queue
begin

text \<open>
  \<^verbatim>\<open>common/ssdp/src/ssdp_service_impl.cpp\<close>: the service that announces the REST service on the network and
  answers searches for it, and \<^verbatim>\<open>Socket::select\<close> of \<^verbatim>\<open>common/net/src/socket.cpp\<close> it waits with. The state holds
  the cached interfaces, the sockets the announcements go out by, the interfaces whose multicast group the
  listening socket has joined, and the queue of messages. The interfaces are in the order in which the
  \<^verbatim>\<open>unordered_map\<close> is walked, taken to be the order they came in.

  The record \<open>ssdp_env\<close> is the system: what \<^verbatim>\<open>send_to\<close>, opening a socket, joining and leaving a group do, the
  texts of IPv6 addresses and the database of services. The time does not pass within a call.
\<close>

section \<open>State and environment\<close>

record ssdp_state =
  s_running :: bool
  s_ifaces :: "(32 word \<times> network_interface) list"
  s_notify :: "msocket list"
  s_listen :: msocket
  s_groups :: "32 word list"
  s_queue :: queue
  s_net :: net_state
  s_last :: int
  s_opened :: nat

text \<open>The texts are the messages of the exceptions; \<open>None\<close> when the call succeeds.\<close>

record ssdp_env =
  e_send :: send_env
  e_open :: "nat \<Rightarrow> ip_address \<Rightarrow> string option"
  e_join :: "32 word \<Rightarrow> string option"
  e_leave :: "32 word \<Rightarrow> string option"
  e_inet :: inet6
  e_services :: services

type_synonym 'a ssdp_call = "(ssdp_state, ssdp_error, 'a) action"

definition lift_net :: "'a net_result \<Rightarrow> ssdp_error + 'a" where
  "lift_net r = (case r of Inl m \<Rightarrow> Inl (NetError m) | Inr a \<Rightarrow> Inr a)"

abbreviation "SSDP_ALL_STR \<equiv> ''ssdp:all''"
abbreviation PACKET_SIZE :: nat where "PACKET_SIZE \<equiv> 1536"
abbreviation DELAY_INCREMENT :: int where "DELAY_INCREMENT \<equiv> 50"
abbreviation SCHEDULED_DELAY :: int where "SCHEDULED_DELAY \<equiv> 250"
abbreviation MCAST :: socket_address where "MCAST \<equiv> InetAddress (IPv4 0xEFFFFFFA) 1900"

section \<open>Interfaces and groups\<close>

definition supports_mcast_address :: "socket_address \<Rightarrow> network_interface \<Rightarrow> bool" where
  "supports_mcast_address addr iface =
     (case sa_family addr of FamilyIPv4 \<Rightarrow> supports_ipv4 iface | FamilyIPv6 \<Rightarrow> supports_ipv6 iface | UNIX_LOCAL \<Rightarrow> False)"

definition join_group :: "ssdp_env \<Rightarrow> 32 word \<Rightarrow> unit ssdp_call" where
  "join_group env i s =
     (case e_join env i of Some e \<Rightarrow> (Inl (NetError e), s) | None \<Rightarrow> (Inr (), s\<lparr>s_groups := s_groups s @ [i]\<rparr>))"

definition leave_group :: "ssdp_env \<Rightarrow> 32 word \<Rightarrow> unit ssdp_call" where
  "leave_group env i s =
     (case e_leave env i of Some e \<Rightarrow> (Inl (NetError e), s) | None \<Rightarrow> (Inr (), s\<lparr>s_groups := remove1 i (s_groups s)\<rparr>))"

definition leave_or_join_mcast_group :: "ssdp_env \<Rightarrow> network_interface \<Rightarrow> network_interface \<Rightarrow> unit ssdp_call" where
  "leave_or_join_mcast_group env cached updated =
     (let is_joined = supports_mcast_address MCAST cached;
          should_join = supports_mcast_address MCAST updated
      in if \<not> is_joined \<and> should_join then join_group env (ni_index updated)
         else if is_joined \<and> \<not> should_join then leave_group env (ni_index cached)
         else act_return ())"

text \<open>A \<^verbatim>\<open>std::set\<close> of addresses is the sorted list of its elements.\<close>

definition get_addresses_for_mcast :: "socket_address \<Rightarrow> network_interface \<Rightarrow> ip_address list" where
  "get_addresses_for_mcast mcast iface =
     sort (remdups (filter (\<lambda>a. sa_family mcast = get_address_family a) (map fst (ni_address_list iface))))"

definition addresses_difference :: "network_interface \<Rightarrow> network_interface \<Rightarrow> ip_address list \<times> ip_address list" where
  "addresses_difference cached updated =
     (let cached_addresses = get_addresses_for_mcast MCAST cached;
          updated_addresses = get_addresses_for_mcast MCAST updated
      in (filter (\<lambda>a. a \<notin> set cached_addresses) updated_addresses,
          filter (\<lambda>a. a \<notin> set updated_addresses) cached_addresses))"

definition open_ssdp_notify_socket :: "ssdp_env \<Rightarrow> ip_address \<Rightarrow> msocket ssdp_call" where
  "open_ssdp_notify_socket env a s =
     (case e_open env (s_opened s) a of
        Some e \<Rightarrow> (Inl (NetError e), s\<lparr>s_opened := Suc (s_opened s)\<rparr>)
      | None \<Rightarrow> (Inr \<lparr>sock_id = s_opened s, sock_address = a\<rparr>, s\<lparr>s_opened := Suc (s_opened s)\<rparr>))"

fun open_notify_sockets :: "ssdp_env \<Rightarrow> ip_address list \<Rightarrow> unit ssdp_call" where
  "open_notify_sockets env [] = act_return ()"
| "open_notify_sockets env (a # as) =
     act_bind (open_ssdp_notify_socket env a) (\<lambda>sock.
     act_bind (act_modify (\<lambda>s. s\<lparr>s_notify := s_notify s @ [sock]\<rparr>)) (\<lambda>_.
     open_notify_sockets env as))"

definition update_mcast_notify_sockets_list ::
  "ssdp_env \<Rightarrow> network_interface \<Rightarrow> network_interface \<Rightarrow> unit ssdp_call" where
  "update_mcast_notify_sockets_list env cached updated =
     (let (new_addresses, removed_addresses) = addresses_difference cached updated in
      act_bind (act_modify (\<lambda>s. s\<lparr>s_notify := filter (\<lambda>k. sock_address k \<notin> set removed_addresses) (s_notify s)\<rparr>)) (\<lambda>_.
      open_notify_sockets env new_addresses))"

text \<open>An iterator into the map of interfaces is the key it points to, or \<open>None\<close> at the end.\<close>

definition find_iface :: "ssdp_state \<Rightarrow> 32 word \<Rightarrow> 32 word option" where
  "find_iface s i = (if map_of (s_ifaces s) i = None then None else Some i)"

definition put_iface :: "32 word \<Rightarrow> network_interface \<Rightarrow> (32 word \<times> network_interface) list \<Rightarrow> (32 word \<times> network_interface) list" where
  "put_iface i iface = map (\<lambda>(j, x). if j = i then (j, iface) else (j, x))"

definition link_update :: "ssdp_env \<Rightarrow> ssdp_config \<Rightarrow> 32 word option \<Rightarrow> network_interface \<Rightarrow> unit ssdp_call" where
  "link_update env cfg it updated s =
     (case it of
        None \<Rightarrow> (Inr (), s)
      | Some i \<Rightarrow>
          (let cached = the (map_of (s_ifaces s) i) in
           act_bind (if is_announcement_enabled cfg then update_mcast_notify_sockets_list env cached updated
                     else act_return ()) (\<lambda>_.
           act_bind (leave_or_join_mcast_group env cached updated) (\<lambda>_.
           act_modify (\<lambda>s. s\<lparr>s_ifaces := put_iface i updated (s_ifaces s)\<rparr>))) s))"

definition iface_link_remove :: "ssdp_env \<Rightarrow> ssdp_config \<Rightarrow> 32 word option \<Rightarrow> unit ssdp_call" where
  "iface_link_remove env cfg it =
     (case it of
        None \<Rightarrow> act_return ()
      | Some i \<Rightarrow>
          act_bind (link_update env cfg it new_interface) (\<lambda>_.
          act_modify (\<lambda>s. s\<lparr>s_ifaces := filter (\<lambda>e. fst e \<noteq> i) (s_ifaces s)\<rparr>)))"

definition emplace_iface :: "32 word \<Rightarrow> ssdp_state \<Rightarrow> ssdp_state" where
  "emplace_iface i s =
     (if map_of (s_ifaces s) i = None then s\<lparr>s_ifaces := s_ifaces s @ [(i, new_interface)]\<rparr> else s)"

definition link_insert_or_update ::
  "ssdp_env \<Rightarrow> ssdp_config \<Rightarrow> 32 word option \<Rightarrow> network_interface \<Rightarrow> unit ssdp_call" where
  "link_insert_or_update env cfg it updated =
     (case it of
        None \<Rightarrow>
          act_bind (act_modify (emplace_iface (ni_index updated))) (\<lambda>_.
          link_update env cfg (Some (ni_index updated)) updated)
      | Some i \<Rightarrow> link_update env cfg it updated)"

definition is_iface_ignored :: "ssdp_config \<Rightarrow> string \<Rightarrow> bool" where
  "is_iface_ignored cfg name \<longleftrightarrow> name \<notin> set (m_nic_names cfg)"

text \<open>\<open>ifaces\<close> is what the system says the interfaces are when it is asked, by their numbers.\<close>

definition on_network_change ::
  "ssdp_env \<Rightarrow> ssdp_config \<Rightarrow> (32 word \<rightharpoonup> network_interface) \<Rightarrow> 32 word \<Rightarrow> unit ssdp_call" where
  "on_network_change env cfg ifaces i s =
     (let cached_iface = find_iface s i in
      case ifaces i of
        None \<Rightarrow> iface_link_remove env cfg cached_iface s
      | Some updated \<Rightarrow>
          (if is_iface_ignored cfg (ni_name updated) then (Inr (), s)
           else if \<not> (ni_up updated \<and> ni_running updated) then iface_link_remove env cfg cached_iface s
           else link_insert_or_update env cfg cached_iface updated s))"

text \<open>What a handler does when an exception comes: it is written to the log, and undefined behaviour stays.\<close>

definition logged :: "unit ssdp_call \<Rightarrow> unit ssdp_call" where
  "logged m s =
     (case m s of
        (Inl e, s') \<Rightarrow> (if e = Outside \<or> e = Endless then (Inl e, s') else (Inr (), s'))
      | (Inr (), s') \<Rightarrow> (Inr (), s'))"

text \<open>The interfaces at the start of the service.\<close>

fun init_ifaces :: "ssdp_env \<Rightarrow> ssdp_config \<Rightarrow> network_interface list \<Rightarrow> unit ssdp_call" where
  "init_ifaces env cfg [] = act_return ()"
| "init_ifaces env cfg (iface # ifaces) =
     act_bind
       (if \<not> is_iface_ignored cfg (ni_name iface) \<and> ni_up iface \<and> ni_running iface
        then logged (link_insert_or_update env cfg None iface) else act_return ()) (\<lambda>_.
     init_ifaces env cfg ifaces)"

section \<open>Announcements\<close>

definition enqueue :: "ssdp_env \<Rightarrow> int \<Rightarrow> message \<Rightarrow> int \<Rightarrow> unit ssdp_call" where
  "enqueue env now m delay s =
     (let (q, n) = send_or_enqueue (e_send env) now m delay (s_queue s, s_net s) in
      (Inr (), s\<lparr>s_queue := q, s_net := n\<rparr>))"

fun send_alive_loop :: "ssdp_env \<Rightarrow> int \<Rightarrow> uri \<Rightarrow> ssdp_packet \<Rightarrow> msocket list \<Rightarrow> unit ssdp_call" where
  "send_alive_loop env now service_uri alive [] = act_return ()"
| "send_alive_loop env now service_uri alive (sock # socks) =
     (let uri = set_host service_uri (ip_to_string (e_inet env) (sock_address sock));
          packet = packet_set_header alive AL (uri_to_string uri);
          msg = new_message sock MCAST (packet_to_string packet)
      in act_bind (enqueue env now msg 0) (\<lambda>_.
         act_bind (enqueue env now msg SCHEDULED_DELAY) (\<lambda>_.
         send_alive_loop env now uri packet socks)))"

definition send_alive :: "ssdp_env \<Rightarrow> ssdp_config \<Rightarrow> int \<Rightarrow> unit ssdp_call" where
  "send_alive env cfg now s =
     (if \<not> is_announcement_enabled cfg \<or> s_notify s = [] then (Inr (), s)
      else
        act_bind (act_read (\<lambda>_. create_ssdp_packet cfg (NOTIFY, []))) (\<lambda>alive.
        act_bind (act_read (\<lambda>_. packet_get_header alive AL)) (\<lambda>al.
        act_bind (act_read (\<lambda>_. uri_parse (e_services env) al)) (\<lambda>service_uri.
        send_alive_loop env now service_uri alive (s_notify s)))) s)"

fun send_all :: "ssdp_env \<Rightarrow> string \<Rightarrow> msocket list \<Rightarrow> net_state \<Rightarrow> net_state" where
  "send_all env payload [] n = n"
| "send_all env payload (sock # socks) n =
     (let (rc, m', n') = try_send (e_send env) (new_message sock MCAST payload) n in send_all env payload socks n')"

definition send_byebye :: "ssdp_env \<Rightarrow> ssdp_config \<Rightarrow> unit ssdp_call" where
  "send_byebye env cfg s =
     (if \<not> is_announcement_enabled cfg \<or> s_notify s = [] then (Inr (), s)
      else
        logged
          (act_bind (act_read (\<lambda>_. create_ssdp_packet cfg (NOTIFY, SSDP_BYEBYE_STR))) (\<lambda>bye.
           act_modify (\<lambda>s. s\<lparr>s_net :=
             send_all env (packet_to_string bye) (s_notify s)
               (send_all env (packet_to_string bye) (s_notify s) (s_net s))\<rparr>))) s)"

section \<open>Searches\<close>

definition same_subnet :: "ip_address \<Rightarrow> ip_address \<Rightarrow> ip_address \<Rightarrow> bool net_result" where
  "same_subnet peer nic_ip subnet = res_bind (ip_and peer subnet) (\<lambda>a. res_bind (ip_and nic_ip subnet) (\<lambda>b. Inr (ip_eq a b)))"

fun find_lan :: "ip_address \<Rightarrow> (ip_address \<times> ip_address \<times> ip_address) list \<Rightarrow> ip_address net_result" where
  "find_lan peer [] = Inr any_address"
| "find_lan peer ((iface_ip, iface_subnet_mask, bcast) # as) =
     (if get_address_family peer = get_address_family iface_ip
      then res_bind (same_subnet peer iface_ip iface_subnet_mask) (\<lambda>same. if same then Inr iface_ip else find_lan peer as)
      else find_lan peer as)"

definition find_lan_of_peer :: "ssdp_state \<Rightarrow> ip_address \<Rightarrow> ip_address net_result" where
  "find_lan_of_peer s peer = find_lan peer (concat (map (\<lambda>(i, x). ni_address_list x) (s_ifaces s)))"

definition mx_of :: "string \<Rightarrow> nat" where
  "mx_of mx_str = (case stoul mx_str of Some v \<Rightarrow> if 0 < v \<and> v < 5 then unat v else 1 | None \<Rightarrow> 1)"

text \<open>\<open>rnd\<close> is what \<^verbatim>\<open>std::rand\<close> returns, from 0 to \<^verbatim>\<open>RAND_MAX\<close>, which is 2147483647.\<close>

definition calculate_delay :: "nat \<Rightarrow> string \<Rightarrow> int" where
  "calculate_delay rnd mx_str = int (rnd div (1 + 2147483647 div (1000 * mx_of mx_str)))"

definition process_ssdp_m_search ::
  "ssdp_env \<Rightarrow> ssdp_config \<Rightarrow> int \<Rightarrow> nat \<Rightarrow> ssdp_packet \<Rightarrow> socket_address \<Rightarrow> ip_address \<Rightarrow> unit ssdp_call" where
  "process_ssdp_m_search env cfg now rnd packet sender lan_address =
     act_bind (act_read (\<lambda>_. packet_get_header packet ST)) (\<lambda>st_header.
     if st_header = SSDP_ALL_STR \<or> st_header = m_service_urn cfg then
       act_bind (act_read (\<lambda>_. packet_get_header packet MX)) (\<lambda>mx.
       let delay = calculate_delay rnd mx in
       act_bind (act_read (\<lambda>_. create_ssdp_packet cfg (SEARCH_RESPONSE, []))) (\<lambda>search_response.
       act_bind (act_read (\<lambda>_. uri_parse (e_services env) (m_service_url cfg))) (\<lambda>service_uri.
       let uri = set_host service_uri (ip_to_string (e_inet env) lan_address);
           response = packet_set_header search_response AL (uri_to_string uri)
       in
       act_bind (act_read (\<lambda>s. Inr (new_message (s_listen s) sender (packet_to_string response)))) (\<lambda>msg.
       act_bind (enqueue env now msg delay) (\<lambda>_.
       enqueue env now msg (delay + DELAY_INCREMENT))))))
     else act_return ())"

text \<open>A datagram longer than the buffer is cut off; the rest of the buffer is zeros.\<close>

definition receive_packet :: "string \<Rightarrow> (ssdp_error + ssdp_packet) option" where
  "receive_packet datagram =
     (let n = min PACKET_SIZE (length datagram) in
      parse_packet (take PACKET_SIZE datagram @ replicate (PACKET_SIZE - n) (CHR 0x00)) n)"

definition received :: "string \<Rightarrow> ssdp_error + ssdp_packet" where
  "received datagram = (case receive_packet datagram of None \<Rightarrow> Inl Endless | Some r \<Rightarrow> r)"

lemma received_short_cases:
  assumes "length datagram < PACKET_SIZE"
  shows "case received datagram of
           Inl e \<Rightarrow> e = ParserException ''No colon found'' \<or> e = ParserException ''No CRLF found''
         | Inr p \<Rightarrow> packet_ok p"
proof -
  let ?b = "take PACKET_SIZE datagram @ replicate (PACKET_SIZE - min PACKET_SIZE (length datagram)) CHR 0x00"
  have l: "min PACKET_SIZE (length datagram) = length datagram" using assms by simp
  have b: "length datagram < length ?b" "?b ! length datagram = CHR 0x00"
    using assms by (simp_all add: nth_append)
  have "stopper (?b ! length datagram)" unfolding b(2) by (rule stopper_nul)
  from datagram_parsed [OF b(1) this] obtain r where r: "parse_packet ?b (length datagram) = Some r"
      "case r of Inl e \<Rightarrow> e = ParserException ''No colon found'' \<or> e = ParserException ''No CRLF found'' | Inr p \<Rightarrow> packet_ok p"
    by blast
  then show ?thesis unfolding received_def receive_packet_def Let_def l by simp
qed

text \<open>
  C29: Whatever a datagram holds, if it leaves a byte of the buffer free, its parsing ends and never looks outside
  of the buffer: it is a packet whose header names are distinct but for their case, or an exception of the parser.
\<close>

theorem datagram_received:
  assumes "length datagram < PACKET_SIZE"
  shows "case received datagram of
           Inl e \<Rightarrow> e = ParserException ''No colon found'' \<or> e = ParserException ''No CRLF found''
         | Inr p \<Rightarrow> packet_ok p"
  using received_short_cases [OF assms] .

text \<open>
  C30: A packet the service prints, if it fits the buffer of the receiver, is received as the same packet with its
  headers in their order: names without colons and line ends and values without line ends and outer blanks are all it
  takes.
\<close>

theorem packet_received:
  assumes "wire_packet p" "length (packet_to_string p) \<le> PACKET_SIZE"
  shows "received (packet_to_string p) = Inr p"
  using assms(2) packet_read_back [OF assms(1)] by (simp add: received_def receive_packet_def Let_def min_absorb2)

definition process_ssdp_request ::
  "ssdp_env \<Rightarrow> ssdp_config \<Rightarrow> int \<Rightarrow> nat \<Rightarrow> string \<Rightarrow> socket_address \<Rightarrow> unit ssdp_call" where
  "process_ssdp_request env cfg now rnd datagram sender =
     logged
       (act_bind (act_read (\<lambda>_. received datagram)) (\<lambda>packet.
        act_bind (act_read (\<lambda>_. lift_net (sa_host sender))) (\<lambda>peer.
        act_bind (act_read (\<lambda>s. lift_net (find_lan_of_peer s peer))) (\<lambda>lan_address.
        if is_any_address lan_address then act_return ()
        else
          act_bind (act_read (\<lambda>_. validate_ssdp_packet packet)) (\<lambda>valid.
          if \<not> valid then act_return ()
          else if \<not> is_search_request packet then act_return ()
          else process_ssdp_m_search env cfg now rnd packet sender lan_address)))))"

section \<open>Notifications and the loop\<close>

definition process_notification ::
  "ssdp_env \<Rightarrow> ssdp_config \<Rightarrow> 8 word list \<Rightarrow> nat \<Rightarrow> (32 word \<rightharpoonup> network_interface) \<Rightarrow> unit ssdp_call" where
  "process_notification env cfg bytes n ifaces =
     act_bind (act_read (\<lambda>_. read_notification bytes n)) (\<lambda>note.
     case note of
       None \<Rightarrow> act_return ()
     | Some ShutDownNotification \<Rightarrow> act_modify (\<lambda>s. s\<lparr>s_running := False\<rparr>)
     | Some (NetworkChangeNotification i t) \<Rightarrow> on_network_change env cfg ifaces i)"

text \<open>
  \<^verbatim>\<open>Socket::select\<close>, with what the system call answers: its result, and the descriptors left in the sets
  for reading and for writing, which are among those put in. The sockets ready to be written are looked
  for in the list of those ready to be read, which has been put in place of the first list by then.
\<close>

record select_outcome =
  sel_rc :: int
  sel_read :: "nat list"
  sel_write :: "nat list"

definition fd_isset :: "msocket \<Rightarrow> nat list \<Rightarrow> msocket list \<Rightarrow> bool" where
  "fd_isset k ready asked \<longleftrightarrow> sock_id k \<in> set ready \<and> sock_id k \<in> set (map sock_id asked)"

definition socket_select :: "select_outcome \<Rightarrow> msocket list \<Rightarrow> msocket list \<Rightarrow> ssdp_error + (int \<times> msocket list \<times> msocket list)" where
  "socket_select sel read_list write_list =
     (if sel_rc sel < 0 then Inl (NetError ''select'')
      else
        (let read_ready = filter (\<lambda>k. fd_isset k (sel_read sel) read_list) read_list;
             write_ready = filter (\<lambda>k. fd_isset k (sel_write sel) write_list) read_ready
         in Inr (sel_rc sel, read_ready, write_ready)))"

definition get_check_interval :: "ssdp_config \<Rightarrow> int" where
  "get_check_interval cfg =
     (if 0 < sint (m_announce_interval cfg) then 1000 * sint (m_announce_interval cfg) else 30 * 60 * 1000)"

text \<open>What a turn of the loop finds outside: the time, the answer of the system call, and what is there to be read.\<close>

record loop_input =
  i_now :: int
  i_select :: select_outcome
  i_datagram :: string
  i_sender :: socket_address
  i_rand :: nat
  i_bytes :: "8 word list"
  i_received :: nat
  i_ifaces :: "32 word \<rightharpoonup> network_interface"

fun handle_readable :: "ssdp_env \<Rightarrow> ssdp_config \<Rightarrow> loop_input \<Rightarrow> msocket \<Rightarrow> msocket list \<Rightarrow> unit ssdp_call" where
  "handle_readable env cfg inp notification_socket [] = act_return ()"
| "handle_readable env cfg inp notification_socket (k # ks) =
     act_bind
       (\<lambda>s. if k = s_listen s then process_ssdp_request env cfg (i_now inp) (i_rand inp) (i_datagram inp) (i_sender inp) s
            else if k = notification_socket then process_notification env cfg (i_bytes inp) (i_received inp) (i_ifaces inp) s
            else (Inr (), s)) (\<lambda>_.
     handle_readable env cfg inp notification_socket ks)"

definition announce_if_due :: "ssdp_env \<Rightarrow> ssdp_config \<Rightarrow> int \<Rightarrow> int ssdp_call" where
  "announce_if_due env cfg now s =
     (let elapsed = now - s_last s in
      if elapsed \<ge> get_check_interval cfg
      then act_bind (send_alive env cfg now) (\<lambda>_.
           act_bind (act_modify (\<lambda>s. s\<lparr>s_last := s_last s + elapsed\<rparr>)) (\<lambda>_.
           act_return (get_check_interval cfg))) s
      else (Inr (get_check_interval cfg - elapsed), s))"

definition select_messages :: "int \<Rightarrow> int \<Rightarrow> (msocket list \<times> int) ssdp_call" where
  "select_messages now timeout s =
     (let (q, writable, timeout') = select_ready_messages now (s_queue s) [] timeout in
      (Inr (writable, timeout'), s\<lparr>s_queue := q\<rparr>))"

definition send_messages :: "ssdp_env \<Rightarrow> msocket list \<Rightarrow> unit ssdp_call" where
  "send_messages env writable s =
     (let (q, n) = send_ready_messages (e_send env) writable (s_queue s) (s_net s) in
      (Inr (), s\<lparr>s_queue := q, s_net := n\<rparr>))"

text \<open>One turn; its result is the time it waited at most.\<close>

definition loop_body :: "ssdp_env \<Rightarrow> ssdp_config \<Rightarrow> msocket \<Rightarrow> loop_input \<Rightarrow> int ssdp_call" where
  "loop_body env cfg notification_socket inp =
     act_bind (announce_if_due env cfg (i_now inp)) (\<lambda>timeout.
     act_bind (select_messages (i_now inp) timeout) (\<lambda>(waiting, timeout').
     act_bind (act_read (\<lambda>s. socket_select (i_select inp) [s_listen s, notification_socket] waiting)) (\<lambda>(rc, readable, writable).
     act_bind (if rc \<noteq> 0 then handle_readable env cfg inp notification_socket readable else act_return ()) (\<lambda>_.
     act_bind (send_messages env writable) (\<lambda>_.
     act_return timeout')))))"

text \<open>The loop goes on after an exception.\<close>

definition loop_step :: "ssdp_env \<Rightarrow> ssdp_config \<Rightarrow> msocket \<Rightarrow> loop_input \<Rightarrow> unit ssdp_call" where
  "loop_step env cfg notification_socket inp =
     logged (act_bind (loop_body env cfg notification_socket inp) (\<lambda>_. act_return ()))"

fun run_loop :: "ssdp_env \<Rightarrow> ssdp_config \<Rightarrow> msocket \<Rightarrow> loop_input list \<Rightarrow> ssdp_state \<Rightarrow> ssdp_state" where
  "run_loop env cfg notification_socket [] s = s"
| "run_loop env cfg notification_socket (inp # inps) s =
     (if s_running s then run_loop env cfg notification_socket inps (snd (loop_step env cfg notification_socket inp s)) else s)"

text \<open>
  The thread of the service from its start, with the interfaces there are and the time, over the turns it makes;
  when it was told to end in one of them it says goodbye.
\<close>

definition ssdp_execute ::
  "ssdp_env \<Rightarrow> ssdp_config \<Rightarrow> msocket \<Rightarrow> network_interface list \<Rightarrow> int \<Rightarrow> loop_input list \<Rightarrow> ssdp_state \<Rightarrow> ssdp_state" where
  "ssdp_execute env cfg notification_socket ifaces now inps s =
     (let s1 = (snd (init_ifaces env cfg ifaces s))\<lparr>s_last := now - get_check_interval cfg\<rparr>;
          s2 = run_loop env cfg notification_socket inps s1
      in if s_running s2 then s2 else snd (send_byebye env cfg s2))"

lemma send_all_sends:
  assumes "\<forall>k s r p. e_send env k s r p = SentBytes (length p)"
  shows "wire (send_all env payload socks n) = wire n @ map (\<lambda>k. (k, MCAST, payload)) socks"
  using assms by (induction socks arbitrary: n) (simp_all add: try_send_def new_message_def)

text \<open>With a network that sends what it is given, the goodbye goes out twice by every socket.\<close>

lemma byebye_sent:
  assumes "\<forall>k s r p. e_send env k s r p = SentBytes (length p)" "is_announcement_enabled cfg" "s_notify s \<noteq> []"
  shows "\<exists>bye. create_ssdp_packet cfg (NOTIFY, SSDP_BYEBYE_STR) = Inr bye
    \<and> send_byebye env cfg s = (Inr (), s\<lparr>s_net := s_net (snd (send_byebye env cfg s))\<rparr>)
    \<and> wire (s_net (snd (send_byebye env cfg s))) = wire (s_net s)
        @ map (\<lambda>k. (k, MCAST, packet_to_string bye)) (s_notify s) @ map (\<lambda>k. (k, MCAST, packet_to_string bye)) (s_notify s)"
proof -
  have "create_ssdp_packet cfg (NOTIFY, SSDP_BYEBYE_STR) = Inr (create_ssdp_byebye cfg)"
    by (simp add: create_ssdp_packet_def prototypes_def)
  then show ?thesis
    using assms by (simp add: send_byebye_def logged_def act_bind_def act_read_def act_modify_def send_all_sends split: unit.split)
qed

section \<open>What every turn keeps of the queue\<close>

text \<open>The operations on the interfaces leave the queue and the listening socket alone.\<close>

definition frames :: "'a ssdp_call \<Rightarrow> bool" where
  "frames m \<longleftrightarrow> (\<forall>s. s_queue (snd (m s)) = s_queue s \<and> s_listen (snd (m s)) = s_listen s)"

lemma frames_bind: "frames m \<Longrightarrow> (\<And>a. frames (f a)) \<Longrightarrow> frames (act_bind m f)"
  unfolding frames_def act_bind_def by (auto split: prod.split sum.split) (metis snd_conv)+

lemma frames_basic:
  "frames (act_return a)" "frames (act_throw e)" "frames (act_read g)"
  "(\<And>s. s_queue (h s) = s_queue s \<and> s_listen (h s) = s_listen s) \<Longrightarrow> frames (act_modify h)"
  by (simp_all add: frames_def act_return_def act_throw_def act_read_def act_modify_def)

lemma frames_join_leave: "frames (join_group env i)" "frames (leave_group env i)" "frames (open_ssdp_notify_socket env a)"
  by (auto simp: frames_def join_group_def leave_group_def open_ssdp_notify_socket_def split: option.split)

lemma frames_open: "frames (open_notify_sockets env as)"
  by (induction as) (auto intro!: frames_bind frames_basic frames_join_leave)

lemma frames_at: "frames m \<Longrightarrow> s_queue (snd (m s)) = s_queue s \<and> s_listen (snd (m s)) = s_listen s"
  by (simp add: frames_def)

lemma frames_link_update: "frames (link_update env cfg it updated)"
  unfolding frames_def
proof (intro allI)
  fix s :: ssdp_state
  let ?c = "the (map_of (s_ifaces s) (the it))"
  have "frames (act_bind (if is_announcement_enabled cfg then update_mcast_notify_sockets_list env ?c updated else act_return ()) (\<lambda>_.
           act_bind (leave_or_join_mcast_group env ?c updated) (\<lambda>_.
           act_modify (\<lambda>s. s\<lparr>s_ifaces := put_iface (the it) updated (s_ifaces s)\<rparr>))))"
    by (auto intro!: frames_bind frames_basic frames_open frames_join_leave
        simp: update_mcast_notify_sockets_list_def leave_or_join_mcast_group_def Let_def split: prod.split)
  from frames_at [OF this, of s]
  show "s_queue (snd (link_update env cfg it updated s)) = s_queue s \<and> s_listen (snd (link_update env cfg it updated s)) = s_listen s"
    by (cases it) (auto simp: link_update_def Let_def)
qed

lemma frames_link_remove: "frames (iface_link_remove env cfg it)"
  by (auto simp: iface_link_remove_def intro!: frames_bind frames_basic frames_link_update split: option.split)

lemma frames_link_insert: "frames (link_insert_or_update env cfg it updated)"
  by (auto simp: link_insert_or_update_def emplace_iface_def intro!: frames_bind frames_basic frames_link_update
      split: option.split)

lemma frames_on_network_change: "frames (on_network_change env cfg ifaces i)"
  using frames_link_remove frames_link_insert
  by (auto simp: frames_def on_network_change_def Let_def split: option.split)

lemma frames_process_notification: "frames (process_notification env cfg bytes n ifaces)"
  by (auto simp: process_notification_def intro!: frames_bind frames_basic frames_on_network_change
      split: option.split ssdp_notification.split)

lemma keeps_if: "keeps P a \<Longrightarrow> keeps P b \<Longrightarrow> keeps P (if c then a else b)"
  by simp

lemma keeps_logged: "keeps P m \<Longrightarrow> keeps P (logged m)"
  unfolding keeps_def logged_def by (auto split: prod.split sum.split unit.split)

text \<open>
  A property of the queue that the three things the service does with it keep: putting a message in,
  scheduled or at a time that is not in the future, selecting, and sending over some of the allowed sockets.
\<close>

locale queue_law =
  fixes R :: "int \<Rightarrow> queue \<Rightarrow> bool" and allowed :: "msocket set"
  assumes emplaced: "R now q \<Longrightarrow> m_state m = SCHEDULED \<or> t \<le> now \<Longrightarrow> R now (emplace t m q)"
    and selected: "R now q \<Longrightarrow> R now (fst (select_ready_messages now q w timeout))"
    and sent: "R now q \<Longrightarrow> set writable \<subseteq> allowed \<Longrightarrow> R now (fst (send_ready_messages env writable q n))"
begin

definition holds_at :: "int \<Rightarrow> msocket \<Rightarrow> ssdp_state \<Rightarrow> bool" where
  "holds_at now l s \<longleftrightarrow> R now (s_queue s) \<and> s_listen s = l"

lemma keeps_frames: "frames m \<Longrightarrow> keeps (holds_at now l) m"
  using frames_at by (fastforce simp: keeps_def holds_at_def)

lemma keeps_enqueue:
  assumes "m_state m = SCHEDULED" "0 \<le> delay"
  shows "keeps (holds_at now l) (enqueue env now m delay)"
  using assms emplaced
  by (auto simp: keeps_def holds_at_def enqueue_def send_or_enqueue_def Let_def split: prod.split)

lemma keeps_send_alive: "keeps (holds_at now l) (send_alive env cfg now)"
proof -
  have loop: "keeps (holds_at now l) (send_alive_loop env now uri p socks)" for uri p socks
    by (induction socks arbitrary: uri p) (auto simp: Let_def new_message_def intro!: inv_intros keeps_enqueue)
  have "keeps (holds_at now l)
     (act_bind (act_read (\<lambda>_. create_ssdp_packet cfg (NOTIFY, []))) (\<lambda>alive.
        act_bind (act_read (\<lambda>_. packet_get_header alive AL)) (\<lambda>al.
        act_bind (act_read (\<lambda>_. uri_parse (e_services env) al)) (\<lambda>service_uri.
        send_alive_loop env now service_uri alive (s_notify s)))))" for s
    by (intro keeps_bind keeps_read loop)
  then show ?thesis unfolding keeps_def send_alive_def by auto
qed

lemma calculate_delay_nonneg: "0 \<le> calculate_delay rnd mx"
  by (simp add: calculate_delay_def)

lemma keeps_process_ssdp_request: "keeps (holds_at now l) (process_ssdp_request env cfg now rnd datagram sender)"
proof -
  have m: "keeps (holds_at now l) (enqueue env now m (calculate_delay rnd mx))"
    "keeps (holds_at now l) (enqueue env now m (calculate_delay rnd mx + DELAY_INCREMENT))"
    if "m_state m = SCHEDULED" for m mx
    using that calculate_delay_nonneg [of rnd mx] by (simp_all add: keeps_enqueue)
  have answer: "keeps (holds_at now l)
      (act_bind (act_read (\<lambda>s. Inr (new_message (s_listen s) sender p))) (\<lambda>msg.
       act_bind (enqueue env now msg (calculate_delay rnd mx)) (\<lambda>_.
       enqueue env now msg (calculate_delay rnd mx + DELAY_INCREMENT))))" for p mx
    unfolding keeps_def
  proof (intro allI impI)
    fix s
    assume "holds_at now l s"
    moreover have "keeps (holds_at now l)
        (act_bind (enqueue env now (new_message (s_listen s) sender p) (calculate_delay rnd mx)) (\<lambda>_.
         enqueue env now (new_message (s_listen s) sender p) (calculate_delay rnd mx + DELAY_INCREMENT)))"
      by (intro keeps_bind m) (simp_all add: new_message_def)
    ultimately show "holds_at now l (snd (act_bind (act_read (\<lambda>s. Inr (new_message (s_listen s) sender p))) (\<lambda>msg.
       act_bind (enqueue env now msg (calculate_delay rnd mx)) (\<lambda>_.
       enqueue env now msg (calculate_delay rnd mx + DELAY_INCREMENT))) s))"
      by (simp add: keeps_def act_bind_def [of "act_read f" for f] act_read_def)
  qed
  note next_call = keeps_bind [OF keeps_read]
  have search: "keeps (holds_at now l) (process_ssdp_m_search env cfg now rnd p sender lan)" for p lan
    unfolding process_ssdp_m_search_def Let_def
    by (rule next_call, rule keeps_if, rule next_call, rule next_call, rule next_call, rule answer, rule keeps_return)
  show ?thesis
    unfolding process_ssdp_request_def
    by (rule keeps_logged, rule next_call, rule next_call, rule next_call, rule keeps_if, rule keeps_return,
        rule next_call, rule keeps_if, rule keeps_return, rule keeps_if, rule keeps_return, rule search)
qed

lemma keeps_handle_readable:
  "keeps (holds_at (i_now inp) l) (handle_readable env cfg inp notification_socket ks)"
proof (induction ks)
  case (Cons k ks)
  have "keeps (holds_at (i_now inp) l)
      (\<lambda>s. if k = s_listen s then process_ssdp_request env cfg (i_now inp) (i_rand inp) (i_datagram inp) (i_sender inp) s
            else if k = notification_socket then process_notification env cfg (i_bytes inp) (i_received inp) (i_ifaces inp) s
            else (Inr (), s))"
    using keeps_process_ssdp_request keeps_frames [OF frames_process_notification]
    by (auto simp: keeps_def)
  with Cons show ?case by (auto intro!: keeps_bind)
qed (auto intro: keeps_return)

lemma announce_keeps: "keeps (holds_at now l) (announce_if_due env cfg now)"
proof -
  have "keeps (holds_at now l) (act_bind (send_alive env cfg now) (\<lambda>_.
         act_bind (act_modify (\<lambda>s. s\<lparr>s_last := s_last s + d\<rparr>)) (\<lambda>_.
         act_return (get_check_interval cfg))))" for d
    by (intro keeps_bind keeps_send_alive keeps_return keeps_frames frames_basic) auto
  then show ?thesis by (auto simp: keeps_def announce_if_due_def Let_def)
qed

lemma loop_step_keeps:
  assumes "{l, notification_socket} \<subseteq> allowed"
  shows "keeps (holds_at (i_now inp) l) (loop_step env cfg notification_socket inp)"
proof -
  have select: "keeps (holds_at (i_now inp) l) (select_messages (i_now inp) timeout)" for timeout
    unfolding keeps_def
  proof (intro allI impI)
    fix s
    assume "holds_at (i_now inp) l s"
    with selected [of "i_now inp" "s_queue s" "[]" timeout]
    show "holds_at (i_now inp) l (snd (select_messages (i_now inp) timeout s))"
      by (cases "select_ready_messages (i_now inp) (s_queue s) [] timeout") (simp add: holds_at_def select_messages_def)
  qed
  have send: "keeps (holds_at (i_now inp) l) (send_messages env writable)" if "set writable \<subseteq> {l, notification_socket}" for writable
    unfolding keeps_def
  proof (intro allI impI)
    fix s
    assume "holds_at (i_now inp) l s"
    with that assms sent [of "i_now inp" "s_queue s" writable "e_send env" "s_net s"]
    show "holds_at (i_now inp) l (snd (send_messages env writable s))"
      by (cases "send_ready_messages (e_send env) writable (s_queue s) (s_net s)") (auto simp: holds_at_def send_messages_def)
  qed
  have wait: "keeps (holds_at (i_now inp) l)
      (act_bind (act_read (\<lambda>s. socket_select (i_select inp) [s_listen s, notification_socket] waiting)) (\<lambda>(rc, readable, writable).
       act_bind (if rc \<noteq> 0 then handle_readable env cfg inp notification_socket readable else act_return ()) (\<lambda>_.
       act_bind (send_messages env writable) (\<lambda>_. act_return t))))" for waiting t
    unfolding keeps_def
  proof (intro allI impI)
    fix s
    assume s: "holds_at (i_now inp) l s"
    show "holds_at (i_now inp) l (snd (act_bind (act_read (\<lambda>s. socket_select (i_select inp) [s_listen s, notification_socket] waiting))
       (\<lambda>(rc, readable, writable).
       act_bind (if rc \<noteq> 0 then handle_readable env cfg inp notification_socket readable else act_return ()) (\<lambda>_.
       act_bind (send_messages env writable) (\<lambda>_. act_return t))) s))"
    proof (cases "socket_select (i_select inp) [s_listen s, notification_socket] waiting")
      case (Inl e)
      with s show ?thesis by (simp add: act_bind_def act_read_def)
    next
      case (Inr x)
      obtain rc readable writable where x: "x = (rc, readable, writable)" by (cases x)
      have "set writable \<subseteq> {l, notification_socket}"
        using Inr x s by (auto simp: socket_select_def holds_at_def Let_def split: if_splits)
      then have "keeps (holds_at (i_now inp) l)
          (act_bind (if rc \<noteq> 0 then handle_readable env cfg inp notification_socket readable else act_return ()) (\<lambda>_.
           act_bind (send_messages env writable) (\<lambda>_. act_return t)))"
        by (auto intro!: keeps_bind keeps_return keeps_handle_readable send)
      with s show ?thesis by (simp add: act_bind_def [of "act_read f" for f] act_read_def Inr x keeps_def)
    qed
  qed
  have "keeps (holds_at (i_now inp) l) (loop_body env cfg notification_socket inp)"
    unfolding loop_body_def by (auto intro!: keeps_bind announce_keeps select wait)
  then show ?thesis unfolding loop_step_def by (intro keeps_logged keeps_bind keeps_return)
qed

end

interpretation ordered: queue_law mqueue_ok UNIV
  by unfold_locales (auto intro: emplace_ok select_ready_ok send_ready_ok)

interpretation waiting: queue_law
  "\<lambda>_ q. times_sorted q \<and> (m_state (snd e) = WAIT_READY \<longrightarrow> e \<in> set q)" "- {m_sender (snd e)}" for e
proof
  show "times_sorted (fst (select_ready_messages now q w timeout)) \<and>
      (m_state (snd e) = WAIT_READY \<longrightarrow> e \<in> set (fst (select_ready_messages now q w timeout)))"
    if "times_sorted q \<and> (m_state (snd e) = WAIT_READY \<longrightarrow> e \<in> set q)" for now q w timeout
    using that select_ready_sorted waiting_selected by auto
qed (auto simp: sorted_mqueue_emplace set_mqueue_emplace send_ready_sorted waiting_sent)

text \<open>While the clock does not go back, the queue is in order at every turn, with nothing sent before its time.\<close>

lemma run_loop_ok:
  assumes "mqueue_ok t (s_queue s)" "sorted (t # map i_now inps)"
  shows "mqueue_ok (last (t # map i_now inps)) (s_queue (run_loop env cfg notification_socket inps s))"
  using assms
proof (induction inps arbitrary: t s)
  case (Cons inp inps)
  let ?now = "i_now inp" and ?s = "snd (loop_step env cfg notification_socket inp s)"
  have "ordered.holds_at ?now (s_listen s) s"
    using Cons.prems by (auto simp: ordered.holds_at_def intro: mqueue_ok_mono)
  then have step: "mqueue_ok ?now (s_queue ?s)"
    using ordered.loop_step_keeps [of "s_listen s" notification_socket inp env cfg] by (simp add: keeps_def ordered.holds_at_def)
  have "\<forall>x \<in> set (?now # map i_now inps). t \<le> x" using Cons.prems(2) by auto
  then have "t \<le> last (?now # map i_now inps)" using last_in_set by blast
  then have "mqueue_ok (last (?now # map i_now inps)) (s_queue s)" using Cons.prems(1) by (rule mqueue_ok_mono [rotated])
  moreover have "mqueue_ok (last (?now # map i_now inps)) (s_queue (run_loop env cfg notification_socket inps ?s))"
    using Cons.IH [OF step] Cons.prems(2) by simp
  moreover have "last (t # map i_now (inp # inps)) = last (?now # map i_now inps)" by simp
  ultimately show ?case by (simp only: run_loop.simps split: if_split) blast
qed simp

text \<open>The time \<open>loop_body\<close> waits is the one the queue gives.\<close>

lemma select_timeout:
  assumes "times_sorted q" "(t, m) \<in> set q" "t \<le> now"
  shows "snd (snd (select_ready_messages now q w timeout)) = 0"
proof -
  obtain t' m' q' where q: "q = (t', m') # q'" using assms(2) by (cases q) auto
  then have "t' \<le> now" using assms by (auto simp: times_sorted_def)
  with q show ?thesis by (simp add: select_ready_messages_def Let_def)
qed

lemma loop_body_timeout:
  assumes "fst (loop_body env cfg notification_socket inp s) = Inr w"
  obtains timeout s1 where "announce_if_due env cfg (i_now inp) s = (Inr timeout, s1)"
    "w = snd (snd (select_ready_messages (i_now inp) (s_queue s1) [] timeout))"
proof -
  obtain r1 s1 where a: "announce_if_due env cfg (i_now inp) s = (r1, s1)" by fastforce
  with assms obtain timeout where r1: "r1 = Inr timeout"
    by (cases r1) (auto simp: loop_body_def act_bind_def [of "announce_if_due env cfg x" for x])
  obtain q w1 t1 where sr: "select_ready_messages (i_now inp) (s_queue s1) [] timeout = (q, w1, t1)"
    by (cases "select_ready_messages (i_now inp) (s_queue s1) [] timeout") auto
  have "w = t1"
    using assms a r1 sr
    by (auto simp: loop_body_def act_bind_def select_messages_def act_return_def split: prod.splits sum.splits)
  with that [of timeout s1] a r1 sr show thesis by simp
qed

lemma run_loop_keeps:
  assumes "\<And>inp. keeps P (loop_step env cfg notification_socket inp)" "P s"
  shows "P (run_loop env cfg notification_socket inps s)"
  using assms(2) by (induction inps arbitrary: s) (use assms(1) in \<open>auto simp: keeps_def\<close>)

text \<open>
  C23: A message whose socket had no room when it was sent is never sent, if the socket is
  one of those the announcements go out by: \<^verbatim>\<open>Socket::select\<close> looks for the writable sockets among the readable
  ones, where it never is. Whatever happens outside, the message stays in the queue for ever, and from its
  time on every turn of the loop waits for no time at all.
\<close>

theorem blocked_message_stuck:
  assumes "times_sorted (s_queue s)" "(t, m) \<in> set (s_queue s)" "m_state m = WAIT_READY"
    and "m_sender m \<noteq> s_listen s" "m_sender m \<noteq> notification_socket"
  shows "(t, m) \<in> set (s_queue (run_loop env cfg notification_socket inps s))
    \<and> (t \<le> i_now inp \<longrightarrow>
      fst (loop_body env cfg notification_socket inp (run_loop env cfg notification_socket inps s)) = Inr w \<longrightarrow> w = 0)"
proof (intro conjI impI)
  define e where "e = (t, m)"
  have e: "m_state (snd e) = WAIT_READY" "m_sender (snd e) = m_sender m" using assms(3) by (simp_all add: e_def)
  let ?s = "run_loop env cfg notification_socket inps s"
  let ?P = "waiting.holds_at e 0 (s_listen s)"
  have P: "waiting.holds_at e now (s_listen s) = ?P" for now
    by (simp add: waiting.holds_at_def fun_eq_iff)
  have "keeps ?P (loop_step env cfg notification_socket inp)" for inp
    using waiting.loop_step_keeps [of "s_listen s" notification_socket e inp env cfg] assms(4,5) e(2)
    unfolding P [of "i_now inp"] by simp
  moreover have "e \<in> set (s_queue s)" using assms(2) by (simp add: e_def)
  then have "?P s" using assms(1) by (simp add: waiting.holds_at_def)
  ultimately have s: "?P ?s" by (rule run_loop_keeps [where P = ?P])
  then have "e \<in> set (s_queue ?s)" using e(1) unfolding waiting.holds_at_def by blast
  then show "(t, m) \<in> set (s_queue ?s)" by (simp add: e_def)
  assume now: "t \<le> i_now inp" and b: "fst (loop_body env cfg notification_socket inp ?s) = Inr w"
  show "w = 0"
  proof (rule loop_body_timeout [OF b])
    fix timeout s1
    assume a: "announce_if_due env cfg (i_now inp) ?s = (Inr timeout, s1)"
      and w: "w = snd (snd (select_ready_messages (i_now inp) (s_queue s1) [] timeout))"
    have "keeps ?P (announce_if_due env cfg (i_now inp))"
      using waiting.announce_keeps [of e "i_now inp" "s_listen s" env cfg] unfolding P [of "i_now inp"] .
    with s have "?P (snd (announce_if_due env cfg (i_now inp) ?s))" unfolding keeps_def by blast
    then have "?P s1" unfolding a snd_conv .
    then have "times_sorted (s_queue s1)" "e \<in> set (s_queue s1)"
      using e(1) unfolding waiting.holds_at_def by blast+
    then have "times_sorted (s_queue s1)" "(t, m) \<in> set (s_queue s1)" by (simp_all add: e_def)
    with w now show "w = 0" by (simp add: select_timeout)
  qed
qed

end
