(* ===== verification/Ssdp_Answers.thy ===== *)
theory Ssdp_Answers
  imports Ssdp_Service
begin

text \<open>
  What the service answers: a search from a network it is on gets two copies of a response that names the
  service at the address of that network, within the time the search allows; nothing else gets an
  answer. And what becomes of the service when its URL cannot be read.
\<close>

section \<open>The delay of an answer\<close>

lemma mx_of_bounds: "1 \<le> mx_of mx \<and> mx_of mx \<le> 4"
proof -
  have "unat v < 5 \<and> 0 < unat v" if "0 < v" "v < 5" for v :: "64 word"
    using that by (simp add: word_less_nat_alt)
  then show ?thesis by (force simp: mx_of_def split: option.split)
qed

lemma calculate_delay_bound:
  assumes "rnd \<le> 2147483647"
  shows "calculate_delay rnd mx < 1000 * int (mx_of mx)"
proof -
  let ?k = "1000 * mx_of mx"
  have k: "0 < ?k" using mx_of_bounds [of mx] by simp
  have "2147483647 < ?k * (1 + 2147483647 div ?k)"
    using k by (metis add.commute dividend_less_times_div plus_1_eq_Suc mult_Suc_right add_mult_distrib2 mult.right_neutral)
  with assms have "rnd < (1 + 2147483647 div ?k) * ?k" by (simp add: mult.commute)
  then have "rnd div (1 + 2147483647 div ?k) < ?k" by (simp add: less_mult_imp_div_less mult.commute)
  then show ?thesis by (simp add: calculate_delay_def)
qed

section \<open>Searches that are answered\<close>

lemma enqueue_later: "delay \<noteq> 0 \<Longrightarrow> enqueue env now m delay s = (Inr (), s\<lparr>s_queue := emplace (now + delay) m (s_queue s)\<rparr>)"
  by (simp add: enqueue_def send_or_enqueue_def)

lemma enqueue_now:
  "enqueue env now m 0 s =
     (let (q, n) = send_or_enqueue (e_send env) now m 0 (s_queue s, s_net s) in (Inr (), s\<lparr>s_queue := q, s_net := n\<rparr>))"
  by (simp add: enqueue_def)

text \<open>What makes a datagram a search for the service from a network it is on.\<close>

definition search_for_us ::
  "ssdp_config \<Rightarrow> ssdp_state \<Rightarrow> string \<Rightarrow> socket_address \<Rightarrow> ssdp_packet \<Rightarrow> ip_address \<Rightarrow> bool" where
  "search_for_us cfg s datagram sender packet lan \<longleftrightarrow>
     received datagram = Inr packet
     \<and> (\<exists>peer. sa_host sender = Inr peer \<and> find_lan_of_peer s peer = Inr lan)
     \<and> \<not> is_any_address lan
     \<and> valid_packet packet \<and> get_type packet = SEARCH_REQUEST
     \<and> header_value packet ST \<in> {Some SSDP_ALL_STR, Some (m_service_urn cfg)}"

definition answer_packet :: "ssdp_env \<Rightarrow> ssdp_config \<Rightarrow> uri \<Rightarrow> ip_address \<Rightarrow> ssdp_packet" where
  "answer_packet env cfg u lan =
     packet_set_header (create_ssdp_search_reply cfg) AL (uri_to_string (set_host u (ip_to_string (e_inet env) lan)))"

lemma process_search:
  assumes "search_for_us cfg s datagram sender packet lan"
    and "uri_parse (e_services env) (m_service_url cfg) = Inr u"
    and "header_value packet MX = Some mx"
  shows "process_ssdp_request env cfg now rnd datagram sender s =
    (let msg = new_message (s_listen s) sender (packet_to_string (answer_packet env cfg u lan)) in
     act_bind (enqueue env now msg (calculate_delay rnd mx)) (\<lambda>_.
     enqueue env now msg (calculate_delay rnd mx + DELAY_INCREMENT)) s)"
proof -
  obtain peer st where p: "received datagram = Inr packet" "sa_host sender = Inr peer" "find_lan_of_peer s peer = Inr lan"
    "\<not> is_any_address lan" "valid_packet packet" "get_type packet = SEARCH_REQUEST"
    "header_value packet ST = Some st" "st = SSDP_ALL_STR \<or> st = m_service_urn cfg"
    using assms(1) unfolding search_for_us_def by auto
  have c: "create_ssdp_packet cfg (SEARCH_RESPONSE, []) = Inr (create_ssdp_search_reply cfg)"
    by (simp add: create_ssdp_packet_def prototypes_def)
  have st: "packet_get_header packet ST = Inr st" "packet_get_header packet MX = Inr mx"
    using p(7) assms(3) by (simp_all add: get_header_value)
  have quiet: "logged (act_bind (enqueue env now m d) (\<lambda>_. enqueue env now m e)) s
      = act_bind (enqueue env now m d) (\<lambda>_. enqueue env now m e) s" for m d e
    by (simp add: logged_def act_bind_def enqueue_def split: prod.split unit.split)
  have "process_ssdp_request env cfg now rnd datagram sender s
     = logged (process_ssdp_m_search env cfg now rnd packet sender lan) s"
    using p by (simp add: process_ssdp_request_def logged_def act_bind_def act_read_def lift_net_def
        validate_packet is_search_request_def)
  also have "\<dots> = logged (act_bind (enqueue env now (new_message (s_listen s) sender (packet_to_string (answer_packet env cfg u lan))) (calculate_delay rnd mx))
      (\<lambda>_. enqueue env now (new_message (s_listen s) sender (packet_to_string (answer_packet env cfg u lan))) (calculate_delay rnd mx + DELAY_INCREMENT))) s"
    using p(8) st c assms(2)
    by (simp add: process_ssdp_m_search_def logged_def act_bind_def [of "act_read f" for f] act_read_def Let_def answer_packet_def)
  finally show ?thesis by (simp add: quiet Let_def)
qed

text \<open>What the answer says when it is read.\<close>

lemma answer_packet_read:
  assumes "wire_config cfg" "wire_value (uri_to_string (set_host u (ip_to_string (e_inet env) lan)))"
  shows "wire_packet (answer_packet env cfg u lan)" "valid_packet (answer_packet env cfg u lan)"
    "header_value (answer_packet env cfg u lan) AL = Some (uri_to_string (set_host u (ip_to_string (e_inet env) lan)))"
  using assms wire_value_build_cache_control [of cfg] wire_value_build_usn [OF assms(1)]
  by (simp_all add: answer_packet_def packet_set_header_def made_packets icompare_eq_0_iff to_lower_letters
      wire_packet_def packet_ok_def wire_header_value wire_constants wire_config_def
      needs_def has_location_def header_value_def find_header_def del: icompare.simps)

text \<open>
  C21: A valid search for the service, or for everything, from a network the service is on is
  answered with two copies of one response, 50 milliseconds apart, the first after a delay below the
  seconds the search allows, or sent at once. Who receives a copy reads a valid response whose location is
  the URL of the service at the address it has on that network.
\<close>

theorem search_answered:
  assumes "search_for_us cfg s datagram sender packet lan" "header_value packet MX = Some mx" "rnd \<le> 2147483647"
    and "uri_parse (e_services env) (m_service_url cfg) = Inr u" "m_scheme u \<noteq> []"
    and "m_path_and_query u = [] \<or> hd (m_path_and_query u) = CHR ''/''" "host_ok (ip_to_string (e_inet env) lan)"
    and "wire_config cfg" "wire_value (uri_to_string (set_host u (ip_to_string (e_inet env) lan)))"
  shows "\<exists>payload delay s'. process_ssdp_request env cfg now rnd datagram sender s = (Inr (), s')
      \<and> 0 \<le> delay \<and> delay < 1000 * int (mx_of mx)
      \<and> (let msg = new_message (s_listen s) sender payload in
         if delay = 0
         then (let (q, n) = send_or_enqueue (e_send env) now msg 0 (s_queue s, s_net s) in
               s' = s\<lparr>s_queue := emplace (now + 50) msg q, s_net := n\<rparr>)
         else s' = s\<lparr>s_queue := emplace (now + delay + 50) msg (emplace (now + delay) msg (s_queue s))\<rparr>)
      \<and> (\<exists>response. \<forall>ys. parse_packet (payload @ ys) (length payload) = Some (Inr response)
           \<and> validate_ssdp_packet response = Inr True
           \<and> (\<exists>al. header_value response AL = Some al
                  \<and> uri_parse (e_services env) al = Inr (set_host u (ip_to_string (e_inet env) lan))))"
proof -
  let ?d = "calculate_delay rnd mx" and ?r = "answer_packet env cfg u lan"
  let ?msg = "new_message (s_listen s) sender (packet_to_string ?r)"
  note r = answer_packet_read [OF assms(8,9)]
  have d: "0 \<le> ?d" by (simp add: calculate_delay_def)
  have "\<forall>ys. parse_packet (packet_to_string ?r @ ys) (length (packet_to_string ?r)) = Some (Inr ?r)
      \<and> validate_ssdp_packet ?r = Inr True
      \<and> (\<exists>al. header_value ?r AL = Some al
             \<and> uri_parse (e_services env) al = Inr (set_host u (ip_to_string (e_inet env) lan)))"
    using r packet_read_back validate_packet url_read_back [OF assms(4,5,6,7)] by simp
  then have "\<exists>response. \<forall>ys. parse_packet (packet_to_string ?r @ ys) (length (packet_to_string ?r)) = Some (Inr response)
      \<and> validate_ssdp_packet response = Inr True
      \<and> (\<exists>al. header_value response AL = Some al
             \<and> uri_parse (e_services env) al = Inr (set_host u (ip_to_string (e_inet env) lan)))"
    by blast
  moreover obtain q n where qn: "send_or_enqueue (e_send env) now ?msg 0 (s_queue s, s_net s) = (q, n)"
    by fastforce
  define s1 where "s1 = (if ?d = 0 then s\<lparr>s_queue := emplace (now + 50) ?msg q, s_net := n\<rparr>
      else s\<lparr>s_queue := emplace (now + ?d + 50) ?msg (emplace (now + ?d) ?msg (s_queue s))\<rparr>)"
  have "process_ssdp_request env cfg now rnd datagram sender s = (Inr (), s1)"
    using d unfolding process_search [OF assms(1,4,2)] s1_def
    by (cases "?d = 0") (simp_all add: Let_def act_bind_def enqueue_later enqueue_now add.assoc qn)
  moreover have "let msg = ?msg in
      if ?d = 0
      then (let (q, n) = send_or_enqueue (e_send env) now msg 0 (s_queue s, s_net s) in
            s1 = s\<lparr>s_queue := emplace (now + 50) msg q, s_net := n\<rparr>)
      else s1 = s\<lparr>s_queue := emplace (now + ?d + 50) msg (emplace (now + ?d) msg (s_queue s))\<rparr>"
    by (simp add: s1_def qn)
  ultimately show ?thesis using d calculate_delay_bound [OF assms(3), of mx] by blast
qed

section \<open>Nothing else is answered\<close>

lemma m_search_changes:
  assumes "snd (process_ssdp_m_search env cfg now rnd packet sender lan s) \<noteq> s"
  shows "header_value packet ST \<in> {Some SSDP_ALL_STR, Some (m_service_urn cfg)}"
  using assms
  by (cases "header_value packet ST")
     (auto simp: process_ssdp_m_search_def act_bind_def [of "act_read f" for f] act_read_def act_return_def
        get_header_value split: if_splits)

lemma logged_snd: "snd (logged m s) = snd (m s)"
  by (auto simp: logged_def split: prod.split sum.split unit.split)

lemma received_short:
  assumes "length datagram < PACKET_SIZE"
  shows "received datagram \<noteq> Inl Outside \<and> received datagram \<noteq> Inl Endless"
  using received_short_cases [OF assms] by (auto split: sum.splits)

lemma m_search_defined:
  "fst (process_ssdp_m_search env cfg now rnd packet sender lan s) \<noteq> Inl Outside
   \<and> fst (process_ssdp_m_search env cfg now rnd packet sender lan s) \<noteq> Inl Endless"
proof -
  have u: "uri_parse sv url \<noteq> Inl Outside \<and> uri_parse sv url \<noteq> Inl Endless" for sv url
    by (auto simp: uri_parse_def parse_authority_def parse_host_and_port_def host_and_rest_def Let_def result_simps
        split: if_splits option.splits prod.splits)
  have two: "fst (act_bind (enqueue env now m d) (\<lambda>_. enqueue env now m d') s) = Inr ()" for m d d' s
    by (simp add: act_bind_def enqueue_def split: prod.split)
  show ?thesis
    using u [of "e_services env" "m_service_url cfg"]
    by (auto simp: process_ssdp_m_search_def act_bind_def [of "act_read f" for f] act_read_def act_return_def
        get_header_value Let_def create_ssdp_packet_def two split: sum.split option.split)
qed

text \<open>
  C22: Only a valid search for the service, or for everything, that comes from a network the
  service is on changes anything, and a datagram that leaves a byte of the buffer free never makes the
  handling fail, whatever it holds.
\<close>

theorem only_searches_answered:
  assumes "process_ssdp_request env cfg now rnd datagram sender s = (r, s')"
  shows "(s' \<noteq> s \<longrightarrow> (\<exists>packet lan. search_for_us cfg s datagram sender packet lan))
    \<and> (length datagram < PACKET_SIZE \<longrightarrow> r = Inr ())"
proof (intro conjI)
  let ?m = "act_bind (act_read (\<lambda>_. received datagram)) (\<lambda>packet.
        act_bind (act_read (\<lambda>_. lift_net (sa_host sender))) (\<lambda>peer.
        act_bind (act_read (\<lambda>s. lift_net (find_lan_of_peer s peer))) (\<lambda>lan_address.
        if is_any_address lan_address then act_return ()
        else
          act_bind (act_read (\<lambda>_. validate_ssdp_packet packet)) (\<lambda>valid.
          if \<not> valid then act_return ()
          else if \<not> is_search_request packet then act_return ()
          else process_ssdp_m_search env cfg now rnd packet sender lan_address))))"
  have s': "s' = snd (?m s)" and r: "r = fst (logged ?m s)"
    using assms logged_snd [of ?m s] by (simp_all add: process_ssdp_request_def)
  show "s' \<noteq> s \<longrightarrow> (\<exists>packet lan. search_for_us cfg s datagram sender packet lan)"
  proof
    assume "s' \<noteq> s"
    then obtain packet peer lan where "received datagram = Inr packet" "sa_host sender = Inr peer"
        "find_lan_of_peer s peer = Inr lan" "\<not> is_any_address lan" "valid_packet packet" "is_search_request packet"
        "snd (process_ssdp_m_search env cfg now rnd packet sender lan s) \<noteq> s"
      unfolding s'
      by (auto simp: act_bind_def [of "act_read f" for f] act_read_def act_return_def lift_net_def validate_packet
          split: sum.splits if_splits)
    then show "\<exists>packet lan. search_for_us cfg s datagram sender packet lan"
      using m_search_changes unfolding search_for_us_def is_search_request_def by blast
  qed
  show "length datagram < PACKET_SIZE \<longrightarrow> r = Inr ()"
  proof
    assume "length datagram < PACKET_SIZE"
    note d = received_short [OF this]
    have "fst (?m s) \<noteq> Inl Outside \<and> fst (?m s) \<noteq> Inl Endless"
      using d m_search_defined
      by (auto simp: act_bind_def [of "act_read f" for f] act_read_def act_return_def lift_net_def validate_packet
          split: sum.split)
    then show "r = Inr ()" unfolding r
      by (cases "?m s") (auto simp: logged_def split: sum.splits unit.splits)
  qed
qed

section \<open>A URL that cannot be read\<close>

text \<open>
  C35: When the URL of the service cannot be read, the loop, once an announcement is due, turns
  for ever without waiting: the announcement throws in every turn before anything is read, so that no search
  is answered and no change of the network is noticed.
\<close>

theorem bad_url_spins:
  assumes "is_announcement_enabled cfg" "s_notify s \<noteq> []" "uri_parse (e_services env) (m_service_url cfg) = Inl (RuntimeError e)"
    and "\<forall>inp \<in> set inps. get_check_interval cfg \<le> i_now inp - s_last s"
  shows "run_loop env cfg notification_socket inps s = s"
proof -
  have "create_ssdp_packet cfg (NOTIFY, []) = Inr (create_ssdp_alive cfg)"
    by (simp add: create_ssdp_packet_def prototypes_def)
  moreover have "packet_get_header (create_ssdp_alive cfg) AL = Inr (m_service_url cfg)"
    by (simp add: made_packets packet_get_header_def headers_get_def find_header_def icompare_eq_0_iff to_lower_letters)
  ultimately have alive: "send_alive env cfg now s = (Inl (RuntimeError e), s)" for now
    using assms(1-3) by (simp add: send_alive_def act_bind_def act_read_def)
  have "loop_step env cfg notification_socket inp s = (Inr (), s)" if "inp \<in> set inps" for inp
    using assms(4) that
    by (simp add: loop_step_def loop_body_def logged_def announce_if_due_def Let_def act_bind_def alive)
  then show ?thesis by (induction inps) auto
qed

end
