(* ===== verification/Ssdp_Links.thy ===== *)
theory Ssdp_Links
  imports Ssdp_Service
begin

text \<open>
  How the service follows the network: while opening sockets and joining groups works, and no address is on two
  interfaces, it has one socket for announcements for each address of the interfaces it knows, and the
  listening socket is in the group on exactly the interfaces with an address.
\<close>

section \<open>The invariant\<close>

definition v4 :: "network_interface \<Rightarrow> ip_address set" where
  "v4 x = set (get_addresses_for_mcast MCAST x)"

definition env_works :: "ssdp_env \<Rightarrow> bool" where
  "env_works env \<longleftrightarrow> (\<forall>k a. e_open env k a = None) \<and> (\<forall>i. e_join env i = None \<and> e_leave env i = None)"

definition links_ok :: "ssdp_config \<Rightarrow> ssdp_state \<Rightarrow> bool" where
  "links_ok cfg s \<longleftrightarrow>
     distinct (map fst (s_ifaces s))
     \<and> (\<forall>i x. (i, x) \<in> set (s_ifaces s) \<longrightarrow> v4 x \<noteq> {} \<longrightarrow> ni_index x = i)
     \<and> (\<forall>i x j y. (i, x) \<in> set (s_ifaces s) \<longrightarrow> (j, y) \<in> set (s_ifaces s) \<longrightarrow> i \<noteq> j \<longrightarrow> v4 x \<inter> v4 y = {})
     \<and> distinct (s_groups s)
     \<and> set (s_groups s) = {i. \<exists>x. (i, x) \<in> set (s_ifaces s) \<and> v4 x \<noteq> {}}
     \<and> (if is_announcement_enabled cfg
        then distinct (map sock_address (s_notify s))
             \<and> sock_address ` set (s_notify s) = (\<Union>(i, x) \<in> set (s_ifaces s). v4 x)
        else s_notify s = [])"

lemma v4_new [simp]: "v4 new_interface = {}"
  by (simp add: v4_def get_addresses_for_mcast_def new_interface_def)

lemma supports_v4: "supports_mcast_address MCAST x \<longleftrightarrow> v4 x \<noteq> {}"
  by (force simp: supports_mcast_address_def supports_ipv4_def v4_def get_addresses_for_mcast_def list_ex_iff)

lemma open_works:
  assumes "env_works env"
  shows "\<exists>socks n. open_notify_sockets env as s = (Inr (), s\<lparr>s_notify := s_notify s @ socks, s_opened := n\<rparr>)
           \<and> map sock_address socks = as"
proof (induction as arbitrary: s)
  case Nil
  show ?case by (intro exI [of _ "[]"] exI [of _ "s_opened s"]) (simp add: act_return_def)
next
  case (Cons a as)
  let ?k = "\<lparr>sock_id = s_opened s, sock_address = a\<rparr>"
  let ?s = "s\<lparr>s_opened := Suc (s_opened s), s_notify := s_notify s @ [?k]\<rparr>"
  obtain socks n where "open_notify_sockets env as ?s
      = (Inr (), ?s\<lparr>s_notify := s_notify ?s @ socks, s_opened := n\<rparr>)" "map sock_address socks = as"
    using Cons [of ?s] by blast
  then show ?case using assms
    by (intro exI [of _ "?k # socks"] exI [of _ n])
       (simp add: act_bind_def act_modify_def open_ssdp_notify_socket_def env_works_def)
qed

text \<open>An update in a working environment: the sockets and the groups after it.\<close>

lemma link_update_works:
  assumes "env_works env" "map_of (s_ifaces s) i = Some x"
  obtains socks groups n where
    "link_update env cfg (Some i) u s = (Inr (), s\<lparr>s_notify := socks, s_groups := groups, s_opened := n,
       s_ifaces := put_iface i u (s_ifaces s)\<rparr>)"
    "groups = (if v4 x = {} \<and> v4 u \<noteq> {} then s_groups s @ [ni_index u]
               else if v4 x \<noteq> {} \<and> v4 u = {} then remove1 (ni_index x) (s_groups s) else s_groups s)"
    "if is_announcement_enabled cfg
     then \<exists>new. map sock_address new = filter (\<lambda>a. a \<notin> v4 x) (get_addresses_for_mcast MCAST u)
             \<and> socks = filter (\<lambda>k. sock_address k \<notin> v4 x - v4 u) (s_notify s) @ new
     else socks = s_notify s"
proof -
  define removed where "removed = filter (\<lambda>a. a \<notin> v4 u) (get_addresses_for_mcast MCAST x)"
  have rem: "set removed = v4 x - v4 u" by (auto simp: removed_def v4_def)
  define s0 where "s0 = s\<lparr>s_notify := filter (\<lambda>k. sock_address k \<notin> set removed) (s_notify s)\<rparr>"
  have diff: "addresses_difference x u = (filter (\<lambda>a. a \<notin> v4 x) (get_addresses_for_mcast MCAST u), removed)"
    by (simp add: addresses_difference_def Let_def removed_def v4_def)
  obtain new m where o: "open_notify_sockets env (filter (\<lambda>a. a \<notin> v4 x) (get_addresses_for_mcast MCAST u)) s0
      = (Inr (), s0\<lparr>s_notify := s_notify s0 @ new, s_opened := m\<rparr>)"
    "map sock_address new = filter (\<lambda>a. a \<notin> v4 x) (get_addresses_for_mcast MCAST u)"
    using open_works [OF assms(1)] by blast
  have upd: "update_mcast_notify_sockets_list env x u s = (Inr (), s0\<lparr>s_notify := s_notify s0 @ new, s_opened := m\<rparr>)"
    using o(1) by (simp add: update_mcast_notify_sockets_list_def diff act_bind_def act_modify_def s0_def)
  let ?groups = "if v4 x = {} \<and> v4 u \<noteq> {} then s_groups s @ [ni_index u]
               else if v4 x \<noteq> {} \<and> v4 u = {} then remove1 (ni_index x) (s_groups s) else s_groups s"
  have grp: "leave_or_join_mcast_group env x u s1 = (Inr (), s1\<lparr>s_groups := ?groups\<rparr>)" if "s_groups s1 = s_groups s" for s1
    using assms(1) that
    by (auto simp: leave_or_join_mcast_group_def supports_v4 join_group_def leave_group_def env_works_def act_return_def)
  show thesis
  proof (cases "is_announcement_enabled cfg")
    case True
    show thesis
    proof (rule that [where socks = "s_notify s0 @ new" and groups = ?groups and n = m])
      show "link_update env cfg (Some i) u s = (Inr (), s\<lparr>s_notify := s_notify s0 @ new, s_groups := ?groups, s_opened := m,
         s_ifaces := put_iface i u (s_ifaces s)\<rparr>)"
        using True assms(2) upd grp by (simp add: link_update_def act_bind_def act_modify_def s0_def)
    qed (use True o(2) rem in \<open>auto simp: s0_def\<close>)
  next
    case False
    show thesis
    proof (rule that [where socks = "s_notify s" and groups = ?groups and n = "s_opened s"])
      show "link_update env cfg (Some i) u s = (Inr (), s\<lparr>s_notify := s_notify s, s_groups := ?groups, s_opened := s_opened s,
         s_ifaces := put_iface i u (s_ifaces s)\<rparr>)"
        using False assms(2) grp by (simp add: link_update_def act_bind_def act_modify_def act_return_def)
    qed (use False in auto)
  qed
qed

lemma put_iface_keys: "map fst (put_iface i u xs) = map fst xs"
  by (induction xs) (auto simp: put_iface_def)

lemma put_iface_iff:
  "(j, y) \<in> set (put_iface i u xs) \<longleftrightarrow> (j, y) \<in> set xs \<and> j \<noteq> i \<or> j = i \<and> y = u \<and> i \<in> fst ` set xs"
  by (induction xs) (auto simp: put_iface_def split: if_splits)

lemma map_of_put: "map_of (put_iface i u xs) = (if i \<in> fst ` set xs then (map_of xs)(i \<mapsto> u) else map_of xs)"
  by (induction xs) (auto simp: put_iface_def fun_eq_iff)

lemma UN_entries: "(\<Union>(i, x) \<in> S. v4 x) = {a. \<exists>j y. (j, y) \<in> S \<and> a \<in> v4 y}"
  by auto

text \<open>The interface has no address of another interface.\<close>

definition own_addresses :: "32 word \<Rightarrow> network_interface \<Rightarrow> ssdp_state \<Rightarrow> bool" where
  "own_addresses i u s \<longleftrightarrow> (\<forall>j y. (j, y) \<in> set (s_ifaces s) \<longrightarrow> j \<noteq> i \<longrightarrow> v4 u \<inter> v4 y = {})"

lemma link_update_ok:
  assumes "env_works env" "links_ok cfg s" "map_of (s_ifaces s) i = Some x"
    and "v4 u \<noteq> {} \<longrightarrow> ni_index u = i" "own_addresses i u s"
  shows "\<exists>s'. link_update env cfg (Some i) u s = (Inr (), s') \<and> links_ok cfg s' \<and> s_ifaces s' = put_iface i u (s_ifaces s)"
proof -
  have x: "(i, x) \<in> set (s_ifaces s)" using assms(3) by (rule map_of_SomeD)
  have dist: "distinct (map fst (s_ifaces s))" using assms(2) by (simp add: links_ok_def)
  have uniq: "(i, y) \<in> set (s_ifaces s) \<Longrightarrow> y = x" for y
    using map_of_is_SomeI [OF dist] assms(3) by fastforce
  obtain socks groups n where u: "link_update env cfg (Some i) u s
      = (Inr (), s\<lparr>s_notify := socks, s_groups := groups, s_opened := n, s_ifaces := put_iface i u (s_ifaces s)\<rparr>)"
    "groups = (if v4 x = {} \<and> v4 u \<noteq> {} then s_groups s @ [ni_index u]
               else if v4 x \<noteq> {} \<and> v4 u = {} then remove1 (ni_index x) (s_groups s) else s_groups s)"
    "if is_announcement_enabled cfg
     then \<exists>new. map sock_address new = filter (\<lambda>a. a \<notin> v4 x) (get_addresses_for_mcast MCAST u)
             \<and> socks = filter (\<lambda>k. sock_address k \<notin> v4 x - v4 u) (s_notify s) @ new
     else socks = s_notify s"
    by (rule link_update_works [OF assms(1,3)])
  let ?e = "put_iface i u (s_ifaces s)"
  have "i \<in> fst ` set (s_ifaces s)" using x by force
  then have e: "(j, y) \<in> set ?e \<longleftrightarrow> (j, y) \<in> set (s_ifaces s) \<and> j \<noteq> i \<or> j = i \<and> y = u" for j y
    by (auto simp: put_iface_iff)
  have disj: "(j, y) \<in> set (s_ifaces s) \<Longrightarrow> (k, z) \<in> set (s_ifaces s) \<Longrightarrow> j \<noteq> k \<Longrightarrow> v4 y \<inter> v4 z = {}" for j y k z
    using assms(2) by (simp add: links_ok_def)
  have others: "v4 u \<inter> v4 y = {}" "v4 x \<inter> v4 y = {}" if y: "(j, y) \<in> set (s_ifaces s)" "j \<noteq> i" for j y
    using assms(5) y disj [OF x y(1)] by (auto simp: own_addresses_def)
  have "set groups = {i. \<exists>x. (i, x) \<in> set ?e \<and> v4 x \<noteq> {}} \<and> distinct groups"
  proof -
    have g: "distinct (s_groups s)" "set (s_groups s) = {i. \<exists>x. (i, x) \<in> set (s_ifaces s) \<and> v4 x \<noteq> {}}"
      using assms(2) by (simp_all add: links_ok_def)
    have ix: "v4 x \<noteq> {} \<Longrightarrow> ni_index x = i" using assms(2) x unfolding links_ok_def by blast
    have r: "j \<in> {i. \<exists>x. (i, x) \<in> set ?e \<and> v4 x \<noteq> {}} \<longleftrightarrow> (if j = i then v4 u \<noteq> {} else j \<in> set (s_groups s))" for j
      by (auto simp: e g(2))
    have i: "i \<in> set (s_groups s) \<longleftrightarrow> v4 x \<noteq> {}" unfolding g(2) using x uniq by blast
    have "j \<in> set groups \<longleftrightarrow> (if j = i then v4 u \<noteq> {} else j \<in> set (s_groups s))" for j
      unfolding u(2) using i ix assms(4) g(1) by auto
    moreover have "distinct groups" unfolding u(2) using g(1) i assms(4) by auto
    ultimately show ?thesis using r by blast
  qed
  moreover have "if is_announcement_enabled cfg
        then distinct (map sock_address socks) \<and> sock_address ` set socks = (\<Union>(i, x) \<in> set ?e. v4 x)
        else socks = []"
  proof (cases "is_announcement_enabled cfg")
    case True
    then obtain new where new: "map sock_address new = filter (\<lambda>a. a \<notin> v4 x) (get_addresses_for_mcast MCAST u)"
      "socks = filter (\<lambda>k. sock_address k \<notin> v4 x - v4 u) (s_notify s) @ new"
      using u(3) by auto
    have old: "distinct (map sock_address (s_notify s))"
      "sock_address ` set (s_notify s) = (\<Union>(i, x) \<in> set (s_ifaces s). v4 x)"
      using True assms(2) by (simp_all add: links_ok_def)
    have "set (map sock_address new) = {a \<in> v4 u. a \<notin> v4 x}" unfolding new(1) by (simp add: v4_def)
    then have n: "sock_address ` set new = v4 u - v4 x" by auto
    have nd: "distinct (map sock_address new)" unfolding new(1) by (simp add: get_addresses_for_mcast_def)
    define rest where "rest = {a. \<exists>j y. (j, y) \<in> set (s_ifaces s) \<and> j \<noteq> i \<and> a \<in> v4 y}"
    have all: "(\<Union>(i, x) \<in> set (s_ifaces s). v4 x) = v4 x \<union> rest"
      unfolding UN_entries rest_def using x uniq by blast
    have apart: "v4 u \<inter> rest = {}" "v4 x \<inter> rest = {}" unfolding rest_def using others by blast+
    have "sock_address ` set socks = (\<Union>(i, x) \<in> set (s_ifaces s). v4 x) - (v4 x - v4 u) \<union> (v4 u - v4 x)"
      using old(2) n by (auto simp: new(2) image_Un)
    also have "\<dots> = v4 u \<union> rest" using apart unfolding all by blast
    also have "\<dots> = (\<Union>(i, x) \<in> set ?e. v4 x)" unfolding UN_entries rest_def e by blast
    finally have "sock_address ` set socks = (\<Union>(i, x) \<in> set ?e. v4 x)" .
    moreover have "distinct (map sock_address socks)"
    proof -
      have "sock_address ` set (s_notify s) \<inter> (v4 u - v4 x) = {}"
        using apart unfolding old(2) all by blast
      then show ?thesis
        using old(1) n nd by (auto simp: new(2) distinct_map_filter)
    qed
    ultimately show ?thesis using True by simp
  qed (use u(3) assms(2) in \<open>auto simp: links_ok_def\<close>)
  moreover have "\<forall>j y. (j, y) \<in> set ?e \<longrightarrow> v4 y \<noteq> {} \<longrightarrow> ni_index y = j"
    using assms(2,4) unfolding e links_ok_def by blast
  moreover have "\<forall>j y k z. (j, y) \<in> set ?e \<longrightarrow> (k, z) \<in> set ?e \<longrightarrow> j \<noteq> k \<longrightarrow> v4 y \<inter> v4 z = {}"
    using disj others unfolding e by blast
  ultimately show ?thesis using dist by (simp add: u(1) links_ok_def put_iface_keys)
qed

section \<open>A change of the network\<close>

text \<open>What the service knows of the interfaces after it was told that one has changed.\<close>

definition known :: "ssdp_config \<Rightarrow> (32 word \<rightharpoonup> network_interface) \<Rightarrow> 32 word \<Rightarrow> (32 word \<rightharpoonup> network_interface) \<Rightarrow> (32 word \<rightharpoonup> network_interface)" where
  "known cfg ifaces i m =
     (case ifaces i of
        None \<Rightarrow> m(i := None)
      | Some u \<Rightarrow>
          (if is_iface_ignored cfg (ni_name u) then m
           else if ni_up u \<and> ni_running u then m(i \<mapsto> u) else m(i := None)))"

lemma own_addresses_new [simp]: "own_addresses i new_interface s"
  by (simp add: own_addresses_def)

lemma map_of_filter_key: "map_of (filter (\<lambda>e. fst e \<noteq> i) xs) = (map_of xs)(i := None)"
  by (induction xs) (auto simp: fun_eq_iff)

lemma link_remove_ok:
  assumes "env_works env" "links_ok cfg s"
  shows "\<exists>s'. iface_link_remove env cfg (find_iface s i) s = (Inr (), s') \<and> links_ok cfg s'
           \<and> map_of (s_ifaces s') = (map_of (s_ifaces s))(i := None)"
proof (cases "map_of (s_ifaces s) i")
  case None
  then show ?thesis using assms(2)
    by (auto simp: iface_link_remove_def find_iface_def act_return_def fun_eq_iff)
next
  case (Some x)
  then have "find_iface s i = Some i" by (simp add: find_iface_def)
  moreover obtain s1 where s1: "link_update env cfg (Some i) new_interface s = (Inr (), s1)" "links_ok cfg s1"
      "s_ifaces s1 = put_iface i new_interface (s_ifaces s)"
    using link_update_ok [OF assms Some, of new_interface] by auto
  moreover have "map_of (put_iface i new_interface (s_ifaces s)) = (map_of (s_ifaces s))(i \<mapsto> new_interface)"
    using Some by (auto simp: map_of_put dest: map_of_SomeD intro: rev_image_eqI)
  moreover have "links_ok cfg (s1\<lparr>s_ifaces := filter (\<lambda>e. fst e \<noteq> i) (s_ifaces s1)\<rparr>)"
  proof -
    let ?s2 = "s1\<lparr>s_ifaces := filter (\<lambda>e. fst e \<noteq> i) (s_ifaces s1)\<rparr>"
    have m: "(j, y) \<in> set (s_ifaces ?s2) \<longleftrightarrow> (j, y) \<in> set (s_ifaces s1) \<and> j \<noteq> i" for j y by auto
    have "(i, y) \<in> set (s_ifaces s1) \<Longrightarrow> v4 y = {}" for y
      using s1(3) by (auto simp: put_iface_iff)
    then have g: "{j. \<exists>x. ((j, x) \<in> set (s_ifaces s1) \<and> j \<noteq> i) \<and> v4 x \<noteq> {}} = {j. \<exists>x. (j, x) \<in> set (s_ifaces s1) \<and> v4 x \<noteq> {}}"
      and a: "{a. \<exists>j y. ((j, y) \<in> set (s_ifaces s1) \<and> j \<noteq> i) \<and> a \<in> v4 y} = {a. \<exists>j y. (j, y) \<in> set (s_ifaces s1) \<and> a \<in> v4 y}"
      by blast+
    have "distinct (map fst (s_ifaces ?s2))"
      using s1(2) by (simp add: links_ok_def distinct_map_filter)
    moreover have "\<forall>j y k z. ((j, y) \<in> set (s_ifaces s1) \<and> j \<noteq> i) \<longrightarrow> ((k, z) \<in> set (s_ifaces s1) \<and> k \<noteq> i) \<longrightarrow> j \<noteq> k \<longrightarrow> v4 y \<inter> v4 z = {}"
      and "\<forall>j y. ((j, y) \<in> set (s_ifaces s1) \<and> j \<noteq> i) \<longrightarrow> v4 y \<noteq> {} \<longrightarrow> ni_index y = j"
      using s1(2) unfolding links_ok_def by blast+
    ultimately show ?thesis using s1(2) unfolding links_ok_def UN_entries m g a by simp
  qed
  ultimately show ?thesis
    by (simp add: iface_link_remove_def act_bind_def act_modify_def map_of_filter_key fun_eq_iff)
qed

lemma emplace_iface_ok: "links_ok cfg s \<Longrightarrow> links_ok cfg (emplace_iface i s)"
  unfolding links_ok_def UN_entries emplace_iface_def
  by (auto simp: map_of_eq_None_iff)

lemma link_insert_ok:
  assumes "env_works env" "links_ok cfg s" "ni_index u = i" "own_addresses i u s" "it = None \<or> it = Some i \<and> map_of (s_ifaces s) i \<noteq> None"
  shows "\<exists>s'. link_insert_or_update env cfg it u s = (Inr (), s') \<and> links_ok cfg s'
           \<and> map_of (s_ifaces s') = (map_of (s_ifaces s))(i \<mapsto> u)"
proof -
  have upd: "\<exists>s'. link_update env cfg (Some i) u s1 = (Inr (), s') \<and> links_ok cfg s'
      \<and> map_of (s_ifaces s') = (map_of (s_ifaces s1))(i \<mapsto> u)"
    if s1: "links_ok cfg s1" "own_addresses i u s1" "map_of (s_ifaces s1) i = Some x" for s1 x
  proof -
    have "i \<in> fst ` set (s_ifaces s1)" using s1(3) by (metis map_of_eq_None_iff option.distinct(1))
    then have "map_of (put_iface i u (s_ifaces s1)) = (map_of (s_ifaces s1))(i \<mapsto> u)" by (simp add: map_of_put)
    moreover have "v4 u \<noteq> {} \<longrightarrow> ni_index u = i" using assms(3) by simp
    ultimately show ?thesis using link_update_ok [OF assms(1) s1(1,3) _ s1(2)] by metis
  qed
  show ?thesis
  proof (cases it)
    case None
    let ?s = "emplace_iface i s"
    have o: "own_addresses i u ?s"
      using assms(4) by (auto simp: own_addresses_def emplace_iface_def)
    obtain x where "map_of (s_ifaces ?s) i = Some x"
      by (cases "map_of (s_ifaces s) i") (auto simp: emplace_iface_def map_add_def)
    from upd [OF emplace_iface_ok [OF assms(2)] o this] obtain s' where
      "link_update env cfg (Some i) u ?s = (Inr (), s')" "links_ok cfg s'"
      "map_of (s_ifaces s') = (map_of (s_ifaces ?s))(i \<mapsto> u)" by blast
    moreover have "(map_of (s_ifaces ?s))(i \<mapsto> u) = (map_of (s_ifaces s))(i \<mapsto> u)"
      by (auto simp: emplace_iface_def fun_eq_iff map_add_def split: option.split)
    ultimately show ?thesis using None assms(3)
      by (simp add: link_insert_or_update_def act_bind_def act_modify_def)
  next
    case (Some j)
    with assms(5) upd [OF assms(2,4)] show ?thesis by (auto simp: link_insert_or_update_def)
  qed
qed

lemma on_network_change_ok:
  assumes "env_works env" "links_ok cfg s" "\<forall>u. ifaces i = Some u \<longrightarrow> ni_index u = i \<and> own_addresses i u s"
  shows "\<exists>s'. on_network_change env cfg ifaces i s = (Inr (), s') \<and> links_ok cfg s'
           \<and> map_of (s_ifaces s') = known cfg ifaces i (map_of (s_ifaces s))"
proof (cases "ifaces i")
  case None
  then show ?thesis using link_remove_ok [OF assms(1,2), of i] by (simp add: on_network_change_def known_def)
next
  case (Some u)
  then have u: "ni_index u = i" "own_addresses i u s" using assms(3) by auto
  have "find_iface s i = None \<or> find_iface s i = Some i \<and> map_of (s_ifaces s) i \<noteq> None"
    by (simp add: find_iface_def)
  note ins = link_insert_ok [OF assms(1,2) u this]
  show ?thesis using Some ins link_remove_ok [OF assms(1,2), of i] assms(2)
    by (auto simp: on_network_change_def known_def)
qed

section \<open>Every turn of the loop\<close>

text \<open>
  No address moves from an interface to another: \<open>owner\<close> says which one an address belongs to.
\<close>

definition owned_by :: "(ip_address \<Rightarrow> 32 word) \<Rightarrow> network_interface \<Rightarrow> bool" where
  "owned_by owner u \<longleftrightarrow> (\<forall>a. a \<in> v4 u \<longrightarrow> owner a = ni_index u)"

definition follows :: "(ip_address \<Rightarrow> 32 word) \<Rightarrow> ssdp_config \<Rightarrow> ssdp_state \<Rightarrow> bool" where
  "follows owner cfg s \<longleftrightarrow> links_ok cfg s \<and> (\<forall>i x a. map_of (s_ifaces s) i = Some x \<longrightarrow> a \<in> v4 x \<longrightarrow> owner a = i)"

lemma follows_own:
  assumes "follows owner cfg s" "owned_by owner u"
  shows "own_addresses (ni_index u) u s"
proof -
  have "(j, y) \<in> set (s_ifaces s) \<Longrightarrow> map_of (s_ifaces s) j = Some y" for j y
    using assms(1) by (simp add: follows_def links_ok_def)
  then show ?thesis using assms unfolding follows_def owned_by_def own_addresses_def by fast
qed

lemma follows_frame:
  "s_ifaces s' = s_ifaces s \<Longrightarrow> s_notify s' = s_notify s \<Longrightarrow> s_groups s' = s_groups s \<Longrightarrow> follows owner cfg s \<Longrightarrow> follows owner cfg s'"
  by (simp add: follows_def links_ok_def)

lemma keeps_frame:
  assumes "\<And>s. s_ifaces (snd (m s)) = s_ifaces s \<and> s_notify (snd (m s)) = s_notify s \<and> s_groups (snd (m s)) = s_groups s"
  shows "keeps (follows owner cfg) m"
  using assms follows_frame unfolding keeps_def by blast

lemma keeps_change:
  assumes "env_works env" "\<forall>u. ifaces i = Some u \<longrightarrow> ni_index u = i \<and> owned_by owner u"
  shows "keeps (follows owner cfg) (on_network_change env cfg ifaces i)"
  unfolding keeps_def
proof (intro allI impI)
  fix s
  assume s: "follows owner cfg s"
  have "\<forall>u. ifaces i = Some u \<longrightarrow> ni_index u = i \<and> own_addresses i u s"
    using assms(2) follows_own [OF s] by blast
  moreover have "links_ok cfg s" using s by (simp add: follows_def)
  ultimately obtain s' where s': "on_network_change env cfg ifaces i s = (Inr (), s')" "links_ok cfg s'"
      "map_of (s_ifaces s') = known cfg ifaces i (map_of (s_ifaces s))"
    using on_network_change_ok [OF assms(1)] by blast
  have "owner a = j" if "known cfg ifaces i (map_of (s_ifaces s)) j = Some x" "a \<in> v4 x" for j x a
    using that s assms(2)
    by (auto simp: known_def follows_def owned_by_def split: option.splits if_splits)
  with s' show "follows owner cfg (snd (on_network_change env cfg ifaces i s))"
    by (simp add: follows_def)
qed

lemma keeps_insert:
  assumes "env_works env" "owned_by owner u"
  shows "keeps (follows owner cfg) (link_insert_or_update env cfg None u)"
  unfolding keeps_def
proof (intro allI impI)
  fix s
  assume s: "follows owner cfg s"
  then have l: "links_ok cfg s" by (simp add: follows_def)
  obtain s' where s': "link_insert_or_update env cfg None u s = (Inr (), s')" "links_ok cfg s'"
      "map_of (s_ifaces s') = (map_of (s_ifaces s))(ni_index u \<mapsto> u)"
    using link_insert_ok [OF assms(1) l refl follows_own [OF s assms(2)], of None] by blast
  with s assms(2) show "follows owner cfg (snd (link_insert_or_update env cfg None u s))"
    by (auto simp: follows_def owned_by_def)
qed

lemma frame_keeps:
  "keeps (follows owner cfg) (enqueue env now m delay)"
  "keeps (follows owner cfg) (act_modify (\<lambda>s. s\<lparr>s_last := f s\<rparr>))"
  "keeps (follows owner cfg) (act_modify (\<lambda>s. s\<lparr>s_running := b\<rparr>))"
  "keeps (follows owner cfg) (select_messages now timeout)"
  "keeps (follows owner cfg) (send_messages env writable)"
  by (rule keeps_frame; simp add: enqueue_def act_modify_def select_messages_def send_messages_def split: prod.split)+

lemmas follow_intros = frame_keeps keeps_bind keeps_read keeps_return keeps_if keeps_logged

lemma follows_announce: "keeps (follows owner cfg) (announce_if_due env cfg' now)"
proof -
  have loop: "keeps (follows owner cfg) (send_alive_loop env now uri p socks)" for uri p socks
    by (induction socks arbitrary: uri p) (auto simp: Let_def intro!: follow_intros)
  have "keeps (follows owner cfg)
     (act_bind (act_read (\<lambda>_. create_ssdp_packet cfg' (NOTIFY, []))) (\<lambda>alive.
        act_bind (act_read (\<lambda>_. packet_get_header alive AL)) (\<lambda>al.
        act_bind (act_read (\<lambda>_. uri_parse (e_services env) al)) (\<lambda>service_uri.
        send_alive_loop env now service_uri alive (s_notify s)))))" for s
    by (intro keeps_bind keeps_read loop)
  then have "keeps (follows owner cfg) (send_alive env cfg' now)"
    unfolding keeps_def send_alive_def by auto
  then have "keeps (follows owner cfg) (act_bind (send_alive env cfg' now) (\<lambda>_.
         act_bind (act_modify (\<lambda>s. s\<lparr>s_last := s_last s + d\<rparr>)) (\<lambda>_.
         act_return (get_check_interval cfg'))))" for d
    by (intro follow_intros)
  then show ?thesis by (auto simp: keeps_def announce_if_due_def Let_def)
qed

lemma follows_request: "keeps (follows owner cfg) (process_ssdp_request env cfg' now rnd datagram sender)"
  unfolding process_ssdp_request_def process_ssdp_m_search_def Let_def by (intro follow_intros)

text \<open>What is said of the interfaces at a turn agrees with the owners of the addresses.\<close>

definition tables_agree :: "(ip_address \<Rightarrow> 32 word) \<Rightarrow> (32 word \<rightharpoonup> network_interface) \<Rightarrow> bool" where
  "tables_agree owner ifaces \<longleftrightarrow> (\<forall>i u. ifaces i = Some u \<longrightarrow> ni_index u = i \<and> owned_by owner u)"

lemma follows_notification:
  assumes "env_works env" "tables_agree owner ifaces"
  shows "keeps (follows owner cfg) (process_notification env cfg bytes n ifaces)"
  using assms keeps_change [OF assms(1)]
  by (auto simp: process_notification_def tables_agree_def intro!: follow_intros split: option.split ssdp_notification.split)

lemma follows_readable:
  assumes "env_works env" "tables_agree owner (i_ifaces inp)"
  shows "keeps (follows owner cfg) (handle_readable env cfg inp notification_socket ks)"
proof (induction ks)
  case (Cons k ks)
  have "keeps (follows owner cfg)
      (\<lambda>s. if k = s_listen s then process_ssdp_request env cfg (i_now inp) (i_rand inp) (i_datagram inp) (i_sender inp) s
            else if k = notification_socket then process_notification env cfg (i_bytes inp) (i_received inp) (i_ifaces inp) s
            else (Inr (), s))"
    using follows_request follows_notification [OF assms] by (auto simp: keeps_def)
  with Cons show ?case by (auto intro!: keeps_bind)
qed (auto intro: keeps_return)

lemma follows_step:
  assumes "env_works env" "tables_agree owner (i_ifaces inp)"
  shows "keeps (follows owner cfg) (loop_step env cfg notification_socket inp)"
  unfolding loop_step_def loop_body_def
  by (intro follow_intros follows_announce | (simp only: split_paired_all split_conv, intro follow_intros follows_readable assms))+

lemma follows_run:
  assumes "env_works env" "\<forall>inp \<in> set inps. tables_agree owner (i_ifaces inp)" "follows owner cfg s"
  shows "follows owner cfg (run_loop env cfg notification_socket inps s)"
  using assms(2,3)
  by (induction inps arbitrary: s) (use follows_step [OF assms(1)] in \<open>auto simp: keeps_def\<close>)

lemma follows_init:
  assumes "env_works env" "\<forall>u \<in> set ifaces. owned_by owner u"
  shows "keeps (follows owner cfg) (init_ifaces env cfg ifaces)"
  using assms(2) by (induction ifaces) (auto intro!: follow_intros keeps_insert [OF assms(1)])

lemma follows_byebye: "keeps (follows owner cfg) (send_byebye env cfg' )"
proof -
  have "keeps (follows owner cfg)
      (act_bind (act_read (\<lambda>_. create_ssdp_packet cfg' (NOTIFY, SSDP_BYEBYE_STR))) (\<lambda>bye. act_modify (\<lambda>s. s\<lparr>s_net := f bye s\<rparr>)))" for f
    by (intro keeps_bind keeps_read keeps_frame) (simp add: act_modify_def)
  from keeps_logged [OF this] show ?thesis by (auto simp: keeps_def send_byebye_def)
qed

text \<open>
  C20: The service follows the network. It is started on any list of interfaces and then makes any number of turns,
  in which anything comes over its sockets, until it is told to end; opening sockets, joining and leaving work, and no address is ever on
  two interfaces. Then after every turn the listening socket is in the multicast group on exactly the interfaces the service
  knows that have an IPv4 address, once each; and when announcements are on, there is exactly one socket for announcements
  for each of these addresses. None is left over from an interface or an address that has gone.
\<close>

theorem interfaces_followed:
  assumes "env_works env" "\<forall>u \<in> set ifaces. owned_by owner u"
    and "\<forall>inp \<in> set inps. tables_agree owner (i_ifaces inp)"
    and "s_ifaces s0 = []" "s_notify s0 = []" "s_groups s0 = []"
    and "s = ssdp_execute env cfg notification_socket ifaces now inps s0"
  shows "distinct (s_groups s)
    \<and> set (s_groups s) = {i. \<exists>x. map_of (s_ifaces s) i = Some x \<and> v4 x \<noteq> {}}
    \<and> (if is_announcement_enabled cfg
       then distinct (map sock_address (s_notify s))
            \<and> sock_address ` set (s_notify s) = {a. \<exists>i x. map_of (s_ifaces s) i = Some x \<and> a \<in> v4 x}
       else s_notify s = [])"
proof -
  let ?s1 = "(snd (init_ifaces env cfg ifaces s0))\<lparr>s_last := now - get_check_interval cfg\<rparr>"
  have "follows owner cfg s0" using assms(4-6) by (simp add: follows_def links_ok_def)
  then have "follows owner cfg (snd (init_ifaces env cfg ifaces s0))"
    using follows_init [OF assms(1,2)] by (simp add: keeps_def)
  then have "follows owner cfg ?s1" by (rule follows_frame [rotated 3]) simp_all
  then have "follows owner cfg (run_loop env cfg notification_socket inps ?s1)" by (rule follows_run [OF assms(1,3)])
  then have "follows owner cfg s"
    using follows_byebye unfolding assms(7) ssdp_execute_def Let_def keeps_def by auto
  then have l: "links_ok cfg s" by (simp add: follows_def)
  then have m: "(i, x) \<in> set (s_ifaces s) \<longleftrightarrow> map_of (s_ifaces s) i = Some x" for i x
    by (simp add: links_ok_def)
  show ?thesis using l unfolding links_ok_def UN_entries m by (intro conjI) (blast, blast, presburger)
qed

end
