(* ===== verification/Net_Changes.thy ===== *)
theory Net_Changes
  imports Net_Address
begin

text \<open>
  \<^verbatim>\<open>common/net/src/network_change_notifier_impl.cpp\<close>: what the messages of the kernel about addresses and links
  tell, and which changes the listeners hear of. A message is what the macros of the kernel headers read
  from the buffer: the fixed part as a record, the attributes as a list. The \<^verbatim>\<open>unordered_set\<close> of the links that are
  online and the map of addresses are only searched, so they are a set and a map.
\<close>

section \<open>Messages\<close>

record ifaddrmsg =
  ifa_family :: "8 word"
  ifa_prefixlen :: "8 word"
  ifa_flags :: "8 word"
  ifa_scope :: "8 word"
  ifa_index :: "32 word"

record ifinfomsg =
  ifi_index :: "32 word"
  ifi_flags :: "32 word"
  ifi_change :: "32 word"

text \<open>The payloads of the first two are the bytes of an address, of the last one the preferred lifetime.\<close>

datatype ifa_attr = IFA_ADDRESS "8 word list" | IFA_LOCAL "8 word list" | IFA_CACHEINFO "32 word" | IFA_OTHER nat

datatype netlink_message =
    NLMSG_DONE
  | NLMSG_ERROR int
  | RTM_NEWADDR ifaddrmsg "ifa_attr list"
  | RTM_DELADDR ifaddrmsg "ifa_attr list"
  | RTM_NEWLINK ifinfomsg "nat list"
  | RTM_DELLINK ifinfomsg
  | RTM_OTHER nat

abbreviation "IFLA_WIRELESS \<equiv> (11 :: nat)"
abbreviation IFF_UP :: "32 word" where "IFF_UP \<equiv> 0x1"
abbreviation IFF_LOOPBACK :: "32 word" where "IFF_LOOPBACK \<equiv> 0x8"
abbreviation IFF_RUNNING :: "32 word" where "IFF_RUNNING \<equiv> 0x40"
abbreviation IFA_F_DEPRECATED :: "8 word" where "IFA_F_DEPRECATED \<equiv> 0x20"
abbreviation AF_INET :: "8 word" where "AF_INET \<equiv> 2"
abbreviation AF_INET6 :: "8 word" where "AF_INET6 \<equiv> 10"

definition ignore_wireless_change :: "ifinfomsg \<Rightarrow> nat list \<Rightarrow> bool" where
  "ignore_wireless_change msg attrs \<longleftrightarrow> (\<exists>a \<in> set attrs. a = IFLA_WIRELESS \<and> ifi_change msg = 0)"

text \<open>The loop over the attributes: the address, the local address and whether the address is deprecated.\<close>

fun scan_attributes ::
  "ifa_attr list \<Rightarrow> 8 word list option \<times> 8 word list option \<times> bool \<Rightarrow> 8 word list option \<times> 8 word list option \<times> bool" where
  "scan_attributes [] r = r"
| "scan_attributes (attr # attrs) (address, local, deprecated) =
     scan_attributes attrs
       (case attr of
          IFA_ADDRESS a \<Rightarrow> (Some a, local, deprecated)
        | IFA_LOCAL a \<Rightarrow> (address, Some a, deprecated)
        | IFA_CACHEINFO prefered \<Rightarrow> (address, local, prefered = 0)
        | IFA_OTHER _ \<Rightarrow> (address, local, deprecated))"

definition word_of_bytes :: "8 word list \<Rightarrow> 'a::len word" where
  "word_of_bytes bs = foldl (\<lambda>w b. push_bit 8 w OR ucast b) 0 bs"

definition get_ipaddress :: "ifaddrmsg \<Rightarrow> ifa_attr list \<Rightarrow> ip_address option \<times> bool" where
  "get_ipaddress msg attrs =
     (let (address, local, deprecated) = scan_attributes attrs (None, None, False);
          chosen = (if local \<noteq> None then local else address)
      in (map_option (\<lambda>bytes.
            if ifa_family msg = AF_INET then IPv4 (word_of_bytes (take 4 bytes))
            else if ifa_family msg = AF_INET6 then IPv6 (word_of_bytes (take 16 bytes))
            else any_address) chosen, deprecated))"

section \<open>The notifier\<close>

datatype change_type = NO_CHANGE | NEW_IP | DEL_IP | NEW_LINK | DEL_LINK

type_synonym change = "32 word \<times> change_type"

record change_notifier =
  m_address_map :: "ip_address \<rightharpoonup> ifaddrmsg"
  m_online_links :: "32 word set"

definition new_notifier :: change_notifier where
  "new_notifier = \<lparr>m_address_map = Map.empty, m_online_links = {}\<rparr>"

definition new_address :: "ifaddrmsg \<Rightarrow> ifa_attr list \<Rightarrow> change_notifier \<Rightarrow> change_notifier \<times> change list" where
  "new_address msg attrs n =
     (let (found, is_deprecated) = get_ipaddress msg attrs in
      case found of
        None \<Rightarrow> (n, [])
      | Some address \<Rightarrow>
          (let msg' = (if is_deprecated then msg\<lparr>ifa_flags := ifa_flags msg OR IFA_F_DEPRECATED\<rparr> else msg) in
           if m_address_map n address = Some msg' then (n, [])
           else (n\<lparr>m_address_map := (m_address_map n)(address \<mapsto> msg')\<rparr>, [(ifa_index msg', NEW_IP)])))"

definition del_address :: "ifaddrmsg \<Rightarrow> ifa_attr list \<Rightarrow> change_notifier \<Rightarrow> change_notifier \<times> change list" where
  "del_address msg attrs n =
     (case fst (get_ipaddress msg attrs) of
        None \<Rightarrow> (n, [])
      | Some address \<Rightarrow>
          (if m_address_map n address \<noteq> None
           then (n\<lparr>m_address_map := (m_address_map n)(address := None)\<rparr>, [(ifa_index msg, DEL_IP)])
           else (n, [])))"

definition erase_link :: "32 word \<Rightarrow> change_notifier \<Rightarrow> change_notifier \<times> change list" where
  "erase_link i n =
     (if i \<in> m_online_links n then (n\<lparr>m_online_links := m_online_links n - {i}\<rparr>, [(i, DEL_LINK)]) else (n, []))"

definition new_link :: "ifinfomsg \<Rightarrow> nat list \<Rightarrow> change_notifier \<Rightarrow> change_notifier \<times> change list" where
  "new_link msg attrs n =
     (if ignore_wireless_change msg attrs then (n, [])
      else if ifi_flags msg AND IFF_LOOPBACK = 0 \<and> ifi_flags msg AND IFF_UP \<noteq> 0 \<and> ifi_flags msg AND IFF_RUNNING \<noteq> 0
      then (if ifi_index msg \<notin> m_online_links n
            then (n\<lparr>m_online_links := insert (ifi_index msg) (m_online_links n)\<rparr>, [(ifi_index msg, NEW_LINK)])
            else (n, []))
      else erase_link (ifi_index msg) n)"

text \<open>A buffer: the end of a dump or an error leaves the rest of it unread.\<close>

fun process_netlink_message :: "netlink_message list \<Rightarrow> change_notifier \<times> change list \<Rightarrow> change_notifier \<times> change list" where
  "process_netlink_message [] (n, changes) = (n, changes)"
| "process_netlink_message (NLMSG_DONE # ms) (n, changes) = (n, changes)"
| "process_netlink_message (NLMSG_ERROR e # ms) (n, changes) = (n, changes)"
| "process_netlink_message (RTM_NEWADDR msg attrs # ms) (n, changes) =
     (let (n', cs) = new_address msg attrs n in process_netlink_message ms (n', changes @ cs))"
| "process_netlink_message (RTM_DELADDR msg attrs # ms) (n, changes) =
     (let (n', cs) = del_address msg attrs n in process_netlink_message ms (n', changes @ cs))"
| "process_netlink_message (RTM_NEWLINK msg attrs # ms) (n, changes) =
     (let (n', cs) = new_link msg attrs n in process_netlink_message ms (n', changes @ cs))"
| "process_netlink_message (RTM_DELLINK msg # ms) (n, changes) =
     (let (n', cs) = erase_link (ifi_index msg) n in process_netlink_message ms (n', changes @ cs))"
| "process_netlink_message (RTM_OTHER t # ms) (n, changes) = process_netlink_message ms (n, changes)"

text \<open>What \<^verbatim>\<open>recv\<close> gives until it gives nothing more or fails is the list of buffers.\<close>

fun process_buffers :: "netlink_message list list \<Rightarrow> change_notifier \<times> change list \<Rightarrow> change_notifier \<times> change list" where
  "process_buffers [] nc = nc"
| "process_buffers (b # bs) nc = process_buffers bs (process_netlink_message b nc)"

definition process_netlink_messages :: "netlink_message list list \<Rightarrow> change_notifier \<Rightarrow> change_notifier \<times> change list" where
  "process_netlink_messages buffers n = process_buffers buffers (n, [])"

text \<open>The answers to the two requests at the start are not reported.\<close>

definition init_notifier :: "netlink_message list list \<Rightarrow> netlink_message list list \<Rightarrow> change_notifier" where
  "init_notifier addresses links =
     fst (process_netlink_messages links (fst (process_netlink_messages addresses new_notifier)))"

text \<open>Every listener is called for every change, in order; one that throws does not keep the others from it.\<close>

definition notify_listeners :: "'l list \<Rightarrow> change list \<Rightarrow> ('l \<times> change) list" where
  "notify_listeners listeners changes = concat (map (\<lambda>c. map (\<lambda>l. (l, c)) listeners) changes)"

section \<open>What is reported\<close>

text \<open>The messages of a buffer that are looked at.\<close>

definition read_part :: "netlink_message list \<Rightarrow> netlink_message list" where
  "read_part = takeWhile (\<lambda>m. case m of NLMSG_DONE \<Rightarrow> False | NLMSG_ERROR _ \<Rightarrow> False | _ \<Rightarrow> True)"

text \<open>What a message says of a link: that it is online, that it is not, or nothing.\<close>

definition online :: "ifinfomsg \<Rightarrow> bool" where
  "online msg \<longleftrightarrow> ifi_flags msg AND IFF_LOOPBACK = 0 \<and> ifi_flags msg AND IFF_UP \<noteq> 0 \<and> ifi_flags msg AND IFF_RUNNING \<noteq> 0"

fun link_told :: "32 word \<Rightarrow> netlink_message \<Rightarrow> bool list" where
  "link_told i (RTM_NEWLINK msg attrs) = (if ifi_index msg = i \<and> \<not> ignore_wireless_change msg attrs then [online msg] else [])"
| "link_told i (RTM_DELLINK msg) = (if ifi_index msg = i then [False] else [])"
| "link_told i _ = []"

text \<open>What a message says of an address: the record of it, or that it is gone.\<close>

fun address_told :: "ip_address \<Rightarrow> netlink_message \<Rightarrow> ifaddrmsg option list" where
  "address_told a (RTM_NEWADDR msg attrs) =
     (if fst (get_ipaddress msg attrs) = Some a
      then [Some (if snd (get_ipaddress msg attrs) then msg\<lparr>ifa_flags := ifa_flags msg OR IFA_F_DEPRECATED\<rparr> else msg)] else [])"
| "address_told a (RTM_DELADDR msg attrs) = (if fst (get_ipaddress msg attrs) = Some a then [None] else [])"
| "address_told a _ = []"

definition link_changes :: "32 word \<Rightarrow> change list \<Rightarrow> change_type list" where
  "link_changes i cs = map snd (filter (\<lambda>(j, t). j = i \<and> t \<in> {NEW_LINK, DEL_LINK}) cs)"

text \<open>The changes of a sequence of states, the first of which is known already.\<close>

definition switches :: "bool list \<Rightarrow> change_type list" where
  "switches bs = map (\<lambda>b. if b then NEW_LINK else DEL_LINK) (tl (remdups_adj bs))"

lemma link_changes_append: "link_changes i (cs @ ds) = link_changes i cs @ link_changes i ds"
  by (simp add: link_changes_def)

lemma remdups_adj_hd: "\<exists>zs. remdups_adj (x # xs) = x # zs"
  by (induction xs) auto

lemma switches_Cons: "switches (a # b # bs) = (if a = b then [] else [if b then NEW_LINK else DEL_LINK]) @ switches (b # bs)"
  using remdups_adj_hd [of b bs] by (auto simp: switches_def)

lemma switches_single [simp]: "switches [b] = []"
  by (simp add: switches_def)

lemma switches_append: "switches (b # xs @ ys) = switches (b # xs) @ switches (last (b # xs) # ys)"
  by (induction xs arbitrary: b) (auto simp: switches_Cons)

definition step_right :: "32 word \<Rightarrow> ip_address \<Rightarrow> bool list \<Rightarrow> ifaddrmsg option list \<Rightarrow> change_notifier \<Rightarrow> change_notifier \<times> change list \<Rightarrow> bool" where
  "step_right i a ls as n r \<longleftrightarrow>
     ((i \<in> m_online_links (fst r)) = last ((i \<in> m_online_links n) # ls))
     \<and> link_changes i (snd r) = switches ((i \<in> m_online_links n) # ls)
     \<and> m_address_map (fst r) a = last (m_address_map n a # as)"

lemma step_right_none: "step_right i a [] [] n (n, [])"
  by (simp add: step_right_def link_changes_def)

lemma step_then:
  assumes "step_right i a ls as n (n', cs)" "step_right i a ls' as' n' (n'', ds)"
  shows "step_right i a (ls @ ls') (as @ as') n (n'', cs @ ds)"
  using assms by (auto simp: step_right_def link_changes_append switches_append)

lemma erase_link_right: "step_right i a (if j = i then [False] else []) [] n (erase_link j n)"
  by (auto simp: step_right_def erase_link_def link_changes_def switches_def)

lemma new_link_right: "step_right i a (link_told i (RTM_NEWLINK msg attrs)) [] n (new_link msg attrs n)"
  using erase_link_right [of i a "ifi_index msg" n]
  by (auto simp: new_link_def online_def) (auto simp: step_right_def link_changes_def switches_def)

lemma new_address_right: "step_right i a [] (address_told a (RTM_NEWADDR msg attrs)) n (new_address msg attrs n)"
  by (auto simp: step_right_def new_address_def link_changes_def Let_def split: option.split prod.split)

lemma del_address_right: "step_right i a [] (address_told a (RTM_DELADDR msg attrs)) n (del_address msg attrs n)"
  by (auto simp: step_right_def del_address_def link_changes_def split: option.split)

lemma step_then_rest:
  assumes "step_right i a ls as n r"
    and "\<exists>n' cs'. process_netlink_message ms (fst r, cs @ snd r) = (n', (cs @ snd r) @ cs') \<and> step_right i a ls' as' (fst r) (n', cs')"
  shows "\<exists>n' cs'. process_netlink_message ms (fst r, cs @ snd r) = (n', cs @ cs') \<and> step_right i a (ls @ ls') (as @ as') n (n', cs')"
proof -
  obtain n' cs' where r: "process_netlink_message ms (fst r, cs @ snd r) = (n', (cs @ snd r) @ cs')"
    "step_right i a ls' as' (fst r) (n', cs')" using assms(2) by blast
  have "step_right i a ls as n (fst r, snd r)" using assms(1) by simp
  from step_then [OF this r(2)] r(1) show ?thesis by (intro exI [of _ n'] exI [of _ "snd r @ cs'"]) simp
qed

abbreviation "links_told i ms \<equiv> concat (map (link_told i) ms)"
abbreviation "addresses_told a ms \<equiv> concat (map (address_told a) ms)"

lemma process_message_right:
  "\<exists>n' cs'. process_netlink_message ms (n, cs) = (n', cs @ cs')
     \<and> step_right i a (links_told i (read_part ms)) (addresses_told a (read_part ms)) n (n', cs')"
proof (induction ms "(n, cs)" arbitrary: n cs rule: process_netlink_message.induct)
  case (4 msg attrs ms n cs)
  from step_then_rest [OF new_address_right 4 [OF surjective_pairing [symmetric] refl]] show ?case
    by (simp add: read_part_def case_prod_beta)
next
  case (5 msg attrs ms n cs)
  from step_then_rest [OF del_address_right 5 [OF surjective_pairing [symmetric] refl]] show ?case
    by (simp add: read_part_def case_prod_beta)
next
  case (6 msg attrs ms n cs)
  from step_then_rest [OF new_link_right 6 [OF surjective_pairing [symmetric] refl]] show ?case
    by (simp add: read_part_def case_prod_beta)
next
  case (7 msg ms n cs)
  from step_then_rest [OF erase_link_right 7 [OF surjective_pairing [symmetric] refl]] show ?case
    by (simp add: read_part_def case_prod_beta)
qed (simp_all add: read_part_def step_right_none)

lemma process_buffers_right:
  "\<exists>n' cs'. process_buffers bs (n, cs) = (n', cs @ cs')
     \<and> step_right i a (links_told i (concat (map read_part bs))) (addresses_told a (concat (map read_part bs))) n (n', cs')"
proof (induction bs arbitrary: n cs)
  case Nil
  show ?case by (simp add: step_right_none)
next
  case (Cons b bs)
  obtain n1 c1 where b: "process_netlink_message b (n, cs) = (n1, cs @ c1)"
    "step_right i a (links_told i (read_part b)) (addresses_told a (read_part b)) n (n1, c1)"
    using process_message_right by blast
  obtain n2 c2 where "process_buffers bs (n1, cs @ c1) = (n2, (cs @ c1) @ c2)"
    "step_right i a (links_told i (concat (map read_part bs))) (addresses_told a (concat (map read_part bs))) n1 (n2, c2)"
    using Cons by blast
  with b(1) step_then [OF b(2) this(2)] show ?case by simp
qed

lemma listener_hears:
  assumes "distinct listeners" "l \<in> set listeners"
  shows "map snd (filter (\<lambda>e. fst e = l) (notify_listeners listeners cs)) = cs"
proof -
  have "map snd (filter (\<lambda>e. fst e = l) (map (\<lambda>l. (l, c)) listeners)) = [c]" for c :: change
    using assms by (induction listeners) (auto simp: filter_empty_conv)
  then show ?thesis by (induction cs) (simp_all add: notify_listeners_def)
qed

text \<open>
  C34: From the first answers of the kernel on, every listener hears of exactly the changes of a link, in
  order: it is told that the link is there when a message says so and it was not, and that it has gone when a message
  says so and it was there. At the end the link counts as online as the last message about it says; so do the
  addresses. Messages behind the end of a dump or an error in the same buffer do not count, nor do those of the
  wireless drivers that report no change.
\<close>

theorem links_followed:
  assumes "process_netlink_messages buffers (init_notifier addresses links) = (n, changes)"
    and "distinct listeners" "l \<in> set listeners"
  shows "link_changes i (map snd (filter (\<lambda>e. fst e = l) (notify_listeners listeners changes)))
      = switches (last (False # links_told i (concat (map read_part (addresses @ links))))
                  # links_told i (concat (map read_part buffers)))
    \<and> (i \<in> m_online_links n \<longleftrightarrow> last (False # links_told i (concat (map read_part (addresses @ links @ buffers)))))
    \<and> m_address_map n a = last (None # addresses_told a (concat (map read_part (addresses @ links @ buffers))))"
proof (intro conjI)
  let ?l = "\<lambda>bs. links_told i (concat (map read_part bs))" and ?a = "\<lambda>bs. addresses_told a (concat (map read_part bs))"
  obtain n1 c1 where 1: "process_netlink_messages addresses new_notifier = (n1, c1)"
    "step_right i a (?l addresses) (?a addresses) new_notifier (n1, c1)"
    using process_buffers_right [of addresses new_notifier "[]" i a] by (auto simp: process_netlink_messages_def)
  obtain n2 c2 where 2: "process_netlink_messages links n1 = (n2, c2)" "step_right i a (?l links) (?a links) n1 (n2, c2)"
    using process_buffers_right [of links n1 "[]" i a] by (auto simp: process_netlink_messages_def)
  have "step_right i a (?l buffers) (?a buffers) n2 (n, changes)"
    using assms(1) 1(1) 2(1) process_buffers_right [of buffers n2 "[]" i a]
    by (auto simp: process_netlink_messages_def init_notifier_def)
  note all = this step_then [OF 1(2) 2(2)]
  note all = all step_then [OF all(2,1)]
  show "link_changes i (map snd (filter (\<lambda>e. fst e = l) (notify_listeners listeners changes)))
      = switches (last (False # ?l (addresses @ links)) # ?l buffers)"
    using all by (simp add: listener_hears [OF assms(2,3)] step_right_def new_notifier_def)
  show "i \<in> m_online_links n \<longleftrightarrow> last (False # ?l (addresses @ links @ buffers))"
    "m_address_map n a = last (None # ?a (addresses @ links @ buffers))"
    using all(3) by (simp_all add: step_right_def new_notifier_def)
qed

text \<open>
  An address that moves to another interface is forgotten when the message comes that it has left the first one:
  an address is found by itself alone.
\<close>

lemma moved_address_forgotten:
  assumes "fst (get_ipaddress m1 at1) = Some a" "fst (get_ipaddress m2 at2) = Some a"
  shows "m_address_map (fst (process_netlink_message [RTM_NEWADDR m1 at1, RTM_DELADDR m2 at2] (n, cs))) a = None"
  using assms by (auto simp: new_address_def del_address_def Let_def split: prod.split)

end
