(* ===== verification/Example_Ssdp.thy ===== *)
theory Example_Ssdp
  imports Ssdp_Answers Ssdp_Links Net_Changes
begin

text \<open>The theorems about the announcement service, its packets and its interfaces, at work.\<close>

section \<open>A service on one network\<close>

definition ssdp_cfg :: ssdp_config where
  "ssdp_cfg = default_config\<lparr>m_ssdp_service_enabled := True, m_service_uuid := ''7'', m_service_urn := ''urn:r'',
     m_service_url := ''http://host/redfish'', m_announce_interval := 60, m_nic_names := [''eth0'']\<rparr>"

text \<open>The network sends everything, sockets and groups work, no IPv6 texts and no services are known.\<close>

definition quiet_env :: ssdp_env where
  "quiet_env = \<lparr>e_send = \<lambda>k s r p. SentBytes (length p), e_open = \<lambda>k a. None, e_join = \<lambda>i. None, e_leave = \<lambda>i. None,
     e_inet = \<lparr>ntop6 = \<lambda>a. ''::'', pton6 = \<lambda>t. None\<rparr>, e_services = \<lambda>t. None\<rparr>"

definition eth0 :: network_interface where
  "eth0 = \<lparr>ni_name = ''eth0'', ni_address_list = [(IPv4 0x0A000001, IPv4 0xFF000000, IPv4 0x0AFFFFFF)], ni_index = 2,
     ni_broadcast = True, ni_loopback = False, ni_multicast = True, ni_p2p = False, ni_up = True, ni_running = True\<rparr>"

definition listener :: msocket where
  "listener = \<lparr>sock_id = 0, sock_address = any_address\<rparr>"

definition pipe_end :: msocket where
  "pipe_end = \<lparr>sock_id = 1, sock_address = any_address\<rparr>"

definition announcer :: msocket where
  "announcer = \<lparr>sock_id = 2, sock_address = IPv4 0x0A000001\<rparr>"

definition ssdp_start :: ssdp_state where
  "ssdp_start = \<lparr>s_running = True, s_ifaces = [], s_notify = [], s_listen = listener, s_groups = [], s_queue = [],
     s_net = \<lparr>calls = 0, wire = []\<rparr>, s_last = 0, s_opened = 2\<rparr>"

definition ssdp_up :: ssdp_state where
  "ssdp_up = ssdp_start\<lparr>s_ifaces := [(2, eth0)], s_notify := [announcer], s_groups := [2], s_opened := 3\<rparr>"

definition search_packet :: ssdp_packet where
  "search_packet = \<lparr>get_type = SEARCH_REQUEST,
     m_headers = [(HOST, ''239.255.255.250:1900''), (MAN, SSDP_DISCOVER), (MX, ''3''), (ST, SSDP_ALL_STR)]\<rparr>"

definition ssdp_client :: socket_address where
  "ssdp_client = InetAddress (IPv4 0x0A000009) 50000"

definition service_uri :: uri where
  "service_uri = \<lparr>m_scheme = ''http'', m_userInfo = [], m_host = ''host'', m_port = 80, m_path_and_query = ''/redfish''\<rparr>"

text \<open>A turn in which nothing can be read.\<close>

definition idle_turn :: "int \<Rightarrow> loop_input" where
  "idle_turn now = \<lparr>i_now = now, i_select = \<lparr>sel_rc = 0, sel_read = [], sel_write = []\<rparr>, i_datagram = [],
     i_sender = ssdp_client, i_rand = 0, i_bytes = [], i_received = 0, i_ifaces = Map.empty\<rparr>"

text \<open>A turn in which the service is told that the second interface has changed.\<close>

definition change_turn :: "(32 word \<rightharpoonup> network_interface) \<Rightarrow> loop_input" where
  "change_turn ifaces = (idle_turn 5)\<lparr>i_select := \<lparr>sel_rc = 1, sel_read = [1], sel_write = []\<rparr>,
     i_bytes := serialize (NetworkChangeNotification 2 2), i_received := 3, i_ifaces := ifaces\<rparr>"

section \<open>Packets and texts\<close>

theorem datagram_received_witness:
  "case received ''HTTP/1.1 OK'' of
     Inl e \<Rightarrow> e = ParserException ''No colon found'' \<or> e = ParserException ''No CRLF found''
   | Inr p \<Rightarrow> packet_ok p"
  by (rule datagram_received) simp

lemma search_packet_wire: "wire_packet search_packet"
  by code_simp

lemma search_packet_fits: "length (packet_to_string search_packet) \<le> PACKET_SIZE"
  by (simp add: packet_to_string_def search_packet_def header_line_def get_request_line_def to_request_line_string_def
      type_strings_def)

theorem packet_received_witness: "received (packet_to_string search_packet) = Inr search_packet"
  by (rule packet_received [OF search_packet_wire search_packet_fits])

theorem notification_round_trip_witness:
  "read_notification ([0, 0xAC, 2, 3] @ [9, 9]) 4 = Inr (Some (NetworkChangeNotification 300 3))"
proof -
  have "serialize (NetworkChangeNotification 300 3) = [0, 0xAC, 2, 3]" by code_simp
  with notification_round_trip [of "[0, 0xAC, 2, 3] @ [9, 9]" "NetworkChangeNotification 300 3" "[9, 9]"] show ?thesis
    by (simp add: eval_nat_numeral del: serialize.simps)
qed

lemma service_uri_read: "uri_parse (\<lambda>t. None) ''http://host/redfish'' = Inr service_uri"
  by code_simp

theorem url_with_host_witness:
  "\<exists>v. uri_parse (\<lambda>t. None) (uri_to_string (set_host service_uri ''10.0.0.1'')) = Inr v
     \<and> m_host v = ''10.0.0.1'' \<and> m_path_and_query v = ''/redfish'' \<and> uri_get_port (\<lambda>t. None) v = 80"
proof -
  have "host_ok ''10.0.0.1''" by code_simp
  moreover have "uri_get_port (\<lambda>t. None) service_uri = 80" "m_path_and_query service_uri = ''/redfish''" by code_simp+
  ultimately show ?thesis
    using url_with_host [OF service_uri_read, of "''10.0.0.1''"] by (auto simp: service_uri_def)
qed

section \<open>The queue\<close>

definition late_message :: message where
  "late_message = \<lparr>m_state = WAIT_READY, m_sender = announcer, m_receiver = MCAST, m_payload = ''x''\<rparr>"

definition two_messages :: queue where
  "two_messages = [(5, new_message listener ssdp_client ''a''), (90, new_message listener ssdp_client ''b'')]"

theorem queue_round_witness:
  "case select_ready_messages 40 two_messages [] 1000 of (q1, w, t) \<Rightarrow>
     (case send_ready_messages (\<lambda>k s r p. SentBytes (length p)) [] q1 \<lparr>calls = 0, wire = []\<rparr> of (q2, n2) \<Rightarrow>
        q2 = [(90, new_message listener ssdp_client ''b'')] \<and> wire n2 = [(listener, ssdp_client, ''a'')] \<and> t = 0)"
proof -
  obtain q1 w t where s: "select_ready_messages 40 two_messages [] 1000 = (q1, w, t)" by (cases "select_ready_messages 40 two_messages [] 1000")
  obtain q2 n2 where n: "send_ready_messages (\<lambda>k s r p. SentBytes (length p)) [] q1 \<lparr>calls = 0, wire = []\<rparr> = (q2, n2)" by fastforce
  have q: "mqueue_ok 40 two_messages" by (simp add: two_messages_def mqueue_ok_def times_sorted_def new_message_def)
  have "w = []" using s by (auto simp: two_messages_def select_ready_messages_def new_message_def)
  with queue_round [OF q s _ n] s n show ?thesis
    by (simp add: two_messages_def new_message_def)
qed

section \<open>Searches\<close>

lemma search_packet_received: "received (packet_to_string search_packet) = Inr search_packet"
  using search_packet_fits packet_read_back [OF search_packet_wire]
  by (simp add: received_def receive_packet_def Let_def min_absorb2)

lemma searched: "search_for_us ssdp_cfg ssdp_up (packet_to_string search_packet) ssdp_client search_packet (IPv4 0x0A000001)"
proof -
  have "valid_packet search_packet" "header_value search_packet ST = Some SSDP_ALL_STR" by code_simp+
  moreover have "sa_host ssdp_client = Inr (IPv4 0x0A000009)" "find_lan_of_peer ssdp_up (IPv4 0x0A000009) = Inr (IPv4 0x0A000001)"
    "\<not> is_any_address (IPv4 0x0A000001)" by code_simp+
  ultimately show ?thesis using search_packet_received
    by (simp add: search_for_us_def) (simp add: search_packet_def)
qed

theorem search_answered_witness:
  "\<exists>payload delay s'. process_ssdp_request quiet_env ssdp_cfg 1000 700000000 (packet_to_string search_packet) ssdp_client ssdp_up = (Inr (), s')
     \<and> delay < (3000 :: int)
     \<and> (\<exists>response al. parse_packet payload (length payload) = Some (Inr response) \<and> validate_ssdp_packet response = Inr True
          \<and> header_value response AL = Some al \<and> uri_parse (\<lambda>t. None) al = Inr (set_host service_uri ''10.0.0.1''))"
proof -
  have mx: "header_value search_packet MX = Some ''3''" "mx_of ''3'' = 3"
    by (code_simp, simp add: mx_of_def stoul_def nat_of_dec_def digit_val_def is_digit_def is_blank_def)
  have ip: "ip_to_string (e_inet quiet_env) (IPv4 0x0A000001) = ''10.0.0.1''"
  proof -
    have "octet 0x0A000001 0 = 10" "octet 0x0A000001 1 = 0" "octet 0x0A000001 2 = 0" "octet 0x0A000001 3 = 1"
      by (simp_all add: octet_def drop_bit_eq_div)
    moreover have "char_of (48 :: nat) = CHR ''0''" "char_of (49 :: nat) = CHR ''1''" by code_simp+
    ultimately show ?thesis by (simp add: ntop4_def dec_of_nat.simps digit_char_def)
  qed
  have u: "uri_parse (e_services quiet_env) (m_service_url ssdp_cfg) = Inr service_uri"
    using service_uri_read by (simp add: quiet_env_def ssdp_cfg_def)
  have m: "m_scheme service_uri \<noteq> []" "m_path_and_query service_uri = [] \<or> hd (m_path_and_query service_uri) = CHR ''/''"
    "host_ok ''10.0.0.1''" "wire_config ssdp_cfg" "wire_value (uri_to_string (set_host service_uri ''10.0.0.1''))" by code_simp+
  have env: "e_services quiet_env = (\<lambda>t. None)" by (simp add: quiet_env_def)
  note answered = search_answered [OF searched mx(1) _ u m(1,2), where rnd = 700000000 and now = 1000, unfolded ip, OF _ m(3-5), unfolded env]
  have "(700000000 :: nat) \<le> 2147483647" by simp
  from answered [OF this] obtain payload delay s' response al where r:
    "process_ssdp_request quiet_env ssdp_cfg 1000 700000000 (packet_to_string search_packet) ssdp_client ssdp_up = (Inr (), s')"
    "delay < 1000 * int (mx_of ''3'')"
    "\<forall>ys. parse_packet (payload @ ys) (length payload) = Some (Inr response) \<and> validate_ssdp_packet response = Inr True"
    "header_value response AL = Some al" "uri_parse (\<lambda>t. None) al = Inr (set_host service_uri ''10.0.0.1'')"
    by blast
  have "parse_packet payload (length payload) = Some (Inr response)" "validate_ssdp_packet response = Inr True"
    using r(3) [rule_format, of "[]"] by simp_all
  moreover have "delay < 3000" using r(2) mx(2) by simp
  ultimately show ?thesis using r(1,4,5) by blast
qed

theorem only_searches_answered_witness:
  "fst (process_ssdp_request quiet_env ssdp_cfg 1000 0 ''NOTIFY'' ssdp_client ssdp_up) = Inr ()"
  using only_searches_answered [of quiet_env ssdp_cfg 1000 0 "''NOTIFY''" ssdp_client ssdp_up, OF prod.collapse [symmetric], THEN conjunct2] by simp

section \<open>The loop\<close>

definition ssdp_blocked :: ssdp_state where
  "ssdp_blocked = ssdp_up\<lparr>s_queue := [(3, late_message)]\<rparr>"

theorem blocked_message_stuck_witness:
  "(3, late_message) \<in> set (s_queue (run_loop quiet_env ssdp_cfg pipe_end [idle_turn 4, change_turn Map.empty] ssdp_blocked))"
  using blocked_message_stuck [of ssdp_blocked 3 late_message pipe_end quiet_env ssdp_cfg "[idle_turn 4, change_turn Map.empty]", THEN conjunct1]
  by (simp add: ssdp_blocked_def ssdp_up_def ssdp_start_def times_sorted_def late_message_def announcer_def listener_def pipe_end_def)

definition bad_cfg :: ssdp_config where
  "bad_cfg = ssdp_cfg\<lparr>m_service_url := ''http:''\<rparr>"

theorem bad_url_spins_witness:
  "run_loop quiet_env bad_cfg pipe_end [idle_turn 60000, change_turn Map.empty\<lparr>i_now := 70000\<rparr>] ssdp_up = ssdp_up"
proof (rule bad_url_spins)
  show "uri_parse (e_services quiet_env) (m_service_url bad_cfg) = Inl (RuntimeError ''URI scheme must be followed by authority or path'')"
    "is_announcement_enabled bad_cfg" by code_simp+
qed (simp_all add: ssdp_up_def ssdp_start_def get_check_interval_def bad_cfg_def ssdp_cfg_def default_config_def idle_turn_def change_turn_def)

text \<open>The service starts without an interface, and is told that there is one now.\<close>

lemma eth0_v4: "v4 eth0 = {IPv4 0x0A000001}"
  by (simp add: v4_def get_addresses_for_mcast_def eth0_def)

abbreviation "one_interface \<equiv> change_turn [2 \<mapsto> eth0]"

theorem interfaces_followed_witness:
  "sock_address ` set (s_notify (ssdp_execute quiet_env ssdp_cfg pipe_end [] 5 [one_interface] ssdp_start)) = {IPv4 0x0A000001}"
proof -
  let ?s = "ssdp_execute quiet_env ssdp_cfg pipe_end [] 5 [one_interface] ssdp_start"
  have "env_works quiet_env" by (simp add: env_works_def quiet_env_def)
  moreover have "\<forall>u \<in> set []. owned_by (\<lambda>a. 2) u" by simp
  moreover have "\<forall>inp \<in> set [one_interface]. tables_agree (\<lambda>a. 2) (i_ifaces inp)"
    by (simp add: tables_agree_def change_turn_def idle_turn_def eth0_def owned_by_def)
  ultimately have "if is_announcement_enabled ssdp_cfg
         then distinct (map sock_address (s_notify ?s))
              \<and> sock_address ` set (s_notify ?s) = {a. \<exists>i x. map_of (s_ifaces ?s) i = Some x \<and> a \<in> v4 x}
         else s_notify ?s = []"
    by (rule interfaces_followed [THEN conjunct2, THEN conjunct2]) (simp_all add: ssdp_start_def)
  moreover have "is_announcement_enabled ssdp_cfg" "s_ifaces ?s = [(2, eth0)]" by code_simp+
  ultimately show ?thesis by (simp add: eth0_v4)
qed

section \<open>Messages of the kernel\<close>

definition link_message :: "32 word \<Rightarrow> netlink_message" where
  "link_message flags = RTM_NEWLINK \<lparr>ifi_index = 2, ifi_flags = flags, ifi_change = 1\<rparr> []"

theorem links_followed_witness:
  "case process_netlink_messages [[link_message 0x41], [link_message 0x40, NLMSG_DONE, link_message 0x41], [link_message 0x41]]
      (init_notifier [[NLMSG_DONE]] [[link_message 0x41]]) of
     (n, changes) \<Rightarrow> link_changes 2 (map snd (filter (\<lambda>e. fst e = ''ssdp'') (notify_listeners [''ssdp''] changes))) = [DEL_LINK, NEW_LINK]
       \<and> 2 \<in> m_online_links n"
proof -
  let ?b = "[[link_message 0x41], [link_message 0x40, NLMSG_DONE, link_message 0x41], [link_message 0x41]]"
  obtain n changes where p: "process_netlink_messages ?b (init_notifier [[NLMSG_DONE]] [[link_message 0x41]]) = (n, changes)" by fastforce
  have t: "links_told 2 (concat (map read_part ?b)) = [True, False, True]"
    "links_told 2 (concat (map read_part ([[NLMSG_DONE]] @ [[link_message 0x41]]))) = [True]" by code_simp+
  have "2 \<in> m_online_links n"
    unfolding links_followed [OF p, of "[''ssdp'']" "''ssdp''" 2, THEN conjunct2, THEN conjunct1, simplified] by code_simp
  moreover have "link_changes 2 (map snd (filter (\<lambda>e. fst e = ''ssdp'') (notify_listeners [''ssdp''] changes))) = [DEL_LINK, NEW_LINK]"
    by (subst links_followed [OF p, of "[''ssdp'']" "''ssdp''" 2, THEN conjunct1]) (simp_all only: t, simp_all add: switches_def)
  ultimately show ?thesis by (simp add: p)
qed

end
