(* ===== verification/Spec2Isabelle.thy ===== *)
theory Spec2Isabelle
  imports Examples Example_Requests Example_Events Example_Ids Example_Tree Example_Ssdp
begin

text \<open>
  The Redfish service of PSME (\<^verbatim>\<open>src/PSME/application\<close>) with the parts of the common libraries it is
  built on: how a request gets from the connection to an answer, who may change what, what the
  service keeps of its sessions, accounts, roles and event subscriptions, how events are delivered, how the
  resources of the agents get into the service and leave it, and how clients find the service on the network.

  \<^bold>\<open>The program.\<close> A request arrives at the HTTP connector, which puts the client's address and
  credentials into its headers and hands it to the multiplexer. The multiplexer finds the endpoint whose
  path matches, has it check the credentials, and calls the handler of the method. The handler reads
  the body with the JSON deserializer, checks it with a procedure validator, calls the session and the account
  managers, and writes an answer with the JSON formatter; what it throws the connector turns into an error
  answer. Two timers run beside the requests: one ends idle sessions, one unlocks accounts. What happens in
  the system is announced as an event: it is put into a queue, and one thread takes the events out and
  posts each to the subscriptions of its type, putting one that could not be delivered back with a delay.
  Handlers, one for each kind of resource, read the resources of the agents into tables, at the start, when an
  agent tells of a change and in turns of a watcher; they remove what is gone with all that is below it.
  The resources get the numbers of their URIs from a policy, which remembers them in
  a directory of small files. A further thread announces the service on the networks it is on and answers
  searches (SSDP); a notifier that listens to the kernel tells it when an interface has changed.

  \<^bold>\<open>Theories.\<close>
  \<open>Prelude\<close> and \<open>Std_Map\<close>: results, actions on a state, decimal texts, and \<^verbatim>\<open>std::map\<close> as the sorted
  list of its entries; the locale of registries whose entries carry their own key and a unique id.
  \<open>Std_Regex\<close>: \<^verbatim>\<open>std::regex\<close> for the grammar of the routes.
  \<open>Error_Factory\<close>: \<^verbatim>\<open>rest/server/error\<close>, the codes and exceptions of the agent framework.
  \<open>Http_Message\<close>: requests, responses, path parameters, \<^verbatim>\<open>path_builder.cpp\<close>.
  \<open>Mux\<close>: \<^verbatim>\<open>rest/server/multiplexer.cpp\<close> and \<^verbatim>\<open>rest/server/mux\<close>.
  \<open>Json_Value\<close> and \<open>Json_Text\<close>: \<^verbatim>\<open>common/json-cxx\<close>, values, deserializer and compact formatter.
  \<open>Validators\<close>: \<^verbatim>\<open>agent-framework/src/validators\<close>, \<^verbatim>\<open>rest/validators\<close> and the schemas.
  \<open>Session_Manager\<close>: \<^verbatim>\<open>rest/session\<close>. \<open>Account\<close> and \<open>Account_Manager\<close>: \<^verbatim>\<open>rest/account\<close>.
  \<open>Rest_Endpoints\<close>: \<^verbatim>\<open>endpoint_base.cpp\<close>, the eight resources of the account and session services,
  and \<^verbatim>\<open>connector.cpp\<close>. \<open>Rest_Security\<close>: authentication, and what the connector answers.
  \<open>Rest_Service\<close>: the start of the service, its steps, and their invariant.
  \<open>Rest_Requests\<close>: the routes. \<open>Rest_Access\<close>: who can change the configuration.
  \<open>Rest_Scenarios\<close>: whole requests.
  \<open>Subscription_Manager\<close>: subscriptions, their manager and their file (\<^verbatim>\<open>rest/eventing/model\<close>, \<^verbatim>\<open>manager\<close>,
  \<^verbatim>\<open>config\<close>). \<open>Event_Queue\<close>: \<^verbatim>\<open>rest/eventing/event_queue.hpp\<close>, the queue and the thread that waits on it, as a step
  relation. \<open>Event_Service\<close>: \<^verbatim>\<open>event.cpp\<close> and \<^verbatim>\<open>event_service.cpp\<close>, delivery and retries.
  \<open>Event_Endpoints\<close> and \<open>Event_Requests\<close>: the four resources of the event service, their routes, and the steps
  of the whole service with them.
  \<open>Id_Database\<close> and \<open>Id_Policy\<close>: \<^verbatim>\<open>rest/model/handlers/database.cpp\<close>, \<^verbatim>\<open>file_database.cpp\<close>, \<^verbatim>\<open>id_memoizer.cpp\<close>
  and \<^verbatim>\<open>id_policy.hpp\<close>, the numbers resources are known by in URIs and the files that remember them.
  \<open>Resource_Manager\<close>: the kinds of resources, their tables and the tables of links (\<^verbatim>\<open>agent-framework\<close>,
  \<^verbatim>\<open>module/managers/generic_manager.hpp\<close>, \<^verbatim>\<open>many_to_many_manager.hpp\<close>). \<open>Resource_Ids\<close>: the policies of all kinds together.
  \<open>Handler_State\<close> and \<open>Generic_Handler\<close>: \<^verbatim>\<open>rest/model/handlers/generic_handler.hpp\<close> with the handlers derived from it,
  \<^verbatim>\<open>handler_manager.cpp\<close>, \<^verbatim>\<open>rest/model/watcher.cpp\<close>, \<^verbatim>\<open>json_agent.cpp\<close>, the URLs of \<^verbatim>\<open>rest/endpoints/utils.cpp\<close>.
  \<open>Resource_Tree\<close>, \<open>Resource_Removal\<close> and \<open>Health_Rollup\<close>: what holds of the tables, what a removal takes away,
  and the health that is reported for a tree (\<^verbatim>\<open>rest/utils/status_helpers.hpp\<close>).
  \<open>Net_Address\<close> and \<open>Net_Changes\<close>: \<^verbatim>\<open>common/net\<close>, addresses, masks, socket addresses and interfaces; the messages of
  the kernel and what the listeners hear of them.
  \<open>Ssdp_Packet\<close>, \<open>Ssdp_Uri\<close>, \<open>Ssdp_Notification\<close> and \<open>Ssdp_Queue\<close>: \<^verbatim>\<open>common/ssdp\<close>, packets with their parser,
  validators and factory, URIs, the notifications between the threads, the queue of messages.
  \<open>Ssdp_Service\<close>: \<^verbatim>\<open>ssdp_service_impl.cpp\<close> and \<^verbatim>\<open>Socket::select\<close>. \<open>Ssdp_Answers\<close> and \<open>Ssdp_Links\<close>: what it answers,
  and how it follows the network.
  \<open>Examples\<close> and the other theories whose names begin so: the theorems at work.

  \<^bold>\<open>Correspondence.\<close> A class with state is a record, and its methods are actions, functions from the state to
  a result and the new state; an exception is a left result, and the state it leaves is kept, as in the code.
  Behaviour the language leaves undefined is an exception of its own, \<open>Undefined\<close> or for SSDP \<open>Outside\<close>, which no
  handler of the code catches. The state of the service, \<open>rest_state\<close>, is the two managers and the two files they are saved
  to. One request, and one round of a timer, is one step of \<open>server_step\<close>: the managers lock
  each call, and interleavings inside a request are not modelled. The event queue is modelled finer: every
  critical section is a step of \<open>queue_step\<close>, and pushes and the clock come between any two of them.
  The state of the handlers, \<open>handler_state\<close>, is the tables, the links, the numbers and the notifications sent; what a
  watcher or an agent does is a step of \<open>tree_step\<close>. The handlers are one family, indexed by the kind of resource; the
  walk over all of them, where the code walks through an \<^verbatim>\<open>unordered_map\<close>, is taken in the order they are made in,
  and assertions of the code are not checked. Tasks know who waits for them by number. The thread of SSDP is \<open>ssdp_execute\<close>
  over a list of turns, each with what it finds outside.

  \<^bold>\<open>Parameters.\<close> What is not under \<^verbatim>\<open>src\<close> is an argument: \<open>fpu\<close> (floating point), \<open>jsoncpp\<close> (what JsonCpp
  says of a number), \<open>crypt_env\<close> (\<^verbatim>\<open>crypt\<close>, the time and the process id for salts), \<open>rest_env\<close>
  (those and the clocks and \<^verbatim>\<open>rand\<close>), \<open>network\<close> (whether a post to a destination succeeds, and
  the formatting of times), \<open>handler_env\<close> (what the agents answer at each call, the clocks, and which kinds have a table),
  \<open>ssdp_env\<close> (sending, sockets and groups, the texts of IPv6 addresses as \<open>inet6\<close>, the database of services) and
  \<open>loop_input\<close> (the time, what \<^verbatim>\<open>select\<close> says, datagrams, \<^verbatim>\<open>rand\<close>, the interfaces there are).
  Doubles are terms, so that the order of operations is kept.

  \<^bold>\<open>Interfaces.\<close> The locales: \<open>keyed_store\<close> and \<open>named_registry\<close> (maps whose entries carry their key and an id; the
  sessions, accounts, roles and subscriptions), \<open>timed_queue\<close> (the queue of events), \<open>numbering\<close> (what the handlers
  rely on of the identifiers), \<open>self_ending\<close> (encodings that know their end; the numbers in notifications),
  \<open>queue_law\<close> (what the service does with its queue of messages; used for the order of the queue and for
  messages that wait).

  \<^bold>\<open>Lemmas.\<close> In each component: the invariant of its state and its preservation by every operation; the
  result and the new state of every operation, on every branch; for the text formats and the paths the round
  trips; for the validators the equivalence with a declarative reading of the procedures. For
  the service: the invariant from the start on, the routing table, the soundness of
  authentication, and that nothing but an authorized request changes the configuration. For the events:
  the queue as an instance of the locale of timed queues, that it loses nothing, takes nothing out early and
  misses no wake-up; how many deliveries failing subscribers cause, and that they end; that the file always
  holds the subscriptions there are. For the identifiers: no two resources of a parent have the same number,
  whatever was fetched, purged, wiped and restarted; numbers survive a restart, unless a newcomer is reported
  among them. For the resources: their uuids are unique and their numbers lead to them in every reachable state; a removal
  takes exactly the subtree, the loss of an agent exactly what is its own, and both end; the reported health is the worst.
  For SSDP: whatever a datagram holds is parsed or refused inside the buffer; what is made is understood; a search is
  answered in time with the right address and nothing else changes anything; sockets and groups are those of
  the interfaces; and two ways in which the thread turns for ever without waiting.

  \<^bold>\<open>Bounds and termination.\<close> Most recursions are total: the deserializer recurses on a text that gets
  shorter. Partial functions, whose result \<open>None\<close> is the endless loop, are \<open>drop_predefined\<close>, the loop of
  \<open>saveRoles\<close>; \<open>free_id\<close>, the search for a free number, which ends
  while a number is free; the walks over the resources, which end when no resource is below itself; and the loops of the
  parser of SSDP, which end for every datagram that leaves a byte of the buffer free. No fuel is used.
  Times are 64-bit words, numbers of JSON
  64-bit words with the conversions of \<^verbatim>\<open>number.cpp\<close>; ports and addresses are words of their width; times of SSDP are integers.

  \<^bold>\<open>Not modelled.\<close> The other REST resources, the REST client of the events (\<^verbatim>\<open>libcurl\<close>) and the cache of the application;
  the agents and their hardware libraries; the libraries for binary tables and loggers; TLS, the HTTP library and the system
  calls; the programs PODM (Java) and RMM (C); simulators, test suites, scripts and vendored code.
\<close>

end
